(* ===== verification/Prelude.thy ===== *)
theory Prelude
  imports Main "HOL-Library.Word" "HOL-Library.Char_ord" "HOL-Library.List_Lexorder"
    "HOL-Library.Product_Lexorder" "HOL-Library.Multiset"
begin

unbundle bit_operations_syntax

text \<open>
  Shared vocabulary of the development: the machine integer types of the Rust sources, the
  result type (\<open>Inl\<close> is \<open>Err\<close>, \<open>Inr\<close> is \<open>Ok\<close>) with the \<open>?\<close> operator, the standard-library
  helpers the sources call (\<open>div_ceil\<close>, \<open>checked_add\<close>, \<open>slice::chunks\<close>, little- and big-endian
  byte conversions), and the lemmas on lists and words that several components use.
  \<open>usize\<close> values are natural numbers: every \<open>usize\<close> in the modelled code is a length or an index
  of a list that exists, so it cannot wrap.
\<close>

type_synonym u8 = "8 word"
type_synonym u32 = "32 word"
type_synonym u64 = "64 word"

text \<open>An \<open>i32\<close> is a 32-bit word read with \<open>sint\<close>.\<close>

type_synonym i32 = "32 word"
type_synonym bytes = "u8 list"
type_synonym PeerId = u64
type_synonym ChannelId = string
type_synonym MessageId = string

named_theorems rust_defs \<open>small wrappers around the standard library, unfolded freely\<close>

subsection \<open>Comparison\<close>

text \<open>\<open>std::cmp::Ordering\<close>, \<open>Ord::cmp\<close> of the built-in types and \<open>Ordering::then\<close>.\<close>

datatype Ordering = Less | Equal | Greater

definition ord_cmp :: "'a::linorder \<Rightarrow> 'a \<Rightarrow> Ordering" where
  "ord_cmp x y = (if x < y then Less else if x = y then Equal else Greater)"

fun cmp_then :: "Ordering \<Rightarrow> Ordering \<Rightarrow> Ordering" where
  "cmp_then Equal other = other"
| "cmp_then ord _ = ord"

lemma ord_cmp_iff: "ord_cmp x y = Less \<longleftrightarrow> x < y" "ord_cmp x y \<noteq> Greater \<longleftrightarrow> x \<le> y"
  by (auto simp: ord_cmp_def)

lemma cmp_then_lex: "cmp_then (ord_cmp a b) (ord_cmp c d) = ord_cmp (a, c) (b, d)"
  by (auto simp: ord_cmp_def)

lemma cmp_then_assoc: "cmp_then (cmp_then a b) c = cmp_then a (cmp_then b c)"
  by (cases a) simp_all

subsection \<open>Results\<close>

definition result_bind :: "'e + 'a \<Rightarrow> ('a \<Rightarrow> 'e + 'b) \<Rightarrow> 'e + 'b" where
  "result_bind r f = (case r of Inl e \<Rightarrow> Inl e | Inr a \<Rightarrow> f a)"

lemma result_bind_simps [simp]:
  "result_bind (Inl e) f = Inl e"
  "result_bind (Inr a) f = f a"
  by (simp_all add: result_bind_def)

lemma result_bind_Inr_iff:
  "result_bind r f = Inr b \<longleftrightarrow> (\<exists>a. r = Inr a \<and> f a = Inr b)"
  by (cases r) auto

definition map_err :: "('e \<Rightarrow> 'f) \<Rightarrow> 'e + 'a \<Rightarrow> 'f + 'a" where
  "map_err g r = (case r of Inl e \<Rightarrow> Inl (g e) | Inr a \<Rightarrow> Inr a)"

lemma map_err_simps [simp]:
  "map_err g (Inl e) = Inl (g e)"
  "map_err g (Inr a) = Inr a"
  by (simp_all add: map_err_def)

lemma map_err_Inr_iff [simp]: "map_err g r = Inr a \<longleftrightarrow> r = Inr a"
  by (cases r) auto

text \<open>
  Fallible code that also updates a state returns the state and the result; \<open>and_then\<close> is \<open>?\<close> for
  such code and \<open>try_each\<close> a \<open>for\<close> loop whose body may return early with an error.
\<close>

definition and_then :: "'st \<times> ('e + 'a) \<Rightarrow> ('a \<Rightarrow> 'st \<Rightarrow> 'st \<times> ('e + 'b)) \<Rightarrow> 'st \<times> ('e + 'b)" where
  "and_then sr k = (case sr of (st, Inl e) \<Rightarrow> (st, Inl e) | (st, Inr a) \<Rightarrow> k a st)"

lemma and_then_simps [simp]:
  "and_then (st, Inl e) k = (st, Inl e)"
  "and_then (st, Inr a) k = k a st"
  by (simp_all add: and_then_def)

fun try_each :: "('a \<Rightarrow> 'st \<Rightarrow> 'st \<times> ('e + unit)) \<Rightarrow> 'a list \<Rightarrow> 'st \<Rightarrow> 'st \<times> ('e + unit)" where
  "try_each f [] st = (st, Inr ())"
| "try_each f (x # xs) st = and_then (f x st) (\<lambda>_ st. try_each f xs st)"

text \<open>What every step keeps, the sequence and the loop keep.\<close>

lemma and_then_inv:
  assumes "P (fst sr)" "\<And>a st. snd sr = Inr a \<Longrightarrow> P st \<Longrightarrow> P (fst (k a st))"
  shows "P (fst (and_then sr k))"
  using assms by (cases sr; cases "snd sr") auto

lemma try_each_inv:
  assumes "\<And>x st. x \<in> set xs \<Longrightarrow> P st \<Longrightarrow> P (fst (f x st))" "P st"
  shows "P (fst (try_each f xs st))"
  using assms
proof (induction xs arbitrary: st)
  case (Cons x xs)
  have "P (fst (try_each f xs st'))" if "P st'" for st' using Cons.IH [OF _ that] Cons.prems(1) by simp
  moreover have "P (fst (f x st))" using Cons.prems by simp
  ultimately show ?case by (cases "f x st"; cases "snd (f x st)") simp_all
qed simp

subsection \<open>Integer helpers of the standard library\<close>

text \<open>\<open>Display\<close> of an unsigned integer.\<close>

fun nat_decimal :: "nat \<Rightarrow> string" where
  "nat_decimal n = (if n < 10 then [char_of (48 + n)] else nat_decimal (n div 10) @ [char_of (48 + n mod 10)])"

declare nat_decimal.simps [simp del]

definition div_ceil :: "nat \<Rightarrow> nat \<Rightarrow> nat" where
  "div_ceil a b = a div b + (if a mod b = 0 then 0 else 1)"

definition checked_add :: "'a::len word \<Rightarrow> 'a word \<Rightarrow> 'a word option" where
  "checked_add a b = (if unat a + unat b < 2 ^ LENGTH('a) then Some (a + b) else None)"

definition u32_try_from_i32 :: "i32 \<Rightarrow> u32 option" where
  "u32_try_from_i32 x = (if sint x < 0 then None else Some x)"

definition i32_try_from_nat :: "nat \<Rightarrow> i32 option" where
  "i32_try_from_nat n = (if n < 2 ^ 31 then Some (word_of_nat n) else None)"

text \<open>Executable forms: the bounds are compared as integers, not as unary naturals.\<close>

lemma checked_add_code [code]: "checked_add a b = (if a \<le> a + b then Some (a + b) else None)"
proof -
  have "a \<le> a + b \<longleftrightarrow> unat a + unat b < 2 ^ LENGTH('a)"
    using no_olen_add_nat [of a b] by (simp add: word_size)
  then show ?thesis by (simp add: checked_add_def)
qed

lemma i32_try_from_nat_code [code]:
  "i32_try_from_nat n = (if int n < 2147483648 then Some (word_of_int (int n)) else None)"
  by (simp add: i32_try_from_nat_def)

lemma div_ceil_le_iff: "0 < b \<Longrightarrow> div_ceil a b \<le> c \<longleftrightarrow> a \<le> c * b"
proof -
  assume b: "0 < b"
  show ?thesis
  proof (cases "a mod b = 0")
    case True
    then obtain q where "a = b * q" by auto
    then show ?thesis using b by (simp add: div_ceil_def mult.commute)
  next
    case False
    have "a div b + 1 \<le> c \<longleftrightarrow> a div b < c" by (simp add: Suc_le_eq)
    also have "\<dots> \<longleftrightarrow> a < c * b" using b by (simp add: div_less_iff_less_mult)
    also have "\<dots> \<longleftrightarrow> a \<le> c * b" using False by (metis le_neq_implies_less less_imp_le_nat mod_mult_self2_is_0)
    finally show ?thesis using False by (simp add: div_ceil_def)
  qed
qed

lemma div_ceil_mult_ge: "0 < b \<Longrightarrow> a \<le> div_ceil a b * b"
  using div_ceil_le_iff [of b a "div_ceil a b"] by simp

lemma div_ceil_pos [simp]: "0 < b \<Longrightarrow> 0 < a \<Longrightarrow> 0 < div_ceil a b"
  using div_ceil_le_iff [of b a 0] by auto

lemma less_div_ceil_iff: "0 < b \<Longrightarrow> i < div_ceil a b \<longleftrightarrow> i * b < a"
  using div_ceil_le_iff [of b a i] by auto

lemma div_ceil_less: "0 < b \<Longrightarrow> 0 < a \<Longrightarrow> (div_ceil a b - 1) * b < a"
  using less_div_ceil_iff [of b "div_ceil a b - 1" a] div_ceil_pos [of b a] by linarith

lemma unat_u32_bound: "unat (x :: u32) < 2 ^ 32"
  using unsigned_less [where ?'a = nat and w = x] by simp

subsection \<open>Slices: \<open>chunks\<close>\<close>

text \<open>\<open>slice::chunks(n)\<close> panics for \<open>n = 0\<close>; callers of the model guard against it.\<close>

function chunks :: "nat \<Rightarrow> 'a list \<Rightarrow> 'a list list" where
  "chunks n xs = (if n = 0 \<or> xs = [] then [] else take n xs # chunks n (drop n xs))"
  by pat_completeness auto
termination
  by (relation "measure (\<lambda>(n, xs). length xs)") auto

declare chunks.simps [simp del]

lemma chunks_Nil [simp]: "chunks n [] = []"
  by (simp add: chunks.simps)

lemma chunks_step: "0 < n \<Longrightarrow> xs \<noteq> [] \<Longrightarrow> chunks n xs = take n xs # chunks n (drop n xs)"
  by (simp add: chunks.simps [of n xs])

lemma concat_chunks: "0 < n \<Longrightarrow> concat (chunks n xs) = xs"
proof (induction n xs rule: chunks.induct)
  case (1 n xs)
  then show ?case by (cases "xs = []") (auto simp: chunks_step)
qed

lemma length_chunks: "0 < n \<Longrightarrow> length (chunks n xs) = div_ceil (length xs) n"
proof (induction n xs rule: chunks.induct)
  case (1 n xs)
  show ?case
  proof (cases "xs = []")
    case True
    then show ?thesis by (simp add: div_ceil_def)
  next
    case False
    with 1 have ih: "length (chunks n (drop n xs)) = div_ceil (length xs - n) n"
      by simp
    have "Suc (div_ceil (length xs - n) n) = div_ceil (length xs) n"
    proof (cases "length xs \<le> n")
      case True
      then show ?thesis using False "1.prems"
        by (cases "length xs = n") (auto simp: div_ceil_def)
    next
      case False
      then show ?thesis using "1.prems"
        by (simp add: div_ceil_def le_div_geq le_mod_geq)
    qed
    with ih show ?thesis using False "1.prems" by (simp add: chunks_step)
  qed
qed

lemma nth_chunks:
  "0 < n \<Longrightarrow> i < length (chunks n xs) \<Longrightarrow> chunks n xs ! i = take n (drop (i * n) xs)"
proof (induction n xs arbitrary: i rule: chunks.induct)
  case (1 n xs)
  then show ?case
    by (cases "xs = []"; cases i) (auto simp: chunks_step add.commute)
qed

lemma chunks_length_le: "0 < n \<Longrightarrow> c \<in> set (chunks n xs) \<Longrightarrow> length c \<le> n"
  by (auto simp: in_set_conv_nth nth_chunks)

lemma chunks_append:
  "0 < n \<Longrightarrow> length xs = n \<Longrightarrow> chunks n (xs @ ys) = xs # chunks n ys"
  by (subst chunks_step) auto

subsection \<open>Byte conversions\<close>

definition to_le_bytes64 :: "u64 \<Rightarrow> bytes" where
  "to_le_bytes64 w = map (\<lambda>i. ucast (drop_bit (8 * i) w)) [0..<8]"

definition from_le_bytes64 :: "bytes \<Rightarrow> u64" where
  "from_le_bytes64 bs = fold (\<lambda>i acc. acc OR push_bit (8 * i) (ucast (bs ! i))) [0..<8] 0"

definition to_be_bytes32 :: "u32 \<Rightarrow> bytes" where
  "to_be_bytes32 w = map (\<lambda>i. ucast (drop_bit (8 * (3 - i)) w)) [0..<4]"

definition from_be_bytes32 :: "bytes \<Rightarrow> u32" where
  "from_be_bytes32 bs = fold (\<lambda>i acc. acc OR push_bit (8 * (3 - i)) (ucast (bs ! i))) [0..<4] 0"

lemma length_to_le_bytes64 [simp]: "length (to_le_bytes64 w) = 8"
  by (simp add: to_le_bytes64_def)

lemma length_to_be_bytes32 [simp]: "length (to_be_bytes32 w) = 4"
  by (simp add: to_be_bytes32_def)

lemma bit_fold_or:
  fixes a :: "'a::len word"
  shows "bit (fold (\<lambda>i acc. acc OR f i) is a) n \<longleftrightarrow> bit a n \<or> (\<exists>i\<in>set is. bit (f i) n)"
  by (induction "is" arbitrary: a) (auto simp: bit_simps)

lemma bit_u8_bound: "bit (b :: u8) k \<Longrightarrow> k < 8"
  using bit_imp_le_length [of b k] by simp

lemma bit_push_ucast_u8:
  "bit (push_bit m (ucast (b :: u8)) :: 'a::len word) n \<longleftrightarrow>
     n < LENGTH('a) \<and> m \<le> n \<and> n - m < 8 \<and> bit b (n - m)"
  by (auto simp: bit_simps dest: bit_u8_bound)

lemma bit_from_le_bytes64:
  assumes "n < 64"
  shows "bit (from_le_bytes64 bs) n \<longleftrightarrow> bit (bs ! (n div 8)) (n mod 8)"
proof -
  have "bit (from_le_bytes64 bs) n \<longleftrightarrow>
    (\<exists>i\<in>{0..<8}. 8 * i \<le> n \<and> n - 8 * i < 8 \<and> bit (bs ! i) (n - 8 * i))"
    using assms by (simp add: from_le_bytes64_def bit_fold_or bit_push_ucast_u8)
  also have "\<dots> \<longleftrightarrow> bit (bs ! (n div 8)) (n mod 8)"
  proof -
    have "8 * i \<le> n \<and> n - 8 * i < 8 \<longleftrightarrow> i = n div 8" for i
      by (auto simp: div_nat_eqI)
    moreover have "n - 8 * (n div 8) = n mod 8" by (simp add: minus_mult_div_eq_mod)
    moreover have "n div 8 \<in> {0..<8}" using assms by auto
    ultimately show ?thesis by metis
  qed
  finally show ?thesis .
qed

lemma bit_from_be_bytes32:
  assumes "n < 32"
  shows "bit (from_be_bytes32 bs) n \<longleftrightarrow> bit (bs ! (3 - n div 8)) (n mod 8)"
proof -
  have "bit (from_be_bytes32 bs) n \<longleftrightarrow>
    (\<exists>i\<in>{0..<4}. 8 * (3 - i) \<le> n \<and> n - 8 * (3 - i) < 8 \<and> bit (bs ! i) (n - 8 * (3 - i)))"
    using assms by (simp add: from_be_bytes32_def bit_fold_or bit_push_ucast_u8)
  also have "\<dots> \<longleftrightarrow> bit (bs ! (3 - n div 8)) (n mod 8)"
  proof -
    have "i \<in> {0..<4} \<and> 8 * (3 - i) \<le> n \<and> n - 8 * (3 - i) < 8 \<longleftrightarrow> i = 3 - n div 8" for i
      using assms by auto
    moreover have "n - 8 * (3 - (3 - n div 8)) = n mod 8"
      using assms by (simp add: minus_mult_div_eq_mod)
    ultimately show ?thesis by metis
  qed
  finally show ?thesis .
qed

lemma from_to_le_bytes64 [simp]: "from_le_bytes64 (to_le_bytes64 w) = w"
proof (rule bit_word_eqI)
  fix n assume "n < LENGTH(64)"
  then have n: "n < 64" by simp
  then have "n div 8 < 8" by simp
  then show "bit (from_le_bytes64 (to_le_bytes64 w)) n = bit w n"
    using n by (simp add: bit_from_le_bytes64 to_le_bytes64_def bit_simps)
qed

lemma from_to_be_bytes32 [simp]: "from_be_bytes32 (to_be_bytes32 w) = w"
proof (rule bit_word_eqI)
  fix n assume "n < LENGTH(32)"
  then have n: "n < 32" by simp
  then have "[0..<4] ! (3 - n div 8) = 3 - n div 8" "3 - (3 - n div 8) = n div 8" by auto
  then show "bit (from_be_bytes32 (to_be_bytes32 w)) n = bit w n"
    using n by (simp add: bit_from_be_bytes32 to_be_bytes32_def bit_simps)
qed

lemma to_from_le_bytes64: "length bs = 8 \<Longrightarrow> to_le_bytes64 (from_le_bytes64 bs) = bs"
proof (rule nth_equalityI)
  fix i assume bs: "length bs = 8" and "i < length (to_le_bytes64 (from_le_bytes64 bs))"
  then have i: "i < 8" by simp
  show "to_le_bytes64 (from_le_bytes64 bs) ! i = bs ! i"
  proof (rule bit_word_eqI)
    fix n assume "n < LENGTH(8)"
    then have n: "n < 8" by simp
    then have "8 * i + n < 64" "(8 * i + n) div 8 = i" "(8 * i + n) mod 8 = n" using i by auto
    then show "bit (to_le_bytes64 (from_le_bytes64 bs) ! i) n = bit (bs ! i) n"
      using i n by (simp add: to_le_bytes64_def bit_simps bit_from_le_bytes64)
  qed
qed simp

subsection \<open>Signed integers\<close>

lemma sint_neg_iff_i32: "sint (x :: i32) < 0 \<longleftrightarrow> 2 ^ 31 \<le> unat x"
proof -
  have "sint x < 0 \<longleftrightarrow> odd (unat x div 2 ^ 31)"
  proof -
    have "bit x 31 \<longleftrightarrow> bit (unat x) 31" by (simp add: bit_unsigned_iff)
    also have "\<dots> \<longleftrightarrow> odd (unat x div 2 ^ 31)" by (rule bit_iff_odd)
    finally show ?thesis using bit_last_iff [of x] by simp
  qed
  also have "\<dots> \<longleftrightarrow> unat x div 2 ^ 31 = 1"
  proof -
    have "unat x div 2 ^ 31 < 2" using unat_u32_bound [of x] by (simp add: div_less_iff_less_mult)
    then show ?thesis by (auto simp: less_Suc_eq numeral_2_eq_2)
  qed
  also have "\<dots> \<longleftrightarrow> 2 ^ 31 \<le> unat x"
    using unat_u32_bound [of x] by (auto simp: div_nat_eqI)
  finally show ?thesis .
qed

lemma unat_nonneg_i32: "0 \<le> sint (x :: i32) \<longleftrightarrow> unat x < 2 ^ 31"
  using sint_neg_iff_i32 [of x] by linarith

subsection \<open>Lists\<close>

lemma length_concat_const:
  "(\<And>x. x \<in> set xs \<Longrightarrow> length (f x) = k) \<Longrightarrow> length (concat (map f xs)) = k * length xs"
  by (induction xs) auto

lemma nth_concat_const:
  "(\<And>x. length (f x) = k) \<Longrightarrow> j < k * length xs \<Longrightarrow>
   concat (map f xs) ! j = f (xs ! (j div k)) ! (j mod k)"
proof (induction xs arbitrary: j)
  case (Cons x xs)
  show ?case
  proof (cases "j < k")
    case True
    then show ?thesis using Cons.prems by (simp add: nth_append)
  next
    case False
    then have k: "0 < k" "k \<le> j" using Cons.prems by (auto intro: gr0I)
    then have "j - k < k * length xs" using Cons.prems(2) by auto
    with Cons have "concat (map f xs) ! (j - k) = f (xs ! ((j - k) div k)) ! ((j - k) mod k)"
      by simp
    moreover have "j div k = Suc ((j - k) div k)" "(j - k) mod k = j mod k"
      using k by (simp_all add: le_div_geq le_mod_geq)
    ultimately show ?thesis using False Cons.prems(1) by (simp add: nth_append)
  qed
qed simp

lemma length_fold_update [simp]:
  "length (fold (\<lambda>(i, c) out. out[i := f c]) ics out) = length out"
  by (induction ics arbitrary: out) auto

lemma fold_update_enumerate:
  "length cs + k \<le> length out \<Longrightarrow>
   fold (\<lambda>(i, c) out. out[i := f c]) (enumerate k cs) out =
     take k out @ map f cs @ drop (k + length cs) out"
proof (induction cs arbitrary: k out)
  case (Cons c cs)
  then have "fold (\<lambda>(i, c) out. out[i := f c]) (enumerate (Suc k) cs) (out[k := f c]) =
      take (Suc k) (out[k := f c]) @ map f cs @ drop (Suc k + length cs) (out[k := f c])"
    by simp
  moreover have "take (Suc k) (out[k := f c]) = take k out @ [f c]"
    using Cons.prems by (simp add: take_Suc_conv_app_nth)
  ultimately show ?case using Cons.prems by simp
qed simp

end
