(* ===== verification/Wire.thy ===== *)
theory Wire
  imports Prelude
begin

text \<open>
  \<open>wire.rs\<close>, \<open>selector.rs\<close> and \<open>chunk.rs\<close>: length-prefixed frames, the stream selector byte, and the
  layout of a chunk stream. The protobuf codec is generated code and is the parameter \<open>PbCodec\<close>;
  \<open>AsyncWrite::write_all\<close> is the parameter \<open>write_all\<close> on the writer's state. An \<open>AsyncRead\<close> is the bytes it will
  still yield and how it ends. Error messages are not modelled, error kinds are.
\<close>

subsection \<open>Input and output\<close>

datatype IoError = InvalidInput | InvalidData | UnexpectedEof | IoOther

record 'm PbCodec =
  pb_encode :: "'m \<Rightarrow> bytes"
  pb_decode :: "bytes \<Rightarrow> 'm option"

text \<open>What the code relies on of a generated codec: decoding inverts encoding.\<close>

definition codec_ok :: "'m PbCodec \<Rightarrow> bool" where
  "codec_ok C \<longleftrightarrow> (\<forall>m. pb_decode C (pb_encode C m) = Some m)"

lemma codec_okD: "codec_ok C \<Longrightarrow> pb_decode C (pb_encode C m) = Some m"
  by (simp add: codec_ok_def)

type_synonym 'w WriteAll = "'w \<Rightarrow> bytes \<Rightarrow> 'w \<times> (IoError + unit)"

text \<open>\<open>rd_end\<close> is \<open>None\<close> for a reader that ends cleanly, otherwise the error after the last byte.\<close>

record Reader =
  rd_data :: bytes
  rd_end :: "IoError option"

definition end_error :: "Reader \<Rightarrow> IoError" where
  "end_error r = (case rd_end r of None \<Rightarrow> UnexpectedEof | Some err \<Rightarrow> err)"

definition read_exact :: "nat \<Rightarrow> Reader \<Rightarrow> Reader \<times> (IoError + bytes)" where
  "read_exact n r =
     (if n \<le> length (rd_data r) then (r\<lparr>rd_data := drop n (rd_data r)\<rparr>, Inr (take n (rd_data r)))
      else (r\<lparr>rd_data := []\<rparr>, Inl (end_error r)))"

subsection \<open>Frames\<close>

definition MAX_FRAME_BYTES :: nat where
  "MAX_FRAME_BYTES = 1024 * 1024"

definition u32_try_from_usize :: "nat \<Rightarrow> u32 option" where
  "u32_try_from_usize n = (if n < 2 ^ 32 then Some (word_of_nat n) else None)"

definition write_framed :: "'w WriteAll \<Rightarrow> 'm PbCodec \<Rightarrow> 'w \<Rightarrow> 'm \<Rightarrow> 'w \<times> (IoError + unit)" where
  "write_framed write_all C w m =
     (let len = length (pb_encode C m) in
      if len > MAX_FRAME_BYTES then (w, Inl InvalidInput)
      else (case u32_try_from_usize len of
          None \<Rightarrow> (w, Inl InvalidInput)
        | Some len_u32 \<Rightarrow> write_all w (to_be_bytes32 len_u32 @ pb_encode C m)))"

definition read_framed :: "'m PbCodec \<Rightarrow> Reader \<Rightarrow> Reader \<times> (IoError + 'm)" where
  "read_framed C r =
     and_then (read_exact 4 r) (\<lambda>len_buf r.
       let len = unat (from_be_bytes32 len_buf) in
       if len > MAX_FRAME_BYTES then (r, Inl InvalidData)
       else and_then (read_exact len r) (\<lambda>buf r.
         (r, case pb_decode C buf of None \<Rightarrow> Inl InvalidData | Some m \<Rightarrow> Inr m)))"

subsection \<open>The selector byte\<close>

text \<open>The enum of \<open>protocol.proto\<close> with its discriminants.\<close>

datatype Protocol = ProtoUnspecified | ProtoBcast | ProtoSess | ProtoChunk

fun protocol_as_u8 :: "Protocol \<Rightarrow> u8" where
  "protocol_as_u8 ProtoUnspecified = 0"
| "protocol_as_u8 ProtoBcast = 1"
| "protocol_as_u8 ProtoSess = 2"
| "protocol_as_u8 ProtoChunk = 3"

definition protocol_try_from :: "u8 \<Rightarrow> Protocol option" where
  "protocol_try_from b = find (\<lambda>p. protocol_as_u8 p = b) [ProtoUnspecified, ProtoBcast, ProtoSess, ProtoChunk]"

definition open_stream :: "'w WriteAll \<Rightarrow> 'w \<Rightarrow> Protocol \<Rightarrow> 'w \<times> (IoError + unit)" where
  "open_stream write_all w protocol = write_all w [protocol_as_u8 protocol]"

definition read_selector :: "Reader \<Rightarrow> Reader \<times> (IoError + Protocol)" where
  "read_selector r =
     and_then (read_exact 1 r) (\<lambda>byte r.
       case protocol_try_from (byte ! 0) of
         None \<Rightarrow> (r, Inl InvalidData)
       | Some protocol \<Rightarrow> if protocol = ProtoUnspecified then (r, Inl InvalidData) else (r, Inr protocol))"

subsection \<open>Chunk streams\<close>

definition MAX_CHUNK_DATA_BYTES :: u32 where
  "MAX_CHUNK_DATA_BYTES = 1024 * 1024"

record Header =
  hd_channel :: ChannelId
  hd_message_id :: MessageId
  hd_chunk_id :: bytes
  hd_data_length :: u32

definition write_chunk ::
  "'w WriteAll \<Rightarrow> Header PbCodec \<Rightarrow> 'w \<Rightarrow> Header \<Rightarrow> bytes \<Rightarrow> 'w \<times> (IoError + unit)" where
  "write_chunk write_all C w header payload =
     (if hd_data_length header > MAX_CHUNK_DATA_BYTES then (w, Inl InvalidInput)
      else if length payload \<noteq> unat (hd_data_length header) then (w, Inl InvalidInput)
      else and_then (open_stream write_all w ProtoChunk) (\<lambda>_ w.
        and_then (write_framed write_all C w header) (\<lambda>_ w. write_all w payload)))"

record 'r ChunkPayloadReader =
  cp_reader :: 'r
  cp_remaining :: u64

definition read_chunk_stream ::
  "Header PbCodec \<Rightarrow> Reader \<Rightarrow> IoError + Header \<times> Reader ChunkPayloadReader" where
  "read_chunk_stream C r =
     (case read_framed C r of
        (_, Inl err) \<Rightarrow> Inl err
      | (r, Inr header) \<Rightarrow>
          if hd_data_length header > MAX_CHUNK_DATA_BYTES then Inl InvalidData
          else Inr (header, \<lparr>cp_reader = r, cp_remaining = ucast (hd_data_length header)\<rparr>))"

text \<open>
  \<open>poll_read\<close>: the inner reader is polled for at most \<open>want\<close> bytes and answers \<open>Pending\<close>, an error, or some
  bytes, none at its end. The result carries the bytes put into the caller's buffer.
\<close>

datatype Poll = PollPending | PollReady "IoError + bytes"

type_synonym 'r PollRead = "nat \<Rightarrow> 'r \<Rightarrow> 'r \<times> Poll"

definition ChunkPayloadReader_poll_read ::
  "'r PollRead \<Rightarrow> nat \<Rightarrow> 'r ChunkPayloadReader \<Rightarrow> 'r ChunkPayloadReader \<times> Poll" where
  "ChunkPayloadReader_poll_read inner buf_remaining self =
     (if cp_remaining self = 0 then (self, PollReady (Inr []))
      else (let want = min (unat (cp_remaining self)) buf_remaining in
        case inner want (cp_reader self) of
          (r, PollReady (Inr filled)) \<Rightarrow>
            (if filled = [] then (self\<lparr>cp_reader := r\<rparr>, PollReady (Inl UnexpectedEof))
             else (self\<lparr>cp_reader := r, cp_remaining := cp_remaining self - word_of_nat (length filled)\<rparr>,
                   PollReady (Inr filled)))
        | (r, other) \<Rightarrow> (self\<lparr>cp_reader := r\<rparr>, other)))"

text \<open>
  \<open>AsyncReadExt::read_to_end\<close> over it: poll into buffers of \<open>cap\<close> bytes, wait while pending, stop at an
  error or at an empty read. The network hands the bytes over in pieces: the inner reader
  follows a schedule, where 0 is a poll that is pending and \<open>k\<close> one that yields up to \<open>k\<close> bytes.
\<close>

type_synonym PacedReader = "Reader \<times> nat list"

fun paced_poll :: "PacedReader PollRead" where
  "paced_poll want (r, schedule) =
     (let n = (case schedule of [] \<Rightarrow> want | k # _ \<Rightarrow> min k want) in
      if schedule \<noteq> [] \<and> hd schedule = 0 then ((r, tl schedule), PollPending)
      else if rd_data r = [] \<and> want > 0
      then ((r, tl schedule), PollReady (case rd_end r of None \<Rightarrow> Inr [] | Some err \<Rightarrow> Inl err))
      else ((r\<lparr>rd_data := drop n (rd_data r)\<rparr>, tl schedule), PollReady (Inr (take n (rd_data r)))))"

declare paced_poll.simps [simp del]

function read_to_end :: "nat \<Rightarrow> PacedReader ChunkPayloadReader \<Rightarrow> bytes \<Rightarrow> IoError + bytes" where
  "read_to_end cap self out =
     (case ChunkPayloadReader_poll_read paced_poll (Suc cap) self of
        (self', PollPending) \<Rightarrow> read_to_end cap self' out
      | (self', PollReady (Inl err)) \<Rightarrow> Inl err
      | (self', PollReady (Inr filled)) \<Rightarrow>
          if filled = [] then Inr out else read_to_end cap self' (out @ filled))"
  by pat_completeness auto


text \<open>One poll of a paced reader that still expects bytes.\<close>

lemma paced_poll_cases:
  assumes "0 < want"
  obtains (pending) s where "schedule = 0 # s" "paced_poll want (r, schedule) = ((r, s), PollPending)"
  | (ended) "rd_data r = []" "paced_poll want (r, schedule) =
      ((r, tl schedule), PollReady (case rd_end r of None \<Rightarrow> Inr [] | Some err \<Rightarrow> Inl err))"
  | (data) n where "0 < n" "n \<le> want" "rd_data r \<noteq> []" "paced_poll want (r, schedule) =
      ((r\<lparr>rd_data := drop n (rd_data r)\<rparr>, tl schedule), PollReady (Inr (take n (rd_data r))))"
proof (cases "schedule \<noteq> [] \<and> hd schedule = 0")
  case True
  then show ?thesis using that(1) [of "tl schedule"] by (cases schedule) (auto simp: paced_poll.simps)
next
  case False
  define n where "n = (case schedule of [] \<Rightarrow> want | k # _ \<Rightarrow> min k want)"
  have "0 < n" "n \<le> want" using False assms by (auto simp: n_def split: list.splits)
  then show ?thesis using that(2) that(3) [of n] False assms
    by (cases "rd_data r = []") (auto simp: paced_poll.simps n_def Let_def)
qed

text \<open>
  One round of \<open>read_to_end\<close>: it ends with a result, or goes on with fewer bytes to read or a shorter
  schedule.
\<close>

definition payload_result :: "PacedReader ChunkPayloadReader \<Rightarrow> IoError + bytes" where
  "payload_result self =
     (let r = fst (cp_reader self); n = unat (cp_remaining self) in
      if n \<le> length (rd_data r) then Inr (take n (rd_data r)) else Inl (end_error r))"

lemma payload_poll_cases:
  obtains (complete) "cp_remaining self = 0"
      "ChunkPayloadReader_poll_read paced_poll (Suc cap) self = (self, PollReady (Inr []))"
  | (pending) r s where "cp_reader self = (r, 0 # s)"
      "ChunkPayloadReader_poll_read paced_poll (Suc cap) self = (self\<lparr>cp_reader := (r, s)\<rparr>, PollPending)"
  | (failed) self' where "cp_remaining self \<noteq> 0" "rd_data (fst (cp_reader self)) = []"
      "ChunkPayloadReader_poll_read paced_poll (Suc cap) self =
        (self', PollReady (Inl (end_error (fst (cp_reader self)))))"
  | (data) r s n m where "cp_reader self = (r, s)" "m = min n (length (rd_data r))" "0 < m"
      "n \<le> unat (cp_remaining self)"
      "ChunkPayloadReader_poll_read paced_poll (Suc cap) self =
        (self\<lparr>cp_reader := (r\<lparr>rd_data := drop n (rd_data r)\<rparr>, tl s),
           cp_remaining := cp_remaining self - word_of_nat m\<rparr>, PollReady (Inr (take n (rd_data r))))"
proof (cases "cp_remaining self = 0")
  case True
  then show ?thesis using that(1) by (simp add: ChunkPayloadReader_poll_read_def)
next
  case False
  obtain r s where rs: "cp_reader self = (r, s)" by (cases "cp_reader self")
  let ?want = "min (unat (cp_remaining self)) (Suc cap)"
  have "0 < ?want" using False by (simp add: unat_gt_0)
  then show ?thesis
  proof (cases rule: paced_poll_cases [where r = r and schedule = s])
    case (pending s')
    then show ?thesis using that(2) False rs by (simp add: ChunkPayloadReader_poll_read_def)
  next
    case ended
    then show ?thesis using that(3) False rs
      by (auto simp: ChunkPayloadReader_poll_read_def end_error_def split: option.splits)
  next
    case (data n)
    then have "ChunkPayloadReader_poll_read paced_poll (Suc cap) self =
        (self\<lparr>cp_reader := (r\<lparr>rd_data := drop n (rd_data r)\<rparr>, tl s),
           cp_remaining := cp_remaining self - word_of_nat (min n (length (rd_data r)))\<rparr>, PollReady (Inr (take n (rd_data r))))"
      using False rs by (simp add: ChunkPayloadReader_poll_read_def min.commute)
    from that(4) [OF rs refl _ _ this] show ?thesis using data by simp
  qed
qed

lemma unat_u64_bound: "unat (w :: u64) < 2 ^ 64"
  using unsigned_less [of w] by simp

lemma unat_ucast_u32_u64: "unat (ucast (w :: u32) :: u64) = unat w"
proof -
  have "unat w < 2 ^ 32" using unat_u32_bound [of w] by simp
  then show ?thesis by (simp add: unsigned_ucast_eq take_bit_nat_eq_self_iff)
qed

lemma unat_minus_of_nat: "m \<le> unat (w :: u64) \<Longrightarrow> unat (w - word_of_nat m) = unat w - m"
proof -
  assume m: "m \<le> unat w"
  have "unat w < 2 ^ 64" by (rule unat_u64_bound)
  then have u: "unat (word_of_nat m :: u64) = m" using m by (simp add: unat_of_nat)
  then have "(word_of_nat m :: u64) \<le> w" using m by (simp add: word_le_nat_alt)
  then show ?thesis using u by (simp add: unat_sub)
qed

termination read_to_end
proof (relation "measure (\<lambda>(_, self, _). unat (cp_remaining self) + length (snd (cp_reader self)))", goal_cases)
  case (2 cap self out)
  then show ?case by (cases rule: payload_poll_cases [of self cap]) auto
next
  case (3 cap self out)
  then show ?case
    by (cases rule: payload_poll_cases [of self cap]) (auto simp: unat_minus_of_nat min_def neq_Nil_conv)
qed simp

declare read_to_end.simps [simp del]

text \<open>
  The payload read does not depend on how the network fragments the stream nor on the buffer sizes:
  it is the next \<open>remaining\<close> bytes, or the error that ends the stream if there are fewer.
\<close>

lemma read_to_end_eq:
  "read_to_end cap self out =
     (case payload_result self of Inl err \<Rightarrow> Inl err | Inr payload \<Rightarrow> Inr (out @ payload))"
proof (induction cap self out rule: read_to_end.induct)
  case (1 cap self out)
  show ?case
  proof (cases rule: payload_poll_cases [of self cap])
    case complete
    then show ?thesis by (subst read_to_end.simps) (simp add: payload_result_def)
  next
    case (pending r s)
    have "read_to_end cap self out = read_to_end cap (self\<lparr>cp_reader := (r, s)\<rparr>) out"
      by (subst read_to_end.simps) (simp add: pending(2))
    also note 1(1) [OF pending(2) [symmetric] refl]
    finally show ?thesis by (simp add: payload_result_def pending(1))
  next
    case (failed self')
    then show ?thesis by (subst read_to_end.simps) (auto simp: payload_result_def unat_eq_zero)
  next
    case (data r s n m)
    let ?self = "self\<lparr>cp_reader := (r\<lparr>rd_data := drop n (rd_data r)\<rparr>, tl s), cp_remaining := cp_remaining self - word_of_nat m\<rparr>"
    have ne: "take n (rd_data r) \<noteq> []" using data by auto
    have "read_to_end cap self out = read_to_end cap ?self (out @ take n (rd_data r))"
      using ne by (subst read_to_end.simps) (simp add: data(5))
    also have "\<dots> = (case payload_result ?self of Inl err \<Rightarrow> Inl err | Inr p \<Rightarrow> Inr ((out @ take n (rd_data r)) @ p))"
      by (rule 1(2) [OF data(5) [symmetric] refl refl ne])
    also have "\<dots> = (case payload_result self of Inl err \<Rightarrow> Inl err | Inr p \<Rightarrow> Inr (out @ p))"
      using data by (auto simp: payload_result_def unat_minus_of_nat Let_def end_error_def take_add [symmetric] min_def)
    finally show ?thesis .
  qed
qed


subsection \<open>Frames on the wire\<close>

definition frame_bytes :: "bytes \<Rightarrow> bytes" where
  "frame_bytes body = to_be_bytes32 (word_of_nat (length body)) @ body"

lemma length_frame_bytes [simp]: "length (frame_bytes body) = 4 + length body"
  by (simp add: frame_bytes_def)

lemma write_framed_eq:
  "write_framed write_all C w m =
     (if length (pb_encode C m) \<le> MAX_FRAME_BYTES then write_all w (frame_bytes (pb_encode C m)) else (w, Inl InvalidInput))"
  by (simp add: write_framed_def frame_bytes_def u32_try_from_usize_def MAX_FRAME_BYTES_def)

text \<open>Executable forms: the limits are compared as integers, not as unary naturals.\<close>

lemma write_framed_code [code]:
  "write_framed write_all C w m =
     (let body = pb_encode C m in
      if int (length body) \<le> 1048576 then write_all w (frame_bytes body) else (w, Inl InvalidInput))"
proof -
  have "int (length body) \<le> 1048576 \<longleftrightarrow> length body \<le> MAX_FRAME_BYTES" for body :: bytes
    by (simp add: MAX_FRAME_BYTES_def)
  then show ?thesis by (simp add: write_framed_eq Let_def)
qed

lemma u32_try_from_usize_code [code]:
  "u32_try_from_usize n = (if int n < 4294967296 then Some (word_of_int (int n)) else None)"
  by (simp add: u32_try_from_usize_def)

lemma frame_prefix:
  assumes "length body \<le> MAX_FRAME_BYTES"
  shows "unat (word_of_nat (length body) :: u32) = length body"
  using assms by (simp add: MAX_FRAME_BYTES_def unat_of_nat)

lemma to_from_be_bytes32: "length bs = 4 \<Longrightarrow> to_be_bytes32 (from_be_bytes32 bs) = bs"
proof (rule nth_equalityI)
  fix i assume bs: "length bs = 4" and "i < length (to_be_bytes32 (from_be_bytes32 bs))"
  then have i: "i < 4" by simp
  show "to_be_bytes32 (from_be_bytes32 bs) ! i = bs ! i"
  proof (rule bit_word_eqI)
    fix n assume "n < LENGTH(8)"
    then have n: "n < 8" by simp
    let ?j = "8 * (3 - i) + n"
    have "?j < 32" "3 - ?j div 8 = i" "?j mod 8 = n" using i n by auto
    then show "bit (to_be_bytes32 (from_be_bytes32 bs) ! i) n = bit (bs ! i) n"
      using i n by (simp add: to_be_bytes32_def bit_simps bit_from_be_bytes32)
  qed
qed simp

text \<open>What a reader accepts as a frame: the length prefix, and a body that decodes.\<close>

lemma read_framed_frame:
  assumes "length body \<le> MAX_FRAME_BYTES" "rd_data r = frame_bytes body @ rest"
  shows "read_framed C r = (r\<lparr>rd_data := rest\<rparr>, case pb_decode C body of None \<Rightarrow> Inl InvalidData | Some m \<Rightarrow> Inr m)"
  using assms by (simp add: read_framed_def read_exact_def frame_bytes_def frame_prefix [OF assms(1)] Let_def)

lemma read_framed_Inr:
  assumes "read_framed C r = (r', Inr m)"
  obtains body where "length body \<le> MAX_FRAME_BYTES" "pb_decode C body = Some m"
    "rd_data r = frame_bytes body @ rd_data r'" "r' = r\<lparr>rd_data := rd_data r'\<rparr>"
proof -
  let ?n = "unat (from_be_bytes32 (take 4 (rd_data r)))"
  define body where "body = take ?n (drop 4 (rd_data r))"
  have l: "4 \<le> length (rd_data r)" "?n \<le> MAX_FRAME_BYTES" "?n \<le> length (drop 4 (rd_data r))"
    and b: "pb_decode C body = Some m" "r' = r\<lparr>rd_data := drop ?n (drop 4 (rd_data r))\<rparr>"
    using assms by (auto simp: read_framed_def read_exact_def body_def Let_def split: if_splits option.splits)
  have n: "length body = ?n" using l(3) by (simp add: body_def)
  have "to_be_bytes32 (word_of_nat ?n) = to_be_bytes32 (from_be_bytes32 (take 4 (rd_data r)))"
    by (intro arg_cong [of _ _ to_be_bytes32]) simp
  also have "\<dots> = take 4 (rd_data r)" using l(1) by (intro to_from_be_bytes32) simp
  finally have eq: "rd_data r = frame_bytes body @ drop ?n (drop 4 (rd_data r))"
    unfolding frame_bytes_def n by (simp only: body_def append_assoc append_take_drop_id)
  have r': "rd_data r' = drop ?n (drop 4 (rd_data r))" by (simp add: b(2))
  show ?thesis
  proof (rule that [OF _ b(1)])
    show "length body \<le> MAX_FRAME_BYTES" using l(2) n by simp
    show "rd_data r = frame_bytes body @ rd_data r'" unfolding r' by (rule eq)
    show "r' = r\<lparr>rd_data := rd_data r'\<rparr>" unfolding r' by (rule b(2))
  qed
qed

lemma read_framed_short:
  assumes "length body \<le> MAX_FRAME_BYTES" "rd_data r = take k (frame_bytes body)" "k < length (frame_bytes body)"
  shows "snd (read_framed C r) = Inl (end_error r)"
proof (cases "k < 4")
  case True
  then show ?thesis using assms by (simp add: read_framed_def read_exact_def)
next
  case False
  then have "rd_data r = to_be_bytes32 (word_of_nat (length body)) @ take (k - 4) body"
    using assms(2) by (simp add: frame_bytes_def)
  moreover have "k - 4 < length body" using assms(3) False by simp
  ultimately show ?thesis using assms(1)
    by (simp add: read_framed_def read_exact_def frame_prefix [OF assms(1)] end_error_def Let_def)
qed

subsection \<open>Writers\<close>

text \<open>The contract of \<open>write_all\<close>: on success the bytes are appended to what was written.\<close>

locale byte_writer =
  fixes write_all :: "'w WriteAll" and content :: "'w \<Rightarrow> bytes"
  assumes write_ok: "write_all w b = (w', Inr ()) \<Longrightarrow> content w' = content w @ b"
begin

lemma write_framed_content:
  assumes "write_framed write_all C w m = (w', Inr ())"
  shows "length (pb_encode C m) \<le> MAX_FRAME_BYTES" "content w' = content w @ frame_bytes (pb_encode C m)"
  using assms write_ok by (auto simp: write_framed_eq split: if_splits)

lemma open_stream_content:
  "open_stream write_all w p = (w', Inr ()) \<Longrightarrow> content w' = content w @ [protocol_as_u8 p]"
  by (simp add: open_stream_def write_ok)

lemma write_chunk_content:
  assumes "write_chunk write_all C w header payload = (w', Inr ())"
  shows "content w' = content w @ [3] @ frame_bytes (pb_encode C header) @ payload"
    and "hd_data_length header \<le> MAX_CHUNK_DATA_BYTES" "length payload = unat (hd_data_length header)"
    and "length (pb_encode C header) \<le> MAX_FRAME_BYTES"
proof -
  obtain w1 w2 where w1: "open_stream write_all w ProtoChunk = (w1, Inr ())"
    and w2: "write_framed write_all C w1 header = (w2, Inr ())" and w3: "write_all w2 payload = (w', Inr ())"
    using assms by (auto simp: write_chunk_def and_then_def split: if_splits prod.splits sum.splits)
  from open_stream_content [OF w1] write_framed_content [OF w2] write_ok [OF w3]
  show "content w' = content w @ [3] @ frame_bytes (pb_encode C header) @ payload"
    and "length (pb_encode C header) \<le> MAX_FRAME_BYTES" by simp_all
  show "hd_data_length header \<le> MAX_CHUNK_DATA_BYTES" "length payload = unat (hd_data_length header)"
    using assms by (auto simp: write_chunk_def split: if_splits)
qed

end

text \<open>Writing to a \<open>Vec<u8>\<close>.\<close>

definition vec_write_all :: "bytes WriteAll" where
  "vec_write_all w b = (w @ b, Inr ())"

interpretation vec_writer: byte_writer vec_write_all id
  by unfold_locales (auto simp: vec_write_all_def)

subsection \<open>The selector\<close>

lemma protocol_try_from_eq: "protocol_try_from b = Some p \<longleftrightarrow> protocol_as_u8 p = b"
  by (cases p) (auto simp: protocol_try_from_def)

lemma read_selector_byte:
  assumes "rd_data r = protocol_as_u8 p # rest"
  shows "read_selector r = (r\<lparr>rd_data := rest\<rparr>, if p = ProtoUnspecified then Inl InvalidData else Inr p)"
proof -
  have "protocol_try_from (protocol_as_u8 p) = Some p" by (simp add: protocol_try_from_eq)
  then show ?thesis using assms by (simp add: read_selector_def read_exact_def)
qed


subsection \<open>Properties\<close>

text \<open>
  C26. Frames. Writing a message whose encoding fits the limit appends its frame, and reading that frame
  gives the message back and leaves exactly what follows it; a message over the limit is refused
  and nothing is written.
\<close>

theorem frame_roundtrip:
  assumes "codec_ok C"
  shows "if length (pb_encode C m) \<le> MAX_FRAME_BYTES
    then write_framed vec_write_all C w m = (w @ frame_bytes (pb_encode C m), Inr ()) \<and>
      read_framed C \<lparr>rd_data = frame_bytes (pb_encode C m) @ rest, rd_end = e\<rparr> = (\<lparr>rd_data = rest, rd_end = e\<rparr>, Inr m)
    else write_framed vec_write_all C w m = (w, Inl InvalidInput)"
  using read_framed_frame [of "pb_encode C m" "\<lparr>rd_data = frame_bytes (pb_encode C m) @ rest, rd_end = e\<rparr>" rest C]
  by (simp add: write_framed_eq vec_write_all_def codec_okD [OF assms])

definition raw_codec :: "bytes PbCodec" where
  "raw_codec = \<lparr>pb_encode = id, pb_decode = Some\<rparr>"

theorem frame_roundtrip_witness:
  "write_framed vec_write_all raw_codec [9] [0x0a, 1, 0xab] = ([9, 0, 0, 0, 3, 0x0a, 1, 0xab], Inr ()) \<and>
   read_framed raw_codec \<lparr>rd_data = [0, 0, 0, 3, 0x0a, 1, 0xab, 5], rd_end = None\<rparr> =
     (\<lparr>rd_data = [5], rd_end = None\<rparr>, Inr [0x0a, 1, 0xab])"
proof -
  have fb: "frame_bytes [0x0a, 1, 0xab] = [0, 0, 0, 3, 0x0a, 1, 0xab]" by code_simp
  have "codec_ok raw_codec" by (simp add: codec_ok_def raw_codec_def)
  from frame_roundtrip [OF this, of "[0x0a, 1, 0xab]" "[9]" "[5]" None] fb
  show ?thesis by (simp add: raw_codec_def MAX_FRAME_BYTES_def)
qed

text \<open>
  What a reader accepts: \<open>read_framed\<close> returns a message exactly if the input starts with a frame within
  the limit whose body decodes to it, and it consumes exactly that frame.
\<close>

theorem read_framed_exact:
  "read_framed C r = (r', Inr m) \<longleftrightarrow>
     (\<exists>body. length body \<le> MAX_FRAME_BYTES \<and> pb_decode C body = Some m \<and>
       rd_data r = frame_bytes body @ rd_data r' \<and> r' = r\<lparr>rd_data := rd_data r'\<rparr>)"
proof
  assume "read_framed C r = (r', Inr m)"
  from read_framed_Inr [OF this] show "\<exists>body. length body \<le> MAX_FRAME_BYTES \<and> pb_decode C body = Some m \<and>
       rd_data r = frame_bytes body @ rd_data r' \<and> r' = r\<lparr>rd_data := rd_data r'\<rparr>" by metis
next
  assume "\<exists>body. length body \<le> MAX_FRAME_BYTES \<and> pb_decode C body = Some m \<and>
       rd_data r = frame_bytes body @ rd_data r' \<and> r' = r\<lparr>rd_data := rd_data r'\<rparr>"
  then obtain body where b: "length body \<le> MAX_FRAME_BYTES" "pb_decode C body = Some m"
    "rd_data r = frame_bytes body @ rd_data r'" and r': "r' = r\<lparr>rd_data := rd_data r'\<rparr>" by blast
  show "read_framed C r = (r', Inr m)" using read_framed_frame [OF b(1,3), of C] b(2) r' by simp
qed

text \<open>
  C27. Chunk payloads do not depend on how the network fragments them. However the inner reader is paced
  (pending polls, partial reads) and whatever the buffer size, reading a \<open>ChunkPayloadReader\<close> to its end
  yields exactly the declared number of bytes, and fails if the stream ends before.
\<close>

theorem chunk_payload_exact:
  "read_to_end cap \<lparr>cp_reader = (r, pace), cp_remaining = n\<rparr> [] =
     (if unat n \<le> length (rd_data r) then Inr (take (unat n) (rd_data r))
      else Inl (case rd_end r of None \<Rightarrow> UnexpectedEof | Some err \<Rightarrow> err))"
  by (simp add: read_to_end_eq payload_result_def end_error_def)

end
