(* ===== verification/Runtime.thy ===== *)
theory Runtime
  imports Prelude
begin

text \<open>
  \<open>runtime/mod.rs\<close>: the messages an engine sends and the events it receives, and the network
  interface. \<open>Net::send\<close> is a function on the network's state; instants and durations are natural
  numbers of nanoseconds.
\<close>

datatype NetSend =
    SendHandshake PeerId u32 "ChannelId list" string
  | SendSubscribe PeerId ChannelId
  | SendUnsubscribe PeerId ChannelId
  | SendSessionOpen PeerId ChannelId MessageId bytes bytes
  | SendRoutingUpdate PeerId ChannelId MessageId bytes
  | SendChunk PeerId ChannelId MessageId u32 bytes u64
  | SendSessionReconstructed ChannelId MessageId

datatype NetEvent =
    EvHandshake PeerId u32 "ChannelId list" string
  | EvSubscribe PeerId ChannelId
  | EvUnsubscribe PeerId ChannelId
  | EvSessionOpen PeerId ChannelId MessageId bytes bytes
  | EvRoutingUpdate PeerId ChannelId MessageId bytes
  | EvChunk PeerId ChannelId MessageId u32 bytes
  | EvPeerDisconnected PeerId
  | EvPeerConnected PeerId
  | EvChunkSendResult PeerId ChannelId MessageId u64 bool
  | EvPeerReconstructed PeerId ChannelId MessageId
  | EvSessionClosed PeerId ChannelId MessageId

datatype NetError =
    PeerNotFound PeerId
  | NetClosed
  | Backpressure PeerId

type_synonym 'n NetOp = "'n \<Rightarrow> NetSend \<Rightarrow> 'n \<times> (NetError + unit)"

type_synonym Instant = nat
type_synonym Duration = nat

definition from_secs :: "nat \<Rightarrow> Duration" where
  "from_secs s = s * 1000000000"

text \<open>\<open>Instant::saturating_duration_since\<close>.\<close>

definition saturating_duration_since :: "Instant \<Rightarrow> Instant \<Rightarrow> Duration" where
  "saturating_duration_since later earlier = later - earlier"

text \<open>\<open>dst\<close> of \<open>MemoryNetEndpoint::send\<close>: the addressee of a message, if it has one.\<close>

fun send_dst :: "NetSend \<Rightarrow> PeerId option" where
  "send_dst (SendHandshake p _ _ _) = Some p"
| "send_dst (SendSubscribe p _) = Some p"
| "send_dst (SendUnsubscribe p _) = Some p"
| "send_dst (SendSessionOpen p _ _ _ _) = Some p"
| "send_dst (SendRoutingUpdate p _ _ _) = Some p"
| "send_dst (SendChunk p _ _ _ _ _) = Some p"
| "send_dst (SendSessionReconstructed _ _) = None"

end
