(* ===== verification/BTree.thy ===== *)
theory BTree
  imports Prelude
begin

text \<open>
  Ordered maps and sets: the model of \<open>std::collections::BTreeMap\<close> and \<open>BTreeSet\<close>. A map is its
  ascending list of entries, so iteration order (which feeds the order of sends in the engine and
  the strategy) is part of the value. The operations are lifted to a subtype whose invariant is
  the strict order of the keys; all laws are therefore unconditional. A set is a map to unit,
  as in the standard library.
\<close>

subsection \<open>Operations on ascending entry lists\<close>

fun ins_entry :: "'k::linorder \<Rightarrow> 'v \<Rightarrow> ('k \<times> 'v) list \<Rightarrow> ('k \<times> 'v) list" where
  "ins_entry k v [] = [(k, v)]"
| "ins_entry k v ((k', v') # xs) =
     (if k < k' then (k, v) # (k', v') # xs
      else if k = k' then (k, v) # xs
      else (k', v') # ins_entry k v xs)"

lemma map_of_ins_entry: "map_of (ins_entry k v xs) = (map_of xs)(k \<mapsto> v)"
  by (induction k v xs rule: ins_entry.induct) (auto simp: fun_upd_twist)

lemma set_keys_ins_entry: "fst ` set (ins_entry k v xs) = insert k (fst ` set xs)"
  by (induction k v xs rule: ins_entry.induct) auto

lemma sorted_ins_entry:
  "sorted_wrt (<) (map fst xs) \<Longrightarrow> sorted_wrt (<) (map fst (ins_entry k v xs))"
proof (induction k v xs rule: ins_entry.induct)
  case (2 k v k' v' xs)
  have "fst ` set (ins_entry k v xs) = insert k (fst ` set xs)"
    by (rule set_keys_ins_entry)
  with 2 show ?case by (auto simp: image_iff)
qed simp

lemma sorted_map_fst_filter:
  "sorted_wrt (<) (map fst xs) \<Longrightarrow> sorted_wrt (<) (map fst (filter P xs))"
  by (induction xs) auto

lemma map_of_filter_distinct:
  fixes ys :: "('k \<times> 'v) list"
  assumes "distinct (map fst ys)"
  shows "map_of (filter (\<lambda>(key, val). Q key val) ys) key =
    Option.bind (map_of ys key) (\<lambda>val. if Q key val then Some val else None)"
  using assms
proof (induction ys)
  case (Cons y ys)
  have "map_of (filter (\<lambda>(key, val). Q key val) ys) key = None" if "key \<notin> fst ` set ys"
    using that by (auto simp: map_of_eq_None_iff)
  with Cons show ?case
    by (cases y) (auto simp: map_of_eq_None_iff image_iff bind_eq_None_conv split: option.splits bind_splits)
qed simp

lemma sorted_wrt_less_unique:
  fixes xs ys :: "'a::linorder list"
  assumes "sorted_wrt (<) xs" "sorted_wrt (<) ys" "set xs = set ys"
  shows "xs = ys"
  using assms by (simp add: strict_sorted_equal)

lemma sorted_wrt_less_distinct:
  fixes xs :: "'a::linorder list"
  shows "sorted_wrt (<) xs \<Longrightarrow> distinct xs"
  by (simp add: strict_sorted_iff)

subsection \<open>The map type\<close>

typedef (overloaded) ('k::linorder, 'v) btree_map =
  "{xs :: ('k \<times> 'v) list. sorted_wrt (<) (map fst xs)}"
  morphisms entries BTreeMap
  by (rule exI [of _ "[]"]) simp

setup_lifting type_definition_btree_map

lift_definition bt_empty :: "('k::linorder, 'v) btree_map" is "[]"
  by simp

lift_definition bt_get :: "('k::linorder, 'v) btree_map \<Rightarrow> 'k \<Rightarrow> 'v option" is map_of .

lift_definition bt_insert :: "'k::linorder \<Rightarrow> 'v \<Rightarrow> ('k, 'v) btree_map \<Rightarrow> ('k, 'v) btree_map"
  is ins_entry
  by (rule sorted_ins_entry)

lift_definition bt_retain ::
  "('k::linorder \<Rightarrow> 'v \<Rightarrow> bool) \<Rightarrow> ('k, 'v) btree_map \<Rightarrow> ('k, 'v) btree_map"
  is "\<lambda>P. filter (\<lambda>(k, v). P k v)"
  by (rule sorted_map_fst_filter)

lift_definition bt_map ::
  "('k::linorder \<Rightarrow> 'v \<Rightarrow> 'w) \<Rightarrow> ('k, 'v) btree_map \<Rightarrow> ('k, 'w) btree_map"
  is "\<lambda>f. map (\<lambda>(k, v). (k, f k v))"
  by (simp add: comp_def case_prod_beta)

definition bt_remove :: "'k::linorder \<Rightarrow> ('k, 'v) btree_map \<Rightarrow> ('k, 'v) btree_map" where
  "bt_remove k = bt_retain (\<lambda>k' _. k' \<noteq> k)"

definition bt_keys :: "('k::linorder, 'v) btree_map \<Rightarrow> 'k list" where
  "bt_keys m = map fst (entries m)"

definition bt_contains :: "'k::linorder \<Rightarrow> ('k, 'v) btree_map \<Rightarrow> bool" where
  "bt_contains k m \<longleftrightarrow> bt_get m k \<noteq> None"

definition bt_get_or :: "'v \<Rightarrow> ('k::linorder, 'v) btree_map \<Rightarrow> 'k \<Rightarrow> 'v" where
  "bt_get_or d m k = (case bt_get m k of None \<Rightarrow> d | Some v \<Rightarrow> v)"

text \<open>\<open>m.entry(k).or_insert(d)\<close> followed by an in-place update.\<close>

definition bt_entry :: "'v \<Rightarrow> 'k::linorder \<Rightarrow> ('v \<Rightarrow> 'v) \<Rightarrow> ('k, 'v) btree_map \<Rightarrow> ('k, 'v) btree_map" where
  "bt_entry d k f m = bt_insert k (f (bt_get_or d m k)) m"

subsection \<open>Laws\<close>

lemma bt_get_entries: "bt_get m k = map_of (entries m) k"
  by transfer simp

lemma sorted_bt_keys [simp]: "sorted_wrt (<) (bt_keys m)"
  unfolding bt_keys_def by transfer

lemma distinct_bt_keys [simp]: "distinct (bt_keys m)"
  using sorted_bt_keys strict_sorted_iff by blast

lemma distinct_fst_entries: "distinct (map fst (entries m))"
  using distinct_bt_keys [of m] by (simp add: bt_keys_def)

lemma set_bt_keys: "set (bt_keys m) = {k. bt_get m k \<noteq> None}"
  by (auto simp: bt_keys_def bt_get_entries map_of_eq_None_iff)

lemma in_set_bt_keys [simp]: "k \<in> set (bt_keys m) \<longleftrightarrow> bt_get m k \<noteq> None"
  by (simp add: set_bt_keys)

lemma in_set_entries: "(k, v) \<in> set (entries m) \<longleftrightarrow> bt_get m k = Some v"
  using distinct_fst_entries [of m] by (simp add: bt_get_entries)

lemma in_keys_filter_entries:
  "k \<in> set (map fst (filter (\<lambda>(k, v). P k v) (entries m))) \<longleftrightarrow> (\<exists>v. bt_get m k = Some v \<and> P k v)"
proof -
  have "k \<in> set (map fst (filter (\<lambda>(k, v). P k v) (entries m))) \<longleftrightarrow> (\<exists>v. (k, v) \<in> set (entries m) \<and> P k v)"
    by (auto simp: image_iff)
  then show ?thesis by (simp add: in_set_entries)
qed

lemma bt_get_empty [simp]: "bt_get bt_empty k = None"
  by transfer simp

lemma bt_get_insert [simp]: "bt_get (bt_insert k v m) k' = (if k' = k then Some v else bt_get m k')"
  by transfer (simp add: map_of_ins_entry)

lemma bt_get_retain [simp]:
  "bt_get (bt_retain P m) k = (case bt_get m k of None \<Rightarrow> None | Some v \<Rightarrow> if P k v then Some v else None)"
  by (simp add: bt_get_entries bt_retain.rep_eq map_of_filter_distinct [OF distinct_fst_entries]
      split: option.split)

lemma bt_get_retain_Some: "bt_get (bt_retain P m) k = Some v \<longleftrightarrow> bt_get m k = Some v \<and> P k v"
  by (auto split: option.splits if_splits)

lemma bt_get_remove [simp]: "bt_get (bt_remove k m) k' = (if k' = k then None else bt_get m k')"
  by (simp add: bt_remove_def split: option.splits)

lemma bt_get_map [simp]: "bt_get (bt_map f m) k = map_option (f k) (bt_get m k)"
proof transfer
  fix f :: "'k \<Rightarrow> 'v \<Rightarrow> 'w" and m :: "('k \<times> 'v) list" and k
  show "map_of (map (\<lambda>(k, v). (k, f k v)) m) k = map_option (f k) (map_of m k)"
    by (induction m) auto
qed

lemma bt_get_entry [simp]:
  "bt_get (bt_entry d k f m) k' = (if k' = k then Some (f (bt_get_or d m k)) else bt_get m k')"
  by (simp add: bt_entry_def)

lemma bt_contains_iff [simp]: "bt_contains k m \<longleftrightarrow> bt_get m k \<noteq> None"
  by (simp add: bt_contains_def)

lemma bt_get_or_insert [simp]:
  "bt_get_or d (bt_insert k v m) k' = (if k' = k then v else bt_get_or d m k')"
  "bt_get_or d (bt_remove k m) k' = (if k' = k then d else bt_get_or d m k')"
  "bt_get_or d bt_empty k' = d"
  "bt_get_or d (bt_entry e k f m) k' = (if k' = k then f (bt_get_or e m k) else bt_get_or d m k')"
  by (simp_all add: bt_get_or_def)

lemma finite_bt_dom [simp]: "finite {k. bt_get m k \<noteq> None}"
  using set_bt_keys [of m, symmetric] by simp

lemma entries_conv_keys: "entries m = map (\<lambda>k. (k, the (bt_get m k))) (bt_keys m)"
proof -
  have "map (\<lambda>(k, v). (k, the (bt_get m k))) (entries m) = entries m"
    by (rule map_idI) (auto simp: in_set_entries)
  then show ?thesis by (simp add: bt_keys_def comp_def case_prod_unfold)
qed

text \<open>Two maps with the same lookups are equal: the entry list is canonical.\<close>

lemma bt_eqI:
  assumes "\<And>k. bt_get m k = bt_get m' k"
  shows "m = m'"
proof -
  have "bt_keys m = bt_keys m'"
    by (rule sorted_wrt_less_unique) (auto simp: assms)
  moreover have "the \<circ> bt_get m = the \<circ> bt_get m'"
    using assms by auto
  ultimately have "entries m = entries m'"
    using entries_conv_keys [of m] entries_conv_keys [of m'] by (simp add: comp_def fun_eq_iff)
  then show ?thesis by (simp add: entries_inject)
qed

lemma bt_keys_simps [simp]:
  "bt_keys bt_empty = []"
  "bt_keys (bt_map f m) = bt_keys m"
  by (simp_all add: bt_keys_def bt_empty.rep_eq bt_map.rep_eq comp_def case_prod_beta)

text \<open>Rules that evaluate maps built by the operations.\<close>

lemmas bt_eval = bt_keys_def bt_insert.rep_eq bt_retain.rep_eq bt_map.rep_eq bt_empty.rep_eq
  bt_remove_def

subsection \<open>Sets\<close>

type_synonym 'k btree_set = "('k, unit) btree_map"

definition bs_insert :: "'k::linorder \<Rightarrow> 'k btree_set \<Rightarrow> 'k btree_set" where
  "bs_insert k = bt_insert k ()"

definition bs_elems :: "'k::linorder btree_set \<Rightarrow> 'k set" where
  "bs_elems s = {k. bt_get s k \<noteq> None}"

lemma bs_elems_simps [simp]:
  "bs_elems bt_empty = {}"
  "bs_elems (bs_insert k s) = insert k (bs_elems s)"
  "bs_elems (bt_remove k s) = bs_elems s - {k}"
  by (auto simp: bs_elems_def bs_insert_def)

lemma finite_bs_elems [simp]: "finite (bs_elems s)"
  unfolding bs_elems_def by (rule finite_bt_dom)

lemma bt_contains_bs_elems: "bt_contains k s \<longleftrightarrow> k \<in> bs_elems s"
  by (simp add: bs_elems_def)

lemma set_bt_keys_bs_elems: "set (bt_keys s) = bs_elems s"
  by (auto simp: bs_elems_def)

lemma bs_eqI: "bs_elems s = bs_elems t \<Longrightarrow> s = t"
proof (rule bt_eqI)
  fix k assume "bs_elems s = bs_elems t"
  then have "k \<in> bs_elems s \<longleftrightarrow> k \<in> bs_elems t" by simp
  then have "(bt_get s k = None) = (bt_get t k = None)" unfolding bs_elems_def by blast
  then show "bt_get s k = bt_get t k" by (cases "bt_get s k"; cases "bt_get t k") auto
qed

lemma bs_insert_absorb: "k \<in> bs_elems s \<Longrightarrow> bs_insert k s = s"
  by (rule bs_eqI) auto

lemma bs_remove_absorb: "k \<notin> bs_elems s \<Longrightarrow> bt_remove k s = s"
  by (rule bs_eqI) auto

end
