(* ===== verification/Transport.thy ===== *)
theory Transport
  imports Wire Runtime BTree
begin

text \<open>
  \<open>ethp2p-transport/src/lib.rs\<close>: the QUIC transport. QUIC streams come from the \<open>quinn\<close> crate and are the
  parameter \<open>Quinn\<close>, operations on a connection state; the protobuf codecs are the parameter \<open>Codecs\<close>. The tasks
  are sequential functions of what they read: an inbound stream is a \<open>Reader\<close>, and the choices the scheduler
  makes (how payload bytes are fragmented, which branch of a \<open>select!\<close> is taken, what the
  reset state says at that moment) are arguments.
\<close>

subsection \<open>Reconstructed sessions\<close>

type_synonym StreamKey = "ChannelId \<times> MessageId"

definition MAX_RECONSTRUCTED_TRACKED :: nat where
  "MAX_RECONSTRUCTED_TRACKED = 8192"

record ReconstructedTracker =
  rt_set :: "StreamKey btree_set"
  rt_order :: "StreamKey list"

definition ReconstructedTracker_default :: ReconstructedTracker where
  "ReconstructedTracker_default = \<lparr>rt_set = bt_empty, rt_order = []\<rparr>"

function evict_oldest :: "ReconstructedTracker \<Rightarrow> ReconstructedTracker" where
  "evict_oldest t =
     (if length (rt_order t) > MAX_RECONSTRUCTED_TRACKED
      then evict_oldest (t\<lparr>rt_order := tl (rt_order t), rt_set := bt_remove (hd (rt_order t)) (rt_set t)\<rparr>)
      else t)"
  by pat_completeness auto
termination by (relation "measure (\<lambda>t. length (rt_order t))") (auto simp: MAX_RECONSTRUCTED_TRACKED_def)

declare evict_oldest.simps [simp del]

definition ResetState_record :: "ReconstructedTracker \<Rightarrow> StreamKey \<Rightarrow> ReconstructedTracker" where
  "ResetState_record t key =
     (if bt_contains key (rt_set t) then t
      else evict_oldest (t\<lparr>rt_set := bs_insert key (rt_set t), rt_order := rt_order t @ [key]\<rparr>))"

definition ResetState_is_reconstructed :: "ReconstructedTracker \<Rightarrow> StreamKey \<Rightarrow> bool" where
  "ResetState_is_reconstructed t key = bt_contains key (rt_set t)"

subsection \<open>Sending\<close>

definition PER_PEER_OUTBOUND_QUEUE :: nat where
  "PER_PEER_OUTBOUND_QUEUE = 256"

definition PEER_ID_MISMATCH_CLOSE :: u32 where
  "PEER_ID_MISMATCH_CLOSE = 2"

definition ERR_RECONSTRUCTED :: u64 where
  "ERR_RECONSTRUCTED = 1"

text \<open>A peer's bounded queue; it is closed once the peer's pump has stopped.\<close>

record PeerQueue =
  pq_items :: "NetSend list"
  pq_open :: bool

record QuicNet =
  qn_peer_senders :: "(PeerId, PeerQueue) btree_map"
  qn_next_peer_id :: u64
  qn_reset :: ReconstructedTracker
  qn_inbound :: "NetEvent list"

fun dest_peer :: "NetSend \<Rightarrow> PeerId option" where
  "dest_peer (SendHandshake peer _ _ _) = Some peer"
| "dest_peer (SendSubscribe peer _) = Some peer"
| "dest_peer (SendUnsubscribe peer _) = Some peer"
| "dest_peer (SendSessionOpen peer _ _ _ _) = Some peer"
| "dest_peer (SendRoutingUpdate peer _ _ _) = Some peer"
| "dest_peer (SendChunk peer _ _ _ _ _) = Some peer"
| "dest_peer _ = None"

datatype TrySendError = QueueFull | QueueClosed

definition PeerQueue_try_send :: "PeerQueue \<Rightarrow> NetSend \<Rightarrow> PeerQueue \<times> (TrySendError + unit)" where
  "PeerQueue_try_send q msg =
     (if \<not> pq_open q then (q, Inl QueueClosed)
      else if length (pq_items q) \<ge> PER_PEER_OUTBOUND_QUEUE then (q, Inl QueueFull)
      else (q\<lparr>pq_items := pq_items q @ [msg]\<rparr>, Inr ()))"

definition QuicNet_send :: "QuicNet \<Rightarrow> NetSend \<Rightarrow> QuicNet \<times> (NetError + unit)" where
  "QuicNet_send n msg =
     (case msg of
        SendSessionReconstructed c m \<Rightarrow> (n\<lparr>qn_reset := ResetState_record (qn_reset n) (c, m)\<rparr>, Inr ())
      | _ \<Rightarrow>
          (case dest_peer msg of
             None \<Rightarrow> (n, Inr ())
           | Some dst \<Rightarrow>
               (case bt_get (qn_peer_senders n) dst of
                  None \<Rightarrow> (n, Inl (PeerNotFound dst))
                | Some sender \<Rightarrow>
                    (case PeerQueue_try_send sender msg of
                       (q, Inr _) \<Rightarrow> (n\<lparr>qn_peer_senders := bt_insert dst q (qn_peer_senders n)\<rparr>, Inr ())
                     | (_, Inl QueueFull) \<Rightarrow> (n, Inl (Backpressure dst))
                     | (_, Inl QueueClosed) \<Rightarrow> (n, Inl (PeerNotFound dst))))))"

text \<open>
  The accesses of a connection's tasks to the shared state, each of which is atomic in the code: taking the next peer id, putting
  the sender of a new queue into the table, sending an event into the channel of the endpoint, and removing the sender.
\<close>

definition fetch_peer_id :: "QuicNet \<Rightarrow> QuicNet \<times> PeerId" where
  "fetch_peer_id n = (n\<lparr>qn_next_peer_id := qn_next_peer_id n + 1\<rparr>, qn_next_peer_id n)"

definition insert_sender :: "QuicNet \<Rightarrow> PeerId \<Rightarrow> QuicNet" where
  "insert_sender n peer =
     n\<lparr>qn_peer_senders := bt_insert peer \<lparr>pq_items = [], pq_open = True\<rparr> (qn_peer_senders n)\<rparr>"

definition send_inbound :: "QuicNet \<Rightarrow> NetEvent \<Rightarrow> QuicNet" where
  "send_inbound n ev = n\<lparr>qn_inbound := qn_inbound n @ [ev]\<rparr>"

definition remove_sender :: "QuicNet \<Rightarrow> PeerId \<Rightarrow> QuicNet" where
  "remove_sender n peer = n\<lparr>qn_peer_senders := bt_remove peer (qn_peer_senders n)\<rparr>"

text \<open>
  What \<open>register_peer\<close> does to the network state, and the connection reader when the connection is lost, if no other task
  comes in between.
\<close>

definition register_peer :: "QuicNet \<Rightarrow> PeerId \<Rightarrow> QuicNet" where
  "register_peer n peer = send_inbound (insert_sender n peer) (EvPeerConnected peer)"

definition connection_lost :: "QuicNet \<Rightarrow> PeerId \<Rightarrow> QuicNet" where
  "connection_lost n peer = send_inbound (remove_sender n peer) (EvPeerDisconnected peer)"

subsection \<open>Messages of \<open>broadcast.proto\<close>\<close>

datatype BcastMessage =
    PeerHandshake u32 "ChannelId list" string
  | ChannelSubscribe ChannelId
  | ChannelUnsubscribe ChannelId

datatype SessFrame =
    SessionOpenFrame ChannelId MessageId bytes bytes
  | RoutingUpdateFrame bytes

type_synonym Bcast = "BcastMessage option"
type_synonym Sess = "SessFrame option"
type_synonym ChunkIdent = i32

record Codecs =
  pc_bcast :: "Bcast PbCodec"
  pc_sess :: "Sess PbCodec"
  pc_header :: "Header PbCodec"
  pc_ident :: "ChunkIdent PbCodec"

definition codecs_ok :: "Codecs \<Rightarrow> bool" where
  "codecs_ok C \<longleftrightarrow> codec_ok (pc_bcast C) \<and> codec_ok (pc_sess C) \<and> codec_ok (pc_header C) \<and> codec_ok (pc_ident C)"

subsection \<open>The outbound side\<close>

text \<open>\<open>Connection::open_uni\<close>, \<open>SendStream::write_all\<close> and \<open>SendStream::finish\<close>; streams are named by numbers.\<close>

record 'q Quinn =
  q_open_uni :: "'q \<Rightarrow> 'q \<times> (IoError + nat)"
  q_write_all :: "nat \<Rightarrow> 'q WriteAll"
  q_finish :: "'q \<Rightarrow> nat \<Rightarrow> 'q \<times> (IoError + unit)"

record PeerStreams =
  ps_ctrl :: "nat option"
  ps_sess :: "(StreamKey, nat) btree_map"

definition PeerStreams_default :: PeerStreams where
  "PeerStreams_default = \<lparr>ps_ctrl = None, ps_sess = bt_empty\<rparr>"

text \<open>
  The state of a peer's pump: the connection, the streams it keeps, the events it reported, and the
  outbound session streams being watched for a stop.
\<close>

record 'q Pump =
  pu_conn :: 'q
  pu_streams :: PeerStreams
  pu_events :: "NetEvent list"
  pu_watched :: "(nat \<times> PeerId \<times> ChannelId \<times> MessageId) list"

definition on_conn :: "('q \<Rightarrow> 'q \<times> (IoError + 'a)) \<Rightarrow> 'q Pump \<Rightarrow> 'q Pump \<times> (IoError + 'a)" where
  "on_conn f p = (case f (pu_conn p) of (q, r) \<Rightarrow> (p\<lparr>pu_conn := q\<rparr>, r))"

definition ensure_ctrl :: "'q Quinn \<Rightarrow> 'q Pump \<Rightarrow> 'q Pump \<times> (IoError + nat)" where
  "ensure_ctrl Q p =
     (case ps_ctrl (pu_streams p) of
        Some sid \<Rightarrow> (p, Inr sid)
      | None \<Rightarrow>
          and_then (on_conn (q_open_uni Q) p) (\<lambda>sid p.
          and_then (on_conn (\<lambda>q. open_stream (q_write_all Q sid) q ProtoBcast) p) (\<lambda>_ p.
            (p\<lparr>pu_streams := (pu_streams p)\<lparr>ps_ctrl := Some sid\<rparr>\<rparr>, Inr sid))))"

definition i32_saturating :: "u32 \<Rightarrow> i32" where
  "i32_saturating x = (case i32_try_from_nat (unat x) of None \<Rightarrow> 0x7FFFFFFF | Some i \<Rightarrow> i)"

definition u32_saturating :: "nat \<Rightarrow> u32" where
  "u32_saturating n = (case u32_try_from_usize n of None \<Rightarrow> 0xFFFFFFFF | Some i \<Rightarrow> i)"

definition chunk_header :: "Codecs \<Rightarrow> ChannelId \<Rightarrow> MessageId \<Rightarrow> u32 \<Rightarrow> bytes \<Rightarrow> Header" where
  "chunk_header C channel message_id chunk_id payload =
     \<lparr>hd_channel = channel, hd_message_id = message_id,
      hd_chunk_id = pb_encode (pc_ident C) (i32_saturating chunk_id),
      hd_data_length = u32_saturating (length payload)\<rparr>"

definition send_chunk ::
  "'q Quinn \<Rightarrow> Codecs \<Rightarrow> 'q Pump \<Rightarrow> ChannelId \<Rightarrow> MessageId \<Rightarrow> u32 \<Rightarrow> bytes \<Rightarrow> 'q Pump \<times> (IoError + unit)" where
  "send_chunk Q C p channel message_id chunk_id payload =
     and_then (on_conn (q_open_uni Q) p) (\<lambda>sid p.
     and_then (on_conn (\<lambda>q. write_chunk (q_write_all Q sid) (pc_header C) q
         (chunk_header C channel message_id chunk_id payload) payload) p) (\<lambda>_ p.
       on_conn (\<lambda>q. q_finish Q q sid) p))"

definition write_ctrl :: "'q Quinn \<Rightarrow> Codecs \<Rightarrow> 'q Pump \<Rightarrow> BcastMessage \<Rightarrow> 'q Pump \<times> (IoError + unit)" where
  "write_ctrl Q C p frame =
     and_then (ensure_ctrl Q p) (\<lambda>sid. on_conn (\<lambda>q. write_framed (q_write_all Q sid) (pc_bcast C) q (Some frame)))"

fun write_outbound :: "'q Quinn \<Rightarrow> Codecs \<Rightarrow> 'q Pump \<Rightarrow> NetSend \<Rightarrow> 'q Pump \<times> (IoError + unit)" where
  "write_outbound Q C p (SendHandshake _ version channels peer_id) = write_ctrl Q C p (PeerHandshake version channels peer_id)"
| "write_outbound Q C p (SendSubscribe _ channel) = write_ctrl Q C p (ChannelSubscribe channel)"
| "write_outbound Q C p (SendUnsubscribe _ channel) = write_ctrl Q C p (ChannelUnsubscribe channel)"
| "write_outbound Q C p (SendSessionOpen peer channel message_id preamble initial_update) =
     and_then (on_conn (q_open_uni Q) p) (\<lambda>sid p.
     and_then (on_conn (\<lambda>q. open_stream (q_write_all Q sid) q ProtoSess) p) (\<lambda>_ p.
     and_then (on_conn (\<lambda>q. write_framed (q_write_all Q sid) (pc_sess C) q
         (Some (SessionOpenFrame channel message_id preamble initial_update))) p) (\<lambda>_ p.
       (p\<lparr>pu_watched := pu_watched p @ [(sid, peer, channel, message_id)],
          pu_streams := (pu_streams p)\<lparr>ps_sess := bt_insert (channel, message_id) sid (ps_sess (pu_streams p))\<rparr>\<rparr>, Inr ()))))"
| "write_outbound Q C p (SendRoutingUpdate _ channel message_id payload) =
     (case bt_get (ps_sess (pu_streams p)) (channel, message_id) of
        None \<Rightarrow> (p, Inr ())
      | Some sid \<Rightarrow> on_conn (\<lambda>q. write_framed (q_write_all Q sid) (pc_sess C) q (Some (RoutingUpdateFrame payload))) p)"
| "write_outbound Q C p (SendChunk peer channel message_id chunk_id payload token) =
     (case send_chunk Q C p channel message_id chunk_id payload of (p, r) \<Rightarrow>
       (p\<lparr>pu_events := pu_events p @ [EvChunkSendResult peer channel message_id token (\<not> isl r)]\<rparr>, Inr ()))"
| "write_outbound Q C p (SendSessionReconstructed _ _) = (p, Inr ())"

text \<open>The loop of \<open>peer_pump\<close> over the messages it receives.\<close>

definition pump_message :: "'q Quinn \<Rightarrow> Codecs \<Rightarrow> NetSend \<Rightarrow> 'q Pump \<Rightarrow> 'q Pump" where
  "pump_message Q C msg p =
     (case write_outbound Q C p msg of
        (p, Inr _) \<Rightarrow> p
      | (p, Inl _) \<Rightarrow> p\<lparr>pu_streams := PeerStreams_default\<rparr>)"

definition peer_pump :: "'q Quinn \<Rightarrow> Codecs \<Rightarrow> NetSend list \<Rightarrow> 'q \<Rightarrow> 'q Pump" where
  "peer_pump Q C msgs q = fold (pump_message Q C) msgs
     \<lparr>pu_conn = q, pu_streams = PeerStreams_default, pu_events = [], pu_watched = []\<rparr>"

text \<open>The task that watches an outbound session stream, as a function of what \<open>stopped()\<close> resolves to.\<close>

definition sess_reset_event :: "PeerId \<Rightarrow> ChannelId \<Rightarrow> MessageId \<Rightarrow> IoError + u64 option \<Rightarrow> NetEvent option" where
  "sess_reset_event peer channel message_id stopped =
     (case stopped of
        Inr (Some code) \<Rightarrow>
          Some (if code = ERR_RECONSTRUCTED then EvPeerReconstructed peer channel message_id
                else EvSessionClosed peer channel message_id)
      | _ \<Rightarrow> None)"

subsection \<open>The inbound side\<close>

definition read_frame_opt :: "'m PbCodec \<Rightarrow> Reader \<Rightarrow> Reader \<times> (IoError + 'm option)" where
  "read_frame_opt C r =
     (case read_framed C r of
        (r, Inr m) \<Rightarrow> (r, Inr (Some m))
      | (r, Inl err) \<Rightarrow> if err = UnexpectedEof then (r, Inr None) else (r, Inl err))"

fun bcast_event :: "PeerId \<Rightarrow> Bcast \<Rightarrow> NetEvent option" where
  "bcast_event peer None = None"
| "bcast_event peer (Some (PeerHandshake version channels peer_id)) = Some (EvHandshake peer version channels peer_id)"
| "bcast_event peer (Some (ChannelSubscribe channel)) = Some (EvSubscribe peer channel)"
| "bcast_event peer (Some (ChannelUnsubscribe channel)) = Some (EvUnsubscribe peer channel)"

fun sess_event :: "PeerId \<Rightarrow> Sess \<Rightarrow> NetEvent option" where
  "sess_event peer None = None"
| "sess_event peer (Some (SessionOpenFrame channel message_id preamble initial_update)) =
     Some (EvSessionOpen peer channel message_id preamble initial_update)"
| "sess_event peer (Some (RoutingUpdateFrame _)) = None"

text \<open>
  The effects of a stream reader: events sent to the engine while its receiver is alive, the code the
  connection is closed with, the code the stream is stopped with.
\<close>

record StreamIo =
  io_inbound :: "NetEvent list"
  io_open :: bool
  io_close :: "u32 option"
  io_stop :: "u64 option"

definition tx_send :: "StreamIo \<Rightarrow> NetEvent \<Rightarrow> StreamIo \<times> bool" where
  "tx_send io event = (if io_open io then (io\<lparr>io_inbound := io_inbound io @ [event]\<rparr>, True) else (io, False))"

definition peer_id_mismatch :: "string option \<Rightarrow> Bcast \<Rightarrow> bool" where
  "peer_id_mismatch expected frame =
     (case (expected, frame) of
        (Some ex, Some (PeerHandshake _ _ peer_id)) \<Rightarrow> peer_id \<noteq> ex
      | _ \<Rightarrow> False)"

lemma read_frame_opt_shorter:
  "read_frame_opt C r = (r', Inr (Some m)) \<Longrightarrow> length (rd_data r') < length (rd_data r)"
  by (auto simp: read_frame_opt_def split: prod.splits sum.splits if_splits elim!: read_framed_Inr)

function bcast_loop ::
  "Codecs \<Rightarrow> PeerId \<Rightarrow> string option \<Rightarrow> Reader \<Rightarrow> StreamIo \<Rightarrow> StreamIo \<times> (IoError + unit)" where
  "bcast_loop C peer expected r io =
     (case read_frame_opt (pc_bcast C) r of
        (r', Inl err) \<Rightarrow> (io, Inl err)
      | (r', Inr None) \<Rightarrow> (io, Inr ())
      | (r', Inr (Some frame)) \<Rightarrow>
          (if peer_id_mismatch expected frame then (io\<lparr>io_close := Some PEER_ID_MISMATCH_CLOSE\<rparr>, Inr ())
           else (case bcast_event peer frame of
               None \<Rightarrow> bcast_loop C peer expected r' io
             | Some event \<Rightarrow>
                 (case tx_send io event of
                    (io', True) \<Rightarrow> bcast_loop C peer expected r' io'
                  | (io', False) \<Rightarrow> (io', Inr ())))))"
  by pat_completeness auto
termination
  by (relation "measure (\<lambda>(_, _, _, r, _). length (rd_data r))") (auto dest!: sym [of _ "read_frame_opt _ _"] intro: read_frame_opt_shorter)

declare bcast_loop.simps [simp del]

text \<open>
  The loop on a session stream. \<open>wake i\<close> says whether the \<open>i\<close>-th \<open>select!\<close> takes its second branch for the
  session key; the branch is disabled while the key is unknown.
\<close>

function sess_loop ::
  "Codecs \<Rightarrow> PeerId \<Rightarrow> (nat \<Rightarrow> StreamKey \<Rightarrow> bool) \<Rightarrow> nat \<Rightarrow> StreamKey option \<Rightarrow> Reader \<Rightarrow> StreamIo \<Rightarrow>
   StreamIo \<times> (IoError + unit)" where
  "sess_loop C peer wake i key r io =
     (if (case key of None \<Rightarrow> False | Some k \<Rightarrow> wake i k) then (io\<lparr>io_stop := Some ERR_RECONSTRUCTED\<rparr>, Inr ())
      else (case read_frame_opt (pc_sess C) r of
          (r', Inl err) \<Rightarrow> (io, Inl err)
        | (r', Inr None) \<Rightarrow> (io, Inr ())
        | (r', Inr (Some frame)) \<Rightarrow>
            (case sess_event peer frame of
               None \<Rightarrow> sess_loop C peer wake (Suc i) key r' io
             | Some event \<Rightarrow>
                 (let key' = (case event of EvSessionOpen _ channel message_id _ _ \<Rightarrow> Some (channel, message_id) | _ \<Rightarrow> key) in
                  case tx_send io event of
                    (io', True) \<Rightarrow> sess_loop C peer wake (Suc i) key' r' io'
                  | (io', False) \<Rightarrow> (io', Inr ())))))"
  by pat_completeness auto
termination
  by (relation "measure (\<lambda>(_, _, _, _, _, r, _). length (rd_data r))") (auto dest!: sym [of _ "read_frame_opt _ _"] intro: read_frame_opt_shorter)

declare sess_loop.simps [simp del]

definition read_chunk :: "Codecs \<Rightarrow> PeerId \<Rightarrow> nat \<Rightarrow> nat list \<Rightarrow> Reader \<Rightarrow> StreamIo \<Rightarrow> StreamIo \<times> (IoError + unit)" where
  "read_chunk C peer cap pace r io =
     (case read_chunk_stream (pc_header C) r of
        Inl err \<Rightarrow> (io, Inl err)
      | Inr (header, reader) \<Rightarrow>
          (case pb_decode (pc_ident C) (hd_chunk_id header) of
             None \<Rightarrow> (io, Inl InvalidData)
           | Some index \<Rightarrow>
               (case u32_try_from_i32 index of
                  None \<Rightarrow> (io, Inl InvalidData)
                | Some chunk_id \<Rightarrow>
                    (case read_to_end cap \<lparr>cp_reader = (cp_reader reader, pace), cp_remaining = cp_remaining reader\<rparr> [] of
                       Inl err \<Rightarrow> (io, Inl err)
                     | Inr payload \<Rightarrow>
                         (fst (tx_send io (EvChunk peer (hd_channel header) (hd_message_id header) chunk_id payload)), Inr ())))))"

definition read_stream ::
  "Codecs \<Rightarrow> PeerId \<Rightarrow> string option \<Rightarrow> (nat \<Rightarrow> StreamKey \<Rightarrow> bool) \<Rightarrow> nat \<Rightarrow> nat list \<Rightarrow> Reader \<Rightarrow> StreamIo \<Rightarrow>
   StreamIo \<times> (IoError + unit)" where
  "read_stream C peer expected wake cap pace r io =
     (case read_selector r of
        (r, Inl err) \<Rightarrow> (io, Inl err)
      | (r, Inr ProtoBcast) \<Rightarrow> bcast_loop C peer expected r io
      | (r, Inr ProtoSess) \<Rightarrow> sess_loop C peer wake 0 None r io
      | (r, Inr ProtoChunk) \<Rightarrow> read_chunk C peer cap pace r io
      | (r, Inr ProtoUnspecified) \<Rightarrow> (io, Inr ()))"

end
