(* ===== verification/DemoCodec.thy ===== *)
theory DemoCodec
  imports Transport
begin

text \<open>
  A concrete codec for the messages of \<open>broadcast.proto\<close>, simpler than protobuf, and a QUIC connection held
  in memory. They show that what the transport's theorems assume of the generated codecs and of \<open>quinn\<close>
  can hold, and the witnesses run on them.
\<close>

subsection \<open>Encoders and decoders with the remaining input\<close>

type_synonym 'a dec = "bytes \<Rightarrow> ('a \<times> bytes) option"

definition inverts :: "'a dec \<Rightarrow> ('a \<Rightarrow> bytes) \<Rightarrow> bool" where
  "inverts d e \<longleftrightarrow> (\<forall>x r. d (e x @ r) = Some (x, r))"

lemma invertsD: "inverts d e \<Longrightarrow> d (e x @ r) = Some (x, r)"
  by (simp add: inverts_def)

definition codec_of :: "('a \<Rightarrow> bytes) \<Rightarrow> 'a dec \<Rightarrow> 'a PbCodec" where
  "codec_of e d = \<lparr>pb_encode = e, pb_decode = (\<lambda>b. case d b of Some (x, []) \<Rightarrow> Some x | _ \<Rightarrow> None)\<rparr>"

lemma codec_of_ok: "inverts d e \<Longrightarrow> codec_ok (codec_of e d)"
proof -
  assume "inverts d e"
  then have "d (e x) = Some (x, [])" for x using invertsD [of d e x "[]"] by simp
  then show ?thesis by (simp add: codec_ok_def codec_of_def)
qed

fun enc_list :: "('a \<Rightarrow> bytes) \<Rightarrow> 'a list \<Rightarrow> bytes" where
  "enc_list e [] = [0]"
| "enc_list e (x # xs) = 1 # e x @ enc_list e xs"

text \<open>The fuel is the length of the input: every element takes at least its marker byte.\<close>

fun dec_list_fuel :: "nat \<Rightarrow> 'a dec \<Rightarrow> 'a list dec" where
  "dec_list_fuel 0 d b = None"
| "dec_list_fuel (Suc n) d b =
     (case b of
        [] \<Rightarrow> None
      | c # b' \<Rightarrow>
          if c = 0 then Some ([], b')
          else Option.bind (d b') (\<lambda>(x, b''). Option.bind (dec_list_fuel n d b'') (\<lambda>(xs, r). Some (x # xs, r))))"

definition dec_list :: "'a dec \<Rightarrow> 'a list dec" where
  "dec_list d b = dec_list_fuel (length b) d b"

lemma dec_list_fuel: "inverts d e \<Longrightarrow> length xs < n \<Longrightarrow> dec_list_fuel n d (enc_list e xs @ r) = Some (xs, r)"
proof (induction xs arbitrary: n)
  case Nil
  then show ?case by (cases n) auto
next
  case (Cons x xs)
  then obtain n' where n: "n = Suc n'" "length xs < n'" by (cases n) auto
  then show ?case using Cons invertsD [OF Cons.prems(1), of x "enc_list e xs @ r"] by simp
qed

lemma dec_list: "inverts d e \<Longrightarrow> inverts (dec_list d) (enc_list e)"
proof -
  assume d: "inverts d e"
  have "length xs < length (enc_list e xs)" for xs by (induction xs) auto
  then have "length xs < length (enc_list e xs @ r)" for xs r by (simp add: trans_less_add1)
  then show ?thesis unfolding inverts_def dec_list_def by (blast intro: dec_list_fuel [OF d])
qed

definition enc_byte :: "u8 \<Rightarrow> bytes" where "enc_byte b = [b]"

fun dec_byte :: "u8 dec" where "dec_byte [] = None" | "dec_byte (b # r) = Some (b, r)"

definition enc_char :: "char \<Rightarrow> bytes" where "enc_char c = [word_of_nat (of_char c)]"

fun dec_char :: "char dec" where "dec_char [] = None" | "dec_char (b # r) = Some (char_of (unat b), r)"

definition dec_word :: "u32 dec" where
  "dec_word b = (if length b < 4 then None else Some (from_be_bytes32 (take 4 b), drop 4 b))"

lemma leaf_codecs: "inverts dec_byte enc_byte" "inverts dec_char enc_char" "inverts dec_word to_be_bytes32"
proof -
  have "of_char c < (256 :: nat)" for c :: char by simp
  then have "unat (word_of_nat (of_char c) :: u8) = of_char c" for c :: char by (simp add: unat_of_nat)
  then show "inverts dec_char enc_char" by (simp add: inverts_def enc_char_def)
qed (simp_all add: inverts_def enc_byte_def dec_word_def)

abbreviation enc_str :: "string \<Rightarrow> bytes" where "enc_str \<equiv> enc_list enc_char"
abbreviation dec_str :: "string dec" where "dec_str \<equiv> dec_list dec_char"
abbreviation enc_buf :: "bytes \<Rightarrow> bytes" where "enc_buf \<equiv> enc_list enc_byte"
abbreviation dec_buf :: "bytes dec" where "dec_buf \<equiv> dec_list dec_byte"

lemmas list_codecs = dec_list [OF leaf_codecs(1)] dec_list [OF leaf_codecs(2)] dec_list [OF dec_list [OF leaf_codecs(2)]]
lemmas codec_simps = leaf_codecs [THEN invertsD] list_codecs [THEN invertsD]

subsection \<open>The messages\<close>

fun enc_bcast :: "Bcast \<Rightarrow> bytes" where
  "enc_bcast None = [0]"
| "enc_bcast (Some (PeerHandshake v cs p)) = 1 # to_be_bytes32 v @ enc_list enc_str cs @ enc_str p"
| "enc_bcast (Some (ChannelSubscribe c)) = 2 # enc_str c"
| "enc_bcast (Some (ChannelUnsubscribe c)) = 3 # enc_str c"

fun dec_bcast :: "Bcast dec" where
  "dec_bcast [] = None"
| "dec_bcast (t # b) =
     (if t = 0 then Some (None, b)
      else if t = 1 then Option.bind (dec_word b) (\<lambda>(v, b). Option.bind (dec_list dec_str b) (\<lambda>(cs, b).
        Option.bind (dec_str b) (\<lambda>(p, b). Some (Some (PeerHandshake v cs p), b))))
      else if t = 2 then Option.bind (dec_str b) (\<lambda>(c, b). Some (Some (ChannelSubscribe c), b))
      else Option.bind (dec_str b) (\<lambda>(c, b). Some (Some (ChannelUnsubscribe c), b)))"

fun enc_sess :: "Sess \<Rightarrow> bytes" where
  "enc_sess None = [0]"
| "enc_sess (Some (SessionOpenFrame c m p u)) = 1 # enc_str c @ enc_str m @ enc_buf p @ enc_buf u"
| "enc_sess (Some (RoutingUpdateFrame d)) = 2 # enc_buf d"

fun dec_sess :: "Sess dec" where
  "dec_sess [] = None"
| "dec_sess (t # b) =
     (if t = 0 then Some (None, b)
      else if t = 1 then Option.bind (dec_str b) (\<lambda>(c, b). Option.bind (dec_str b) (\<lambda>(m, b).
        Option.bind (dec_buf b) (\<lambda>(p, b). Option.bind (dec_buf b) (\<lambda>(u, b). Some (Some (SessionOpenFrame c m p u), b)))))
      else Option.bind (dec_buf b) (\<lambda>(d, b). Some (Some (RoutingUpdateFrame d), b)))"

definition enc_header :: "Header \<Rightarrow> bytes" where
  "enc_header h = enc_str (hd_channel h) @ enc_str (hd_message_id h) @ enc_buf (hd_chunk_id h) @ to_be_bytes32 (hd_data_length h)"

definition dec_header :: "Header dec" where
  "dec_header b = Option.bind (dec_str b) (\<lambda>(c, b). Option.bind (dec_str b) (\<lambda>(m, b).
     Option.bind (dec_buf b) (\<lambda>(i, b). Option.bind (dec_word b) (\<lambda>(n, b).
       Some (\<lparr>hd_channel = c, hd_message_id = m, hd_chunk_id = i, hd_data_length = n\<rparr>, b)))))"

lemma message_codecs: "inverts dec_bcast enc_bcast" "inverts dec_sess enc_sess" "inverts dec_header enc_header"
proof -
  have "dec_bcast (enc_bcast x @ r) = Some (x, r)" for x r by (cases x rule: enc_bcast.cases) (simp_all add: codec_simps)
  then show "inverts dec_bcast enc_bcast" by (simp add: inverts_def)
  have "dec_sess (enc_sess x @ r) = Some (x, r)" for x r by (cases x rule: enc_sess.cases) (simp_all add: codec_simps)
  then show "inverts dec_sess enc_sess" by (simp add: inverts_def)
  show "inverts dec_header enc_header" by (simp add: inverts_def dec_header_def enc_header_def codec_simps)
qed

definition demo_codecs :: Codecs where
  "demo_codecs = \<lparr>pc_bcast = codec_of enc_bcast dec_bcast, pc_sess = codec_of enc_sess dec_sess,
     pc_header = codec_of enc_header dec_header, pc_ident = codec_of to_be_bytes32 dec_word\<rparr>"

lemma demo_codecs_ok [simp]: "codecs_ok demo_codecs"
  by (simp add: codecs_ok_def demo_codecs_def codec_of_ok message_codecs leaf_codecs)

subsection \<open>A connection in memory\<close>

definition mem_content :: "bytes list \<Rightarrow> nat \<Rightarrow> bytes" where
  "mem_content q sid = (if sid < length q then q ! sid else [])"

definition mem_quinn :: "bytes list Quinn" where
  "mem_quinn = \<lparr>q_open_uni = (\<lambda>q. (q @ [[]], Inr (length q))),
     q_write_all = (\<lambda>sid q b. if sid < length q then (q[sid := q ! sid @ b], Inr ()) else (q, Inl IoOther)),
     q_finish = (\<lambda>q sid. (q, Inr ()))\<rparr>"

end
