(* ===== verification/TransportProofs.thy ===== *)
theory TransportProofs
  imports DemoCodec
begin

text \<open>
  Correctness of the transport: the bounded tracker of reconstructed sessions, the bounded per-peer
  queues, and the agreement of the outbound and the inbound side, that is, what \<open>write_outbound\<close> puts on QUIC
  streams is what \<open>read_stream\<close> at the other end turns into events.
\<close>

subsection \<open>The tracker\<close>

definition tracker_inv :: "ReconstructedTracker \<Rightarrow> bool" where
  "tracker_inv t \<longleftrightarrow> distinct (rt_order t) \<and> bs_elems (rt_set t) = set (rt_order t) \<and>
     length (rt_order t) \<le> MAX_RECONSTRUCTED_TRACKED"

lemma evict_oldest_eq:
  assumes "distinct (rt_order t)" "bs_elems (rt_set t) = set (rt_order t)"
  shows "rt_order (evict_oldest t) = drop (length (rt_order t) - MAX_RECONSTRUCTED_TRACKED) (rt_order t) \<and>
    bs_elems (rt_set (evict_oldest t)) = set (rt_order (evict_oldest t))"
  using assms
proof (induction t rule: evict_oldest.induct)
  case (1 t)
  show ?case
  proof (cases "length (rt_order t) > MAX_RECONSTRUCTED_TRACKED")
    case True
    then obtain x xs where x: "rt_order t = x # xs" by (cases "rt_order t") auto
    have "bs_elems (bt_remove x (rt_set t)) = set xs" using 1(2,3) x by auto
    with 1(1) [OF True] 1(2) x have "rt_order (evict_oldest t) = drop (length xs - MAX_RECONSTRUCTED_TRACKED) xs \<and>
        bs_elems (rt_set (evict_oldest t)) = set (rt_order (evict_oldest t))"
      using True by (simp add: evict_oldest.simps [of t])
    moreover have "Suc (length xs) - MAX_RECONSTRUCTED_TRACKED = Suc (length xs - MAX_RECONSTRUCTED_TRACKED)"
      using True x by simp
    ultimately show ?thesis using x by simp
  next
    case False
    then show ?thesis using 1(3) by (simp add: evict_oldest.simps [of t])
  qed
qed

lemma record_effect:
  assumes "tracker_inv t"
  shows "rt_order (ResetState_record t key) =
      (if key \<in> set (rt_order t) then rt_order t
       else drop (Suc (length (rt_order t)) - MAX_RECONSTRUCTED_TRACKED) (rt_order t @ [key]))"
    and "tracker_inv (ResetState_record t key)"
    and "ResetState_is_reconstructed (ResetState_record t key) k \<longleftrightarrow> k \<in> set (rt_order (ResetState_record t key))"
proof -
  have inv: "distinct (rt_order t)" "bs_elems (rt_set t) = set (rt_order t)"
    "length (rt_order t) \<le> MAX_RECONSTRUCTED_TRACKED" using assms by (simp_all add: tracker_inv_def)
  let ?t = "t\<lparr>rt_set := bs_insert key (rt_set t), rt_order := rt_order t @ [key]\<rparr>"
  have ev: "rt_order (evict_oldest ?t) = drop (Suc (length (rt_order t)) - MAX_RECONSTRUCTED_TRACKED) (rt_order t @ [key]) \<and>
      bs_elems (rt_set (evict_oldest ?t)) = set (rt_order (evict_oldest ?t))" if "key \<notin> set (rt_order t)"
    using evict_oldest_eq [of ?t] inv that by (simp del: drop_append)
  show order: "rt_order (ResetState_record t key) =
      (if key \<in> set (rt_order t) then rt_order t
       else drop (Suc (length (rt_order t)) - MAX_RECONSTRUCTED_TRACKED) (rt_order t @ [key]))"
    using ev inv by (simp add: ResetState_record_def bt_contains_bs_elems del: bt_contains_iff drop_append)
  show inv': "tracker_inv (ResetState_record t key)"
    using ev inv order by (auto simp: tracker_inv_def ResetState_record_def bt_contains_bs_elems simp del: bt_contains_iff drop_append)
  then show "ResetState_is_reconstructed (ResetState_record t key) k \<longleftrightarrow> k \<in> set (rt_order (ResetState_record t key))"
    by (simp add: tracker_inv_def ResetState_is_reconstructed_def bt_contains_bs_elems del: bt_contains_iff)
qed

subsection \<open>Queues\<close>

lemma dest_peer_send_dst: "dest_peer msg = send_dst msg"
  by (cases msg) simp_all

lemma quic_send_cases:
  "QuicNet_send n msg =
     (case send_dst msg of
        None \<Rightarrow> (case msg of SendSessionReconstructed c m \<Rightarrow> (n\<lparr>qn_reset := ResetState_record (qn_reset n) (c, m)\<rparr>, Inr ())
          | _ \<Rightarrow> (n, Inr ()))
      | Some dst \<Rightarrow>
          (case bt_get (qn_peer_senders n) dst of
             None \<Rightarrow> (n, Inl (PeerNotFound dst))
           | Some q \<Rightarrow>
               if \<not> pq_open q then (n, Inl (PeerNotFound dst))
               else if PER_PEER_OUTBOUND_QUEUE \<le> length (pq_items q) then (n, Inl (Backpressure dst))
               else (n\<lparr>qn_peer_senders := bt_insert dst (q\<lparr>pq_items := pq_items q @ [msg]\<rparr>) (qn_peer_senders n)\<rparr>, Inr ())))"
  by (cases msg) (simp_all add: QuicNet_send_def PeerQueue_try_send_def split: option.split)


subsection \<open>QUIC streams\<close>

text \<open>
  What the code relies on of \<open>quinn\<close>, for the bytes \<open>content q sid\<close> written so far: a new stream is empty, a write
  appends to its stream (a prefix of the bytes if it fails) and leaves every other stream alone.
\<close>

definition quinn_ok :: "'q Quinn \<Rightarrow> ('q \<Rightarrow> nat \<Rightarrow> bytes) \<Rightarrow> bool" where
  "quinn_ok Q content \<longleftrightarrow>
     (\<forall>q. content (fst (q_open_uni Q q)) = content q) \<and>
     (\<forall>q q' sid. q_open_uni Q q = (q', Inr sid) \<longrightarrow> content q sid = []) \<and>
     (\<forall>q sid b. \<exists>k. content (fst (q_write_all Q sid q b)) = (content q)(sid := content q sid @ take k b) \<and>
        (snd (q_write_all Q sid q b) = Inr () \<longrightarrow> k = length b)) \<and>
     (\<forall>q sid. content (fst (q_finish Q q sid)) = content q)"

lemma quinn_open:
  assumes "quinn_ok Q content" "on_conn (q_open_uni Q) p = (p', r)"
  shows "content (pu_conn p') = content (pu_conn p)" "p' = p\<lparr>pu_conn := pu_conn p'\<rparr>"
    "r = Inr sid \<Longrightarrow> content (pu_conn p) sid = []"
proof -
  have "content (fst (q_open_uni Q (pu_conn p))) = content (pu_conn p)" using assms(1) by (simp add: quinn_ok_def)
  then show "content (pu_conn p') = content (pu_conn p)" "p' = p\<lparr>pu_conn := pu_conn p'\<rparr>"
    using assms(2) by (auto simp: on_conn_def split: prod.splits)
  show "r = Inr sid \<Longrightarrow> content (pu_conn p) sid = []"
    using assms by (auto simp: on_conn_def quinn_ok_def split: prod.splits)
qed

lemma quinn_writer: "quinn_ok Q content \<Longrightarrow> byte_writer (q_write_all Q sid) (\<lambda>q. content q sid)"
  unfolding byte_writer_def quinn_ok_def by (metis fst_conv fun_upd_same snd_conv take_all_iff le_refl)

text \<open>Operations that only write to the stream \<open>sid\<close> of the connection, appending to it.\<close>

definition writes_only :: "('q \<Rightarrow> nat \<Rightarrow> bytes) \<Rightarrow> nat \<Rightarrow> 'q \<Rightarrow> 'q \<Rightarrow> bool" where
  "writes_only content sid q q' \<longleftrightarrow> (\<exists>b. content q' = (content q)(sid := content q sid @ b))"

lemma writes_only_other: "writes_only content sid q q' \<Longrightarrow> s \<noteq> sid \<Longrightarrow> content q' s = content q s"
  by (auto simp: writes_only_def)

lemma writes_only_grows: "writes_only content sid q q' \<Longrightarrow> \<exists>b. content q' s = content q s @ b"
  by (cases "s = sid") (auto simp: writes_only_def)

lemma writes_only_refl: "content q' = content q \<Longrightarrow> writes_only content sid q q'"
  unfolding writes_only_def by (intro exI [of _ "[]"]) auto

lemma writes_only_trans:
  "writes_only content sid q q' \<Longrightarrow> writes_only content sid q' q'' \<Longrightarrow> writes_only content sid q q''"
  unfolding writes_only_def by (metis append.assoc fun_upd_same fun_upd_upd)

lemma write_all_only: "quinn_ok Q content \<Longrightarrow> writes_only content sid q (fst (q_write_all Q sid q b))"
  unfolding quinn_ok_def writes_only_def by metis

lemma open_stream_only: "quinn_ok Q content \<Longrightarrow> writes_only content sid q (fst (open_stream (q_write_all Q sid) q proto))"
  by (simp add: open_stream_def write_all_only)

lemma write_framed_only: "quinn_ok Q content \<Longrightarrow> writes_only content sid q (fst (write_framed (q_write_all Q sid) C q m))"
  by (simp add: write_framed_eq write_all_only writes_only_refl)

lemma write_chunk_only: "quinn_ok Q content \<Longrightarrow> writes_only content sid q (fst (write_chunk (q_write_all Q sid) C q h b))"
proof -
  assume Q: "quinn_ok Q content"
  let ?w = "q_write_all Q sid"
  obtain q1 r1 where q1: "open_stream ?w q ProtoChunk = (q1, r1)" by fastforce
  obtain q2 r2 where q2: "write_framed ?w C q1 h = (q2, r2)" by fastforce
  have "writes_only content sid q q1" "writes_only content sid q1 q2" "writes_only content sid q2 (fst (?w q2 b))"
    using open_stream_only [OF Q, of sid q ProtoChunk] write_framed_only [OF Q, of sid q1 C h] write_all_only [OF Q]
    by (simp_all add: q1 q2)
  then show ?thesis
    by (auto simp: write_chunk_def q1 q2 and_then_def intro: writes_only_refl writes_only_trans split: sum.split)
qed


subsection \<open>Reading a control stream\<close>

definition frames :: "'m PbCodec \<Rightarrow> 'm list \<Rightarrow> bytes" where
  "frames C ms = concat (map (\<lambda>m. frame_bytes (pb_encode C m)) ms)"

definition fit :: "'m PbCodec \<Rightarrow> 'm list \<Rightarrow> bool" where
  "fit C ms \<longleftrightarrow> (\<forall>m\<in>set ms. length (pb_encode C m) \<le> MAX_FRAME_BYTES)"

lemma frames_simps [simp]:
  "frames C [] = []" "frames C (m # ms) = frame_bytes (pb_encode C m) @ frames C ms"
  "frames C (ms @ ms') = frames C ms @ frames C ms'"
  by (simp_all add: frames_def)

lemma fit_simps [simp]:
  "fit C []" "fit C (m # ms) \<longleftrightarrow> length (pb_encode C m) \<le> MAX_FRAME_BYTES \<and> fit C ms"
  "fit C (ms @ ms') \<longleftrightarrow> fit C ms \<and> fit C ms'"
  by (auto simp: fit_def)

lemma read_frame_opt_frames:
  assumes "codec_ok C" "fit C (m # ms)" "rd_data r = frames C (m # ms) @ rest"
  shows "read_frame_opt C r = (r\<lparr>rd_data := frames C ms @ rest\<rparr>, Inr (Some m))"
  using assms read_framed_frame [of "pb_encode C m" r "frames C ms @ rest" C]
  by (simp add: read_frame_opt_def codec_okD)

lemma read_frame_opt_end:
  "rd_data r = [] \<Longrightarrow> rd_end r = None \<Longrightarrow> read_frame_opt C r = (r, Inr None)"
  by (cases r) (simp add: read_frame_opt_def read_framed_def read_exact_def end_error_def)

lemma bcast_loop_frames:
  assumes "codec_ok (pc_bcast C)" "fit (pc_bcast C) ms" "rd_data r = frames (pc_bcast C) ms" "rd_end r = None" "io_open io"
  shows "bcast_loop C peer None r io =
    (io\<lparr>io_inbound := io_inbound io @ List.map_filter (bcast_event peer) ms\<rparr>, Inr ())"
  using assms
proof (induction ms arbitrary: r io)
  case Nil
  then show ?case by (subst bcast_loop.simps) (simp add: read_frame_opt_end map_filter_simps)
next
  case (Cons m ms)
  have rd: "read_frame_opt (pc_bcast C) r = (r\<lparr>rd_data := frames (pc_bcast C) ms\<rparr>, Inr (Some m))"
    using read_frame_opt_frames [of "pc_bcast C" m ms r "[]"] Cons.prems by simp
  have ih: "io_open io' \<Longrightarrow> bcast_loop C peer None (r\<lparr>rd_data := frames (pc_bcast C) ms\<rparr>) io' =
      (io'\<lparr>io_inbound := io_inbound io' @ List.map_filter (bcast_event peer) ms\<rparr>, Inr ())" for io'
    using Cons.IH Cons.prems by simp
  show ?case using Cons.prems(5)
    by (subst bcast_loop.simps) (simp add: rd ih peer_id_mismatch_def tx_send_def map_filter_simps split: option.split)
qed

subsection \<open>The pump\<close>

fun ctrl_of :: "NetSend \<Rightarrow> BcastMessage option" where
  "ctrl_of (SendHandshake _ version channels peer_id) = Some (PeerHandshake version channels peer_id)"
| "ctrl_of (SendSubscribe _ channel) = Some (ChannelSubscribe channel)"
| "ctrl_of (SendUnsubscribe _ channel) = Some (ChannelUnsubscribe channel)"
| "ctrl_of _ = None"

definition ctrl_frames :: "NetSend list \<Rightarrow> Bcast list" where
  "ctrl_frames msgs = map Some (List.map_filter ctrl_of msgs)"

lemma ctrl_frames_simps [simp]:
  "ctrl_frames [] = []"
  "ctrl_frames (msgs @ msgs') = ctrl_frames msgs @ ctrl_frames msgs'"
  "ctrl_frames [msg] = (case ctrl_of msg of None \<Rightarrow> [] | Some f \<Rightarrow> [Some f])"
  by (auto simp: ctrl_frames_def map_filter_def split: option.split)

text \<open>
  What the pump has on its streams after writing \<open>msgs\<close>: the control frames in order on the control stream,
  and the other streams it keeps are in use and different from it.
\<close>

definition pump_inv :: "('q \<Rightarrow> nat \<Rightarrow> bytes) \<Rightarrow> Codecs \<Rightarrow> 'q Pump \<Rightarrow> NetSend list \<Rightarrow> bool" where
  "pump_inv content C p msgs \<longleftrightarrow>
     (case ps_ctrl (pu_streams p) of
        None \<Rightarrow> ctrl_frames msgs = []
      | Some sid \<Rightarrow> content (pu_conn p) sid = [protocol_as_u8 ProtoBcast] @ frames (pc_bcast C) (ctrl_frames msgs) \<and>
          fit (pc_bcast C) (ctrl_frames msgs)) \<and>
     (\<forall>k s. bt_get (ps_sess (pu_streams p)) k = Some s \<longrightarrow> content (pu_conn p) s \<noteq> [] \<and> ps_ctrl (pu_streams p) \<noteq> Some s)"

definition keeps_used :: "('q \<Rightarrow> nat \<Rightarrow> bytes) \<Rightarrow> 'q Pump \<Rightarrow> 'q Pump \<Rightarrow> bool" where
  "keeps_used content p p' \<longleftrightarrow> (\<forall>s. content (pu_conn p) s \<noteq> [] \<longrightarrow> content (pu_conn p') s = content (pu_conn p) s) \<and>
     pu_streams p' = pu_streams p"

lemma pump_inv_keeps:
  assumes "pump_inv content C p msgs" "keeps_used content p p'"
  shows "pump_inv content C p' msgs"
  using assms by (auto simp: pump_inv_def keeps_used_def split: option.splits)

lemma pump_inv_no_ctrl: "ctrl_of msg = None \<Longrightarrow> pump_inv content C p (msgs @ [msg]) \<longleftrightarrow> pump_inv content C p msgs"
proof -
  assume "ctrl_of msg = None"
  then have "ctrl_frames (msgs @ [msg]) = ctrl_frames msgs" by simp
  then show ?thesis by (simp only: pump_inv_def)
qed

lemma send_chunk_keeps:
  assumes "quinn_ok Q content" "send_chunk Q C p c m i b = (p', r)"
  shows "keeps_used content p p'"
proof -
  obtain p1 r1 where p1: "on_conn (q_open_uni Q) p = (p1, r1)" by fastforce
  note op = quinn_open [OF assms(1) p1]
  show ?thesis
  proof (cases r1)
    case (Inl err)
    then have "p' = p1" using assms(2) p1 by (simp add: send_chunk_def)
    then show ?thesis using op by (metis keeps_used_def Pump.select_convs(2) Pump.surjective Pump.update_convs(1))
  next
    case (Inr sid)
    let ?h = "chunk_header C c m i b"
    obtain q2 r2 where q2: "write_chunk (q_write_all Q sid) (pc_header C) (pu_conn p1) ?h b = (q2, r2)" by fastforce
    obtain q3 r3 where q3: "q_finish Q q2 sid = (q3, r3)" by fastforce
    have "writes_only content sid (pu_conn p1) q2"
      using write_chunk_only [OF assms(1), of sid "pu_conn p1" "pc_header C" ?h b] by (simp add: q2)
    moreover have "content q3 = content q2"
      using assms(1) q3 unfolding quinn_ok_def by (metis fst_conv)
    moreover have "pu_streams p1 = pu_streams p" by (subst op(2)) simp
    ultimately show ?thesis using assms(2) p1 Inr q2 q3 op(1) op(3) [of sid]
      by (cases r2) (auto simp: send_chunk_def on_conn_def keeps_used_def dest: writes_only_other)
  qed
qed


lemma on_conn_Inr:
  assumes "on_conn f p = (p', Inr a)"
  shows "f (pu_conn p) = (pu_conn p', Inr a)" "p' = p\<lparr>pu_conn := pu_conn p'\<rparr>"
  using assms by (auto simp: on_conn_def split: prod.splits)

lemma and_then_Inr:
  assumes "and_then r f = (st', Inr b)"
  obtains st a where "r = (st, Inr a)" "f a st = (st', Inr b)"
  using assms by (auto simp: and_then_def split: prod.splits sum.splits)

lemma ensure_ctrl_inv:
  assumes Q: "quinn_ok Q content" and inv: "pump_inv content C p msgs" and e: "ensure_ctrl Q p = (p', Inr sid)"
  shows "pump_inv content C p' msgs \<and> ps_ctrl (pu_streams p') = Some sid"
proof (cases "ps_ctrl (pu_streams p)")
  case (Some sid')
  then show ?thesis using inv e by (auto simp: ensure_ctrl_def)
next
  case None
  then obtain p1 p2 where o: "on_conn (q_open_uni Q) p = (p1, Inr sid)"
    and w: "on_conn (\<lambda>q. open_stream (q_write_all Q sid) q ProtoBcast) p1 = (p2, Inr ())"
    and p': "p' = p2\<lparr>pu_streams := (pu_streams p2)\<lparr>ps_ctrl := Some sid\<rparr>\<rparr>"
    using e by (auto simp: ensure_ctrl_def elim!: and_then_Inr)
  note op = quinn_open [OF Q o] and w = on_conn_Inr [OF w]
  have st: "pu_streams p2 = pu_streams p" by (subst w(2), simp, subst op(2), simp)
  have own: "content (pu_conn p2) sid = [protocol_as_u8 ProtoBcast]"
    using byte_writer.open_stream_content [OF quinn_writer [OF Q] w(1)] op(1) op(3) [OF refl] by simp
  have other: "content (pu_conn p2) s = content (pu_conn p) s" if "s \<noteq> sid" for s
    using writes_only_other [OF open_stream_only [OF Q, where q = "pu_conn p1" and proto = ProtoBcast] that] w(1) op(1) by simp
  have "ctrl_frames msgs = []" using inv None by (simp add: pump_inv_def)
  then show ?thesis using inv None own other op(3) [OF refl] st
    by (auto simp: pump_inv_def p') metis
qed

lemma write_ctrl_inv:
  assumes Q: "quinn_ok Q content" and inv: "pump_inv content C p msgs" and w: "write_ctrl Q C p f = (p', Inr ())"
    and f: "ctrl_of msg = Some f"
  shows "pump_inv content C p' (msgs @ [msg])"
proof -
  obtain p1 sid where e: "ensure_ctrl Q p = (p1, Inr sid)"
    and c: "on_conn (\<lambda>q. write_framed (q_write_all Q sid) (pc_bcast C) q (Some f)) p1 = (p', Inr ())"
    using w by (auto simp: write_ctrl_def elim!: and_then_Inr)
  note i = ensure_ctrl_inv [OF Q inv e] and c = on_conn_Inr [OF c]
  have st: "pu_streams p' = pu_streams p1" by (subst c(2)) simp
  note own = byte_writer.write_framed_content [OF quinn_writer [OF Q] c(1)]
  have other: "content (pu_conn p') s = content (pu_conn p1) s" if "s \<noteq> sid" for s
    using writes_only_other [OF write_framed_only [OF Q, where q = "pu_conn p1" and C = "pc_bcast C" and m = "Some f"] that] c(1) by simp
  show ?thesis using i own other f st by (auto simp: pump_inv_def) metis
qed

lemma write_outbound_inv:
  assumes Q: "quinn_ok Q content" and inv: "pump_inv content C p msgs" and w: "write_outbound Q C p msg = (p', Inr ())"
  shows "pump_inv content C p' (msgs @ [msg])"
proof (cases msg)
  case (SendSessionOpen peer c m preamble upd)
  let ?fr = "Some (SessionOpenFrame c m preamble upd)"
  obtain p1 p2 p3 sid where o: "on_conn (q_open_uni Q) p = (p1, Inr sid)"
    and s: "on_conn (\<lambda>q. open_stream (q_write_all Q sid) q ProtoSess) p1 = (p2, Inr ())"
    and f: "on_conn (\<lambda>q. write_framed (q_write_all Q sid) (pc_sess C) q ?fr) p2 = (p3, Inr ())"
    and p': "pu_conn p' = pu_conn p3"
      "pu_streams p' = (pu_streams p3)\<lparr>ps_sess := bt_insert (c, m) sid (ps_sess (pu_streams p3))\<rparr>"
    using w SendSessionOpen by (auto elim!: and_then_Inr)
  note op = quinn_open [OF Q o] and s = on_conn_Inr [OF s] and f = on_conn_Inr [OF f]
  have st: "pu_streams p3 = pu_streams p" by (subst f(2), simp, subst s(2), simp, subst op(2), simp)
  have own: "content (pu_conn p3) sid \<noteq> []"
    using byte_writer.write_framed_content [OF quinn_writer [OF Q] f(1)] by (simp add: frame_bytes_def to_be_bytes32_def)
  have other: "content (pu_conn p3) x = content (pu_conn p) x" if "x \<noteq> sid" for x
    using writes_only_other [OF write_framed_only [OF Q, where q = "pu_conn p2" and C = "pc_sess C" and m = ?fr] that] f(1)
      writes_only_other [OF open_stream_only [OF Q, where q = "pu_conn p1" and proto = ProtoSess] that] s(1) op(1) by simp
  have keep: "content (pu_conn p3) x = content (pu_conn p) x" if "content (pu_conn p) x \<noteq> []" for x
    using other op(3) [OF refl] that by metis
  have ctrl: "ps_ctrl (pu_streams p) \<noteq> Some sid" using inv op(3) [OF refl] by (auto simp: pump_inv_def)
  show ?thesis using inv own keep ctrl st p' SendSessionOpen
    by (auto simp: pump_inv_def split: option.splits if_splits)
next
  case (SendRoutingUpdate peer c m payload)
  show ?thesis
  proof (cases "bt_get (ps_sess (pu_streams p)) (c, m)")
    case None
    then show ?thesis using w SendRoutingUpdate inv by (simp add: pump_inv_no_ctrl)
  next
    case (Some sid)
    then have f: "on_conn (\<lambda>q. write_framed (q_write_all Q sid) (pc_sess C) q (Some (RoutingUpdateFrame payload))) p = (p', Inr ())"
      using w SendRoutingUpdate by simp
    note f = on_conn_Inr [OF f]
    have st: "pu_streams p' = pu_streams p" by (subst f(2)) simp
    have "writes_only content sid (pu_conn p) (pu_conn p')"
      using write_framed_only [OF Q, of sid "pu_conn p" "pc_sess C" "Some (RoutingUpdateFrame payload)"] f(1) by simp
    note wo = writes_only_other [OF this] writes_only_grows [OF this]
    have ne: "content (pu_conn p) s \<noteq> [] \<Longrightarrow> content (pu_conn p') s \<noteq> []" for s
      using wo(2) [of s] by auto
    have "ps_ctrl (pu_streams p) \<noteq> Some sid" using inv Some by (auto simp: pump_inv_def)
    then have "content (pu_conn p') s = content (pu_conn p) s" if "ps_ctrl (pu_streams p) = Some s" for s
      using wo(1) that by auto
    then show ?thesis using inv ne st SendRoutingUpdate by (auto simp: pump_inv_def split: option.splits)
  qed
next
  case (SendChunk peer c m i b tok)
  obtain p1 r where c: "send_chunk Q C p c m i b = (p1, r)" by fastforce
  have "pump_inv content C p1 msgs" by (rule pump_inv_keeps [OF inv send_chunk_keeps [OF Q c]])
  moreover have "pu_conn p' = pu_conn p1" "pu_streams p' = pu_streams p1" using w SendChunk c by auto
  ultimately have "pump_inv content C p' msgs" by (auto simp: pump_inv_def split: option.splits)
  then show ?thesis using SendChunk by (simp add: pump_inv_no_ctrl)
qed (use w inv write_ctrl_inv [OF Q inv] in \<open>auto simp: pump_inv_no_ctrl\<close>)

definition fresh_pump :: "'q \<Rightarrow> 'q Pump" where
  "fresh_pump q = \<lparr>pu_conn = q, pu_streams = PeerStreams_default, pu_events = [], pu_watched = []\<rparr>"

lemma write_all_inv:
  assumes "quinn_ok Q content" "pump_inv content C p msgs"
    and "try_each (\<lambda>msg p. write_outbound Q C p msg) rest p = (p', Inr ())"
  shows "pump_inv content C p' (msgs @ rest)"
  using assms(2,3)
proof (induction rest arbitrary: p msgs)
  case (Cons msg rest)
  obtain p1 where "write_outbound Q C p msg = (p1, Inr ())"
      "try_each (\<lambda>msg p. write_outbound Q C p msg) rest p1 = (p', Inr ())"
    using Cons.prems(2) by (auto elim!: and_then_Inr)
  then show ?case using Cons.IH [OF write_outbound_inv [OF assms(1) Cons.prems(1)]] by simp
qed simp


lemma fresh_pump_inv: "pump_inv content C (fresh_pump q) []"
  by (simp add: pump_inv_def fresh_pump_def PeerStreams_default_def)

lemma map_filter_ctrl_events:
  "List.map_filter (bcast_event peer) (ctrl_frames msgs) =
     List.map_filter (\<lambda>msg. Option.bind (ctrl_of msg) (\<lambda>f. bcast_event peer (Some f))) msgs"
  by (induction msgs) (auto simp: ctrl_frames_def map_filter_simps split: option.split)

subsection \<open>Chunk streams\<close>

definition end_of :: "bytes \<Rightarrow> Reader" where
  "end_of data = \<lparr>rd_data = data, rd_end = None\<rparr>"

lemma end_of_simps [simp]: "rd_data (end_of b) = b" "rd_end (end_of b) = None" "end_error (end_of b) = UnexpectedEof"
  by (simp_all add: end_of_def end_error_def)

definition chunk_bytes :: "Codecs \<Rightarrow> Header \<Rightarrow> bytes \<Rightarrow> bytes" where
  "chunk_bytes C h payload = protocol_as_u8 ProtoChunk # frame_bytes (pb_encode (pc_header C) h) @ payload"

definition header_ok :: "Codecs \<Rightarrow> Header \<Rightarrow> bytes \<Rightarrow> bool" where
  "header_ok C h payload \<longleftrightarrow> hd_data_length h \<le> MAX_CHUNK_DATA_BYTES \<and> length payload = unat (hd_data_length h) \<and>
     length (pb_encode (pc_header C) h) \<le> MAX_FRAME_BYTES"

lemma read_selector_end_of:
  "read_selector (end_of (protocol_as_u8 ProtoChunk # rest)) = (end_of rest, Inr ProtoChunk)"
  using read_selector_byte [of "end_of (protocol_as_u8 ProtoChunk # rest)" ProtoChunk rest]
  by (simp add: end_of_def)

lemma read_chunk_stream_ok:
  assumes "codecs_ok C" "header_ok C h payload"
  shows "read_chunk_stream (pc_header C) (end_of (frame_bytes (pb_encode (pc_header C) h) @ rest)) =
    Inr (h, \<lparr>cp_reader = end_of rest, cp_remaining = ucast (hd_data_length h)\<rparr>)"
proof -
  have "read_framed (pc_header C) (end_of (frame_bytes (pb_encode (pc_header C) h) @ rest)) = (end_of rest, Inr h)"
    using assms read_framed_frame [of "pb_encode (pc_header C) h" "end_of (frame_bytes (pb_encode (pc_header C) h) @ rest)" rest "pc_header C"]
    by (simp add: header_ok_def codecs_ok_def codec_okD end_of_def)
  then show ?thesis using assms(2) by (simp add: read_chunk_stream_def header_ok_def not_less)
qed

lemma read_chunk_bytes:
  assumes "codecs_ok C" "header_ok C h payload" "pb_decode (pc_ident C) (hd_chunk_id h) = Some i" "0 \<le> sint i"
  shows "read_stream C peer expected wake cap pace (end_of (chunk_bytes C h payload)) io =
    (fst (tx_send io (EvChunk peer (hd_channel h) (hd_message_id h) i payload)), Inr ())"
proof -
  have "unat (ucast (hd_data_length h) :: u64) = length payload"
    using assms(2) by (simp add: header_ok_def unat_ucast_u32_u64)
  then have "read_to_end cap \<lparr>cp_reader = (end_of payload, pace), cp_remaining = ucast (hd_data_length h)\<rparr> [] = Inr payload"
    by (simp add: read_to_end_eq payload_result_def)
  then show ?thesis
    using read_chunk_stream_ok [OF assms(1,2), of payload] assms(3,4)
    unfolding read_stream_def chunk_bytes_def read_selector_end_of
    by (simp add: read_chunk_def u32_try_from_i32_def)
qed

lemma read_chunk_truncated:
  assumes "codecs_ok C" "header_ok C h payload" "pb_decode (pc_ident C) (hd_chunk_id h) = Some i" "0 \<le> sint i"
    and "k < length (chunk_bytes C h payload)"
  shows "read_stream C peer expected wake cap pace (end_of (take k (chunk_bytes C h payload))) io = (io, Inl UnexpectedEof)"
proof (cases k)
  case 0
  then show ?thesis by (simp add: read_stream_def read_selector_def read_exact_def)
next
  case (Suc j)
  let ?fb = "frame_bytes (pb_encode (pc_header C) h)"
  have sel: "read_selector (end_of (take k (chunk_bytes C h payload))) = (end_of (take j (?fb @ payload)), Inr ProtoChunk)"
    unfolding Suc chunk_bytes_def take_Suc_Cons by (rule read_selector_end_of)
  show ?thesis
  proof (cases "j < length ?fb")
    case True
    then have "snd (read_framed (pc_header C) (end_of (take j (?fb @ payload)))) = Inl UnexpectedEof"
      using read_framed_short [of "pb_encode (pc_header C) h" "end_of (take j (?fb @ payload))" j "pc_header C"] assms(2)
      by (simp add: header_ok_def)
    then have "read_chunk_stream (pc_header C) (end_of (take j (?fb @ payload))) = Inl UnexpectedEof"
      by (cases "read_framed (pc_header C) (end_of (take j (?fb @ payload)))") (auto simp: read_chunk_stream_def)
    then show ?thesis by (simp add: read_stream_def sel read_chunk_def)
  next
    case False
    then have "take j (?fb @ payload) = ?fb @ take (j - length ?fb) payload" by simp
    moreover have "j - length ?fb < unat (ucast (hd_data_length h) :: u64)"
      using assms(2,5) False Suc by (simp add: header_ok_def unat_ucast_u32_u64 chunk_bytes_def)
    ultimately show ?thesis using read_chunk_stream_ok [OF assms(1,2), of "take (j - length ?fb) payload"] assms(2-4)
      by (simp add: read_stream_def sel read_chunk_def u32_try_from_i32_def read_to_end_eq payload_result_def header_ok_def)
  qed
qed


lemma mem_quinn_ok [simp]: "quinn_ok mem_quinn mem_content"
proof -
  have w: "\<exists>k. mem_content (fst (q_write_all mem_quinn sid q b)) = (mem_content q)(sid := mem_content q sid @ take k b) \<and>
      (snd (q_write_all mem_quinn sid q b) = Inr () \<longrightarrow> k = length b)" for q sid b
  proof (cases "sid < length q")
    case True
    then show ?thesis
      by (intro exI [of _ "length b"]) (auto simp: mem_quinn_def mem_content_def nth_list_update)
  next
    case False
    then show ?thesis by (intro exI [of _ 0]) (auto simp: mem_quinn_def mem_content_def)
  qed
  have o: "mem_content (q @ [[]]) = mem_content q" for q by (auto simp: mem_content_def nth_append)
  show ?thesis
    unfolding quinn_ok_def using w by (auto simp: mem_quinn_def o) (simp_all add: mem_content_def)
qed

lemma send_chunk_bytes:
  assumes Q: "quinn_ok Q content" and s: "send_chunk Q C p c m i payload = (p', Inr ())"
  obtains sid where "content (pu_conn p) sid = []"
    "content (pu_conn p') = (content (pu_conn p))(sid := chunk_bytes C (chunk_header C c m i payload) payload)"
    "header_ok C (chunk_header C c m i payload) payload"
proof -
  let ?h = "chunk_header C c m i payload"
  obtain p1 p2 sid where o: "on_conn (q_open_uni Q) p = (p1, Inr sid)"
    and w: "on_conn (\<lambda>q. write_chunk (q_write_all Q sid) (pc_header C) q ?h payload) p1 = (p2, Inr ())"
    and f: "on_conn (\<lambda>q. q_finish Q q sid) p2 = (p', Inr ())"
    using s by (auto simp: send_chunk_def elim!: and_then_Inr)
  note op = quinn_open [OF Q o] and w = on_conn_Inr [OF w] and f = on_conn_Inr [OF f]
  note own = byte_writer.write_chunk_content [OF quinn_writer [OF Q] w(1)]
  have "writes_only content sid (pu_conn p1) (pu_conn p2)"
    using write_chunk_only [OF Q, where sid = sid and q = "pu_conn p1" and C = "pc_header C" and h = ?h and b = payload] w(1) by simp
  then have "content (pu_conn p2) = (content (pu_conn p1))(sid := content (pu_conn p2) sid)"
    by (auto simp: writes_only_def)
  moreover have "content (pu_conn p') = content (pu_conn p2)"
    using Q f(1) unfolding quinn_ok_def by (metis fst_conv)
  ultimately show ?thesis using that [OF op(3) [OF refl]] own op(1) op(3) [OF refl]
    by (simp add: chunk_bytes_def header_ok_def)
qed

subsection \<open>Events from arbitrary input\<close>

fun event_peer :: "NetEvent \<Rightarrow> PeerId" where
  "event_peer (EvHandshake p _ _ _) = p"
| "event_peer (EvSubscribe p _) = p"
| "event_peer (EvUnsubscribe p _) = p"
| "event_peer (EvSessionOpen p _ _ _ _) = p"
| "event_peer (EvRoutingUpdate p _ _ _) = p"
| "event_peer (EvChunk p _ _ _ _) = p"
| "event_peer (EvPeerDisconnected p) = p"
| "event_peer (EvPeerConnected p) = p"
| "event_peer (EvChunkSendResult p _ _ _ _) = p"
| "event_peer (EvPeerReconstructed p _ _) = p"
| "event_peer (EvSessionClosed p _ _) = p"

text \<open>What a stream reader for \<open>peer\<close> may report: only what that peer can say, under its pinned identity.\<close>

definition may_report :: "PeerId \<Rightarrow> string option \<Rightarrow> NetEvent \<Rightarrow> bool" where
  "may_report peer expected ev \<longleftrightarrow> event_peer ev = peer \<and>
     (case ev of
        EvHandshake _ _ _ peer_id \<Rightarrow> expected = None \<or> expected = Some peer_id
      | EvChunkSendResult _ _ _ _ _ \<Rightarrow> False
      | EvPeerConnected _ \<Rightarrow> False
      | EvPeerDisconnected _ \<Rightarrow> False
      | EvPeerReconstructed _ _ _ \<Rightarrow> False
      | EvSessionClosed _ _ _ \<Rightarrow> False
      | _ \<Rightarrow> True)"

definition reports :: "PeerId \<Rightarrow> string option \<Rightarrow> StreamIo \<Rightarrow> StreamIo \<Rightarrow> bool" where
  "reports peer expected io io' \<longleftrightarrow>
     (\<exists>evs. io_inbound io' = io_inbound io @ evs \<and> (\<forall>ev\<in>set evs. may_report peer expected ev)) \<and> io_open io' = io_open io"

lemma reports_refl [simp]: "reports peer expected io io"
  by (simp add: reports_def)

lemma reports_trans: "reports peer expected io io' \<Longrightarrow> reports peer expected io' io'' \<Longrightarrow> reports peer expected io io''"
  by (fastforce simp: reports_def)

lemma reports_send: "may_report peer expected ev \<Longrightarrow> reports peer expected io (fst (tx_send io ev))"
  by (simp add: reports_def tx_send_def)

lemma bcast_event_may_report:
  "bcast_event peer frame = Some ev \<Longrightarrow> \<not> peer_id_mismatch expected frame \<Longrightarrow> may_report peer expected ev"
  by (cases "(peer, frame)" rule: bcast_event.cases) (auto simp: may_report_def peer_id_mismatch_def split: option.splits)

lemma sess_event_may_report: "sess_event peer frame = Some ev \<Longrightarrow> may_report peer expected ev"
  by (cases "(peer, frame)" rule: sess_event.cases) (auto simp: may_report_def)

lemma bcast_loop_reports: "reports peer expected io (fst (bcast_loop C peer expected r io))"
proof (induction C peer expected r io rule: bcast_loop.induct)
  case (1 C peer expected r io)
  obtain r' res where rd: "read_frame_opt (pc_bcast C) r = (r', res)" by fastforce
  show ?case
  proof (cases "\<exists>frame. res = Inr (Some frame) \<and> \<not> peer_id_mismatch expected frame")
    case False
    then show ?thesis using rd
      by (subst bcast_loop.simps) (auto simp: reports_def split: sum.split option.split)
  next
    case True
    then obtain frame where f: "res = Inr (Some frame)" "\<not> peer_id_mismatch expected frame" by blast
    show ?thesis
    proof (cases "bcast_event peer frame")
      case None
      then show ?thesis using 1(1) [OF rd [symmetric] f(1) refl f(2) None] rd f by (subst bcast_loop.simps) simp
    next
      case (Some ev)
      note snd = reports_send [OF bcast_event_may_report [OF Some f(2)], of io]
      obtain io' ok where tx: "tx_send io ev = (io', ok)" by fastforce
      have "reports peer expected io' (fst (bcast_loop C peer expected r' io'))" if ok
        using 1(2) [OF rd [symmetric] f(1) refl f(2) Some tx [symmetric]] that by simp
      then show ?thesis using rd f Some tx snd
        by (subst bcast_loop.simps) (auto split: bool.split intro: reports_trans)
    qed
  qed
qed

lemma sess_loop_reports: "reports peer expected io (fst (sess_loop C peer wake i key r io))"
proof (induction C peer wake i key r io rule: sess_loop.induct)
  case (1 C peer wake i key r io)
  let ?w = "case key of None \<Rightarrow> False | Some k \<Rightarrow> wake i k"
  obtain r' res where rd: "read_frame_opt (pc_sess C) r = (r', res)" by fastforce
  show ?case
  proof (cases "\<not> ?w \<and> (\<exists>frame. res = Inr (Some frame))")
    case False
    then show ?thesis using rd
      by (subst sess_loop.simps) (auto simp: reports_def split: sum.split option.split)
  next
    case True
    then obtain frame where f: "\<not> ?w" "res = Inr (Some frame)" by blast
    show ?thesis
    proof (cases "sess_event peer frame")
      case None
      then show ?thesis using 1(1) [OF f(1) rd [symmetric] f(2) refl None] rd f by (subst sess_loop.simps) simp
    next
      case (Some ev)
      note snd = reports_send [OF sess_event_may_report [OF Some], of expected io]
      obtain io' ok where tx: "tx_send io ev = (io', ok)" by fastforce
      have "reports peer expected io' (fst (sess_loop C peer wake (Suc i)
          (case ev of EvSessionOpen _ channel message_id _ _ \<Rightarrow> Some (channel, message_id) | _ \<Rightarrow> key) r' io'))" if ok
        using 1(2) [OF f(1) rd [symmetric] f(2) refl Some refl tx [symmetric]] that by simp
      then show ?thesis using rd f Some tx snd
        by (subst sess_loop.simps) (auto simp: Let_def split: bool.split intro: reports_trans)
    qed
  qed
qed

lemma read_chunk_reports: "reports peer expected io (fst (read_chunk C peer cap pace r io))"
  by (auto simp: read_chunk_def may_report_def intro!: reports_send split: sum.split option.split)

lemma read_stream_reports: "reports peer expected io (fst (read_stream C peer expected wake cap pace r io))"
  by (auto simp: read_stream_def bcast_loop_reports sess_loop_reports read_chunk_reports split: prod.split sum.split Protocol.split)

subsection \<open>Properties\<close>

text \<open>
  C21. A chunk crosses the wire intact or not at all. When \<open>send_chunk\<close> succeeds for a shard index below \<open>2 ^ 31\<close> (the
  header carries the index as an \<open>i32\<close>, and a larger one is written as \<open>i32::MAX\<close>), it has filled one new
  QUIC stream and touched no other; a receiver that reads this stream, however it is fragmented,
  reports exactly one chunk event with the same channel, message, index and payload, and from a
  stream cut anywhere before its end it reports nothing but an unexpected end of file.
\<close>

theorem chunk_transfer:
  assumes "quinn_ok Q content" "codecs_ok C" "unat i < 2 ^ 31" "send_chunk Q C p c m i payload = (p', Inr ())" "io_open io"
  shows "\<exists>sid b. content (pu_conn p) sid = [] \<and> content (pu_conn p') = (content (pu_conn p))(sid := b) \<and>
    read_stream C peer expected wake cap pace \<lparr>rd_data = b, rd_end = None\<rparr> io =
      (io\<lparr>io_inbound := io_inbound io @ [EvChunk peer c m i payload]\<rparr>, Inr ()) \<and>
    (\<forall>k < length b. read_stream C peer expected wake cap pace \<lparr>rd_data = take k b, rd_end = None\<rparr> io = (io, Inl UnexpectedEof))"
proof -
  obtain sid where sid: "content (pu_conn p) sid = []"
    "content (pu_conn p') = (content (pu_conn p))(sid := chunk_bytes C (chunk_header C c m i payload) payload)"
    and h: "header_ok C (chunk_header C c m i payload) payload"
    by (rule send_chunk_bytes [OF assms(1,4)])
  have "i32_saturating i = i" using assms(3) by (simp add: i32_saturating_def i32_try_from_nat_def)
  then have d: "pb_decode (pc_ident C) (hd_chunk_id (chunk_header C c m i payload)) = Some i"
    using assms(2) by (simp add: chunk_header_def codecs_ok_def codec_okD)
  have "0 \<le> sint i" using assms(3) by (simp add: unat_nonneg_i32)
  note rd = read_chunk_bytes [OF assms(2) h d this] read_chunk_truncated [OF assms(2) h d this]
  show ?thesis
    using sid rd assms(5) by (intro exI [of _ sid] exI [of _ "chunk_bytes C (chunk_header C c m i payload) payload"])
      (simp add: end_of_def tx_send_def chunk_header_def)
qed


definition demo_io :: StreamIo where
  "demo_io = \<lparr>io_inbound = [], io_open = True, io_close = None, io_stop = None\<rparr>"

theorem chunk_transfer_witness:
  "\<exists>sid b. mem_content [] sid = [] \<and>
     read_stream demo_codecs 4 None (\<lambda>_ _. False) 0 [1, 0, 2] \<lparr>rd_data = b, rd_end = None\<rparr> demo_io =
       (demo_io\<lparr>io_inbound := [EvChunk 4 ''c'' ''m'' 7 [1, 2, 3]]\<rparr>, Inr ())"
proof -
  obtain p' where s: "send_chunk mem_quinn demo_codecs (fresh_pump []) ''c'' ''m'' 7 [1, 2, 3] = (p', Inr ())"
  proof -
    have "snd (send_chunk mem_quinn demo_codecs (fresh_pump []) ''c'' ''m'' 7 [1, 2, 3]) = Inr ()" by code_simp
    then show ?thesis using that by (metis prod.collapse)
  qed
  from chunk_transfer [OF mem_quinn_ok demo_codecs_ok _ s, of demo_io 4 None "\<lambda>_ _. False" 0 "[1, 0, 2]"]
  show ?thesis by (auto simp: demo_io_def fresh_pump_def)
qed

text \<open>
  C22. The control stream preserves order. After any sequence of outbound messages was written without
  error, control messages interleaved with session and chunk traffic, reading the peer's control
  stream yields exactly the handshake, subscribe and unsubscribe events, in the order sent.
\<close>

theorem control_stream_roundtrip:
  assumes "quinn_ok Q content" "codecs_ok C"
    and "try_each (\<lambda>msg p. write_outbound Q C p msg) msgs (fresh_pump q) = (p', Inr ())"
    and "ps_ctrl (pu_streams p') = Some sid" "io_open io"
  shows "read_stream C peer None wake cap pace \<lparr>rd_data = content (pu_conn p') sid, rd_end = None\<rparr> io =
    (io\<lparr>io_inbound := io_inbound io @
       List.map_filter (\<lambda>msg. Option.bind (ctrl_of msg) (\<lambda>f. bcast_event peer (Some f))) msgs\<rparr>, Inr ())"
proof -
  have "pump_inv content C p' msgs"
    using write_all_inv [OF assms(1) fresh_pump_inv assms(3)] by simp
  then have c: "content (pu_conn p') sid = protocol_as_u8 ProtoBcast # frames (pc_bcast C) (ctrl_frames msgs)"
    and f: "fit (pc_bcast C) (ctrl_frames msgs)"
    using assms(4) by (simp_all add: pump_inv_def)
  have "read_selector \<lparr>rd_data = content (pu_conn p') sid, rd_end = None\<rparr> =
      (\<lparr>rd_data = frames (pc_bcast C) (ctrl_frames msgs), rd_end = None\<rparr>, Inr ProtoBcast)"
    using read_selector_byte [of "\<lparr>rd_data = content (pu_conn p') sid, rd_end = None\<rparr>" ProtoBcast] by (simp add: c)
  then show ?thesis
    using bcast_loop_frames [OF _ f, of "\<lparr>rd_data = frames (pc_bcast C) (ctrl_frames msgs), rd_end = None\<rparr>" io peer] assms(2,5)
    by (simp add: read_stream_def map_filter_ctrl_events codecs_ok_def)
qed

definition demo_msgs :: "NetSend list" where
  "demo_msgs = [SendHandshake 4 1 [''c''] ''peer-1'', SendChunk 4 ''c'' ''m'' 0 [8] 0, SendSubscribe 4 ''d'']"

definition demo_pump :: "bytes list Pump" where
  "demo_pump = fst (try_each (\<lambda>msg p. write_outbound mem_quinn demo_codecs p msg) demo_msgs (fresh_pump []))"

theorem control_stream_roundtrip_witness:
  "read_stream demo_codecs 9 None (\<lambda>_ _. False) 0 [] \<lparr>rd_data = mem_content (pu_conn demo_pump) 0, rd_end = None\<rparr> demo_io =
    (demo_io\<lparr>io_inbound := [EvHandshake 9 1 [''c''] ''peer-1'', EvSubscribe 9 ''d'']\<rparr>, Inr ())"
proof -
  have "snd (try_each (\<lambda>msg p. write_outbound mem_quinn demo_codecs p msg) demo_msgs (fresh_pump [])) = Inr ()"
    "ps_ctrl (pu_streams demo_pump) = Some 0" by code_simp+
  then have t: "try_each (\<lambda>msg p. write_outbound mem_quinn demo_codecs p msg) demo_msgs (fresh_pump []) = (demo_pump, Inr ())"
    and c: "ps_ctrl (pu_streams demo_pump) = Some 0" by (simp_all add: demo_pump_def prod_eq_iff)
  from control_stream_roundtrip [OF mem_quinn_ok demo_codecs_ok t c, of demo_io 9 "\<lambda>_ _. False" 0 "[]"]
  show ?thesis by (simp add: demo_io_def demo_msgs_def map_filter_simps)
qed

text \<open>
  C24. A session stream. After a \<open>SessionOpen\<close> was written, its stream is new, kept for the session and
  watched; its reader reports exactly that session, and stops the stream with the reconstructed
  code exactly if the local node is done with the session at its next \<open>select!\<close>; the sender turns this code
  into \<open>PeerReconstructed\<close> and every other one into \<open>SessionClosed\<close>.
\<close>

theorem session_stream_roundtrip:
  assumes "quinn_ok Q content" "codecs_ok C" "write_outbound Q C p (SendSessionOpen dst c m preamble upd) = (p', Inr ())"
    and "io_open io"
  shows "\<exists>sid. content (pu_conn p) sid = [] \<and> bt_get (ps_sess (pu_streams p')) (c, m) = Some sid \<and>
    (sid, dst, c, m) \<in> set (pu_watched p') \<and>
    read_stream C peer expected wake cap pace \<lparr>rd_data = content (pu_conn p') sid, rd_end = None\<rparr> io =
      (io\<lparr>io_inbound := io_inbound io @ [EvSessionOpen peer c m preamble upd],
          io_stop := (if wake 1 (c, m) then Some ERR_RECONSTRUCTED else io_stop io)\<rparr>, Inr ()) \<and>
    sess_reset_event dst c m (Inr (Some code)) =
      Some (if code = ERR_RECONSTRUCTED then EvPeerReconstructed dst c m else EvSessionClosed dst c m)"
proof -
  let ?fr = "Some (SessionOpenFrame c m preamble upd)"
  obtain p1 p2 p3 sid where o: "on_conn (q_open_uni Q) p = (p1, Inr sid)"
    and s: "on_conn (\<lambda>q. open_stream (q_write_all Q sid) q ProtoSess) p1 = (p2, Inr ())"
    and f: "on_conn (\<lambda>q. write_framed (q_write_all Q sid) (pc_sess C) q ?fr) p2 = (p3, Inr ())"
    and p': "p' = p3\<lparr>pu_watched := pu_watched p3 @ [(sid, dst, c, m)],
          pu_streams := (pu_streams p3)\<lparr>ps_sess := bt_insert (c, m) sid (ps_sess (pu_streams p3))\<rparr>\<rparr>"
    using assms(3) by (auto elim!: and_then_Inr)
  note op = quinn_open [OF assms(1) o] and s = on_conn_Inr [OF s] and f = on_conn_Inr [OF f]
  note own = byte_writer.write_framed_content [OF quinn_writer [OF assms(1)] f(1)]
    and sel = byte_writer.open_stream_content [OF quinn_writer [OF assms(1)] s(1)]
  have c: "content (pu_conn p') sid = protocol_as_u8 ProtoSess # frames (pc_sess C) [?fr]"
    using own(2) sel op(1) op(3) [OF refl] by (simp add: p')
  let ?r = "\<lparr>rd_data = frames (pc_sess C) [?fr], rd_end = None\<rparr>"
  have rs: "read_selector \<lparr>rd_data = content (pu_conn p') sid, rd_end = None\<rparr> = (?r, Inr ProtoSess)"
    using read_selector_byte [of "\<lparr>rd_data = content (pu_conn p') sid, rd_end = None\<rparr>" ProtoSess] by (simp add: c)
  have rf: "read_frame_opt (pc_sess C) ?r = (\<lparr>rd_data = [], rd_end = None\<rparr>, Inr (Some ?fr))"
    using read_frame_opt_frames [of "pc_sess C" ?fr "[]" ?r "[]"] own(1) assms(2) by (simp add: codecs_ok_def)
  have "sess_loop C peer wake 0 None ?r io =
      sess_loop C peer wake 1 (Some (c, m)) \<lparr>rd_data = [], rd_end = None\<rparr> (io\<lparr>io_inbound := io_inbound io @ [EvSessionOpen peer c m preamble upd]\<rparr>)"
    using assms(4) rf by (subst sess_loop.simps) (simp add: tx_send_def)
  also have "\<dots> = (io\<lparr>io_inbound := io_inbound io @ [EvSessionOpen peer c m preamble upd],
          io_stop := (if wake 1 (c, m) then Some ERR_RECONSTRUCTED else io_stop io)\<rparr>, Inr ())"
    by (subst sess_loop.simps) (simp add: read_frame_opt_end)
  finally show ?thesis using op(3) [OF refl] rs
    by (intro exI [of _ sid]) (simp add: read_stream_def p' sess_reset_event_def)
qed

theorem session_stream_roundtrip_witness:
  "\<exists>p' sid. write_outbound mem_quinn demo_codecs (fresh_pump []) (SendSessionOpen 4 ''c'' ''m'' [1] []) = (p', Inr ()) \<and>
    read_stream demo_codecs 9 None (\<lambda>_ _. True) 0 [] \<lparr>rd_data = mem_content (pu_conn p') sid, rd_end = None\<rparr> demo_io =
     (demo_io\<lparr>io_inbound := [EvSessionOpen 9 ''c'' ''m'' [1] []], io_stop := Some 1\<rparr>, Inr ())"
proof -
  obtain p' where w: "write_outbound mem_quinn demo_codecs (fresh_pump []) (SendSessionOpen 4 ''c'' ''m'' [1] []) = (p', Inr ())"
  proof -
    have "snd (write_outbound mem_quinn demo_codecs (fresh_pump []) (SendSessionOpen 4 ''c'' ''m'' [1] [])) = Inr ()" by code_simp
    then show ?thesis using that by (metis prod.collapse)
  qed
  from session_stream_roundtrip [OF mem_quinn_ok demo_codecs_ok w, of demo_io 9 None "\<lambda>_ _. True" 0 "[]"]
  show ?thesis using w by (auto simp: demo_io_def ERR_RECONSTRUCTED_def)
qed


text \<open>
  C23. A peer speaks only for itself. Whatever bytes arrive on a stream before it ends, its reader returns, reports only
  events tagged with the connection's own peer id and of the kinds a peer may cause, and a
  connection dialed with a pinned identity never yields a handshake under another identity.
\<close>

theorem inbound_events_authentic:
  assumes "read_stream C peer expected wake cap pace r io = (io', res)"
  shows "\<exists>evs. io_inbound io' = io_inbound io @ evs \<and>
    (\<forall>ev\<in>set evs. event_peer ev = peer \<and>
      (\<forall>p v cs peer_id. ev = EvHandshake p v cs peer_id \<longrightarrow> expected = None \<or> expected = Some peer_id) \<and>
      (\<forall>p. ev \<noteq> EvPeerConnected p \<and> ev \<noteq> EvPeerDisconnected p) \<and>
      (\<forall>p c m t ok. ev \<noteq> EvChunkSendResult p c m t ok) \<and>
      (\<forall>p c m. ev \<noteq> EvPeerReconstructed p c m \<and> ev \<noteq> EvSessionClosed p c m))"
proof -
  obtain evs where e: "io_inbound io' = io_inbound io @ evs" "\<forall>ev\<in>set evs. may_report peer expected ev"
    using read_stream_reports [of peer expected io C wake cap pace r] assms by (auto simp: reports_def)
  show ?thesis by (rule exI [of _ evs]) (use e in \<open>auto simp: may_report_def split: NetEvent.splits\<close>)
qed

definition spoofed_stream :: Reader where
  "spoofed_stream = \<lparr>rd_data = protocol_as_u8 ProtoBcast # frame_bytes (enc_bcast (Some (PeerHandshake 1 [] ''mallory''))), rd_end = None\<rparr>"

theorem inbound_events_authentic_witness:
  "io_close (fst (read_stream demo_codecs 9 (Some ''alice'') (\<lambda>_ _. False) 0 [] spoofed_stream demo_io)) = Some 2 \<and>
   (\<forall>v cs. EvHandshake 9 v cs ''mallory'' \<notin>
     set (io_inbound (fst (read_stream demo_codecs 9 (Some ''alice'') (\<lambda>_ _. False) 0 [] spoofed_stream demo_io))))"
proof (intro conjI allI)
  let ?rs = "read_stream demo_codecs 9 (Some ''alice'') (\<lambda>_ _. False) 0 [] spoofed_stream demo_io"
  have "read_selector spoofed_stream =
      (\<lparr>rd_data = frames (pc_bcast demo_codecs) [Some (PeerHandshake 1 [] ''mallory'')], rd_end = None\<rparr>, Inr ProtoBcast)"
    using read_selector_byte [of spoofed_stream ProtoBcast] by (simp add: spoofed_stream_def demo_codecs_def codec_of_def)
  moreover have "fit (pc_bcast demo_codecs) [Some (PeerHandshake 1 [] ''mallory'')]"
    by (simp add: demo_codecs_def codec_of_def enc_char_def MAX_FRAME_BYTES_def)
  then have "read_frame_opt (pc_bcast demo_codecs) \<lparr>rd_data = frames (pc_bcast demo_codecs) [Some (PeerHandshake 1 [] ''mallory'')], rd_end = None\<rparr> =
      (\<lparr>rd_data = [], rd_end = None\<rparr>, Inr (Some (Some (PeerHandshake 1 [] ''mallory''))))"
    using read_frame_opt_frames [of "pc_bcast demo_codecs" _ "[]" _ "[]"] demo_codecs_ok by (simp add: codecs_ok_def)
  ultimately show "io_close (fst ?rs) = Some 2"
    by (simp add: read_stream_def bcast_loop.simps [of _ _ _ "\<lparr>rd_data = frame_bytes _, rd_end = None\<rparr>"]
        peer_id_mismatch_def PEER_ID_MISMATCH_CLOSE_def)
  fix v cs
  obtain io' res where rs: "?rs = (io', res)" by fastforce
  from inbound_events_authentic [OF rs] show "EvHandshake 9 v cs ''mallory'' \<notin> set (io_inbound (fst ?rs))"
    unfolding rs by (auto simp: demo_io_def)
qed

text \<open>
  C25. The tracker of reconstructed sessions is a bounded queue: recording a session always leaves it
  tracked, at most 8192 are tracked, and only the oldest ones are evicted to make room.
\<close>

theorem tracker_fifo:
  assumes "tracker_inv t"
  shows "tracker_inv (ResetState_record t key) \<and> ResetState_is_reconstructed (ResetState_record t key) key \<and>
    length (rt_order (ResetState_record t key)) \<le> 8192 \<and>
    rt_order (ResetState_record t key) =
      (if key \<in> set (rt_order t) then rt_order t
       else if length (rt_order t) < 8192 then rt_order t @ [key] else tl (rt_order t) @ [key])"
proof -
  note r = record_effect [OF assms, of key]
  have len: "length (rt_order t) \<le> 8192" using assms by (simp add: tracker_inv_def MAX_RECONSTRUCTED_TRACKED_def)
  have order: "rt_order (ResetState_record t key) =
      (if key \<in> set (rt_order t) then rt_order t
       else if length (rt_order t) < 8192 then rt_order t @ [key] else tl (rt_order t) @ [key])"
    using len by (auto simp: r(1) MAX_RECONSTRUCTED_TRACKED_def drop_Suc)
  moreover have "length (rt_order (ResetState_record t key)) \<le> 8192"
    using r(2) by (simp add: tracker_inv_def MAX_RECONSTRUCTED_TRACKED_def)
  moreover have "key \<in> set (rt_order (ResetState_record t key))" using order by auto
  ultimately show ?thesis using r(2,3) by simp
qed

theorem tracker_fifo_witness:
  "rt_order (ResetState_record (ResetState_record ReconstructedTracker_default (''c'', ''m'')) (''c'', ''n'')) =
     [(''c'', ''m''), (''c'', ''n'')]"
proof -
  have "tracker_inv ReconstructedTracker_default" by (simp add: tracker_inv_def ReconstructedTracker_default_def)
  from tracker_fifo [OF this, of "(''c'', ''m'')"]
  have i: "tracker_inv (ResetState_record ReconstructedTracker_default (''c'', ''m''))"
    and o: "rt_order (ResetState_record ReconstructedTracker_default (''c'', ''m'')) = [(''c'', ''m'')]"
    by (simp_all add: ReconstructedTracker_default_def)
  show ?thesis using tracker_fifo [OF i, of "(''c'', ''n'')"] by (simp add: o)
qed

text \<open>
  A failed write loses the peer's session streams. After \<open>write_outbound\<close> fails, the pump forgets every stream, and
  until a new \<open>SessionOpen\<close> is sent each routing update is dropped without an error, though the
  comment in \<open>peer_pump\<close> says that streams reopen on next use.
\<close>

theorem failed_write_drops_updates:
  assumes "write_outbound Q C p msg = (p1, Inl err)"
  shows "write_outbound Q C (pump_message Q C msg p) (SendRoutingUpdate dst c m payload) = (pump_message Q C msg p, Inr ())"
  using assms by (simp add: pump_message_def PeerStreams_default_def)

definition broken_quinn :: "bytes list Quinn" where
  "broken_quinn = mem_quinn\<lparr>q_open_uni := (\<lambda>q. (q, Inl IoOther))\<rparr>"

theorem failed_write_drops_updates_witness:
  "write_outbound broken_quinn demo_codecs
     (pump_message broken_quinn demo_codecs (SendSubscribe 4 ''c'') (fresh_pump [])) (SendRoutingUpdate 4 ''c'' ''m'' [1]) =
   (pump_message broken_quinn demo_codecs (SendSubscribe 4 ''c'') (fresh_pump []), Inr ())"
  by (rule failed_write_drops_updates [where err = IoOther])
    (simp add: broken_quinn_def write_ctrl_def ensure_ctrl_def fresh_pump_def PeerStreams_default_def on_conn_def)

text \<open>
  A frame cut off by the end of the stream is taken for a clean end: \<open>read_frame_opt\<close> returns \<open>None\<close>, not
  an error, wherever in the frame the stream ends, so a truncated control or session stream is
  indistinguishable from a finished one.
\<close>

theorem truncated_frame_is_clean_end:
  assumes "length body \<le> MAX_FRAME_BYTES" "k < length (frame_bytes body)"
  shows "snd (read_frame_opt C \<lparr>rd_data = take k (frame_bytes body), rd_end = None\<rparr>) = Inr None"
  using read_framed_short [OF assms(1), of "\<lparr>rd_data = take k (frame_bytes body), rd_end = None\<rparr>" k C] assms(2)
  by (auto simp: read_frame_opt_def end_error_def split: prod.split)

theorem truncated_frame_is_clean_end_witness:
  "snd (read_frame_opt raw_codec \<lparr>rd_data = take 5 (frame_bytes [1, 2, 3]), rd_end = None\<rparr>) = Inr None"
  by (rule truncated_frame_is_clean_end) (simp_all add: MAX_FRAME_BYTES_def)

end
