(* ===== verification/QuicEndpoint.thy ===== *)
theory QuicEndpoint
  imports TransportProofs
begin

text \<open>
  \<open>ethp2p-transport/src/lib.rs\<close> and \<open>config.rs\<close>: the life of a QUIC endpoint. Binding, accepting, dialing,
  closing and the event stream are operations. The tasks the endpoint runs (the accept loop and the dialing callers, one
  outbound pump, one connection reader and any number of stream readers per connection, and the callers of \<open>send\<close>) interleave
  in the step relation \<open>quic_reachable\<close>, whose steps are the single accesses to the shared state. What \<open>quinn\<close>, \<open>rustls\<close> and the operating system answer is an argument.
\<close>

subsection \<open>Configuration and binding\<close>

definition ALPN :: bytes where
  "ALPN = map of_char ''eth-ec-broadcast''"

record QuicNetConfig =
  qc_alpn :: bytes
  qc_max_idle_timeout :: Duration
  qc_keep_alive_interval :: Duration

definition QuicNetConfig_default :: QuicNetConfig where
  "QuicNetConfig_default = \<lparr>qc_alpn = ALPN, qc_max_idle_timeout = from_secs 30, qc_keep_alive_interval = from_secs 10\<rparr>"

definition MAX_CONCURRENT_UNI_STREAMS :: u32 where
  "MAX_CONCURRENT_UNI_STREAMS = 4096"

text \<open>The transport parameters handed to \<open>quinn\<close>, and what binding needs of \<open>quinn\<close>, \<open>rustls\<close> and the system.\<close>

record TransportConfig =
  tc_max_idle_timeout :: "Duration option"
  tc_keep_alive_interval :: "Duration option"
  tc_max_concurrent_uni_streams :: u32

record 'addr Platform =
  pf_idle_timeout :: "Duration \<Rightarrow> IoError + Duration"
  pf_server_config :: "bytes \<Rightarrow> IoError + unit"
  pf_endpoint :: "'addr \<Rightarrow> IoError + unit"
  pf_client_config :: "bytes \<Rightarrow> IoError + unit"

text \<open>
  The tasks of a connection. \<open>register_peer\<close> inserts the sender of the outbound queue, announces the peer, spawns the pump
  and spawns the connection reader; the reader loops until the connection is lost, when it removes the sender and then
  reports the disconnect. The constructor names what the connection does next.
\<close>

datatype ConnPC = JoinInsert | JoinAnnounce | JoinSpawnPump | JoinSpawnReader | ReaderLoop | ReaderReport | ReaderEnded

record Conn =
  cn_expected :: "string option"
  cn_pc :: ConnPC

text \<open>
  An endpoint: the shared network state, its transport parameters, whether the receiver of the event
  channel is still in its slot, whether the endpoint is open, every connection that got a peer id, the queues whose sender was
  removed from the table (they live on for their pump and for callers that hold a clone of the sender), and the
  callers of \<open>send\<close> that have cloned a sender and not yet used it.
\<close>

record QuicEndpoint =
  qe_net :: QuicNet
  qe_transport :: TransportConfig
  qe_inbound_rx :: bool
  qe_open :: bool
  qe_conns :: "(PeerId, Conn) btree_map"
  qe_detached :: "(PeerId, PeerQueue) btree_map"
  qe_sending :: "(PeerId \<times> NetSend) list"

definition QuicNet_bind_with_config :: "'addr Platform \<Rightarrow> 'addr \<Rightarrow> QuicNetConfig \<Rightarrow> IoError + QuicEndpoint" where
  "QuicNet_bind_with_config P bind_addr config =
     result_bind (pf_idle_timeout P (qc_max_idle_timeout config)) (\<lambda>idle.
     result_bind (pf_server_config P (qc_alpn config)) (\<lambda>_.
     result_bind (pf_endpoint P bind_addr) (\<lambda>_.
     result_bind (pf_client_config P (qc_alpn config)) (\<lambda>_.
       Inr \<lparr>qe_net = \<lparr>qn_peer_senders = bt_empty, qn_next_peer_id = 1, qn_reset = ReconstructedTracker_default, qn_inbound = []\<rparr>,
            qe_transport = \<lparr>tc_max_idle_timeout = Some idle, tc_keep_alive_interval = Some (qc_keep_alive_interval config),
              tc_max_concurrent_uni_streams = MAX_CONCURRENT_UNI_STREAMS\<rparr>,
            qe_inbound_rx = True, qe_open = True, qe_conns = bt_empty, qe_detached = bt_empty, qe_sending = []\<rparr>))))"

definition QuicNet_bind :: "'addr Platform \<Rightarrow> 'addr \<Rightarrow> IoError + QuicEndpoint" where
  "QuicNet_bind P bind_addr = QuicNet_bind_with_config P bind_addr QuicNetConfig_default"

subsection \<open>Connections\<close>

definition pc_of :: "QuicEndpoint \<Rightarrow> PeerId \<Rightarrow> ConnPC option" where
  "pc_of e peer = map_option cn_pc (bt_get (qe_conns e) peer)"

definition set_pc :: "PeerId \<Rightarrow> ConnPC \<Rightarrow> QuicEndpoint \<Rightarrow> QuicEndpoint" where
  "set_pc peer pc e =
     (case bt_get (qe_conns e) peer of
        None \<Rightarrow> e
      | Some cn \<Rightarrow> e\<lparr>qe_conns := bt_insert peer (cn\<lparr>cn_pc := pc\<rparr>) (qe_conns e)\<rparr>)"

text \<open>An established connection gets its peer id, by \<open>fetch_add\<close> on the counter; then it is registered, one access at a time.\<close>

definition assign_peer_id :: "QuicEndpoint \<Rightarrow> string option \<Rightarrow> QuicEndpoint \<times> PeerId" where
  "assign_peer_id e expected =
     (case fetch_peer_id (qe_net e) of (n, peer) \<Rightarrow>
       (e\<lparr>qe_net := n, qe_conns := bt_insert peer \<lparr>cn_expected = expected, cn_pc = JoinInsert\<rparr> (qe_conns e)\<rparr>, peer))"

definition join_step :: "PeerId \<Rightarrow> QuicEndpoint \<Rightarrow> QuicEndpoint" where
  "join_step peer e =
     (case pc_of e peer of
        Some JoinInsert \<Rightarrow> set_pc peer JoinAnnounce (e\<lparr>qe_net := insert_sender (qe_net e) peer\<rparr>)
      | Some JoinAnnounce \<Rightarrow> set_pc peer JoinSpawnPump (e\<lparr>qe_net := send_inbound (qe_net e) (EvPeerConnected peer)\<rparr>)
      | Some JoinSpawnPump \<Rightarrow> set_pc peer JoinSpawnReader e
      | Some JoinSpawnReader \<Rightarrow> set_pc peer ReaderLoop e
      | _ \<Rightarrow> e)"

text \<open>The same without interruption: the four accesses of \<open>register_peer\<close>.\<close>

definition add_connection :: "QuicEndpoint \<Rightarrow> string option \<Rightarrow> QuicEndpoint \<times> PeerId" where
  "add_connection e expected =
     (case assign_peer_id e expected of (e, peer) \<Rightarrow>
       (join_step peer (join_step peer (join_step peer (join_step peer e))), peer))"

text \<open>One turn of the accept loop, with the outcome of the handshake; inbound connections are never pinned.\<close>

definition accept_incoming :: "QuicEndpoint \<Rightarrow> IoError + unit \<Rightarrow> QuicEndpoint" where
  "accept_incoming e incoming =
     (case incoming of
        Inr _ \<Rightarrow> fst (add_connection e None)
      | Inl _ \<Rightarrow> e)"

definition QuicNet_dial :: "QuicEndpoint \<Rightarrow> IoError + unit \<Rightarrow> IoError + unit \<Rightarrow> string option \<Rightarrow> QuicEndpoint \<times> (IoError + PeerId)" where
  "QuicNet_dial e connect connecting expected =
     (case connect of
        Inl _ \<Rightarrow> (e, Inl IoOther)
      | Inr _ \<Rightarrow>
          (case connecting of
             Inl _ \<Rightarrow> (e, Inl IoOther)
           | Inr _ \<Rightarrow> (case add_connection e expected of (e, peer) \<Rightarrow> (e, Inr peer))))"

definition QuicNet_connect :: "QuicEndpoint \<Rightarrow> IoError + unit \<Rightarrow> IoError + unit \<Rightarrow> QuicEndpoint \<times> (IoError + PeerId)" where
  "QuicNet_connect e connect connecting = QuicNet_dial e connect connecting None"

definition QuicNet_connect_expecting ::
  "QuicEndpoint \<Rightarrow> IoError + unit \<Rightarrow> IoError + unit \<Rightarrow> string \<Rightarrow> QuicEndpoint \<times> (IoError + PeerId)" where
  "QuicNet_connect_expecting e connect connecting expected_peer_id =
     QuicNet_dial e connect connecting (Some expected_peer_id)"

definition QuicNet_close :: "QuicEndpoint \<Rightarrow> QuicEndpoint" where
  "QuicNet_close e = e\<lparr>qe_open := False\<rparr>"

text \<open>Taking the event stream; a second call panics.\<close>

definition QuicNet_events :: "QuicEndpoint \<Rightarrow> QuicEndpoint option" where
  "QuicNet_events e = (if qe_inbound_rx e then Some (e\<lparr>qe_inbound_rx := False\<rparr>) else None)"

text \<open>
  The connection reader. A stream is handed to a new stream reader; the loss of the connection ends the loop: first the
  sender is removed, then the disconnect is reported.
\<close>

definition detach_queue :: "PeerId \<Rightarrow> QuicEndpoint \<Rightarrow> QuicEndpoint" where
  "detach_queue peer e =
     e\<lparr>qe_net := remove_sender (qe_net e) peer,
       qe_detached := (case bt_get (qn_peer_senders (qe_net e)) peer of
           None \<Rightarrow> qe_detached e
         | Some q \<Rightarrow> bt_insert peer q (qe_detached e))\<rparr>"

definition reader_step :: "PeerId \<Rightarrow> IoError + unit \<Rightarrow> QuicEndpoint \<Rightarrow> QuicEndpoint" where
  "reader_step peer accept_uni e =
     (case pc_of e peer of
        Some ReaderLoop \<Rightarrow>
          (case accept_uni of
             Inr _ \<Rightarrow> e
           | Inl _ \<Rightarrow> set_pc peer ReaderReport (detach_queue peer e))
      | Some ReaderReport \<Rightarrow> set_pc peer ReaderEnded (e\<lparr>qe_net := send_inbound (qe_net e) (EvPeerDisconnected peer)\<rparr>)
      | _ \<Rightarrow> e)"

text \<open>One turn of its loop without interruption.\<close>

definition conn_reader_turn :: "QuicEndpoint \<Rightarrow> PeerId \<Rightarrow> IoError + unit \<Rightarrow> QuicEndpoint" where
  "conn_reader_turn e peer accept_uni =
     (case accept_uni of
        Inr _ \<Rightarrow> e
      | Inl err \<Rightarrow> reader_step peer (Inl err) (reader_step peer (Inl err) e))"

text \<open>
  \<open>send\<close> takes two accesses: the sender of the queue is cloned under the lock of the table (or \<open>send\<close> returns at
  once), and then used. The queue may have been detached in the meantime.
\<close>

definition queue_of :: "QuicEndpoint \<Rightarrow> PeerId \<Rightarrow> PeerQueue option" where
  "queue_of e peer =
     (case bt_get (qn_peer_senders (qe_net e)) peer of
        Some q \<Rightarrow> Some q
      | None \<Rightarrow> bt_get (qe_detached e) peer)"

definition set_queue :: "PeerId \<Rightarrow> PeerQueue \<Rightarrow> QuicEndpoint \<Rightarrow> QuicEndpoint" where
  "set_queue peer q e =
     (case bt_get (qn_peer_senders (qe_net e)) peer of
        Some _ \<Rightarrow> e\<lparr>qe_net := (qe_net e)\<lparr>qn_peer_senders := bt_insert peer q (qn_peer_senders (qe_net e))\<rparr>\<rparr>
      | None \<Rightarrow> e\<lparr>qe_detached := bt_insert peer q (qe_detached e)\<rparr>)"

definition send_lookup :: "QuicEndpoint \<Rightarrow> NetSend \<Rightarrow> QuicEndpoint \<times> (NetError + unit) option" where
  "send_lookup e msg =
     (case msg of
        SendSessionReconstructed c m \<Rightarrow>
          (e\<lparr>qe_net := (qe_net e)\<lparr>qn_reset := ResetState_record (qn_reset (qe_net e)) (c, m)\<rparr>\<rparr>, Some (Inr ()))
      | _ \<Rightarrow>
          (case dest_peer msg of
             None \<Rightarrow> (e, Some (Inr ()))
           | Some dst \<Rightarrow>
               (case bt_get (qn_peer_senders (qe_net e)) dst of
                  None \<Rightarrow> (e, Some (Inl (PeerNotFound dst)))
                | Some _ \<Rightarrow> (e\<lparr>qe_sending := (dst, msg) # qe_sending e\<rparr>, None))))"

definition send_enqueue :: "PeerId \<Rightarrow> NetSend \<Rightarrow> QuicEndpoint \<Rightarrow> QuicEndpoint \<times> (NetError + unit)" where
  "send_enqueue dst msg e =
     (let e = e\<lparr>qe_sending := remove1 (dst, msg) (qe_sending e)\<rparr> in
      case queue_of e dst of
        None \<Rightarrow> (e, Inl (PeerNotFound dst))
      | Some sender \<Rightarrow>
          (case PeerQueue_try_send sender msg of
             (q, Inr _) \<Rightarrow> (set_queue dst q e, Inr ())
           | (_, Inl QueueFull) \<Rightarrow> (e, Inl (Backpressure dst))
           | (_, Inl QueueClosed) \<Rightarrow> (e, Inl (PeerNotFound dst))))"

text \<open>A task sends an event into the channel of the endpoint; the pump takes a message out of its queue.\<close>

definition report_event :: "QuicEndpoint \<Rightarrow> NetEvent \<Rightarrow> QuicEndpoint" where
  "report_event e ev = e\<lparr>qe_net := send_inbound (qe_net e) ev\<rparr>"

definition run_pump :: "QuicEndpoint \<Rightarrow> PeerId \<Rightarrow> QuicEndpoint" where
  "run_pump e peer =
     (case queue_of e peer of
        None \<Rightarrow> e
      | Some q \<Rightarrow> set_queue peer (q\<lparr>pq_items := tl (pq_items q)\<rparr>) e)"

text \<open>The pump and the reader of a connection exist from the moment they are spawned.\<close>

fun pump_spawned :: "ConnPC \<Rightarrow> bool" where
  "pump_spawned JoinInsert = False"
| "pump_spawned JoinAnnounce = False"
| "pump_spawned JoinSpawnPump = False"
| "pump_spawned _ = True"

fun reader_spawned :: "ConnPC \<Rightarrow> bool" where
  "reader_spawned ReaderLoop = True"
| "reader_spawned ReaderReport = True"
| "reader_spawned ReaderEnded = True"
| "reader_spawned _ = False"

text \<open>
  Interleavings. \<open>quic_reachable P Q k e\<close>: the endpoint \<open>e\<close> arises from a bound one by \<open>k\<close> established connections, dialed
  with the expected identity or accepted without one, and any
  number of other steps. A stream reader may report, at any moment, any event that some run of
  \<open>read_stream\<close> for its peer reports; a pump the events of some run of \<open>peer_pump\<close> on messages for its
  peer; the task watching a session stream what \<open>sess_reset_event\<close> yields.
\<close>

inductive quic_reachable :: "'addr Platform \<Rightarrow> 'q Quinn \<Rightarrow> nat \<Rightarrow> QuicEndpoint \<Rightarrow> bool" for P Q where
  bound: "QuicNet_bind_with_config P addr config = Inr e \<Longrightarrow> quic_reachable P Q 0 e"
| established: "quic_reachable P Q k e \<Longrightarrow> quic_reachable P Q (Suc k) (fst (assign_peer_id e expected))"
| joining: "quic_reachable P Q k e \<Longrightarrow> quic_reachable P Q k (join_step peer e)"
| reading: "quic_reachable P Q k e \<Longrightarrow> quic_reachable P Q k (reader_step peer accept_uni e)"
| closed: "quic_reachable P Q k e \<Longrightarrow> quic_reachable P Q k (QuicNet_close e)"
| taken: "quic_reachable P Q k e \<Longrightarrow> QuicNet_events e = Some e' \<Longrightarrow> quic_reachable P Q k e'"
| looked_up: "quic_reachable P Q k e \<Longrightarrow> quic_reachable P Q k (fst (send_lookup e msg))"
| enqueued: "quic_reachable P Q k e \<Longrightarrow> (dst, msg) \<in> set (qe_sending e) \<Longrightarrow> quic_reachable P Q k (fst (send_enqueue dst msg e))"
| pumped: "quic_reachable P Q k e \<Longrightarrow> pc_of e peer = Some pc \<Longrightarrow> pump_spawned pc \<Longrightarrow> quic_reachable P Q k (run_pump e peer)"
| stream_event: "quic_reachable P Q k e \<Longrightarrow> bt_get (qe_conns e) peer = Some cn \<Longrightarrow> reader_spawned (cn_pc cn) \<Longrightarrow>
    read_stream C peer (cn_expected cn) wake cap pace r io = (io', res) \<Longrightarrow>
    ev \<in> set (drop (length (io_inbound io)) (io_inbound io')) \<Longrightarrow> quic_reachable P Q k (report_event e ev)"
| pump_event: "quic_reachable P Q k e \<Longrightarrow> pc_of e peer = Some pc \<Longrightarrow> pump_spawned pc \<Longrightarrow>
    \<forall>msg\<in>set msgs. send_dst msg = Some peer \<Longrightarrow> ev \<in> set (pu_events (peer_pump Q C msgs q)) \<Longrightarrow>
    quic_reachable P Q k (report_event e ev)"
| watcher_event: "quic_reachable P Q k e \<Longrightarrow> pc_of e peer = Some pc \<Longrightarrow> pump_spawned pc \<Longrightarrow>
    sess_reset_event peer c m stopped = Some ev \<Longrightarrow> quic_reachable P Q k (report_event e ev)"

subsection \<open>Operations that are not interrupted\<close>

lemma pc_of_set_pc [simp]:
  "pc_of (set_pc peer pc e) p = (if p = peer \<and> pc_of e peer \<noteq> None then Some pc else pc_of e p)"
  by (auto simp: pc_of_def set_pc_def split: option.split)

lemma set_pc_frame [simp]:
  "qe_net (set_pc peer pc e) = qe_net e" "qe_detached (set_pc peer pc e) = qe_detached e" "qe_sending (set_pc peer pc e) = qe_sending e"
  by (simp_all add: set_pc_def split: option.split)

lemma detach_queue_frame [simp]:
  "qe_net (detach_queue peer e) = remove_sender (qe_net e) peer" "qe_sending (detach_queue peer e) = qe_sending e"
  "qe_conns (detach_queue peer e) = qe_conns e"
  by (simp_all add: detach_queue_def)

lemma pc_of_frame [simp]:
  "pc_of (e\<lparr>qe_net := n\<rparr>) = pc_of e" "pc_of (detach_queue peer e) = pc_of e" "pc_of (set_queue peer q e) = pc_of e"
  by (simp_all add: pc_of_def detach_queue_def set_queue_def fun_eq_iff split: option.split)

text \<open>\<open>dial\<close>, a turn of the accept loop and a turn of the connection reader act on the network state as one block.\<close>

lemma join_alone:
  assumes "pc_of e peer = Some JoinInsert"
  shows "qe_net (join_step peer (join_step peer (join_step peer (join_step peer e)))) = register_peer (qe_net e) peer"
    "pc_of (join_step peer (join_step peer (join_step peer (join_step peer e)))) peer = Some ReaderLoop"
  by (simp_all add: join_step_def register_peer_def assms)

lemma add_connection_alone:
  "qe_net (fst (add_connection e expected)) = register_peer (fst (fetch_peer_id (qe_net e))) (qn_next_peer_id (qe_net e))"
  "pc_of (fst (add_connection e expected)) (qn_next_peer_id (qe_net e)) = Some ReaderLoop"
  "snd (add_connection e expected) = qn_next_peer_id (qe_net e)"
proof -
  let ?e = "fst (assign_peer_id e expected)" and ?p = "qn_next_peer_id (qe_net e)"
  have a: "assign_peer_id e expected = (?e, ?p)" "qe_net ?e = fst (fetch_peer_id (qe_net e))" "pc_of ?e ?p = Some JoinInsert"
    by (simp_all add: assign_peer_id_def fetch_peer_id_def pc_of_def)
  have "add_connection e expected = (join_step ?p (join_step ?p (join_step ?p (join_step ?p ?e))), ?p)"
    by (subst add_connection_def, subst a(1)) simp
  with join_alone [OF a(3)] a(2)
  show "qe_net (fst (add_connection e expected)) = register_peer (fst (fetch_peer_id (qe_net e))) ?p"
    "pc_of (fst (add_connection e expected)) ?p = Some ReaderLoop" "snd (add_connection e expected) = ?p" by simp_all
qed

lemma conn_reader_alone:
  "pc_of e peer = Some ReaderLoop \<Longrightarrow> qe_net (conn_reader_turn e peer (Inl err)) = connection_lost (qe_net e) peer"
  by (simp add: conn_reader_turn_def reader_step_def connection_lost_def)

lemma send_alone:
  "case send_lookup e msg of
     (e', Some r) \<Rightarrow> QuicNet_send (qe_net e) msg = (qe_net e', r)
   | (e', None) \<Rightarrow> \<exists>dst. dest_peer msg = Some dst \<and>
       (case send_enqueue dst msg e' of (e'', r) \<Rightarrow> QuicNet_send (qe_net e) msg = (qe_net e'', r) \<and> qe_sending e'' = qe_sending e)"
  by (cases msg) (auto simp: send_lookup_def send_enqueue_def QuicNet_send_def queue_of_def set_queue_def PeerQueue_try_send_def
      split: option.split)

lemma add_connection_reachable:
  "quic_reachable P Q k e \<Longrightarrow> quic_reachable P Q (Suc k) (fst (add_connection e expected))"
  by (auto simp: add_connection_def case_prod_beta intro!: quic_reachable.joining quic_reachable.established)

lemma dial_reachable:
  "quic_reachable P Q k e \<Longrightarrow> QuicNet_dial e connect connecting expected = (e', Inr peer) \<Longrightarrow> quic_reachable P Q (Suc k) e'"
  using add_connection_reachable [of P Q k e expected] by (auto simp: QuicNet_dial_def split: sum.splits prod.splits)

lemma accept_reachable:
  "quic_reachable P Q k e \<Longrightarrow> quic_reachable P Q (Suc k) (accept_incoming e (Inr ()))"
  by (simp add: accept_incoming_def add_connection_reachable)

lemma conn_reader_reachable:
  "quic_reachable P Q k e \<Longrightarrow> quic_reachable P Q k (conn_reader_turn e peer accept_uni)"
  by (simp add: conn_reader_turn_def quic_reachable.reading split: sum.split)

subsection \<open>The log of events\<close>

definition peers_connected :: "NetEvent list \<Rightarrow> PeerId list" where
  "peers_connected evs = List.map_filter (\<lambda>ev. case ev of EvPeerConnected p \<Rightarrow> Some p | _ \<Rightarrow> None) evs"

definition peers_disconnected :: "NetEvent list \<Rightarrow> PeerId list" where
  "peers_disconnected evs = List.map_filter (\<lambda>ev. case ev of EvPeerDisconnected p \<Rightarrow> Some p | _ \<Rightarrow> None) evs"

text \<open>Nothing is reported about a peer before its connection is.\<close>

definition announced :: "NetEvent list \<Rightarrow> bool" where
  "announced evs \<longleftrightarrow> (\<forall>i<length evs. evs ! i \<notin> range EvPeerConnected \<longrightarrow> event_peer (evs ! i) \<in> set (peers_connected (take i evs)))"

text \<open>A peer that was dialed with an expected identity only ever presents that identity.\<close>

definition pinned :: "(PeerId, Conn) btree_map \<Rightarrow> NetEvent list \<Rightarrow> bool" where
  "pinned conns evs \<longleftrightarrow>
     (\<forall>p v cs peer_id ex. EvHandshake p v cs peer_id \<in> set evs \<longrightarrow> Option.bind (bt_get conns p) cn_expected = Some ex \<longrightarrow> peer_id = ex)"

text \<open>The queues of a table are bounded and hold only messages for their peer.\<close>

definition queues_ok :: "(PeerId, PeerQueue) btree_map \<Rightarrow> bool" where
  "queues_ok t \<longleftrightarrow> (\<forall>peer q. bt_get t peer = Some q \<longrightarrow>
     length (pq_items q) \<le> PER_PEER_OUTBOUND_QUEUE \<and> (\<forall>msg\<in>set (pq_items q). send_dst msg = Some peer))"

lemma peers_snoc [simp]:
  "peers_connected (evs @ [ev]) = peers_connected evs @ (case ev of EvPeerConnected p \<Rightarrow> [p] | _ \<Rightarrow> [])"
  "peers_disconnected (evs @ [ev]) = peers_disconnected evs @ (case ev of EvPeerDisconnected p \<Rightarrow> [p] | _ \<Rightarrow> [])"
  "peers_connected [] = []" "peers_disconnected [] = []"
  by (simp_all add: peers_connected_def peers_disconnected_def map_filter_def split: NetEvent.split)

lemma announced_snoc [simp]:
  "announced []"
  "announced (evs @ [ev]) \<longleftrightarrow> announced evs \<and> (ev \<notin> range EvPeerConnected \<longrightarrow> event_peer ev \<in> set (peers_connected evs))"
  by (auto simp: announced_def nth_append less_Suc_eq)

subsection \<open>The invariant of an endpoint\<close>

text \<open>The ids handed out to the first \<open>k\<close> connections.\<close>

definition nth_peer :: "nat \<Rightarrow> PeerId" where
  "nth_peer k = of_nat k"

definition peer_ids :: "nat \<Rightarrow> PeerId list" where
  "peer_ids k = map nth_peer [1..<Suc k]"

lemma peer_ids_simps [simp]: "peer_ids 0 = []" "peer_ids (Suc k) = peer_ids k @ [nth_peer (Suc k)]"
  by (simp_all add: peer_ids_def)

lemma fresh_peer:
  assumes "Suc k < 2 ^ 64" shows "nth_peer (Suc k) \<notin> set (peer_ids k)"
proof
  assume "nth_peer (Suc k) \<in> set (peer_ids k)"
  then have "nth_peer (Suc k) \<in> nth_peer ` {1..<Suc k}" by (simp add: peer_ids_def del: upt_Suc)
  then obtain j where j: "j < Suc k" "nth_peer (Suc k) = nth_peer j" by (elim imageE) (metis atLeastLessThan_iff)
  then have "unat (nth_peer (Suc k)) = unat (nth_peer j)" by simp
  moreover have "unat (nth_peer i) = i" if "i \<le> Suc k" for i using that assms by (simp add: nth_peer_def unat_of_nat)
  ultimately show False using j(1) by simp
qed

lemma distinct_peer_ids: "k < 2 ^ 64 \<Longrightarrow> distinct (peer_ids k)"
  by (induction k) (auto dest: fresh_peer simp del: power_numeral)

lemma announced_known: "announced evs \<Longrightarrow> ev \<in> set evs \<Longrightarrow> event_peer ev \<in> set (peers_connected evs)"
proof (induction evs rule: rev_induct)
  case (snoc x evs)
  then show ?case by (cases ev) (auto split: NetEvent.splits)
qed simp

lemma connected_iff: "p \<in> set (peers_connected evs) \<longleftrightarrow> EvPeerConnected p \<in> set evs"
  by (induction evs rule: rev_induct) (auto split: NetEvent.split)

lemma disconnected_iff: "p \<in> set (peers_disconnected evs) \<longleftrightarrow> EvPeerDisconnected p \<in> set evs"
  by (induction evs rule: rev_induct) (auto split: NetEvent.split)

text \<open>Where a connection stands tells whether it is in the table and what was reported of it.\<close>

fun pc_registered :: "ConnPC \<Rightarrow> bool" where
  "pc_registered JoinInsert = False"
| "pc_registered ReaderReport = False"
| "pc_registered ReaderEnded = False"
| "pc_registered _ = True"

fun pc_announced :: "ConnPC \<Rightarrow> bool" where
  "pc_announced JoinInsert = False"
| "pc_announced JoinAnnounce = False"
| "pc_announced _ = True"

definition conn_is :: "QuicEndpoint \<Rightarrow> (ConnPC \<Rightarrow> bool) \<Rightarrow> PeerId \<Rightarrow> bool" where
  "conn_is e P p \<longleftrightarrow> (case pc_of e p of None \<Rightarrow> False | Some pc \<Rightarrow> P pc)"

lemma pc_spawned: "pump_spawned pc \<Longrightarrow> pc_announced pc" "reader_spawned pc \<Longrightarrow> pump_spawned pc"
  by (cases pc; simp)+

definition log_inv :: "QuicEndpoint \<Rightarrow> NetEvent list \<Rightarrow> bool" where
  "log_inv e evs \<longleftrightarrow>
     distinct (peers_connected evs) \<and> distinct (peers_disconnected evs) \<and> announced evs \<and> pinned (qe_conns e) evs \<and>
     (\<forall>p. p \<in> set (peers_connected evs) \<longleftrightarrow> conn_is e pc_announced p) \<and>
     (\<forall>p. p \<in> set (peers_disconnected evs) \<longleftrightarrow> conn_is e (\<lambda>pc. pc = ReaderEnded) p)"

definition tables_inv :: "nat \<Rightarrow> QuicEndpoint \<Rightarrow> QuicNet \<Rightarrow> bool" where
  "tables_inv k e n \<longleftrightarrow>
     qn_next_peer_id n = nth_peer (Suc k) \<and> (\<forall>p. pc_of e p \<noteq> None \<longleftrightarrow> p \<in> set (peer_ids k)) \<and>
     (\<forall>p. bt_get (qn_peer_senders n) p \<noteq> None \<longleftrightarrow> conn_is e pc_registered p) \<and>
     queues_ok (qn_peer_senders n) \<and> queues_ok (qe_detached e) \<and> (\<forall>(dst, msg)\<in>set (qe_sending e). send_dst msg = Some dst) \<and>
     tracker_inv (qn_reset n)"

definition quic_inv :: "nat \<Rightarrow> QuicEndpoint \<Rightarrow> bool" where
  "quic_inv k e \<longleftrightarrow> log_inv e (qn_inbound (qe_net e)) \<and> tables_inv k e (qe_net e)"

lemma queues_ok_insert:
  "queues_ok t \<Longrightarrow> length (pq_items q) \<le> PER_PEER_OUTBOUND_QUEUE \<Longrightarrow> \<forall>msg\<in>set (pq_items q). send_dst msg = Some peer \<Longrightarrow>
   queues_ok (bt_insert peer q t)"
  by (simp add: queues_ok_def)

lemma queues_ok_remove: "queues_ok t \<Longrightarrow> queues_ok (bt_remove peer t)"
  by (simp add: queues_ok_def)

lemma queues_ok_empty [simp]: "queues_ok bt_empty"
  by (simp add: queues_ok_def)

text \<open>Moving a connection on changes only what depends on its position.\<close>

lemma conn_is_set_pc [simp]:
  "conn_is (set_pc peer pc e) P p = (if p = peer \<and> pc_of e peer \<noteq> None then P pc else conn_is e P p)"
  by (auto simp: conn_is_def split: option.split)

lemma conn_is_frame [simp]: "conn_is (e\<lparr>qe_net := n\<rparr>) = conn_is e" "conn_is (detach_queue peer e) = conn_is e"
  by (simp_all add: conn_is_def fun_eq_iff)

lemma pinned_set_pc [simp]: "pinned (qe_conns (set_pc peer pc e)) evs = pinned (qe_conns e) evs"
proof -
  have "Option.bind (bt_get (qe_conns (set_pc peer pc e)) p) cn_expected = Option.bind (bt_get (qe_conns e) p) cn_expected" for p
    by (simp add: set_pc_def split: option.split)
  then show ?thesis by (simp only: pinned_def)
qed

lemma pinned_other:
  "pinned conns (evs @ [EvPeerConnected p]) = pinned conns evs" "pinned conns (evs @ [EvPeerDisconnected p]) = pinned conns evs"
  by (simp_all add: pinned_def)

lemma assign_peer_id_inv:
  assumes inv: "quic_inv k e" and k: "Suc k < 2 ^ 64"
  shows "quic_inv (Suc k) (fst (assign_peer_id e expected))"
proof -
  let ?new = "nth_peer (Suc k)" and ?evs = "qn_inbound (qe_net e)"
  have next_id: "?new + 1 = nth_peer (Suc (Suc k))" by (simp add: nth_peer_def)
  let ?e = "e\<lparr>qe_net := fst (fetch_peer_id (qe_net e)),
    qe_conns := bt_insert ?new \<lparr>cn_expected = expected, cn_pc = JoinInsert\<rparr> (qe_conns e)\<rparr>"
  have l: "log_inv e ?evs" and t: "tables_inv k e (qe_net e)" using inv by (simp_all add: quic_inv_def)
  have fresh: "?new \<notin> set (peer_ids k)" by (rule fresh_peer [OF k])
  then have none: "pc_of e ?new = None" using t by (auto simp: tables_inv_def)
  have pc: "pc_of ?e p = (if p = ?new then Some JoinInsert else pc_of e p)" for p by (simp add: pc_of_def)
  then have ci: "conn_is ?e P p = (if p = ?new then P JoinInsert else conn_is e P p)" for P p by (simp add: conn_is_def)
  have old: "\<not> conn_is e P ?new" for P by (simp add: conn_is_def none)
  then have free: "bt_get (qn_peer_senders (qe_net e)) ?new = None" using t unfolding tables_inv_def by blast
  have "event_peer ev \<noteq> ?new" if "ev \<in> set ?evs" for ev
    using announced_known [OF _ that] l old unfolding log_inv_def by metis
  then have "pinned (qe_conns ?e) ?evs" using l by (fastforce simp: log_inv_def pinned_def)
  then have "log_inv ?e ?evs" using l old by (auto simp: log_inv_def ci)
  moreover have "tables_inv (Suc k) ?e (qe_net ?e)"
    using t old none next_id free by (auto simp: tables_inv_def pc ci) (auto simp: fetch_peer_id_def)
  moreover have "fst (assign_peer_id e expected) = ?e" using t by (simp add: assign_peer_id_def fetch_peer_id_def tables_inv_def)
  ultimately show ?thesis by (simp add: quic_inv_def fetch_peer_id_def)
qed

lemma join_step_inv:
  assumes inv: "quic_inv k e" shows "quic_inv k (join_step peer e)"
proof (cases "pc_of e peer")
  case (Some pc)
  have l: "log_inv e (qn_inbound (qe_net e))" and t: "tables_inv k e (qe_net e)" using inv by (simp_all add: quic_inv_def)
  have ci: "conn_is e P peer = P pc" for P by (simp add: conn_is_def Some)
  show ?thesis
  proof (cases pc)
    case JoinInsert
    have "tables_inv k (join_step peer e) (qe_net (join_step peer e))"
      using t ci by (auto simp: join_step_def Some JoinInsert insert_sender_def tables_inv_def queues_ok_insert)
    then show ?thesis using l ci by (simp add: quic_inv_def) (auto simp: join_step_def Some JoinInsert insert_sender_def log_inv_def)
  next
    case JoinAnnounce
    have "log_inv (join_step peer e) (qn_inbound (qe_net e) @ [EvPeerConnected peer])"
      using l ci by (auto simp: log_inv_def join_step_def Some JoinAnnounce pinned_other)
    then show ?thesis using t ci by (auto simp: quic_inv_def join_step_def Some JoinAnnounce send_inbound_def tables_inv_def)
  qed (use inv ci in \<open>auto simp: quic_inv_def log_inv_def tables_inv_def join_step_def Some\<close>)
qed (use inv in \<open>simp add: join_step_def\<close>)

lemma reader_step_inv:
  assumes inv: "quic_inv k e" shows "quic_inv k (reader_step peer accept_uni e)"
proof (cases "pc_of e peer")
  case (Some pc)
  have l: "log_inv e (qn_inbound (qe_net e))" and t: "tables_inv k e (qe_net e)" using inv by (simp_all add: quic_inv_def)
  have ci: "conn_is e P peer = P pc" for P by (simp add: conn_is_def Some)
  show ?thesis
  proof (cases pc)
    case ReaderLoop
    show ?thesis
    proof (cases accept_uni)
      case (Inl err)
      have "queues_ok (qe_detached (detach_queue peer e))"
        using t by (auto simp: detach_queue_def tables_inv_def queues_ok_def split: option.split)
      then have "tables_inv k (set_pc peer ReaderReport (detach_queue peer e)) (remove_sender (qe_net e) peer)"
        using t ci Some by (auto simp: tables_inv_def ReaderLoop remove_sender_def queues_ok_remove)
      moreover have "log_inv (set_pc peer ReaderReport (detach_queue peer e)) (qn_inbound (qe_net e))"
        using l ci Some by (auto simp: log_inv_def ReaderLoop)
      ultimately show ?thesis
        by (simp add: quic_inv_def reader_step_def Some ReaderLoop Inl) (simp add: remove_sender_def)
    qed (simp add: reader_step_def Some ReaderLoop inv)
  next
    case ReaderReport
    have "log_inv (reader_step peer accept_uni e) (qn_inbound (qe_net e) @ [EvPeerDisconnected peer])"
      using l ci by (auto simp: log_inv_def reader_step_def Some ReaderReport pinned_other)
    then show ?thesis using t ci by (auto simp: quic_inv_def reader_step_def Some ReaderReport send_inbound_def tables_inv_def)
  qed (use inv in \<open>simp_all add: reader_step_def Some\<close>)
qed (use inv in \<open>simp add: reader_step_def\<close>)

lemma report_event_inv:
  assumes inv: "quic_inv k e" and peer: "conn_is e pc_announced peer" and ev: "event_peer ev = peer"
    and other: "\<And>p. ev \<noteq> EvPeerConnected p \<and> ev \<noteq> EvPeerDisconnected p"
    and pin: "\<And>v cs peer_id ex. ev = EvHandshake peer v cs peer_id \<Longrightarrow>
      Option.bind (bt_get (qe_conns e) peer) cn_expected = Some ex \<Longrightarrow> peer_id = ex"
  shows "quic_inv k (report_event e ev)"
proof -
  have l: "log_inv e (qn_inbound (qe_net e))" and t: "tables_inv k e (qe_net e)" using inv by (simp_all add: quic_inv_def)
  have "event_peer ev \<in> set (peers_connected (qn_inbound (qe_net e)))" using l peer ev by (simp add: log_inv_def)
  moreover have "pinned (qe_conns e) (qn_inbound (qe_net e) @ [ev])" using l pin ev by (auto simp: pinned_def log_inv_def)
  moreover have "(case ev of EvPeerConnected p \<Rightarrow> [p] | _ \<Rightarrow> []) = []" "(case ev of EvPeerDisconnected p \<Rightarrow> [p] | _ \<Rightarrow> []) = []"
    using other by (auto split: NetEvent.split)
  ultimately have "log_inv e (qn_inbound (qe_net e) @ [ev])" using l by (simp add: log_inv_def)
  then show ?thesis using t
    by (simp add: quic_inv_def report_event_def send_inbound_def log_inv_def tables_inv_def)
qed

text \<open>Writing a bounded queue back, attached or detached.\<close>

lemma set_queue_inv:
  assumes inv: "quic_inv k e" and q: "length (pq_items q) \<le> PER_PEER_OUTBOUND_QUEUE" "\<forall>msg\<in>set (pq_items q). send_dst msg = Some peer"
  shows "quic_inv k (set_queue peer q e)"
proof -
  have ci: "conn_is (set_queue peer q e) = conn_is e" "qe_conns (set_queue peer q e) = qe_conns e" "qe_sending (set_queue peer q e) = qe_sending e"
    "qn_inbound (qe_net (set_queue peer q e)) = qn_inbound (qe_net e)" "qn_reset (qe_net (set_queue peer q e)) = qn_reset (qe_net e)"
    "qn_next_peer_id (qe_net (set_queue peer q e)) = qn_next_peer_id (qe_net e)"
    by (simp_all add: conn_is_def fun_eq_iff) (simp_all add: set_queue_def split: option.split)
  have reg: "bt_get (qn_peer_senders (qe_net (set_queue peer q e))) p \<noteq> None \<longleftrightarrow> bt_get (qn_peer_senders (qe_net e)) p \<noteq> None" for p
    by (simp add: set_queue_def split: option.split)
  have "queues_ok (qn_peer_senders (qe_net (set_queue peer q e)))" "queues_ok (qe_detached (set_queue peer q e))"
    using inv q by (auto simp: set_queue_def quic_inv_def tables_inv_def intro: queues_ok_insert split: option.split)
  then show ?thesis using inv reg by (simp add: quic_inv_def log_inv_def tables_inv_def ci)
qed

lemma queue_of_ok:
  "quic_inv k e \<Longrightarrow> queue_of e peer = Some q \<Longrightarrow>
   length (pq_items q) \<le> PER_PEER_OUTBOUND_QUEUE \<and> (\<forall>msg\<in>set (pq_items q). send_dst msg = Some peer)"
  by (auto simp: quic_inv_def tables_inv_def queues_ok_def queue_of_def split: option.splits)

lemma run_pump_inv:
  assumes "quic_inv k e" shows "quic_inv k (run_pump e peer)"
proof (cases "queue_of e peer")
  case (Some q)
  note ok = queue_of_ok [OF assms Some]
  have "set (tl (pq_items q)) \<subseteq> set (pq_items q)" by (cases "pq_items q") auto
  then have "quic_inv k (set_queue peer (q\<lparr>pq_items := tl (pq_items q)\<rparr>) e)" using ok by (intro set_queue_inv [OF assms]) auto
  then show ?thesis by (simp add: run_pump_def Some)
qed (simp add: run_pump_def assms)

lemma send_lookup_inv:
  assumes "quic_inv k e" shows "quic_inv k (fst (send_lookup e msg))"
  using assms record_effect(2)
  by (cases msg) (auto simp: send_lookup_def quic_inv_def log_inv_def tables_inv_def conn_is_def pc_of_def split: option.split)

lemma send_enqueue_inv:
  assumes inv: "quic_inv k e" and msg: "(dst, msg) \<in> set (qe_sending e)"
  shows "quic_inv k (fst (send_enqueue dst msg e))"
proof -
  let ?e = "e\<lparr>qe_sending := remove1 (dst, msg) (qe_sending e)\<rparr>"
  have dst: "send_dst msg = Some dst" using inv msg by (auto simp: quic_inv_def tables_inv_def)
  have e: "quic_inv k ?e"
    using inv by (auto simp: quic_inv_def log_inv_def tables_inv_def conn_is_def pc_of_def dest: set_remove1_subset [THEN subsetD])
  show ?thesis
  proof (cases "queue_of ?e dst")
    case (Some q)
    show ?thesis
    proof (cases "pq_open q \<and> length (pq_items q) < PER_PEER_OUTBOUND_QUEUE")
      case True
      then have "fst (send_enqueue dst msg e) = set_queue dst (q\<lparr>pq_items := pq_items q @ [msg]\<rparr>) ?e"
        using Some by (simp add: send_enqueue_def PeerQueue_try_send_def)
      moreover have "quic_inv k (set_queue dst (q\<lparr>pq_items := pq_items q @ [msg]\<rparr>) ?e)"
        using True queue_of_ok [OF e Some] dst by (intro set_queue_inv [OF e]) auto
      ultimately show ?thesis by simp
    next
      case False
      then show ?thesis using Some e by (auto simp: send_enqueue_def PeerQueue_try_send_def)
    qed
  qed (use e in \<open>simp add: send_enqueue_def\<close>)
qed

lemma bind_inv: "QuicNet_bind_with_config P addr config = Inr e \<Longrightarrow> quic_inv 0 e"
  by (auto simp: QuicNet_bind_with_config_def result_bind_def quic_inv_def log_inv_def tables_inv_def conn_is_def pc_of_def
      pinned_def tracker_inv_def ReconstructedTracker_default_def nth_peer_def split: sum.splits)

lemma on_conn_events: "pu_events (fst (on_conn f p)) = pu_events p"
  by (simp add: on_conn_def split: prod.split)

lemma and_then_events:
  assumes "pu_events (fst r) = evs" "\<And>x p. pu_events p = evs \<Longrightarrow> pu_events (fst (f x p)) = evs"
  shows "pu_events (fst (and_then r f)) = evs"
  using assms by (cases r; cases "snd r") (auto simp: and_then_def)

lemma ensure_ctrl_events: "pu_events (fst (ensure_ctrl Q p)) = pu_events p"
  by (auto simp: ensure_ctrl_def on_conn_events intro!: and_then_events split: option.split)

lemma send_chunk_events: "pu_events (fst (send_chunk Q C p c m i b)) = pu_events p"
  by (auto simp: send_chunk_def on_conn_events intro!: and_then_events)

lemma write_ctrl_events: "pu_events (fst (write_ctrl Q C p frame)) = pu_events p"
  by (auto simp: write_ctrl_def ensure_ctrl_events on_conn_events intro!: and_then_events)

lemma pump_message_events:
  assumes "send_dst msg = Some peer" "ev \<in> set (pu_events (pump_message Q C msg p))"
  shows "ev \<in> set (pu_events p) \<or> (\<exists>c m t ok. ev = EvChunkSendResult peer c m t ok)"
proof -
  have "pu_events (pump_message Q C msg p) = pu_events (fst (write_outbound Q C p msg))"
    by (simp add: pump_message_def split: prod.split sum.split)
  moreover have "pu_events (fst (write_outbound Q C p msg)) = pu_events p \<or>
      (\<exists>c m t ok. pu_events (fst (write_outbound Q C p msg)) = pu_events p @ [EvChunkSendResult peer c m t ok])"
    using assms(1)
    by (cases msg) (auto simp: write_ctrl_events on_conn_events case_prod_beta send_chunk_events
        intro!: and_then_events split: option.split)
  ultimately show ?thesis using assms(2) by auto
qed

lemma pump_events_results:
  assumes "\<forall>msg\<in>set msgs. send_dst msg = Some peer" "ev \<in> set (pu_events (peer_pump Q C msgs q))"
  obtains c m t ok where "ev = EvChunkSendResult peer c m t ok"
proof -
  have "\<forall>ev\<in>set (pu_events (fold (pump_message Q C) msgs p)). ev \<in> set (pu_events p) \<or> (\<exists>c m t ok. ev = EvChunkSendResult peer c m t ok)"
    if "\<forall>msg\<in>set msgs. send_dst msg = Some peer" for p
    using that
  proof (induction msgs arbitrary: p)
    case (Cons msg msgs)
    then show ?case using pump_message_events [of msg peer _ Q C p] by fastforce
  qed simp
  with assms that show thesis unfolding peer_pump_def by fastforce
qed

lemma read_stream_may_report:
  assumes "read_stream C peer expected wake cap pace r io = (io', res)"
    "ev \<in> set (drop (length (io_inbound io)) (io_inbound io'))"
  shows "may_report peer expected ev"
  using read_stream_reports [of peer expected io C wake cap pace r] assms by (auto simp: reports_def)

lemma quic_reachable_inv: "quic_reachable P Q k e \<Longrightarrow> Suc k < 2 ^ 64 \<Longrightarrow> quic_inv k e"
proof (induction rule: quic_reachable.induct)
  case (bound addr config e)
  then show ?case by (blast intro: bind_inv)
next
  case (established k e expected)
  then show ?case by (simp add: assign_peer_id_inv)
next
  case (closed k e)
  then show ?case by (simp add: QuicNet_close_def quic_inv_def log_inv_def tables_inv_def conn_is_def pc_of_def)
next
  case (taken k e e')
  then show ?case
    by (auto simp: QuicNet_events_def quic_inv_def log_inv_def tables_inv_def conn_is_def pc_of_def split: if_splits)
next
  case (stream_event k e peer cn C wake cap pace r io io' res ev)
  then have inv: "quic_inv k e" by simp
  have m: "may_report peer (cn_expected cn) ev" using stream_event.hyps(4,5) by (rule read_stream_may_report)
  have "conn_is e pc_announced peer" using stream_event.hyps(2,3) pc_spawned by (simp add: conn_is_def pc_of_def)
  then show ?case
  proof (rule report_event_inv [OF inv])
    show "event_peer ev = peer" and "ev \<noteq> EvPeerConnected p \<and> ev \<noteq> EvPeerDisconnected p" for p
      using m by (auto simp: may_report_def)
    fix v cs peer_id ex
    assume "ev = EvHandshake peer v cs peer_id" "Option.bind (bt_get (qe_conns e) peer) cn_expected = Some ex"
    with m stream_event.hyps(2) show "peer_id = ex" by (auto simp: may_report_def)
  qed
next
  case (pump_event k e peer pc msgs ev C q)
  then have inv: "quic_inv k e" by simp
  have p: "conn_is e pc_announced peer" using pump_event.hyps(2,3) pc_spawned by (simp add: conn_is_def)
  from pump_event.hyps(4,5) obtain c m t ok where "ev = EvChunkSendResult peer c m t ok" by (rule pump_events_results)
  then show ?case by (intro report_event_inv [OF inv p]) simp_all
next
  case (watcher_event k e peer pc c m stopped ev)
  then have inv: "quic_inv k e" by simp
  have p: "conn_is e pc_announced peer" using watcher_event.hyps(2,3) pc_spawned by (simp add: conn_is_def)
  have "ev = EvPeerReconstructed peer c m \<or> ev = EvSessionClosed peer c m"
    using watcher_event.hyps(4) by (auto simp: sess_reset_event_def split: sum.splits option.splits if_splits)
  then show ?case by (intro report_event_inv [OF inv p]) auto
qed (simp_all add: join_step_inv reader_step_inv send_lookup_inv send_enqueue_inv run_pump_inv)

text \<open>
  C36. The registry of connections under every interleaving of the endpoint's tasks, whose steps are the single accesses to
  the shared state. Before the peer counter wraps, the connections have the ids 1 to \<open>k\<close>, all distinct;
  each peer is reported connected at most once and disconnected at most once, in any order among the peers, and no event of a
  peer precedes its connection. A peer has a sender in the table exactly if it was reported connected and not yet
  disconnected, up to the two moments when its own task is between the two accesses: a new peer is in the table just
  before it is reported, and a lost one leaves the table just before that is reported. A peer that was dialed with an
  expected identity never presents another one; every queue, the ones whose sender was removed
  included, holds at most 256 messages, all addressed to its peer; and the tracker of reconstructed sessions stays within its bound.
\<close>

theorem quic_registry:
  assumes "quic_reachable P Q k e" "k < 2 ^ 64 - 1"
  defines "evs \<equiv> qn_inbound (qe_net e)"
  shows "distinct (map of_nat [1..<Suc k] :: PeerId list) \<and>
    (\<forall>p. bt_get (qe_conns e) p \<noteq> None \<longleftrightarrow> p \<in> set (map of_nat [1..<Suc k])) \<and>
    distinct (peers_connected evs) \<and> distinct (peers_disconnected evs) \<and> announced evs \<and>
    (\<forall>p. bt_get (qn_peer_senders (qe_net e)) p \<noteq> None \<longleftrightarrow>
      (EvPeerConnected p \<in> set evs \<or> pc_of e p = Some JoinAnnounce) \<and>
      EvPeerDisconnected p \<notin> set evs \<and> pc_of e p \<noteq> Some ReaderReport) \<and>
    (\<forall>p. EvPeerConnected p \<in> set evs \<longrightarrow> bt_get (qe_conns e) p \<noteq> None \<and> pc_of e p \<noteq> Some JoinAnnounce) \<and>
    pinned (qe_conns e) evs \<and>
    (\<forall>p q. queue_of e p = Some q \<longrightarrow> length (pq_items q) \<le> 256 \<and> (\<forall>msg\<in>set (pq_items q). send_dst msg = Some p)) \<and>
    tracker_inv (qn_reset (qe_net e))"
proof -
  have k: "Suc k < 2 ^ 64" using assms(2) by simp
  then have inv: "quic_inv k e" by (rule quic_reachable_inv [OF assms(1)])
  then have l: "log_inv e evs" and t: "tables_inv k e (qe_net e)" by (simp_all add: quic_inv_def evs_def)
  have ids: "map of_nat [1..<Suc k] = peer_ids k" by (simp add: peer_ids_def nth_peer_def [abs_def])
  have "distinct (peer_ids k)" using k by (intro distinct_peer_ids) simp
  moreover have "bt_get (qe_conns e) p \<noteq> None \<longleftrightarrow> p \<in> set (peer_ids k)" for p using t by (simp add: tables_inv_def pc_of_def)
  moreover have "bt_get (qn_peer_senders (qe_net e)) p \<noteq> None \<longleftrightarrow>
      (EvPeerConnected p \<in> set evs \<or> pc_of e p = Some JoinAnnounce) \<and> EvPeerDisconnected p \<notin> set evs \<and> pc_of e p \<noteq> Some ReaderReport" for p
  proof -
    have "bt_get (qn_peer_senders (qe_net e)) p \<noteq> None \<longleftrightarrow> conn_is e pc_registered p" "EvPeerConnected p \<in> set evs \<longleftrightarrow> conn_is e pc_announced p"
      "EvPeerDisconnected p \<in> set evs \<longleftrightarrow> pc_of e p = Some ReaderEnded"
      using l t by (simp_all add: log_inv_def tables_inv_def connected_iff [symmetric] disconnected_iff [symmetric])
        (simp add: conn_is_def split: option.split)
    then show ?thesis by (simp add: conn_is_def split: option.split) (metis pc_announced.simps pc_registered.simps ConnPC.exhaust)
  qed
  moreover have "bt_get (qe_conns e) p \<noteq> None \<and> pc_of e p \<noteq> Some JoinAnnounce" if "EvPeerConnected p \<in> set evs" for p
    using l that by (auto simp: log_inv_def connected_iff conn_is_def pc_of_def split: option.splits)
  moreover note queue_of_ok [OF inv]
  ultimately show ?thesis
    using l t unfolding ids by (simp add: log_inv_def tables_inv_def PER_PEER_OUTBOUND_QUEUE_def)
qed

text \<open>
  An endpoint at which two connections are established and the second is registered first; the sender of the first is in the table
  before it is reported. Then the second connection is lost.
\<close>

definition demo_platform :: "unit Platform" where
  "demo_platform = \<lparr>pf_idle_timeout = Inr, pf_server_config = (\<lambda>_. Inr ()), pf_endpoint = (\<lambda>_. Inr ()), pf_client_config = (\<lambda>_. Inr ())\<rparr>"

definition demo_established :: QuicEndpoint where
  "demo_established = fst (assign_peer_id (fst (assign_peer_id (projr (QuicNet_bind demo_platform ())) (Some ''alice''))) None)"

definition demo_registering :: QuicEndpoint where
  "demo_registering = join_step 1 (join_step 2 (join_step 2 (join_step 2 (join_step 2 demo_established))))"

definition demo_lost :: QuicEndpoint where
  "demo_lost = conn_reader_turn demo_registering 2 (Inl IoOther)"

lemma demo_registering_eval:
  "qn_inbound (qe_net demo_registering) = [EvPeerConnected 2]" "pc_of demo_registering 1 = Some JoinAnnounce"
  "pc_of demo_registering 2 = Some ReaderLoop"
proof -
  have e: "pc_of demo_established p = (if p = 1 \<or> p = 2 then Some JoinInsert else None)" "qn_inbound (qe_net demo_established) = []" for p
    by (simp_all add: demo_established_def assign_peer_id_def fetch_peer_id_def QuicNet_bind_def QuicNet_bind_with_config_def
        demo_platform_def pc_of_def)
  show "qn_inbound (qe_net demo_registering) = [EvPeerConnected 2]" "pc_of demo_registering 1 = Some JoinAnnounce"
    "pc_of demo_registering 2 = Some ReaderLoop"
    by (simp_all add: demo_registering_def join_step_def e send_inbound_def insert_sender_def)
qed

lemma demo_registering_reachable: "quic_reachable demo_platform mem_quinn 2 demo_registering"
proof -
  let ?b = "projr (QuicNet_bind demo_platform ())"
  have "quic_reachable demo_platform mem_quinn 0 ?b"
    by (rule quic_reachable.bound [of _ "()" QuicNetConfig_default])
      (simp add: QuicNet_bind_def QuicNet_bind_with_config_def demo_platform_def)
  then have "quic_reachable demo_platform mem_quinn (Suc (Suc 0)) demo_established"
    unfolding demo_established_def by (intro quic_reachable.established)
  then show ?thesis unfolding demo_registering_def by (intro quic_reachable.joining) (simp add: numeral_2_eq_2)
qed

theorem quic_registry_witness:
  "qn_inbound (qe_net demo_registering) = [EvPeerConnected 2] \<and> pc_of demo_registering 1 = Some JoinAnnounce \<and>
   bt_get (qn_peer_senders (qe_net demo_registering)) 1 \<noteq> None \<and> bt_get (qn_peer_senders (qe_net demo_registering)) 2 \<noteq> None \<and>
   qn_inbound (qe_net demo_lost) = [EvPeerConnected 2, EvPeerDisconnected 2] \<and>
   bt_get (qn_peer_senders (qe_net demo_lost)) 1 \<noteq> None \<and> bt_get (qn_peer_senders (qe_net demo_lost)) 2 = None"
proof -
  note r = demo_registering_eval
  have l: "qn_inbound (qe_net demo_lost) = [EvPeerConnected 2, EvPeerDisconnected 2]" "pc_of demo_lost 1 = Some JoinAnnounce"
    using r by (simp_all add: demo_lost_def conn_reader_turn_def reader_step_def send_inbound_def remove_sender_def)
  have "quic_reachable demo_platform mem_quinn 2 demo_lost"
    unfolding demo_lost_def by (rule conn_reader_reachable [OF demo_registering_reachable])
  note q = quic_registry [OF demo_registering_reachable] quic_registry [OF this]
  have "bt_get (qn_peer_senders (qe_net demo_registering)) 1 \<noteq> None" "bt_get (qn_peer_senders (qe_net demo_registering)) 2 \<noteq> None"
    using conjunct1 [OF conjunct2 [OF conjunct2 [OF conjunct2 [OF conjunct2 [OF conjunct2 [OF q(1)]]]]]] r by simp_all
  moreover have "bt_get (qn_peer_senders (qe_net demo_lost)) 1 \<noteq> None" "bt_get (qn_peer_senders (qe_net demo_lost)) 2 = None"
    using conjunct1 [OF conjunct2 [OF conjunct2 [OF conjunct2 [OF conjunct2 [OF conjunct2 [OF q(2)]]]]]] l by simp_all (metis not_None_eq)
  ultimately show ?thesis using r l by blast
qed

end
