(* ===== verification/ResetWait.thy ===== *)
theory ResetWait
  imports TransportProofs
begin

text \<open>
  \<open>ResetState\<close> of \<open>ethp2p-transport/src/lib.rs\<close> under concurrency: \<open>record\<close> inserts a session under the lock and
  then calls \<open>notify_waiters\<close>; \<open>wait_reconstructed\<close>, run by every inbound session reader, enables a \<open>Notified\<close>
  future, checks the tracker and awaits the future. Every access to shared state is one atomic step,
  and the steps of all tasks interleave. \<open>notify_waiters\<close> wakes exactly the futures enabled at that moment.
\<close>

subsection \<open>Atomic steps\<close>











subsection \<open>No wake-up is lost\<close>











end
