(* ===== verification/NetLaws.thy ===== *)
theory NetLaws
  imports Runtime BTree
begin

text \<open>
  The contract of \<open>Net::send\<close> that reliable delivery rests on. A network shows, for each peer, the events on
  their way to it; sending to a reachable peer succeeds and puts exactly one event at the end of that
  peer's list. \<open>memory_net.rs\<close> and the fault-free simulator provide it.
\<close>

text \<open>The event that a message becomes at its destination (\<open>memory_net.rs\<close>).\<close>

fun sent_event :: "PeerId \<Rightarrow> NetSend \<Rightarrow> NetEvent option" where
  "sent_event src (SendHandshake _ version channels peer_id) = Some (EvHandshake src version channels peer_id)"
| "sent_event src (SendSubscribe _ channel) = Some (EvSubscribe src channel)"
| "sent_event src (SendUnsubscribe _ channel) = Some (EvUnsubscribe src channel)"
| "sent_event src (SendSessionOpen _ channel message_id preamble initial_update) =
     Some (EvSessionOpen src channel message_id preamble initial_update)"
| "sent_event src (SendRoutingUpdate _ channel message_id payload) = Some (EvRoutingUpdate src channel message_id payload)"
| "sent_event src (SendChunk _ channel message_id chunk_id payload _) = Some (EvChunk src channel message_id chunk_id payload)"
| "sent_event src (SendSessionReconstructed _ _) = None"

text \<open>
  \<open>inv k n\<close>: the network is well formed and has room for \<open>k\<close> more messages; a bounded resource of a network, such as
  the sequence counter of the simulator, is spent by one with each message.
\<close>

locale reliable_net =
  fixes send :: "'n NetOp" and self :: PeerId and inv :: "nat \<Rightarrow> 'n \<Rightarrow> bool"
    and reachable :: "'n \<Rightarrow> PeerId \<Rightarrow> bool" and inbox :: "'n \<Rightarrow> PeerId \<Rightarrow> NetEvent list"
  assumes send_reliable: "inv (Suc k) n \<Longrightarrow> send_dst msg = Some dst \<Longrightarrow> reachable n dst \<Longrightarrow>
    \<exists>n'. send n msg = (n', Inr ()) \<and> inv k n' \<and> (\<forall>p. reachable n' p \<longleftrightarrow> reachable n p) \<and>
      (\<forall>p. p \<noteq> self \<longrightarrow> inbox n' p = inbox n p @ (if p = dst then [the (sent_event self msg)] else []))"
begin

lemma send_obtain:
  assumes "inv (Suc k) n" "send_dst msg = Some dst" "reachable n dst"
  obtains n' where "send n msg = (n', Inr ())" "inv k n'" "\<And>p. reachable n' p \<longleftrightarrow> reachable n p"
    "\<And>p. p \<noteq> self \<Longrightarrow> inbox n' p = inbox n p @ (if p = dst then [the (sent_event self msg)] else [])"
  using send_reliable [OF assms] by blast

text \<open>A batch of messages to reachable peers goes through as a whole, in order for every peer.\<close>

lemma send_all:
  assumes "inv (length msgs + k) n" "\<forall>msg\<in>set msgs. \<exists>dst. send_dst msg = Some dst \<and> reachable n dst"
  shows "\<exists>n'. try_each (\<lambda>msg n. send n msg) msgs n = (n', Inr ()) \<and> inv k n' \<and> (\<forall>p. reachable n' p \<longleftrightarrow> reachable n p) \<and>
    (\<forall>p. p \<noteq> self \<longrightarrow> inbox n' p = inbox n p @
       map (\<lambda>msg. the (sent_event self msg)) (filter (\<lambda>msg. send_dst msg = Some p) msgs))"
  using assms
proof (induction msgs arbitrary: n)
  case (Cons msg msgs)
  then obtain dst where d: "send_dst msg = Some dst" "reachable n dst" by auto
  moreover have "inv (Suc (length msgs + k)) n" using Cons.prems(1) by simp
  ultimately obtain n1 where n1: "send n msg = (n1, Inr ())" "inv (length msgs + k) n1"
    and r: "\<And>p. reachable n1 p \<longleftrightarrow> reachable n p"
    and b: "\<And>p. p \<noteq> self \<Longrightarrow> inbox n1 p = inbox n p @ (if p = dst then [the (sent_event self msg)] else [])"
    by (metis send_obtain)
  from Cons.IH [OF n1(2)] Cons.prems(2) show ?case by (auto simp: n1(1) r b d(1))
qed simp

end

end
