(* ===== verification/Mpsc.thy ===== *)
theory Mpsc
  imports Runtime BTree
begin

text \<open>
  Unbounded channels of \<open>tokio::sync::mpsc\<close>, as the in-process network and the simulator use them: an explicit
  store of channels named by numbers, since senders and receivers refer to them independently. A
  channel is the events sent and not yet received, and whether its receiver is still there.
\<close>

record UnboundedChannel =
  uc_items :: "NetEvent list"
  uc_receiver :: bool

type_synonym ChannelStore = "(nat, UnboundedChannel) btree_map"

text \<open>\<open>UnboundedSender::send\<close>: fails exactly if the receiver was dropped.\<close>

definition channel_send :: "nat \<Rightarrow> NetEvent \<Rightarrow> ChannelStore \<Rightarrow> ChannelStore \<times> bool" where
  "channel_send cid event store =
     (case bt_get store cid of
        None \<Rightarrow> (store, False)
      | Some q \<Rightarrow>
          if uc_receiver q then (bt_insert cid (q\<lparr>uc_items := uc_items q @ [event]\<rparr>) store, True) else (store, False))"

definition channel_recv :: "nat \<Rightarrow> ChannelStore \<Rightarrow> ChannelStore \<times> NetEvent option" where
  "channel_recv cid store =
     (case bt_get store cid of
        None \<Rightarrow> (store, None)
      | Some q \<Rightarrow>
          (case uc_items q of
             [] \<Rightarrow> (store, None)
           | event # rest \<Rightarrow> (bt_insert cid (q\<lparr>uc_items := rest\<rparr>) store, Some event)))"

definition channel_items :: "ChannelStore \<Rightarrow> nat \<Rightarrow> NetEvent list" where
  "channel_items store cid = (case bt_get store cid of None \<Rightarrow> [] | Some q \<Rightarrow> uc_items q)"

lemma channel_send_get:
  "bt_get (fst (channel_send cid ev store)) c =
     (if c = cid then map_option (\<lambda>q. if uc_receiver q then q\<lparr>uc_items := uc_items q @ [ev]\<rparr> else q) (bt_get store cid)
      else bt_get store c)"
  by (auto simp: channel_send_def split: option.split)

lemma channel_send_ok: "snd (channel_send cid ev store) \<longleftrightarrow> (\<exists>q. bt_get store cid = Some q \<and> uc_receiver q)"
  by (auto simp: channel_send_def split: option.split)

subsection \<open>Mailboxes\<close>

text \<open>
  A table of senders, one per peer, as both networks keep it: a peer is open if its channel still has its
  receiver, and its mailbox is what its channel holds. Peers do not share channels, and the channels are
  those handed out so far.
\<close>

type_synonym SenderTable = "(PeerId, nat) btree_map"

definition box_open :: "SenderTable \<Rightarrow> ChannelStore \<Rightarrow> PeerId \<Rightarrow> bool" where
  "box_open senders store peer \<longleftrightarrow>
     (case bt_get senders peer of
        None \<Rightarrow> False
      | Some cid \<Rightarrow> (case bt_get store cid of None \<Rightarrow> False | Some q \<Rightarrow> uc_receiver q))"

definition box_items :: "SenderTable \<Rightarrow> ChannelStore \<Rightarrow> PeerId \<Rightarrow> NetEvent list" where
  "box_items senders store peer = (case bt_get senders peer of None \<Rightarrow> [] | Some cid \<Rightarrow> channel_items store cid)"

definition box_post :: "SenderTable \<Rightarrow> PeerId \<Rightarrow> NetEvent \<Rightarrow> ChannelStore \<Rightarrow> ChannelStore" where
  "box_post senders peer event store =
     (case bt_get senders peer of None \<Rightarrow> store | Some cid \<Rightarrow> fst (channel_send cid event store))"

definition boxes_inv :: "SenderTable \<Rightarrow> ChannelStore \<Rightarrow> nat \<Rightarrow> bool" where
  "boxes_inv senders store next_cid \<longleftrightarrow>
     (\<forall>p p' cid. bt_get senders p = Some cid \<longrightarrow> bt_get senders p' = Some cid \<longrightarrow> p = p') \<and>
     (\<forall>p cid. bt_get senders p = Some cid \<longrightarrow> bt_get store cid \<noteq> None) \<and>
     (\<forall>cid. bt_get store cid \<noteq> None \<longrightarrow> cid < next_cid)"

lemma boxes_inv_inj:
  "boxes_inv senders store k \<Longrightarrow> bt_get senders p = Some cid \<Longrightarrow> bt_get senders p' = Some cid \<Longrightarrow> p = p'"
  by (simp add: boxes_inv_def)

lemma boxes_inv_empty [simp]: "boxes_inv bt_empty bt_empty k"
  by (simp add: boxes_inv_def)

lemma box_post_get:
  "bt_get (box_post senders p ev store) cid =
     (if bt_get senders p = Some cid
      then map_option (\<lambda>q. if uc_receiver q then q\<lparr>uc_items := uc_items q @ [ev]\<rparr> else q) (bt_get store cid)
      else bt_get store cid)"
  by (auto simp: box_post_def channel_send_get split: option.split)

lemma box_post_inv [simp]: "boxes_inv senders (box_post senders' p ev store) k \<longleftrightarrow> boxes_inv senders store k"
proof -
  have "bt_get (box_post senders' p ev store) cid = None \<longleftrightarrow> bt_get store cid = None" for cid
    by (simp add: box_post_get)
  then show ?thesis by (simp add: boxes_inv_def)
qed

lemma box_post_open [simp]: "box_open senders (box_post senders' p ev store) p' \<longleftrightarrow> box_open senders store p'"
  by (auto simp: box_open_def box_post_get split: option.split)

lemma box_post_items:
  "boxes_inv senders store k \<Longrightarrow>
   box_items senders (box_post senders p ev store) p' =
     box_items senders store p' @ (if p' = p \<and> box_open senders store p then [ev] else [])"
  by (auto simp: box_items_def channel_items_def box_post_get box_open_def dest: boxes_inv_inj split: option.splits)

lemma boxes_inv_add:
  assumes "boxes_inv senders store k"
  shows "boxes_inv (bt_insert p k senders) (bt_insert k q store) (Suc k)"
proof -
  have "bt_get senders p' \<noteq> Some k" for p' using assms unfolding boxes_inv_def by (metis less_irrefl)
  with assms show ?thesis by (auto simp: boxes_inv_def less_Suc_eq)
qed

lemma boxes_inv_remove: "boxes_inv senders store k \<Longrightarrow> boxes_inv (bt_remove p senders) store k"
  by (auto simp: boxes_inv_def)

lemma boxes_inv_recv: "boxes_inv senders store k \<Longrightarrow> boxes_inv senders (fst (channel_recv cid store)) k"
  by (auto simp: boxes_inv_def channel_recv_def split: option.split list.split)

end
