(* ===== verification/MemoryNet.thy ===== *)
theory MemoryNet
  imports NetLaws Mpsc
begin

text \<open>
  \<open>runtime/memory_net.rs\<close>: the in-process network. The hub's sender table refers to channels of the
  store of theory \<open>Mpsc\<close>, and so does the receiver an endpoint holds, so a channel outlives its entry in the
  table. The mutexes make each operation atomic.
\<close>

subsection \<open>The hub\<close>

type_synonym OpenerKey = "PeerId \<times> ChannelId \<times> MessageId"

record MemoryNetHub =
  mh_senders :: "(PeerId, nat) btree_map"
  mh_inbound_openers :: "(OpenerKey, PeerId btree_set) btree_map"
  mh_channels :: ChannelStore
  mh_next :: nat

record MemoryNetEndpoint =
  me_peer_id :: PeerId
  me_inbound :: "nat option"

definition MemoryNetHub_new :: MemoryNetHub where
  "MemoryNetHub_new = \<lparr>mh_senders = bt_empty, mh_inbound_openers = bt_empty, mh_channels = bt_empty, mh_next = 0\<rparr>"

definition MemoryNetHub_endpoint :: "MemoryNetHub \<Rightarrow> PeerId \<Rightarrow> MemoryNetHub \<times> MemoryNetEndpoint" where
  "MemoryNetHub_endpoint hub peer_id =
     (let cid = mh_next hub in
      (hub\<lparr>mh_next := Suc cid,
           mh_channels := bt_insert cid \<lparr>uc_items = [], uc_receiver = True\<rparr> (mh_channels hub),
           mh_senders := bt_insert peer_id cid (mh_senders hub)\<rparr>,
       \<lparr>me_peer_id = peer_id, me_inbound = Some cid\<rparr>))"

definition MemoryNetHub_disconnect :: "MemoryNetHub \<Rightarrow> PeerId \<Rightarrow> MemoryNetHub" where
  "MemoryNetHub_disconnect hub peer_id = hub\<lparr>mh_senders := bt_remove peer_id (mh_senders hub)\<rparr>"

text \<open>\<open>events\<close> takes the receiver; a second call panics (\<open>None\<close>).\<close>

definition MemoryNetEndpoint_events :: "MemoryNetEndpoint \<Rightarrow> (MemoryNetEndpoint \<times> nat) option" where
  "MemoryNetEndpoint_events ep = map_option (\<lambda>cid. (ep\<lparr>me_inbound := None\<rparr>, cid)) (me_inbound ep)"

subsection \<open>Sending\<close>

fun chunk_ack :: "NetSend \<Rightarrow> NetEvent option" where
  "chunk_ack (SendChunk peer channel message_id _ _ token) = Some (EvChunkSendResult peer channel message_id token True)"
| "chunk_ack _ = None"

definition hub_post :: "PeerId \<Rightarrow> NetEvent \<Rightarrow> MemoryNetHub \<Rightarrow> MemoryNetHub" where
  "hub_post peer event hub =
     (case bt_get (mh_senders hub) peer of
        None \<Rightarrow> hub
      | Some cid \<Rightarrow> hub\<lparr>mh_channels := fst (channel_send cid event (mh_channels hub))\<rparr>)"

definition notify_reconstructed :: "PeerId \<Rightarrow> ChannelId \<Rightarrow> MessageId \<Rightarrow> MemoryNetHub \<Rightarrow> MemoryNetHub" where
  "notify_reconstructed self channel message_id hub =
     (let openers = bt_keys (bt_get_or bt_empty (mh_inbound_openers hub) (self, channel, message_id));
          hub = hub\<lparr>mh_inbound_openers := bt_remove (self, channel, message_id) (mh_inbound_openers hub)\<rparr>
      in fold (\<lambda>opener. hub_post opener (EvPeerReconstructed self channel message_id)) openers hub)"

definition record_opener :: "PeerId \<Rightarrow> NetSend \<Rightarrow> MemoryNetHub \<Rightarrow> MemoryNetHub" where
  "record_opener self msg hub =
     (case msg of
        SendSessionOpen peer channel message_id _ _ \<Rightarrow>
          hub\<lparr>mh_inbound_openers := bt_entry bt_empty (peer, channel, message_id) (bs_insert self) (mh_inbound_openers hub)\<rparr>
      | _ \<Rightarrow> hub)"

definition MemoryNetEndpoint_send :: "PeerId \<Rightarrow> MemoryNetHub NetOp" where
  "MemoryNetEndpoint_send self hub msg =
     (case msg of
        SendSessionReconstructed channel message_id \<Rightarrow> (notify_reconstructed self channel message_id hub, Inr ())
      | _ \<Rightarrow>
          (case (send_dst msg, sent_event self msg) of
             (Some dst, Some event) \<Rightarrow>
               (let hub = record_opener self msg hub in
                case bt_get (mh_senders hub) dst of
                  None \<Rightarrow> (hub, Inl (PeerNotFound dst))
                | Some cid \<Rightarrow>
                    (case channel_send cid event (mh_channels hub) of
                       (_, False) \<Rightarrow> (hub, Inl NetClosed)
                     | (store, True) \<Rightarrow>
                         (let hub = hub\<lparr>mh_channels := store\<rparr> in
                          (case chunk_ack msg of None \<Rightarrow> hub | Some ack \<Rightarrow> hub_post self ack hub, Inr ()))))
           | _ \<Rightarrow> (hub, Inr ())))"


subsection \<open>Mailboxes\<close>

definition reachable_peer :: "MemoryNetHub \<Rightarrow> PeerId \<Rightarrow> bool" where
  "reachable_peer hub = box_open (mh_senders hub) (mh_channels hub)"

definition mailbox :: "MemoryNetHub \<Rightarrow> PeerId \<Rightarrow> NetEvent list" where
  "mailbox hub = box_items (mh_senders hub) (mh_channels hub)"

definition hub_inv :: "MemoryNetHub \<Rightarrow> bool" where
  "hub_inv hub \<longleftrightarrow> boxes_inv (mh_senders hub) (mh_channels hub) (mh_next hub)"

lemma hub_post_eq: "hub_post p ev hub = hub\<lparr>mh_channels := box_post (mh_senders hub) p ev (mh_channels hub)\<rparr>"
  by (simp add: hub_post_def box_post_def split: option.split)

lemma hub_post_fields [simp]:
  "mh_senders (hub_post p ev hub) = mh_senders hub" "mh_inbound_openers (hub_post p ev hub) = mh_inbound_openers hub"
  "mh_next (hub_post p ev hub) = mh_next hub"
  by (simp_all add: hub_post_eq)

lemma hub_post_inv: "hub_inv hub \<Longrightarrow> hub_inv (hub_post p ev hub)"
  by (simp add: hub_inv_def hub_post_eq)

lemma hub_post_reachable [simp]: "reachable_peer (hub_post p ev hub) p' \<longleftrightarrow> reachable_peer hub p'"
  by (simp add: reachable_peer_def hub_post_eq)

lemma hub_post_mailbox:
  "hub_inv hub \<Longrightarrow> mailbox (hub_post p ev hub) p' = mailbox hub p' @ (if p' = p \<and> reachable_peer hub p then [ev] else [])"
  by (simp add: mailbox_def reachable_peer_def hub_inv_def hub_post_eq box_post_items)

lemma record_opener_fields [simp]:
  "mh_senders (record_opener self msg hub) = mh_senders hub" "mh_channels (record_opener self msg hub) = mh_channels hub"
  "mh_next (record_opener self msg hub) = mh_next hub"
  by (simp_all add: record_opener_def split: NetSend.split)

lemma record_opener_keeps [simp]:
  "hub_inv (record_opener self msg hub) \<longleftrightarrow> hub_inv hub" "reachable_peer (record_opener self msg hub) p \<longleftrightarrow> reachable_peer hub p"
  "mailbox (record_opener self msg hub) p = mailbox hub p"
  by (simp_all add: hub_inv_def reachable_peer_def mailbox_def)

lemma sent_event_dst: "sent_event src msg = None \<longleftrightarrow> send_dst msg = None"
  by (cases msg) simp_all

text \<open>An addressed message, in terms of posting to mailboxes.\<close>

lemma memory_send_eq:
  assumes "send_dst msg = Some dst"
  shows "MemoryNetEndpoint_send self hub msg =
    (let hub1 = record_opener self msg hub in
     if bt_get (mh_senders hub) dst = None then (hub1, Inl (PeerNotFound dst))
     else if \<not> reachable_peer hub dst then (hub1, Inl NetClosed)
     else (let hub2 = hub_post dst (the (sent_event self msg)) hub1 in
       (case chunk_ack msg of None \<Rightarrow> hub2 | Some ack \<Rightarrow> hub_post self ack hub2, Inr ())))"
proof -
  have "sent_event self msg \<noteq> None" using assms by (simp add: sent_event_dst)
  moreover have "\<nexists>c m. msg = SendSessionReconstructed c m" using assms by auto
  ultimately show ?thesis using assms
    by (cases msg) (auto simp: MemoryNetEndpoint_send_def Let_def reachable_peer_def box_open_def hub_post_def channel_send_def split: option.split)
qed

lemma memory_send_reliable:
  assumes "hub_inv hub" "send_dst msg = Some dst" "reachable_peer hub dst"
  shows "\<exists>hub'. MemoryNetEndpoint_send self hub msg = (hub', Inr ()) \<and> hub_inv hub' \<and>
    (\<forall>p. reachable_peer hub' p \<longleftrightarrow> reachable_peer hub p) \<and>
    (\<forall>p. mailbox hub' p = mailbox hub p @ (if p = dst then [the (sent_event self msg)] else []) @
      (if p = self \<and> reachable_peer hub self then (case chunk_ack msg of None \<Rightarrow> [] | Some ack \<Rightarrow> [ack]) else []))"
proof -
  have "bt_get (mh_senders hub) dst \<noteq> None" using assms(3) by (auto simp: reachable_peer_def box_open_def split: option.splits)
  then show ?thesis using assms
    by (auto simp: memory_send_eq Let_def hub_post_mailbox hub_post_inv split: option.split)
qed


interpretation mem: reliable_net "MemoryNetEndpoint_send self" self "\<lambda>_. hub_inv" reachable_peer mailbox for self
  by unfold_locales (use memory_send_reliable in fastforce)

subsection \<open>Reachable hubs\<close>

inductive hub_reachable :: "MemoryNetHub \<Rightarrow> bool" where
  hub_new: "hub_reachable MemoryNetHub_new"
| hub_endpoint: "hub_reachable hub \<Longrightarrow> hub_reachable (fst (MemoryNetHub_endpoint hub p))"
| hub_disconnect: "hub_reachable hub \<Longrightarrow> hub_reachable (MemoryNetHub_disconnect hub p)"
| hub_send: "hub_reachable hub \<Longrightarrow> hub_reachable (fst (MemoryNetEndpoint_send self hub msg))"
| hub_recv: "hub_reachable hub \<Longrightarrow> hub_reachable (hub\<lparr>mh_channels := fst (channel_recv cid (mh_channels hub))\<rparr>)"

lemma fold_post_inv: "hub_inv hub \<Longrightarrow> hub_inv (fold (\<lambda>p. hub_post p ev) ps hub)"
  by (induction ps arbitrary: hub) (simp_all add: hub_post_inv)

lemma fold_post_fields:
  "mh_senders (fold (\<lambda>p. hub_post p ev) ps hub) = mh_senders hub"
  "mh_inbound_openers (fold (\<lambda>p. hub_post p ev) ps hub) = mh_inbound_openers hub"
  by (induction ps arbitrary: hub) simp_all

lemma fold_post_mailbox:
  "hub_inv hub \<Longrightarrow> distinct ps \<Longrightarrow>
   mailbox (fold (\<lambda>p. hub_post p ev) ps hub) q = mailbox hub q @ (if q \<in> set ps \<and> reachable_peer hub q then [ev] else [])"
  by (induction ps arbitrary: hub) (auto simp: hub_post_inv hub_post_mailbox)

lemma openers_update_keeps [simp]:
  "hub_inv (hub\<lparr>mh_inbound_openers := o'\<rparr>) \<longleftrightarrow> hub_inv hub"
  "reachable_peer (hub\<lparr>mh_inbound_openers := o'\<rparr>) p \<longleftrightarrow> reachable_peer hub p"
  "mailbox (hub\<lparr>mh_inbound_openers := o'\<rparr>) p = mailbox hub p"
  by (simp_all add: hub_inv_def reachable_peer_def mailbox_def)

lemma send_hub_inv: "hub_inv hub \<Longrightarrow> hub_inv (fst (MemoryNetEndpoint_send self hub msg))"
proof (cases "send_dst msg")
  case None
  then obtain c m where "msg = SendSessionReconstructed c m" by (cases msg) auto
  then show "hub_inv hub \<Longrightarrow> ?thesis"
    by (simp add: MemoryNetEndpoint_send_def notify_reconstructed_def Let_def fold_post_inv)
next
  case (Some dst)
  then show "hub_inv hub \<Longrightarrow> ?thesis" by (simp add: memory_send_eq Let_def hub_post_inv split: option.split)
qed

lemma hub_reachable_inv: "hub_reachable hub \<Longrightarrow> hub_inv hub"
proof (induction rule: hub_reachable.induct)
  case (hub_endpoint hub p)
  then show ?case by (simp add: hub_inv_def MemoryNetHub_endpoint_def Let_def boxes_inv_add)
qed (simp_all add: send_hub_inv, simp_all add: hub_inv_def MemoryNetHub_new_def MemoryNetHub_disconnect_def boxes_inv_remove boxes_inv_recv)

subsection \<open>Properties\<close>

text \<open>
  C28. The in-process network delivers exactly once and in order. In every reachable hub, sending to a
  peer whose receiver is alive succeeds, appends exactly one event to that peer's mailbox, appends
  for a chunk one positive send result to the sender's own mailbox, and touches no other; sending
  to an unregistered peer fails with \<open>PeerNotFound\<close> and delivers nothing.
\<close>

theorem memory_send_exact:
  assumes "hub_reachable hub" "send_dst msg = Some dst"
  shows "(bt_get (mh_senders hub) dst = None \<longrightarrow>
      snd (MemoryNetEndpoint_send self hub msg) = Inl (PeerNotFound dst) \<and>
      mailbox (fst (MemoryNetEndpoint_send self hub msg)) p = mailbox hub p) \<and>
    (reachable_peer hub dst \<longrightarrow>
      snd (MemoryNetEndpoint_send self hub msg) = Inr () \<and>
      mailbox (fst (MemoryNetEndpoint_send self hub msg)) p =
        mailbox hub p @ (if p = dst then [the (sent_event self msg)] else []) @
        (if p = self \<and> reachable_peer hub self then (case chunk_ack msg of None \<Rightarrow> [] | Some ack \<Rightarrow> [ack]) else []))"
proof (intro conjI impI)
  note inv = hub_reachable_inv [OF assms(1)]
  show "snd (MemoryNetEndpoint_send self hub msg) = Inl (PeerNotFound dst)"
    "mailbox (fst (MemoryNetEndpoint_send self hub msg)) p = mailbox hub p"
    if "bt_get (mh_senders hub) dst = None"
    using that by (simp_all add: memory_send_eq [OF assms(2)] Let_def)
  assume "reachable_peer hub dst"
  from memory_send_reliable [OF inv assms(2) this, of self]
  show "snd (MemoryNetEndpoint_send self hub msg) = Inr ()"
    "mailbox (fst (MemoryNetEndpoint_send self hub msg)) p =
        mailbox hub p @ (if p = dst then [the (sent_event self msg)] else []) @
        (if p = self \<and> reachable_peer hub self then (case chunk_ack msg of None \<Rightarrow> [] | Some ack \<Rightarrow> [ack]) else [])"
    by auto
qed

definition demo_hub :: MemoryNetHub where
  "demo_hub = fst (MemoryNetHub_endpoint (fst (MemoryNetHub_endpoint MemoryNetHub_new 1)) 2)"

theorem memory_send_exact_witness:
  "mailbox (fst (MemoryNetEndpoint_send 1 demo_hub (SendChunk 2 ''c'' ''m'' 7 [1] 3))) 2 = [EvChunk 1 ''c'' ''m'' 7 [1]] \<and>
   mailbox (fst (MemoryNetEndpoint_send 1 demo_hub (SendChunk 2 ''c'' ''m'' 7 [1] 3))) 1 = [EvChunkSendResult 2 ''c'' ''m'' 3 True]"
proof -
  have h: "hub_reachable demo_hub" unfolding demo_hub_def by (intro hub_endpoint hub_new)
  have "reachable_peer demo_hub 2" "reachable_peer demo_hub 1" "mailbox demo_hub 1 = []" "mailbox demo_hub 2 = []" by code_simp+
  with memory_send_exact [OF h, of "SendChunk 2 ''c'' ''m'' 7 [1] 3" 2 1 1] memory_send_exact [OF h, of "SendChunk 2 ''c'' ''m'' 7 [1] 3" 2 1 2]
  show ?thesis by simp
qed

text \<open>
  Reconstruction reaches every sender once. When a peer reports a session reconstructed, each
  reachable peer recorded as an opener of that session towards it gets exactly one
  \<open>PeerReconstructed\<close>, nobody else gets anything, and the record is cleared, so a second report is silent.
\<close>

theorem reconstructed_notifies_openers:
  assumes "hub_reachable hub"
  shows "mailbox (fst (MemoryNetEndpoint_send self hub (SendSessionReconstructed c m))) p =
      mailbox hub p @
      (if p \<in> bs_elems (bt_get_or bt_empty (mh_inbound_openers hub) (self, c, m)) \<and> reachable_peer hub p
       then [EvPeerReconstructed self c m] else []) \<and>
    bt_get (mh_inbound_openers (fst (MemoryNetEndpoint_send self hub (SendSessionReconstructed c m)))) (self, c, m) = None"
  using hub_reachable_inv [OF assms]
  by (simp add: MemoryNetEndpoint_send_def notify_reconstructed_def Let_def fold_post_mailbox fold_post_fields set_bt_keys_bs_elems)

theorem reconstructed_notifies_openers_witness:
  "mailbox (fst (MemoryNetEndpoint_send 2 (fst (MemoryNetEndpoint_send 1 demo_hub (SendSessionOpen 2 ''c'' ''m'' [] [])))
     (SendSessionReconstructed ''c'' ''m''))) 1 = [EvPeerReconstructed 2 ''c'' ''m'']"
proof -
  let ?hub = "fst (MemoryNetEndpoint_send 1 demo_hub (SendSessionOpen 2 ''c'' ''m'' [] []))"
  have "hub_reachable ?hub" unfolding demo_hub_def by (intro hub_send hub_endpoint hub_new)
  note r = reconstructed_notifies_openers [OF this, of 2 "''c''" "''m''" 1]
  have "bt_keys (bt_get_or bt_empty (mh_inbound_openers ?hub) (2, ''c'', ''m'')) = [1]" "reachable_peer ?hub 1" "mailbox ?hub 1 = []"
    by code_simp+
  with r show ?thesis by (simp add: set_bt_keys_bs_elems [symmetric])
qed

text \<open>
  Disconnecting cuts future sends only: afterwards every send to the peer fails with \<open>PeerNotFound\<close>, but the
  events queued before stay in its channel and its endpoint receives them, where the documentation
  of \<open>disconnect\<close> says that pending events are dropped.
\<close>

theorem disconnect_keeps_pending:
  assumes "send_dst msg = Some peer" "bt_get (mh_senders hub) peer = Some cid" "mailbox hub peer = ev # evs"
  shows "snd (MemoryNetEndpoint_send self (MemoryNetHub_disconnect hub peer) msg) = Inl (PeerNotFound peer) \<and>
    snd (channel_recv cid (mh_channels (MemoryNetHub_disconnect hub peer))) = Some ev"
  using assms
  by (auto simp: memory_send_eq Let_def MemoryNetHub_disconnect_def channel_recv_def mailbox_def box_items_def channel_items_def
      split: option.splits list.split)

theorem disconnect_keeps_pending_witness:
  "snd (channel_recv 1 (mh_channels (MemoryNetHub_disconnect (fst (MemoryNetEndpoint_send 1 demo_hub (SendSubscribe 2 ''c''))) 2))) =
     Some (EvSubscribe 1 ''c'')"
proof -
  let ?hub = "fst (MemoryNetEndpoint_send 1 demo_hub (SendSubscribe 2 ''c''))"
  have "bt_get (mh_senders ?hub) 2 = Some 1" "mailbox ?hub 2 = [EvSubscribe 1 ''c'']" by code_simp+
  from disconnect_keeps_pending [of "SendSubscribe 2 ''d''" 2 ?hub, OF _ this] show ?thesis by simp
qed

end
