(* ===== verification/Verify.thy ===== *)
theory Verify
  imports Prelude
begin

text \<open>
  \<open>strategy/rs/verify.rs\<close> and the vocabulary of \<open>strategy/mod.rs\<close> it uses: the session preamble of
  \<open>proto/rs.proto\<close>, its validation, and per-chunk verification. SHA-256 comes from the \<open>sha2\<close>
  crate and is the parameter \<open>sha\<close> of the definitions that hash.
\<close>

record Preamble =
  num_data :: i32
  num_parity :: i32
  pre_length :: i32
  hashes :: "bytes list"
  pre_hash :: bytes

datatype Verdict = Accepted | Redundant | VDecoding | Surplus | Invalid | Pending

datatype PreambleError =
    NegativeShardCount i32 i32
  | ShardCountOverflow
  | HashCountMismatch nat u32
  | HashLengthInvalid nat nat
  | MessageHashLengthInvalid nat
  | NegativeLength i32

definition HASH_LEN :: nat where
  "HASH_LEN = 32"

definition shard_total :: "Preamble \<Rightarrow> u32 option" where
  "shard_total p =
     Option.bind (u32_try_from_i32 (num_data p)) (\<lambda>d.
     Option.bind (u32_try_from_i32 (num_parity p)) (\<lambda>pp. checked_add d pp))"

fun check_hashes :: "nat \<Rightarrow> bytes list \<Rightarrow> PreambleError + unit" where
  "check_hashes i [] = Inr ()"
| "check_hashes i (h # hs) =
     (if length h \<noteq> HASH_LEN then Inl (HashLengthInvalid i (length h)) else check_hashes (Suc i) hs)"

definition validate_preamble :: "Preamble \<Rightarrow> PreambleError + unit" where
  "validate_preamble p =
     (if sint (num_data p) < 0 \<or> sint (num_parity p) < 0
      then Inl (NegativeShardCount (num_data p) (num_parity p))
      else if sint (pre_length p) < 0 then Inl (NegativeLength (pre_length p))
      else (case shard_total p of
          None \<Rightarrow> Inl ShardCountOverflow
        | Some tot \<Rightarrow>
            if length (hashes p) \<noteq> unat tot
            then Inl (HashCountMismatch (length (hashes p)) tot)
            else result_bind (check_hashes 0 (hashes p)) (\<lambda>_.
              if length (pre_hash p) \<noteq> HASH_LEN
              then Inl (MessageHashLengthInvalid (length (pre_hash p)))
              else Inr ())))"

definition verify_chunk :: "(bytes \<Rightarrow> bytes) \<Rightarrow> Preamble \<Rightarrow> u32 \<Rightarrow> bytes \<Rightarrow> Verdict" where
  "verify_chunk sha p idx data =
     (case shard_total p of
        None \<Rightarrow> Invalid
      | Some tot \<Rightarrow>
          if tot \<le> idx then Invalid
          else if unat idx < length (hashes p) \<and> length (hashes p ! unat idx) = HASH_LEN
          then (if sha data = hashes p ! unat idx then Accepted else Invalid)
          else Invalid)"

subsection \<open>Totals\<close>

text \<open>
  Two non-negative \<open>i32\<close> values never overflow a \<open>u32\<close> sum, so the checked addition of the source
  cannot fail once the sign check has passed.
\<close>

lemma shard_total_nonneg:
  assumes "0 \<le> sint (num_data p)" "0 \<le> sint (num_parity p)"
  shows "shard_total p = Some (num_data p + num_parity p)"
    and "unat (num_data p + num_parity p) = unat (num_data p) + unat (num_parity p)"
  using assms unat_nonneg_i32 [of "num_data p"] unat_nonneg_i32 [of "num_parity p"]
  by (simp_all add: shard_total_def u32_try_from_i32_def checked_add_def unat_word_ariths)

lemma check_hashes_Inr: "check_hashes i hs = Inr () \<longleftrightarrow> (\<forall>h\<in>set hs. length h = HASH_LEN)"
  by (induction i hs rule: check_hashes.induct) auto

lemma check_hashes_first:
  "check_hashes i hs = Inl e \<longleftrightarrow> (\<exists>j < length hs. length (hs ! j) \<noteq> HASH_LEN \<and>
     (\<forall>k < j. length (hs ! k) = HASH_LEN) \<and> e = HashLengthInvalid (i + j) (length (hs ! j)))"
proof (induction i hs rule: check_hashes.induct)
  case (2 i h hs)
  show ?case
  proof (cases "length h = HASH_LEN")
    case True
    then show ?thesis using 2
      by (simp add: Ex_less_Suc2 All_less_Suc2)
  next
    case False
    then show ?thesis by (auto simp: All_less_Suc2 Ex_less_Suc2 gr0_conv_Suc)
  qed
qed simp

text \<open>What a preamble that passes validation satisfies.\<close>

definition preamble_ok :: "Preamble \<Rightarrow> bool" where
  "preamble_ok p \<longleftrightarrow> 0 \<le> sint (num_data p) \<and> 0 \<le> sint (num_parity p) \<and> 0 \<le> sint (pre_length p)
     \<and> length (hashes p) = unat (num_data p) + unat (num_parity p)
     \<and> (\<forall>h\<in>set (hashes p). length h = HASH_LEN) \<and> length (pre_hash p) = HASH_LEN"

lemma validate_preamble_iff: "validate_preamble p = Inr () \<longleftrightarrow> preamble_ok p"
proof (cases "sint (num_data p) < 0 \<or> sint (num_parity p) < 0 \<or> sint (pre_length p) < 0")
  case True
  then show ?thesis by (auto simp: validate_preamble_def preamble_ok_def)
next
  case False
  then have "0 \<le> sint (num_data p)" "0 \<le> sint (num_parity p)" by auto
  note tot = shard_total_nonneg [OF this]
  from False show ?thesis
    by (auto simp: validate_preamble_def preamble_ok_def tot result_bind_Inr_iff check_hashes_Inr)
qed

lemma verify_chunk_iff:
  assumes "preamble_ok p"
  shows "verify_chunk sha p idx data = Accepted \<longleftrightarrow>
    unat idx < length (hashes p) \<and> sha data = hashes p ! unat idx"
proof -
  have "0 \<le> sint (num_data p)" "0 \<le> sint (num_parity p)"
    using assms by (auto simp: preamble_ok_def)
  note tot = shard_total_nonneg [OF this]
  from assms show ?thesis
    by (auto simp: verify_chunk_def tot word_le_nat_alt preamble_ok_def not_le)
qed

lemma verify_chunk_cases: "verify_chunk sha p idx data = Accepted \<or> verify_chunk sha p idx data = Invalid"
  by (simp add: verify_chunk_def split: option.split)

subsection \<open>Properties\<close>

text \<open>
  Preamble validation accepts exactly the preambles with non-negative counts and length, one
  32-byte hash per shard and a 32-byte message hash; the error \<open>ShardCountOverflow\<close> is never
  returned, since the sum of two non-negative 32-bit integers fits in 32 unsigned bits.
\<close>

theorem validate_preamble_exact:
  "(validate_preamble p = Inr () \<longleftrightarrow> preamble_ok p) \<and> validate_preamble p \<noteq> Inl ShardCountOverflow"
proof -
  have "check_hashes i hs \<noteq> Inl ShardCountOverflow" for i hs
    by (simp add: check_hashes_first)
  then have "validate_preamble p \<noteq> Inl ShardCountOverflow"
    using shard_total_nonneg(1) [of p]
    by (auto simp: validate_preamble_def result_bind_def split: sum.split)
  then show ?thesis by (simp add: validate_preamble_iff)
qed

text \<open>
  Under a validated preamble a chunk is accepted exactly when its index is in range and its
  digest is the one the preamble lists for that index; every other chunk is \<open>Invalid\<close>.
\<close>

theorem verify_chunk_exact:
  assumes "validate_preamble p = Inr ()"
  shows "verify_chunk sha p idx data =
    (if unat idx < length (hashes p) \<and> sha data = hashes p ! unat idx then Accepted else Invalid)"
  using verify_chunk_iff [of p sha idx data] verify_chunk_cases [of sha p idx data] assms
  by (auto simp: validate_preamble_iff)

theorem verify_chunk_exact_witness:
  "verify_chunk (\<lambda>d. take 32 (d @ replicate 32 0))
     \<lparr>num_data = 1, num_parity = 0, pre_length = 1, hashes = [7 # replicate 31 0], pre_hash = replicate 32 0\<rparr>
     0 [7] = Accepted"
  by (subst verify_chunk_exact)
    (simp_all add: validate_preamble_iff preamble_ok_def HASH_LEN_def take_Cons' numeral_eq_Suc)

end
