(* ===== verification/Strategy.thy ===== *)
theory Strategy
  imports Verify
begin

text \<open>
  \<open>strategy/mod.rs\<close> and \<open>strategy/dispatch.rs\<close>: the interface between the session, channel and
  engine layers and a broadcast coding scheme. The Rust trait is the record \<open>StrategyOps\<close> of its
  methods, with the strategy's state \<open>'s\<close>, chunk identifier \<open>'c\<close>, routing update \<open>'r\<close> and decode
  error \<open>'e\<close> as type parameters; methods taking \<open>&mut self\<close> return the updated state. The locale
  \<open>broadcast_strategy\<close> states what the upper layers rely on.
\<close>

type_synonym DispatchHandle = u64

record TakeOutcome =
  to_verdict :: Verdict
  to_complete :: bool

datatype TakeError = TakeOutOfRange u64 u64

record 'c ChunkDispatch =
  cd_peer :: PeerId
  cd_chunk_id :: 'c
  cd_handle :: DispatchHandle
  cd_payload :: bytes

record ('s, 'c, 'r, 'e) StrategyOps =
  st_have_chunk :: "'s \<Rightarrow> 'c \<Rightarrow> bool"
  st_verify_chunk :: "'s \<Rightarrow> 'c \<Rightarrow> bytes \<Rightarrow> Verdict"
  st_take_chunk :: "'s \<Rightarrow> 'c \<Rightarrow> bytes \<Rightarrow> 's \<times> (TakeError + TakeOutcome)"
  st_attach_peer :: "'s \<Rightarrow> PeerId \<Rightarrow> 's"
  st_detach_peer :: "'s \<Rightarrow> PeerId \<Rightarrow> bool \<Rightarrow> 's"
  st_routing_update :: "'s \<Rightarrow> PeerId \<Rightarrow> 'r \<Rightarrow> 's \<times> DispatchHandle list"
  st_poll_chunks :: "'s \<Rightarrow> 's \<times> 'c ChunkDispatch list"
  st_poll_routing :: "'s \<Rightarrow> bool \<Rightarrow> 's \<times> 'r option"
  st_chunk_sent :: "'s \<Rightarrow> PeerId \<Rightarrow> DispatchHandle \<Rightarrow> bool \<Rightarrow> 's"
  st_progress :: "'s \<Rightarrow> u32 \<times> u32"
  st_decode :: "'s \<Rightarrow> 'e + bytes"

text \<open>
  The contract. \<open>inv\<close> is the strategy's own invariant. A chunk reported as present is never taken
  as new (the documentation of \<open>have_chunk\<close> forbids false positives), completeness agrees with
  \<open>progress\<close>, and \<open>work\<close> bounds the outbound work that polling can still produce: a poll that
  returns something uses some of it up. The engine's drain loop ends because of the last two laws.
\<close>

locale broadcast_strategy =
  fixes S :: "('s, 'c, 'r, 'e) StrategyOps"
    and inv :: "'s \<Rightarrow> bool"
    and work :: "'s \<Rightarrow> nat"
  assumes inv_take: "inv s \<Longrightarrow> inv (fst (st_take_chunk S s c d))"
    and inv_attach: "inv s \<Longrightarrow> inv (st_attach_peer S s peer)"
    and inv_detach: "inv s \<Longrightarrow> inv (st_detach_peer S s peer completed)"
    and inv_routing: "inv s \<Longrightarrow> inv (fst (st_routing_update S s peer u))"
    and inv_poll_chunks: "inv s \<Longrightarrow> inv (fst (st_poll_chunks S s))"
    and inv_poll_routing: "inv s \<Longrightarrow> inv (fst (st_poll_routing S s force))"
    and inv_sent: "inv s \<Longrightarrow> inv (st_chunk_sent S s peer h ok)"
    and have_sound: "inv s \<Longrightarrow> st_have_chunk S s c \<Longrightarrow> snd (st_take_chunk S s c d) = Inr out \<Longrightarrow>
      to_verdict out = Redundant"
    and complete_progress: "inv s \<Longrightarrow> st_take_chunk S s c d = (s', Inr out) \<Longrightarrow> to_complete out \<Longrightarrow>
      snd (st_progress S s') \<le> fst (st_progress S s')"
    and poll_chunks_work: "inv s \<Longrightarrow> st_poll_chunks S s = (s', ds) \<Longrightarrow>
      work s' + (if ds = [] then 0 else 1) \<le> work s"
    and poll_routing_work: "inv s \<Longrightarrow> st_poll_routing S s False = (s', r) \<Longrightarrow>
      work s' + (if r = None then 0 else 1) \<le> work s"

end
