(* ===== verification/Session.thy ===== *)
theory Session
  imports Strategy
begin

text \<open>
  \<open>session.rs\<close>: the per-session state machine over a strategy. The operations take the strategy's
  methods as the record \<open>S\<close>; the lemmas about sessions are proved once, in the context of the
  strategy contract, and the state machine is related to the abstract transition relation of the
  module's documentation.
\<close>

datatype SessionState = SOrigin | Consuming | SDecoding | Reconstructed | Failed

datatype SessionError =
    PostConsuming Verdict
  | NotDecoding SessionState
  | SessTake TakeError

record 's Session =
  se_strategy :: 's
  se_state :: SessionState

record ('c, 'r) SessionWork =
  sw_routing :: "'r option"
  sw_dispatches :: "'c ChunkDispatch list"

subsection \<open>Operations\<close>

definition Session_new_origin :: "'s \<Rightarrow> 's Session" where
  "Session_new_origin s = \<lparr>se_strategy = s, se_state = SOrigin\<rparr>"

definition Session_new_relay :: "'s \<Rightarrow> 's Session" where
  "Session_new_relay s = \<lparr>se_strategy = s, se_state = Consuming\<rparr>"

definition Session_attach_peer :: "('s, 'c, 'r, 'e) StrategyOps \<Rightarrow> 's Session \<Rightarrow> PeerId \<Rightarrow> 's Session" where
  "Session_attach_peer S se peer = se\<lparr>se_strategy := st_attach_peer S (se_strategy se) peer\<rparr>"

definition Session_detach_peer :: "('s, 'c, 'r, 'e) StrategyOps \<Rightarrow> 's Session \<Rightarrow> PeerId \<Rightarrow> bool \<Rightarrow> 's Session" where
  "Session_detach_peer S se peer completed = se\<lparr>se_strategy := st_detach_peer S (se_strategy se) peer completed\<rparr>"

definition Session_routing_update ::
  "('s, 'c, 'r, 'e) StrategyOps \<Rightarrow> 's Session \<Rightarrow> PeerId \<Rightarrow> 'r \<Rightarrow> 's Session \<times> DispatchHandle list" where
  "Session_routing_update S se peer update =
     (case st_routing_update S (se_strategy se) peer update of (s, hs) \<Rightarrow> (se\<lparr>se_strategy := s\<rparr>, hs))"

definition Session_take_chunk ::
  "('s, 'c, 'r, 'e) StrategyOps \<Rightarrow> 's Session \<Rightarrow> 'c \<Rightarrow> bytes \<Rightarrow> 's Session \<times> (SessionError + TakeOutcome)" where
  "Session_take_chunk S se idx data =
     (case se_state se of
        Consuming \<Rightarrow>
          (case st_take_chunk S (se_strategy se) idx data of
             (s, Inl e) \<Rightarrow> (se\<lparr>se_strategy := s\<rparr>, Inl (SessTake e))
           | (s, Inr outcome) \<Rightarrow>
               (if to_complete outcome \<and> to_verdict outcome = Accepted
                then (se\<lparr>se_strategy := s, se_state := SDecoding\<rparr>, Inr outcome)
                else (se\<lparr>se_strategy := s\<rparr>, Inr outcome)))
      | SDecoding \<Rightarrow> (se, Inl (PostConsuming VDecoding))
      | Reconstructed \<Rightarrow> (se, Inl (PostConsuming Surplus))
      | SOrigin \<Rightarrow> (se, Inl (PostConsuming Invalid))
      | Failed \<Rightarrow> (se, Inl (PostConsuming Invalid)))"

definition Session_decode_and_finish ::
  "('s, 'c, 'r, 'e) StrategyOps \<Rightarrow> 's Session \<Rightarrow> 's Session \<times> (SessionError + bytes)" where
  "Session_decode_and_finish S se =
     (if se_state se \<noteq> SDecoding then (se, Inl (NotDecoding (se_state se)))
      else (case st_decode S (se_strategy se) of
          Inr payload \<Rightarrow> (se\<lparr>se_state := Reconstructed\<rparr>, Inr payload)
        | Inl _ \<Rightarrow> (se\<lparr>se_state := Failed\<rparr>, Inl (NotDecoding Failed))))"

definition Session_poll :: "('s, 'c, 'r, 'e) StrategyOps \<Rightarrow> 's Session \<Rightarrow> 's Session \<times> ('c, 'r) SessionWork" where
  "Session_poll S se =
     (case st_poll_routing S (se_strategy se) False of (s, routing) \<Rightarrow>
      case st_poll_chunks S s of (s, dispatches) \<Rightarrow>
        (se\<lparr>se_strategy := s\<rparr>, \<lparr>sw_routing = routing, sw_dispatches = dispatches\<rparr>))"

definition Session_chunk_sent ::
  "('s, 'c, 'r, 'e) StrategyOps \<Rightarrow> 's Session \<Rightarrow> PeerId \<Rightarrow> DispatchHandle \<Rightarrow> bool \<Rightarrow> 's Session" where
  "Session_chunk_sent S se peer handle ok = se\<lparr>se_strategy := st_chunk_sent S (se_strategy se) peer handle ok\<rparr>"

definition Session_progress :: "('s, 'c, 'r, 'e) StrategyOps \<Rightarrow> 's Session \<Rightarrow> u32 \<times> u32" where
  "Session_progress S se = st_progress S (se_strategy se)"

lemmas session_ops = Session_attach_peer_def Session_detach_peer_def Session_routing_update_def
  Session_take_chunk_def Session_decode_and_finish_def Session_poll_def Session_chunk_sent_def

subsection \<open>The abstract state machine\<close>

text \<open>The diagram at the head of \<open>session.rs\<close>.\<close>

inductive session_trans :: "SessionState \<Rightarrow> SessionState \<Rightarrow> bool" where
  complete: "session_trans Consuming SDecoding"
| decode_ok: "session_trans SDecoding Reconstructed"
| decode_err: "session_trans SDecoding Failed"

inductive_simps session_trans_simps [simp]:
  "session_trans SOrigin t" "session_trans Consuming t" "session_trans SDecoding t"
  "session_trans Reconstructed t" "session_trans Failed t"

fun state_rank :: "SessionState \<Rightarrow> nat" where
  "state_rank SOrigin = 0"
| "state_rank Consuming = 0"
| "state_rank SDecoding = 1"
| "state_rank Reconstructed = 2"
| "state_rank Failed = 2"

lemma session_trans_rank: "session_trans s t \<Longrightarrow> state_rank s < state_rank t"
  by (induction rule: session_trans.induct) simp_all

text \<open>One operation on a session.\<close>

inductive session_step :: "('s, 'c, 'r, 'e) StrategyOps \<Rightarrow> 's Session \<Rightarrow> 's Session \<Rightarrow> bool" for S where
  sess_attach: "session_step S se (Session_attach_peer S se peer)"
| sess_detach: "session_step S se (Session_detach_peer S se peer completed)"
| sess_routing: "session_step S se (fst (Session_routing_update S se peer u))"
| sess_take: "session_step S se (fst (Session_take_chunk S se idx data))"
| sess_decode: "session_step S se (fst (Session_decode_and_finish S se))"
| sess_poll: "session_step S se (fst (Session_poll S se))"
| sess_sent: "session_step S se (Session_chunk_sent S se peer h ok)"

lemma session_step_state:
  "session_step S se se' \<Longrightarrow> se_state se' = se_state se \<or> session_trans (se_state se) (se_state se')"
proof (induction rule: session_step.induct)
  case (sess_take se idx data)
  then show ?case
    by (cases "se_state se") (auto simp: Session_take_chunk_def split: prod.splits sum.splits)
next
  case (sess_decode se)
  then show ?case by (cases "se_state se") (auto simp: Session_decode_and_finish_def split: sum.splits)
qed (simp_all add: session_ops split: prod.splits)

lemma session_steps_rank: "(session_step S)\<^sup>*\<^sup>* se se' \<Longrightarrow> state_rank (se_state se) \<le> state_rank (se_state se')"
proof (induction rule: rtranclp_induct)
  case (step y z)
  then show ?case using session_step_state session_trans_rank by (metis le_trans less_imp_le)
qed simp

lemma session_steps_terminal:
  assumes "(session_step S)\<^sup>*\<^sup>* se se'" "se_state se \<in> {SOrigin, Reconstructed, Failed}"
  shows "se_state se' = se_state se"
  using assms
proof (induction rule: rtranclp_induct)
  case (step y z)
  then show ?case using session_step_state [OF step.hyps(2)] by auto
qed simp

text \<open>A payload comes out of a session at most once.\<close>

lemma decode_result:
  "snd (Session_decode_and_finish S se) = Inr payload \<longleftrightarrow>
     se_state se = SDecoding \<and> st_decode S (se_strategy se) = Inr payload"
  by (auto simp: Session_decode_and_finish_def split: sum.split)

lemma decode_final_state:
  "snd (Session_decode_and_finish S se) = Inr payload \<Longrightarrow> se_state (fst (Session_decode_and_finish S se)) = Reconstructed"
  by (auto simp: Session_decode_and_finish_def split: sum.splits)

subsection \<open>Sessions over a strategy that meets its contract\<close>

context broadcast_strategy
begin

lemma poll_result:
  assumes "inv (se_strategy se)" "Session_poll S se = (se', w)"
  shows "inv (se_strategy se')"
    "work (se_strategy se') + (if sw_routing w = None then 0 else 1) + (if sw_dispatches w = [] then 0 else 1) \<le> work (se_strategy se)"
    "se_state se' = se_state se"
proof -
  obtain s1 r where r: "st_poll_routing S (se_strategy se) False = (s1, r)" by (cases "st_poll_routing S (se_strategy se) False")
  obtain s2 ds where d: "st_poll_chunks S s1 = (s2, ds)" by (cases "st_poll_chunks S s1")
  have eq: "se' = se\<lparr>se_strategy := s2\<rparr>" "w = \<lparr>sw_routing = r, sw_dispatches = ds\<rparr>"
    using assms(2) by (simp_all add: Session_poll_def r d)
  have i1: "inv s1" using inv_poll_routing [OF assms(1), of False] by (simp add: r)
  show "inv (se_strategy se')" using inv_poll_chunks [OF i1] by (simp add: eq d)
  show "work (se_strategy se') + (if sw_routing w = None then 0 else 1) + (if sw_dispatches w = [] then 0 else 1) \<le> work (se_strategy se)"
    using poll_routing_work [OF assms(1) r] poll_chunks_work [OF i1 d] by (simp add: eq)
  show "se_state se' = se_state se" by (simp add: eq)
qed

lemma take_chunk_inv_strategy: "inv (se_strategy se) \<Longrightarrow> inv (se_strategy (fst (Session_take_chunk S se idx data)))"
  using inv_take [of "se_strategy se" idx data]
  by (auto simp: Session_take_chunk_def split: SessionState.split prod.splits sum.splits)

lemma session_ops_inv:
  assumes "inv (se_strategy se)"
  shows "inv (se_strategy (Session_attach_peer S se peer))"
    "inv (se_strategy (Session_detach_peer S se peer completed))"
    "inv (se_strategy (fst (Session_routing_update S se peer u)))"
    "inv (se_strategy (fst (Session_take_chunk S se idx data)))"
    "inv (se_strategy (fst (Session_decode_and_finish S se)))"
    "inv (se_strategy (fst (Session_poll S se)))"
    "inv (se_strategy (Session_chunk_sent S se peer h ok))"
proof -
  show "inv (se_strategy (Session_attach_peer S se peer))"
    "inv (se_strategy (Session_detach_peer S se peer completed))"
    "inv (se_strategy (Session_chunk_sent S se peer h ok))"
    using assms by (simp_all add: session_ops inv_attach inv_detach inv_sent)
  show "inv (se_strategy (fst (Session_routing_update S se peer u)))"
    using inv_routing [OF assms, of peer u] by (simp add: Session_routing_update_def case_prod_unfold)
  show "inv (se_strategy (fst (Session_take_chunk S se idx data)))"
    using assms by (rule take_chunk_inv_strategy)
  show "inv (se_strategy (fst (Session_decode_and_finish S se)))"
    using assms by (simp add: Session_decode_and_finish_def split: sum.split)
  show "inv (se_strategy (fst (Session_poll S se)))"
    using poll_result(1) [OF assms prod.collapse [symmetric]] .
qed

lemma complete_means_enough:
  assumes "inv (se_strategy se)" "Session_take_chunk S se idx data = (se', r)"
    "se_state se \<noteq> SDecoding" "se_state se' = SDecoding"
  shows "snd (st_progress S (se_strategy se')) \<le> fst (st_progress S (se_strategy se'))"
  using assms complete_progress [OF assms(1), of idx data]
  by (auto simp: Session_take_chunk_def split: SessionState.splits prod.splits sum.splits if_splits)

end

end
