(* ===== verification/Channel.thy ===== *)
theory Channel
  imports BTree Session
begin

text \<open>
  \<open>channel.rs\<close>: the per-topic container of sessions, with its subscriber set and the factory that
  builds relay strategies from preambles. The factory closure may carry a counter
  (\<open>rs_relay_factory_seeded\<close> in \<open>engine.rs\<close>); it is a function of the call count, and the channel
  keeps the count.
\<close>

datatype PreambleFault = PreambleUndecodable | PreambleRejected PreambleError

text \<open>The message string of \<open>InvalidPreamble\<close> is the cause it is formatted from.\<close>

datatype ChannelError =
    InvalidPreamble PreambleFault
  | SessionNotFound MessageId
  | ChSession SessionError
  | DuplicateSession MessageId

type_synonym 's StrategyFactory = "u64 \<Rightarrow> bytes \<Rightarrow> u64 \<times> (ChannelError + 's)"

record 's Channel =
  ch_id :: ChannelId
  ch_subscribers :: "PeerId btree_set"
  ch_sessions :: "(MessageId, 's Session) btree_map"
  ch_factory :: "'s StrategyFactory"
  ch_calls :: u64

subsection \<open>Operations\<close>

definition Channel_new :: "ChannelId \<Rightarrow> 's StrategyFactory \<Rightarrow> 's Channel" where
  "Channel_new cid factory =
     \<lparr>ch_id = cid, ch_subscribers = bt_empty, ch_sessions = bt_empty, ch_factory = factory, ch_calls = 0\<rparr>"

definition Channel_subscribe_peer :: "('s, 'c, 'r, 'e) StrategyOps \<Rightarrow> 's Channel \<Rightarrow> PeerId \<Rightarrow> 's Channel" where
  "Channel_subscribe_peer S ch peer =
     (if bt_contains peer (ch_subscribers ch) then ch
      else ch\<lparr>ch_subscribers := bs_insert peer (ch_subscribers ch),
        ch_sessions := bt_map (\<lambda>_ se. Session_attach_peer S se peer) (ch_sessions ch)\<rparr>)"

definition Channel_unsubscribe_peer :: "('s, 'c, 'r, 'e) StrategyOps \<Rightarrow> 's Channel \<Rightarrow> PeerId \<Rightarrow> 's Channel" where
  "Channel_unsubscribe_peer S ch peer =
     (if bt_contains peer (ch_subscribers ch)
      then ch\<lparr>ch_subscribers := bt_remove peer (ch_subscribers ch),
        ch_sessions := bt_map (\<lambda>_ se. Session_detach_peer S se peer False) (ch_sessions ch)\<rparr>
      else ch)"

definition attach_all :: "('s, 'c, 'r, 'e) StrategyOps \<Rightarrow> PeerId list \<Rightarrow> 's Session \<Rightarrow> 's Session" where
  "attach_all S peers se = fold (\<lambda>peer se. Session_attach_peer S se peer) peers se"

definition Channel_open_session ::
  "('s, 'c, 'r, 'e) StrategyOps \<Rightarrow> 's Channel \<Rightarrow> MessageId \<Rightarrow> bytes \<Rightarrow> 's Channel \<times> (ChannelError + unit)" where
  "Channel_open_session S ch mid preamble_bytes =
     (if bt_contains mid (ch_sessions ch) then (ch, Inl (DuplicateSession mid))
      else (case ch_factory ch (ch_calls ch) preamble_bytes of (calls, r) \<Rightarrow>
        let ch = ch\<lparr>ch_calls := calls\<rparr> in
        case r of
          Inl e \<Rightarrow> (ch, Inl e)
        | Inr strategy \<Rightarrow>
            (ch\<lparr>ch_sessions := bt_insert mid
                (attach_all S (bt_keys (ch_subscribers ch)) (Session_new_relay strategy)) (ch_sessions ch)\<rparr>,
             Inr ())))"

definition Channel_start_origin_session ::
  "('s, 'c, 'r, 'e) StrategyOps \<Rightarrow> 's Channel \<Rightarrow> MessageId \<Rightarrow> 's \<Rightarrow> 's Channel \<times> (ChannelError + unit)" where
  "Channel_start_origin_session S ch mid strategy =
     (if bt_contains mid (ch_sessions ch) then (ch, Inl (DuplicateSession mid))
      else (ch\<lparr>ch_sessions := bt_insert mid
          (attach_all S (bt_keys (ch_subscribers ch)) (Session_new_origin strategy)) (ch_sessions ch)\<rparr>, Inr ()))"

definition Channel_take_chunk ::
  "('s, 'c, 'r, 'e) StrategyOps \<Rightarrow> 's Channel \<Rightarrow> MessageId \<Rightarrow> 'c \<Rightarrow> bytes \<Rightarrow>
   's Channel \<times> (ChannelError + TakeOutcome)" where
  "Channel_take_chunk S ch mid chunk_id data =
     (case bt_get (ch_sessions ch) mid of
        None \<Rightarrow> (ch, Inl (SessionNotFound mid))
      | Some se \<Rightarrow>
          (case Session_take_chunk S se chunk_id data of (se', r) \<Rightarrow>
            (ch\<lparr>ch_sessions := bt_insert mid se' (ch_sessions ch)\<rparr>, map_err ChSession r)))"

definition Channel_remove_session :: "'s Channel \<Rightarrow> MessageId \<Rightarrow> 's Channel" where
  "Channel_remove_session ch mid = ch\<lparr>ch_sessions := bt_remove mid (ch_sessions ch)\<rparr>"

text \<open>\<open>session_mut\<close> followed by an in-place update, as the engine uses it.\<close>

definition Channel_session_mut :: "'s Channel \<Rightarrow> MessageId \<Rightarrow> 's Session option" where
  "Channel_session_mut ch mid = bt_get (ch_sessions ch) mid"

definition Channel_set_session :: "'s Channel \<Rightarrow> MessageId \<Rightarrow> 's Session \<Rightarrow> 's Channel" where
  "Channel_set_session ch mid se = ch\<lparr>ch_sessions := bt_insert mid se (ch_sessions ch)\<rparr>"

lemmas channel_ops = Channel_subscribe_peer_def Channel_unsubscribe_peer_def Channel_open_session_def
  Channel_start_origin_session_def Channel_take_chunk_def Channel_remove_session_def
  Channel_session_mut_def Channel_set_session_def Channel_new_def

subsection \<open>Frame lemmas\<close>

lemma attach_all_simps [simp]:
  "attach_all S [] se = se"
  "attach_all S (p # ps) se = attach_all S ps (Session_attach_peer S se p)"
  "se_state (attach_all S ps se) = se_state se"
proof -
  show "se_state (attach_all S ps se) = se_state se"
    by (induction ps arbitrary: se) (simp_all add: attach_all_def Session_attach_peer_def)
qed (simp_all add: attach_all_def)

lemma channel_id_frame [simp]:
  "ch_id (Channel_subscribe_peer S ch peer) = ch_id ch"
  "ch_id (Channel_unsubscribe_peer S ch peer) = ch_id ch"
  "ch_id (fst (Channel_open_session S ch mid b)) = ch_id ch"
  "ch_id (fst (Channel_start_origin_session S ch mid s)) = ch_id ch"
  "ch_id (fst (Channel_take_chunk S ch mid c d)) = ch_id ch"
  "ch_id (Channel_remove_session ch mid) = ch_id ch"
  "ch_id (Channel_set_session ch mid se) = ch_id ch"
  by (simp_all add: channel_ops Let_def split: prod.split sum.split option.split)

text \<open>The set of live sessions changes only where the source says so.\<close>

lemma channel_live:
  "(bt_get (ch_sessions (Channel_subscribe_peer S ch peer)) m = None) = (bt_get (ch_sessions ch) m = None)"
  "(bt_get (ch_sessions (Channel_unsubscribe_peer S ch peer)) m = None) = (bt_get (ch_sessions ch) m = None)"
  "(bt_get (ch_sessions (fst (Channel_take_chunk S ch mid c d))) m = None) = (bt_get (ch_sessions ch) m = None)"
  "(bt_get (ch_sessions (Channel_remove_session ch mid)) m = None) = (m = mid \<or> bt_get (ch_sessions ch) m = None)"
  by (simp_all add: channel_ops split: option.split prod.split)

lemma open_session_live:
  "(bt_get (ch_sessions (fst (Channel_open_session S ch mid b))) m = None) =
     (bt_get (ch_sessions ch) m = None \<and> (m = mid \<longrightarrow> snd (Channel_open_session S ch mid b) \<noteq> Inr ()))"
  by (auto simp: Channel_open_session_def Let_def split: prod.split sum.split)

lemma start_origin_live:
  "(bt_get (ch_sessions (fst (Channel_start_origin_session S ch mid s))) m = None) =
     (bt_get (ch_sessions ch) m = None \<and> (m = mid \<longrightarrow> snd (Channel_start_origin_session S ch mid s) \<noteq> Inr ()))"
  by (auto simp: Channel_start_origin_session_def)

subsection \<open>Channels over a strategy that meets its contract\<close>

definition channel_inv :: "('s \<Rightarrow> bool) \<Rightarrow> 's Channel \<Rightarrow> bool" where
  "channel_inv I ch \<longleftrightarrow>
     (\<forall>m se. bt_get (ch_sessions ch) m = Some se \<longrightarrow> I (se_strategy se)) \<and>
     (\<forall>n b n' s. ch_factory ch n b = (n', Inr s) \<longrightarrow> I s)"

lemma channel_inv_session: "channel_inv I ch \<Longrightarrow> bt_get (ch_sessions ch) m = Some se \<Longrightarrow> I (se_strategy se)"
  by (simp add: channel_inv_def)

context broadcast_strategy
begin

lemma attach_all_inv: "inv (se_strategy se) \<Longrightarrow> inv (se_strategy (attach_all S ps se))"
  by (induction ps arbitrary: se) (simp_all add: session_ops_inv)

lemma channel_ops_inv:
  assumes "channel_inv inv ch"
  shows "channel_inv inv (Channel_subscribe_peer S ch peer)"
    "channel_inv inv (Channel_unsubscribe_peer S ch peer)"
    "channel_inv inv (fst (Channel_open_session S ch mid b))"
    "inv s \<Longrightarrow> channel_inv inv (fst (Channel_start_origin_session S ch mid s))"
    "channel_inv inv (fst (Channel_take_chunk S ch mid c d))"
    "channel_inv inv (Channel_remove_session ch mid)"
    "inv (se_strategy se) \<Longrightarrow> channel_inv inv (Channel_set_session ch mid se)"
proof -
  have i: "\<And>m se. bt_get (ch_sessions ch) m = Some se \<Longrightarrow> inv (se_strategy se)"
    and f: "\<And>n b n' s. ch_factory ch n b = (n', Inr s) \<Longrightarrow> inv s"
    using assms by (auto simp: channel_inv_def)
  show "channel_inv inv (Channel_subscribe_peer S ch peer)"
    "channel_inv inv (Channel_unsubscribe_peer S ch peer)"
    "channel_inv inv (Channel_remove_session ch mid)"
    using i f by (auto simp: channel_inv_def channel_ops session_ops_inv)
  show "channel_inv inv (fst (Channel_open_session S ch mid b))"
    using i f by (auto simp: channel_inv_def channel_ops Session_new_relay_def Let_def
        intro!: attach_all_inv split: prod.split sum.split)
  show "inv s \<Longrightarrow> channel_inv inv (fst (Channel_start_origin_session S ch mid s))"
    using i f by (auto simp: channel_inv_def channel_ops Session_new_origin_def intro!: attach_all_inv)
  show "inv (se_strategy se) \<Longrightarrow> channel_inv inv (Channel_set_session ch mid se)"
    using i f by (auto simp: channel_inv_def channel_ops)
  show "channel_inv inv (fst (Channel_take_chunk S ch mid c d))"
    using i f session_ops_inv(4)
    by (auto simp: channel_inv_def channel_ops split: option.split prod.split) (metis fst_conv)
qed

end

end
