(* ===== verification/Bitmap.thy ===== *)
theory Bitmap
  imports Prelude
begin

text \<open>
  The shard havelist of \<open>strategy/bitmap.rs\<close>: a vector of 64-bit limbs with a bit count \<open>n\<close>. The
  operations are modelled on the limbs as in the source; \<open>bm_set\<close> abstracts a bitmap to the set
  of shard indices it holds, and every operation is shown to implement the set operation. The
  byte layout of the routing update is characterised bit by bit, and decoding is the inverse of
  encoding.
\<close>

record BitMap =
  bm_bits :: "u64 list"
  bm_n :: u32

datatype BitMapError =
    OutOfRange u32 u32
  | SizeMismatch u32 u32
  | InvalidByteLength nat nat

subsection \<open>Operations\<close>

definition limbs_for :: "u32 \<Rightarrow> nat" where
  "limbs_for n = div_ceil (unat n) 64"

definition bytes_for :: "u32 \<Rightarrow> nat" where
  "bytes_for n = div_ceil (unat n) 8"

definition limb_bit :: "u32 \<Rightarrow> nat \<times> nat" where
  "limb_bit idx = (unat idx div 64, unat idx mod 64)"

definition BitMap_with_capacity :: "u32 \<Rightarrow> BitMap" where
  "BitMap_with_capacity n = \<lparr>bm_bits = replicate (limbs_for n) 0, bm_n = n\<rparr>"

definition BitMap_set :: "BitMap \<Rightarrow> u32 \<Rightarrow> BitMapError + BitMap" where
  "BitMap_set b idx =
     (if bm_n b \<le> idx then Inl (OutOfRange idx (bm_n b))
      else (case limb_bit idx of (limb, off) \<Rightarrow>
        Inr (b\<lparr>bm_bits := (bm_bits b)[limb := bm_bits b ! limb OR push_bit off 1]\<rparr>)))"

definition BitMap_get :: "BitMap \<Rightarrow> u32 \<Rightarrow> bool" where
  "BitMap_get b idx =
     (if bm_n b \<le> idx then False
      else (case limb_bit idx of (limb, off) \<Rightarrow>
        drop_bit off (bm_bits b ! limb) AND 1 = 1))"

definition u64_count_ones :: "u64 \<Rightarrow> u32" where
  "u64_count_ones w = word_of_nat (length (filter (bit w) [0..<64]))"

definition BitMap_count_ones :: "BitMap \<Rightarrow> u32" where
  "BitMap_count_ones b = sum_list (map u64_count_ones (bm_bits b))"

definition BitMap_or_merge :: "BitMap \<Rightarrow> BitMap \<Rightarrow> BitMapError + BitMap" where
  "BitMap_or_merge a b =
     (if bm_n a \<noteq> bm_n b then Inl (SizeMismatch (bm_n a) (bm_n b))
      else Inr (a\<lparr>bm_bits := map (\<lambda>(x, y). x OR y) (zip (bm_bits a) (bm_bits b))\<rparr>))"

fun as_bytes_loop :: "nat \<Rightarrow> nat \<Rightarrow> nat \<Rightarrow> u64 list \<Rightarrow> bytes \<Rightarrow> bytes" where
  "as_bytes_loop nbytes len idx [] out = out"
| "as_bytes_loop nbytes len idx (limb # limbs) out =
     (let bytes = to_le_bytes64 limb in
      if idx = len - 1
      then as_bytes_loop nbytes len (Suc idx) limbs (out @ take (nbytes - length out) bytes)
      else as_bytes_loop nbytes len (Suc idx) limbs (out @ bytes))"

definition BitMap_as_bytes :: "BitMap \<Rightarrow> bytes" where
  "BitMap_as_bytes b = as_bytes_loop (bytes_for (bm_n b)) (length (bm_bits b)) 0 (bm_bits b) []"

definition from_bytes_limbs :: "bytes \<Rightarrow> u32 \<Rightarrow> u64 list" where
  "from_bytes_limbs bytes n =
     fold (\<lambda>(i, chunk) out. out[i := from_le_bytes64 (chunk @ replicate (8 - length chunk) 0)])
       (enumerate 0 (chunks 8 bytes)) (replicate (limbs_for n) 0)"

definition mask_last :: "u32 \<Rightarrow> u64 list \<Rightarrow> u64 list" where
  "mask_last n out =
     (if out = [] then out
      else (let used = unat n mod 64 in
        if used > 0 then out[length out - 1 := last out AND (push_bit used 1 - 1)] else out))"

definition BitMap_from_bytes :: "bytes \<Rightarrow> u32 \<Rightarrow> BitMapError + BitMap" where
  "BitMap_from_bytes bytes n =
     (if length bytes \<noteq> bytes_for n then Inl (InvalidByteLength (length bytes) (bytes_for n))
      else Inr \<lparr>bm_bits = mask_last n (from_bytes_limbs bytes n), bm_n = n\<rparr>)"

subsection \<open>Well-formed bitmaps and the set they denote\<close>

definition bm_bit :: "BitMap \<Rightarrow> nat \<Rightarrow> bool" where
  "bm_bit b i \<longleftrightarrow> bit (bm_bits b ! (i div 64)) (i mod 64)"

definition bm_wf :: "BitMap \<Rightarrow> bool" where
  "bm_wf b \<longleftrightarrow> length (bm_bits b) = limbs_for (bm_n b) \<and>
     (\<forall>i < 64 * length (bm_bits b). bm_bit b i \<longrightarrow> i < unat (bm_n b))"

definition bm_set :: "BitMap \<Rightarrow> nat set" where
  "bm_set b = {i. i < unat (bm_n b) \<and> bm_bit b i}"

lemma unat_le_limbs: "unat n \<le> 64 * limbs_for n"
  using div_ceil_mult_ge [of 64 "unat n"] by (simp add: limbs_for_def mult.commute)

lemma bm_wfI:
  "length (bm_bits b) = limbs_for (bm_n b) \<Longrightarrow>
   (\<And>i. i < 64 * limbs_for (bm_n b) \<Longrightarrow> bm_bit b i \<Longrightarrow> i < unat (bm_n b)) \<Longrightarrow> bm_wf b"
  by (simp add: bm_wf_def)

lemma bm_wf_index: "bm_wf b \<Longrightarrow> i < unat (bm_n b) \<Longrightarrow> i div 64 < length (bm_bits b)"
  using unat_le_limbs [of "bm_n b"] by (simp add: bm_wf_def div_less_iff_less_mult mult.commute)

lemma bm_bit_in_set: "bm_wf b \<Longrightarrow> i < 64 * length (bm_bits b) \<Longrightarrow> bm_bit b i \<longleftrightarrow> i \<in> bm_set b"
  by (auto simp: bm_set_def bm_wf_def)

lemma finite_bm_set [simp]: "finite (bm_set b)"
  by (simp add: bm_set_def)

lemma bm_set_bound: "i \<in> bm_set b \<Longrightarrow> i < unat (bm_n b)"
  by (simp add: bm_set_def)

lemma bm_eqI:
  assumes "bm_wf a" "bm_wf b" "bm_n a = bm_n b" "bm_set a = bm_set b"
  shows "a = b"
proof -
  have len: "length (bm_bits a) = length (bm_bits b)"
    using assms by (simp add: bm_wf_def)
  have "bm_bits a = bm_bits b"
  proof (rule nth_equalityI [OF len])
    fix i assume i: "i < length (bm_bits a)"
    show "bm_bits a ! i = bm_bits b ! i"
    proof (rule bit_word_eqI)
      fix j assume "j < LENGTH(64)"
      then have j: "j < 64" by simp
      then have k: "64 * i + j < 64 * length (bm_bits a)" using i by auto
      have "bm_bit a (64 * i + j) \<longleftrightarrow> bm_bit b (64 * i + j)"
        using k len assms by (simp add: bm_bit_in_set)
      then show "bit (bm_bits a ! i) j = bit (bm_bits b ! i) j"
        using j by (simp add: bm_bit_def)
    qed
  qed
  with assms(3) show ?thesis by simp
qed

subsection \<open>Each operation implements a set operation\<close>

lemma with_capacity_wf [simp]: "bm_wf (BitMap_with_capacity n)"
  by (rule bm_wfI) (auto simp: BitMap_with_capacity_def bm_bit_def less_mult_imp_div_less mult.commute)

lemma with_capacity_set [simp]: "bm_set (BitMap_with_capacity n) = {}"
proof -
  have "i div 64 < limbs_for n" if "i < unat n" for i
    using bm_wf_index [OF with_capacity_wf, of i n] that by (simp add: BitMap_with_capacity_def)
  then show ?thesis by (auto simp: bm_set_def bm_bit_def BitMap_with_capacity_def)
qed

lemma with_capacity_n [simp]: "bm_n (BitMap_with_capacity n) = n"
  by (simp add: BitMap_with_capacity_def)

lemma BitMap_get_iff: "BitMap_get b idx \<longleftrightarrow> unat idx \<in> bm_set b"
  by (auto simp: BitMap_get_def limb_bit_def bm_set_def bm_bit_def word_le_nat_alt
      bit_iff_odd_drop_bit and_one_eq odd_iff_mod_2_eq_one)

lemma bm_bit_update:
  assumes "length (bm_bits b) = limbs_for (bm_n b)" "unat idx < unat (bm_n b)"
    "i < 64 * limbs_for (bm_n b)"
  shows "bm_bit (b\<lparr>bm_bits := (bm_bits b)[unat idx div 64 := bm_bits b ! (unat idx div 64)
      OR push_bit (unat idx mod 64) 1]\<rparr>) i \<longleftrightarrow> i = unat idx \<or> bm_bit b i"
proof -
  have "i div 64 < length (bm_bits b)" using assms by (simp add: less_mult_imp_div_less mult.commute)
  moreover have "i = unat idx \<longleftrightarrow> i div 64 = unat idx div 64 \<and> i mod 64 = unat idx mod 64"
    by (metis div_mult_mod_eq)
  ultimately show ?thesis
    by (cases "i div 64 = unat idx div 64") (auto simp: bm_bit_def bit_simps)
qed

lemma BitMap_set_ok:
  assumes "bm_wf b" "idx < bm_n b"
  obtains b' where "BitMap_set b idx = Inr b'" "bm_wf b'" "bm_n b' = bm_n b"
    "bm_set b' = insert (unat idx) (bm_set b)"
proof -
  let ?b = "b\<lparr>bm_bits := (bm_bits b)[unat idx div 64 := bm_bits b ! (unat idx div 64)
      OR push_bit (unat idx mod 64) 1]\<rparr>"
  have idx: "unat idx < unat (bm_n b)" using assms(2) by (simp add: word_less_nat_alt)
  have len: "length (bm_bits b) = limbs_for (bm_n b)" using assms(1) by (simp add: bm_wf_def)
  note upd = bm_bit_update [OF len idx]
  have "BitMap_set b idx = Inr ?b"
    using assms(2) by (simp add: BitMap_set_def limb_bit_def)
  moreover have "bm_wf ?b"
  proof (rule bm_wfI)
    fix i assume "i < 64 * limbs_for (bm_n ?b)" "bm_bit ?b i"
    then show "i < unat (bm_n ?b)"
      using upd [of i] idx assms(1) by (auto simp: bm_wf_def)
  qed (simp add: len)
  moreover have "bm_set ?b = insert (unat idx) (bm_set b)"
    using upd idx unat_le_limbs [of "bm_n b"] by (auto simp: bm_set_def)
  ultimately show ?thesis by (intro that) auto
qed

lemma BitMap_or_merge_ok:
  assumes "bm_wf a" "bm_wf b" "bm_n a = bm_n b"
  obtains c where "BitMap_or_merge a b = Inr c" "bm_wf c" "bm_n c = bm_n a"
    "bm_set c = bm_set a \<union> bm_set b"
proof -
  let ?c = "a\<lparr>bm_bits := map (\<lambda>(x, y). x OR y) (zip (bm_bits a) (bm_bits b))\<rparr>"
  have len: "length (bm_bits a) = limbs_for (bm_n a)" "length (bm_bits b) = limbs_for (bm_n a)"
    using assms by (simp_all add: bm_wf_def)
  have merged: "bm_bit ?c i \<longleftrightarrow> bm_bit a i \<or> bm_bit b i" if "i < 64 * limbs_for (bm_n a)" for i
    using that len by (simp add: bm_bit_def bit_simps less_mult_imp_div_less mult.commute)
  have "BitMap_or_merge a b = Inr ?c" using assms(3) by (simp add: BitMap_or_merge_def)
  moreover have "bm_wf ?c"
  proof (rule bm_wfI)
    fix i assume "i < 64 * limbs_for (bm_n ?c)" "bm_bit ?c i"
    then show "i < unat (bm_n ?c)" using merged [of i] assms len by (auto simp: bm_wf_def)
  qed (simp add: len)
  moreover have "bm_set ?c = bm_set a \<union> bm_set b"
    using merged unat_le_limbs [of "bm_n a"] assms(3) by (auto simp: bm_set_def)
  ultimately show ?thesis by (intro that) auto
qed

subsection \<open>Counting\<close>

definition limbs_bit :: "u64 list \<Rightarrow> nat \<Rightarrow> bool" where
  "limbs_bit ls i \<longleftrightarrow> bit (ls ! (i div 64)) (i mod 64)"

lemma limbs_bit_snoc:
  "{i. i < 64 * length (ls @ [w]) \<and> limbs_bit (ls @ [w]) i} =
   {i. i < 64 * length ls \<and> limbs_bit ls i} \<union> (\<lambda>j. 64 * length ls + j) ` {j. j < 64 \<and> bit w j}"
  (is "?L = ?A \<union> ?B")
proof (rule set_eqI)
  fix i
  show "i \<in> ?L \<longleftrightarrow> i \<in> ?A \<union> ?B"
  proof (cases "i < 64 * length ls")
    case True
    then show ?thesis
      by (auto simp: limbs_bit_def nth_append less_mult_imp_div_less mult.commute)
  next
    case False
    then obtain j where j: "i = 64 * length ls + j" by (metis le_Suc_ex not_less)
    show ?thesis unfolding j by (cases "j < 64") (auto simp: limbs_bit_def nth_append)
  qed
qed

lemma card_limbs_bit:
  "card {i. i < 64 * length ls \<and> limbs_bit ls i} =
   sum_list (map (\<lambda>w. length (filter (bit w) [0..<64])) ls)"
proof (induction ls rule: rev_induct)
  case (snoc w ls)
  have "length (filter (bit w) [0..<64]) = card {j. j < 64 \<and> bit w j}"
    by (subst distinct_card [symmetric]) (auto intro!: arg_cong [where f = card])
  moreover have "card ((\<lambda>j. 64 * length ls + j) ` {j. j < 64 \<and> bit w j}) = card {j. j < 64 \<and> bit w j}"
    by (rule card_image) (simp add: inj_on_def)
  ultimately show ?case
    unfolding limbs_bit_snoc using snoc by (subst card_Un_disjoint) auto
qed simp

lemma sum_list_word_of_nat:
  "sum_list (map (\<lambda>x. word_of_nat (f x) :: 'a::len word) xs) = word_of_nat (sum_list (map f xs))"
  by (induction xs) auto

lemma count_ones_word:
  "BitMap_count_ones b = word_of_nat (sum_list (map (\<lambda>w. length (filter (bit w) [0..<64])) (bm_bits b)))"
proof -
  have "u64_count_ones = (\<lambda>w. word_of_nat (length (filter (bit w) [0..<64])))"
    by (rule ext) (simp add: u64_count_ones_def)
  then show ?thesis unfolding BitMap_count_ones_def by (metis sum_list_word_of_nat)
qed

lemma unat_count_ones:
  assumes "bm_wf b"
  shows "unat (BitMap_count_ones b) = card (bm_set b)"
proof -
  have "bm_set b = {i. i < 64 * length (bm_bits b) \<and> limbs_bit (bm_bits b) i}"
    using assms unat_le_limbs [of "bm_n b"]
    by (auto simp: bm_set_def bm_wf_def bm_bit_def limbs_bit_def)
  then have "BitMap_count_ones b = word_of_nat (card (bm_set b))"
    by (simp add: card_limbs_bit count_ones_word)
  moreover have "card (bm_set b) \<le> unat (bm_n b)"
    using card_mono [of "{..<unat (bm_n b)}" "bm_set b"] by (auto simp: bm_set_def)
  then have "card (bm_set b) < 2 ^ 32"
    using unat_u32_bound [of "bm_n b"] by simp
  ultimately show ?thesis by (simp add: unat_of_nat)
qed

subsection \<open>The byte layout\<close>

lemma as_bytes_loop_eq:
  assumes "idx + length ls = len" "length out = 8 * idx" "nbytes \<le> 8 * len" "8 * (len - 1) < nbytes \<or> len = 0"
  shows "as_bytes_loop nbytes len idx ls out = out @ take (nbytes - length out) (concat (map to_le_bytes64 ls))"
  using assms
proof (induction ls arbitrary: idx out)
  case (Cons limb ls)
  show ?case
  proof (cases "ls = []")
    case True
    with Cons.prems show ?thesis by (auto simp: Let_def)
  next
    case False
    then have idx: "idx \<noteq> len - 1" "Suc idx \<le> len - 1"
      using Cons.prems(1) by (cases ls; simp)+
    then have "8 * Suc idx \<le> nbytes" using Cons.prems(4) by (cases len) auto
    with Cons idx show ?thesis by (simp add: Let_def add.commute)
  qed
qed simp

lemma bytes_for_bounds:
  "bytes_for n \<le> 8 * limbs_for n" "8 * (limbs_for n - 1) < bytes_for n \<or> limbs_for n = 0"
proof -
  show "bytes_for n \<le> 8 * limbs_for n"
    using unat_le_limbs [of n] by (simp add: bytes_for_def div_ceil_le_iff)
  have "(limbs_for n - 1) * 64 < unat n" if "limbs_for n \<noteq> 0"
    using that less_div_ceil_iff [of 64 "limbs_for n - 1" "unat n"] by (simp add: limbs_for_def)
  then show "8 * (limbs_for n - 1) < bytes_for n \<or> limbs_for n = 0"
    by (auto simp: bytes_for_def less_div_ceil_iff)
qed

lemma as_bytes_eq:
  "bm_wf b \<Longrightarrow> BitMap_as_bytes b = take (bytes_for (bm_n b)) (concat (map to_le_bytes64 (bm_bits b)))"
  unfolding BitMap_as_bytes_def
  by (subst as_bytes_loop_eq) (use bytes_for_bounds in \<open>auto simp: bm_wf_def\<close>)

lemma length_as_bytes: "bm_wf b \<Longrightarrow> length (BitMap_as_bytes b) = bytes_for (bm_n b)"
  using bytes_for_bounds(1) [of "bm_n b"]
  by (simp add: as_bytes_eq length_concat_const [where k = 8] bm_wf_def)

lemma div_mod_64: "i mod 8 + 8 * (i div 8 mod 8) = i mod (64 :: nat)"
  using mod_mult2_eq [of i 8 8] by simp

lemma as_bytes_bit:
  assumes "bm_wf b" "i < unat (bm_n b)"
  shows "bit (BitMap_as_bytes b ! (i div 8)) (i mod 8) \<longleftrightarrow> i \<in> bm_set b"
proof -
  have "i div 8 < bytes_for (bm_n b)"
    using assms(2) by (simp add: bytes_for_def less_div_ceil_iff)
  moreover have "i div 8 < 8 * length (bm_bits b)"
    using calculation bytes_for_bounds(1) [of "bm_n b"] assms(1) by (simp add: bm_wf_def)
  ultimately have "BitMap_as_bytes b ! (i div 8) = to_le_bytes64 (bm_bits b ! (i div 64)) ! (i div 8 mod 8)"
    using assms(1) by (simp add: as_bytes_eq nth_concat_const [where k = 8] div_mult2_eq [symmetric])
  moreover have "to_le_bytes64 w ! (i div 8 mod 8) = ucast (drop_bit (8 * (i div 8 mod 8)) w)" for w
    by (simp add: to_le_bytes64_def)
  moreover have "bit (ucast w :: u8) (i mod 8) = bit w (i mod 8)" for w :: u64
    by (subst bit_ucast_iff) (simp add: mod_less_divisor)
  ultimately show ?thesis
    using assms(2) by (simp add: bit_drop_bit_eq bm_set_def bm_bit_def div_mod_64 add.commute)
qed

lemma split_div_64:
  fixes i :: nat
  shows "i mod 64 div 8 < 8" "i div 64 * 8 + i mod 64 div 8 = i div 8" "i mod 64 mod 8 = i mod 8"
proof -
  have eq: "i mod 64 div 8 = i div 8 mod 8"
    using mod_mult2_eq [of i 8 8] by simp
  show "i mod 64 div 8 < 8" unfolding eq by simp
  have "i div 64 = i div 8 div 8" using div_mult2_eq [of i 8 8] by simp
  then show "i div 64 * 8 + i mod 64 div 8 = i div 8" unfolding eq by simp
  show "i mod 64 mod 8 = i mod 8" by (rule mod_mod_cancel) simp
qed

lemma length_from_bytes_limbs [simp]: "length (from_bytes_limbs bytes n) = limbs_for n"
  by (simp add: from_bytes_limbs_def)

lemma div_ceil_div_ceil: "0 < a \<Longrightarrow> 0 < b \<Longrightarrow> div_ceil (div_ceil n a) b = div_ceil n (a * b)"
proof -
  assume ab: "0 < a" "0 < b"
  have "div_ceil (div_ceil n a) b \<le> c \<longleftrightarrow> div_ceil n (a * b) \<le> c" for c
    using ab by (simp add: div_ceil_le_iff ac_simps)
  then show ?thesis by (meson le_refl le_antisym)
qed

lemma from_bytes_limbs_eq:
  assumes "length bytes = bytes_for n"
  shows "from_bytes_limbs bytes n =
    map (\<lambda>chunk. from_le_bytes64 (chunk @ replicate (8 - length chunk) 0)) (chunks 8 bytes)"
proof -
  have "length (chunks 8 bytes) = limbs_for n"
    using assms by (simp add: length_chunks bytes_for_def limbs_for_def div_ceil_div_ceil)
  then show ?thesis by (simp add: from_bytes_limbs_def fold_update_enumerate)
qed

lemma nth_padded_chunk:
  "r < 8 \<Longrightarrow> (take 8 (drop d xs) @ replicate (8 - length (take 8 (drop d xs))) 0) ! r =
     (if d + r < length xs then xs ! (d + r) else 0)"
  by (cases "d + r < length xs") (auto simp: nth_append)

lemma length_mask_last [simp]: "length (mask_last n ls) = length ls"
  by (simp add: mask_last_def Let_def)

lemma bit_from_bytes_limbs:
  assumes len: "length bytes = bytes_for n" and i: "i < 64 * limbs_for n"
  shows "bit (from_bytes_limbs bytes n ! (i div 64)) (i mod 64) \<longleftrightarrow>
    i div 8 < length bytes \<and> bit (bytes ! (i div 8)) (i mod 8)"
proof -
  let ?q = "i div 64" and ?r = "i mod 64 div 8"
  let ?c = "take 8 (drop (?q * 8) bytes)"
  have nc: "length (chunks 8 bytes) = limbs_for n"
    using len by (simp add: length_chunks bytes_for_def limbs_for_def div_ceil_div_ceil)
  have q: "?q < length (chunks 8 bytes)" using i nc by (simp add: less_mult_imp_div_less mult.commute)
  have r: "?r < 8" "?q * 8 + ?r = i div 8" "i mod 64 mod 8 = i mod 8"
    by (rule split_div_64)+
  have "from_bytes_limbs bytes n ! ?q = from_le_bytes64 (?c @ replicate (8 - length ?c) 0)"
    using q by (simp add: from_bytes_limbs_eq [OF len] nth_chunks)
  moreover have "(?c @ replicate (8 - length ?c) 0) ! ?r = (if i div 8 < length bytes then bytes ! (i div 8) else 0)"
    using nth_padded_chunk [OF r(1), of "?q * 8" bytes] by (simp only: r(2))
  ultimately show ?thesis using r by (simp add: bit_from_le_bytes64)
qed

lemma bit_mask: "bit (2 ^ u - 1 :: u64) j \<longleftrightarrow> j < u \<and> j < 64"
  using bit_mask_iff [where ?'a = u64, of u j]
  by (auto simp: mask_eq_exp_minus_1 possible_bit_def)

lemma bit_mask_last:
  assumes "i < 64 * limbs_for n" "length ls = limbs_for n"
  shows "bit (mask_last n ls ! (i div 64)) (i mod 64) \<longleftrightarrow> i < unat n \<and> bit (ls ! (i div 64)) (i mod 64)"
proof -
  let ?L = "limbs_for n - 1"
  have ne: "ls \<noteq> []" using assms by auto
  have q: "i div 64 < length ls" using assms by (simp add: less_mult_imp_div_less mult.commute)
  have "?L < limbs_for n" using ne assms(2) by (cases ls) auto
  then have L: "?L * 64 < unat n" "unat n \<le> limbs_for n * 64"
    using less_div_ceil_iff [of 64 ?L "unat n"] unat_le_limbs [of n]
    by (simp_all add: limbs_for_def [symmetric] mult.commute)
  show ?thesis
  proof (cases "i div 64 = ?L")
    case True
    have i: "i = 64 * ?L + i mod 64" using True div_mult_mod_eq [of i 64] by simp
    obtain m where m: "unat n = 64 * ?L + m" "0 < m" "m \<le> 64"
      using L \<open>?L < limbs_for n\<close> that [of "unat n - 64 * ?L"] by auto
    have "i < unat n \<longleftrightarrow> i mod 64 < m" using i m(1) by linarith
    then have "unat n mod 64 > 0 \<Longrightarrow> i mod 64 < unat n mod 64 \<longleftrightarrow> i < unat n"
      and "unat n mod 64 = 0 \<Longrightarrow> i < unat n"
      using m by (cases "m = 64"; simp)+
    then show ?thesis
      using True ne assms(2) q
      by (auto simp: mask_last_def Let_def bit_and_iff bit_mask last_conv_nth)
  next
    case False
    then have "i div 64 < ?L" using q assms(2) by simp
    then have "i < unat n" using L by linarith
    then show ?thesis using False assms(2) by (auto simp: mask_last_def Let_def)
  qed
qed

lemma BitMap_from_bytes_ok:
  assumes "length bytes = bytes_for n"
  obtains b where "BitMap_from_bytes bytes n = Inr b" "bm_wf b" "bm_n b = n"
    "bm_set b = {i. i < unat n \<and> bit (bytes ! (i div 8)) (i mod 8)}"
proof -
  let ?b = "\<lparr>bm_bits = mask_last n (from_bytes_limbs bytes n), bm_n = n\<rparr>"
  have len: "length (mask_last n (from_bytes_limbs bytes n)) = limbs_for n"
    by simp
  have bits: "bm_bit ?b i \<longleftrightarrow> i < unat n \<and> bit (bytes ! (i div 8)) (i mod 8)"
    if "i < 64 * limbs_for n" for i
  proof -
    have "i < unat n \<Longrightarrow> i div 8 < length bytes"
      by (simp add: assms bytes_for_def less_div_ceil_iff)
    then show ?thesis
      using that bit_mask_last [OF that, of "from_bytes_limbs bytes n"] bit_from_bytes_limbs [OF assms that]
      by (auto simp: bm_bit_def)
  qed
  have "bm_wf ?b" by (rule bm_wfI) (use bits len in auto)
  moreover have "bm_set ?b = {i. i < unat n \<and> bit (bytes ! (i div 8)) (i mod 8)}"
    using bits unat_le_limbs [of n] by (auto simp: bm_set_def)
  moreover have "BitMap_from_bytes bytes n = Inr ?b" using assms by (simp add: BitMap_from_bytes_def)
  ultimately show ?thesis by (intro that) auto
qed

subsection \<open>Properties\<close>

text \<open>
  C18. Round trip of the routing update: decoding the bytes of a well-formed bitmap at its own size
  gives the bitmap back.
\<close>

theorem bitmap_roundtrip:
  assumes "bm_wf b" shows "BitMap_from_bytes (BitMap_as_bytes b) (bm_n b) = Inr b"
proof -
  obtain c where c: "BitMap_from_bytes (BitMap_as_bytes b) (bm_n b) = Inr c" "bm_wf c" "bm_n c = bm_n b"
    "bm_set c = {i. i < unat (bm_n b) \<and> bit (BitMap_as_bytes b ! (i div 8)) (i mod 8)}"
    by (rule BitMap_from_bytes_ok [OF length_as_bytes [OF assms]])
  have "bm_set c = bm_set b"
    using c(4) as_bytes_bit [OF assms] bm_set_bound [of _ b] by auto
  then show ?thesis using c bm_eqI [OF c(2) assms] by simp
qed

theorem bitmap_roundtrip_witness:
  "BitMap_from_bytes (BitMap_as_bytes (BitMap_with_capacity 70)) 70 = Inr (BitMap_with_capacity 70)"
  using bitmap_roundtrip [OF with_capacity_wf [of 70]] by simp

text \<open>
  The wire format of a routing update: decoding succeeds exactly when the input has one byte
  per eight shards, the result is well formed, shard \<open>idx\<close> is set exactly when bit \<open>idx mod 8\<close> of
  byte \<open>idx div 8\<close> is, and a wrong length is reported with both lengths.
\<close>

theorem bitmap_from_bytes_spec:
  "(case BitMap_from_bytes bytes n of
      Inl e \<Rightarrow> length bytes \<noteq> bytes_for n \<and> e = InvalidByteLength (length bytes) (bytes_for n)
    | Inr b \<Rightarrow> length bytes = bytes_for n \<and> bm_wf b \<and> bm_n b = n \<and>
        (\<forall>idx. BitMap_get b idx \<longleftrightarrow> idx < n \<and> bit (bytes ! (unat idx div 8)) (unat idx mod 8)))"
proof (cases "length bytes = bytes_for n")
  case True
  obtain b where b: "BitMap_from_bytes bytes n = Inr b" "bm_wf b" "bm_n b = n"
    "bm_set b = {i. i < unat n \<and> bit (bytes ! (i div 8)) (i mod 8)}"
    by (rule BitMap_from_bytes_ok [OF True])
  then show ?thesis using True by (simp add: BitMap_get_iff word_less_nat_alt)
qed (simp add: BitMap_from_bytes_def)

text \<open>
  C19. A bitmap is a set of shard indices: on well-formed bitmaps \<open>set\<close> inserts (and reports an
  index out of range), \<open>or_merge\<close> is union (and reports a size mismatch), \<open>get\<close> is membership,
  \<open>count_ones\<close> is the cardinality, and the results are well formed.
\<close>

theorem bitmap_refines_set:
  assumes "bm_wf a" "bm_wf b"
  shows "(case BitMap_set a idx of
      Inl e \<Rightarrow> bm_n a \<le> idx \<and> e = OutOfRange idx (bm_n a)
    | Inr c \<Rightarrow> idx < bm_n a \<and> bm_wf c \<and> bm_n c = bm_n a \<and> bm_set c = insert (unat idx) (bm_set a)) \<and>
    (case BitMap_or_merge a b of
      Inl e \<Rightarrow> bm_n a \<noteq> bm_n b \<and> e = SizeMismatch (bm_n a) (bm_n b)
    | Inr c \<Rightarrow> bm_n a = bm_n b \<and> bm_wf c \<and> bm_n c = bm_n a \<and> bm_set c = bm_set a \<union> bm_set b) \<and>
    (BitMap_get a idx \<longleftrightarrow> unat idx \<in> bm_set a) \<and>
    unat (BitMap_count_ones a) = card (bm_set a)"
proof (intro conjI)
  show "case BitMap_set a idx of
      Inl e \<Rightarrow> bm_n a \<le> idx \<and> e = OutOfRange idx (bm_n a)
    | Inr c \<Rightarrow> idx < bm_n a \<and> bm_wf c \<and> bm_n c = bm_n a \<and> bm_set c = insert (unat idx) (bm_set a)"
  proof (cases "idx < bm_n a")
    case True
    obtain c where "BitMap_set a idx = Inr c" "bm_wf c" "bm_n c = bm_n a"
      "bm_set c = insert (unat idx) (bm_set a)"
      by (rule BitMap_set_ok [OF assms(1) True])
    with True show ?thesis by simp
  qed (simp add: BitMap_set_def not_less)
  show "case BitMap_or_merge a b of
      Inl e \<Rightarrow> bm_n a \<noteq> bm_n b \<and> e = SizeMismatch (bm_n a) (bm_n b)
    | Inr c \<Rightarrow> bm_n a = bm_n b \<and> bm_wf c \<and> bm_n c = bm_n a \<and> bm_set c = bm_set a \<union> bm_set b"
  proof (cases "bm_n a = bm_n b")
    case True
    obtain c where "BitMap_or_merge a b = Inr c" "bm_wf c" "bm_n c = bm_n a"
      "bm_set c = bm_set a \<union> bm_set b"
      by (rule BitMap_or_merge_ok [OF assms True])
    with True show ?thesis by simp
  qed (simp add: BitMap_or_merge_def)
qed (simp_all add: BitMap_get_iff unat_count_ones [OF assms(1)])

theorem bitmap_refines_set_witness:
  "unat (BitMap_count_ones (BitMap_with_capacity 3)) = card (bm_set (BitMap_with_capacity 3)) \<and>
   (\<exists>c. BitMap_set (BitMap_with_capacity 3) 2 = Inr c \<and> bm_set c = {2})"
  using bitmap_refines_set [OF with_capacity_wf with_capacity_wf, where idx = 2, of 3 3]
  by (auto split: sum.splits)

end
