(* ===== verification/Engine.thy ===== *)
theory Engine
  imports Channel Runtime Bitmap
begin

text \<open>
  \<open>engine.rs\<close>: the broadcast engine. The engine's fields are the record \<open>Engine\<close>; the strategy's
  methods, \<open>Net::send\<close> and \<open>mpsc::Sender::try_send\<close> are the record \<open>EngineEnv\<close>, over the network
  state \<open>'n\<close> and the sink state \<open>'d\<close>. Operations that read the clock take \<open>now\<close>, the instant of the
  step. The loop of \<open>drain_session\<close> is a partial function with result \<open>None\<close> for a run that never
  returns, so every operation that drains is an option; that they return is a theorem.
\<close>

subsection \<open>State\<close>

record EngineConfig =
  active_session_ttl :: Duration
  reconstructed_linger :: Duration
  tombstone_ttl :: Duration
  cleanup_interval :: Duration

definition EngineConfig_default :: EngineConfig where
  "EngineConfig_default = \<lparr>active_session_ttl = from_secs (5 * 60), reconstructed_linger = from_secs 10,
     tombstone_ttl = from_secs (5 * 60), cleanup_interval = from_secs 30\<rparr>"

record SessionMeta =
  created_at :: Instant
  terminal_at :: "Instant option"

definition MAX_PARKED_CHUNKS_PER_MESSAGE :: nat where
  "MAX_PARKED_CHUNKS_PER_MESSAGE = 32"

definition PARKED_CHUNK_TTL :: Duration where
  "PARKED_CHUNK_TTL = from_secs 10"

record ParkedChunk =
  pk_chunk_id :: u32
  pk_payload :: bytes
  pk_parked_at :: Instant

record DeliveredMessage =
  dm_channel_id :: ChannelId
  dm_message_id :: MessageId
  dm_payload :: bytes

datatype StepResult = Processed | StepClosed

datatype EngineError =
    EngNet NetError
  | EngChannel ChannelError
  | UnknownChannel ChannelId
  | EngEmptyPayload

definition PROTOCOL_VERSION :: u32 where
  "PROTOCOL_VERSION = 1"

type_synonym SessionKey = "ChannelId \<times> MessageId"

record ('s, 'n, 'd) Engine =
  en_local_peer :: PeerId
  en_local_peer_str :: string
  en_channels :: "(ChannelId, 's Channel) btree_map"
  en_connected :: "PeerId btree_set"
  en_delivered :: 'd
  en_net :: 'n
  en_pending_sends :: "(ChannelId \<times> MessageId \<times> u64, PeerId) btree_map"
  en_session_preambles :: "(SessionKey, bytes) btree_map"
  en_opened_to :: "(SessionKey, PeerId btree_set) btree_map"
  en_config :: EngineConfig
  en_session_meta :: "(SessionKey, SessionMeta) btree_map"
  en_tombstones :: "(SessionKey, Instant) btree_map"
  en_parked_chunks :: "(SessionKey, ParkedChunk list) btree_map"
  en_next_cleanup :: Instant

record ('s, 'e, 'n, 'd) EngineEnv =
  ev_strategy :: "('s, u32, BitMap, 'e) StrategyOps"
  ev_send :: "'n NetOp"
  ev_try_send :: "'d \<Rightarrow> DeliveredMessage \<Rightarrow> 'd"

type_synonym ('s, 'n, 'd) EngineResult = "('s, 'n, 'd) Engine \<times> (EngineError + unit)"

subsection \<open>Construction\<close>

definition Engine_with_config :: "PeerId \<Rightarrow> 'n \<Rightarrow> 'd \<Rightarrow> EngineConfig \<Rightarrow> Instant \<Rightarrow> ('s, 'n, 'd) Engine" where
  "Engine_with_config local_peer net delivered config now =
     \<lparr>en_local_peer = local_peer, en_local_peer_str = ''peer-'' @ nat_decimal (unat local_peer),
      en_channels = bt_empty, en_connected = bt_empty, en_delivered = delivered, en_net = net,
      en_pending_sends = bt_empty, en_session_preambles = bt_empty, en_opened_to = bt_empty,
      en_config = config, en_session_meta = bt_empty, en_tombstones = bt_empty, en_parked_chunks = bt_empty,
      en_next_cleanup = now + cleanup_interval config\<rparr>"

definition Engine_new :: "PeerId \<Rightarrow> 'n \<Rightarrow> 'd \<Rightarrow> Instant \<Rightarrow> ('s, 'n, 'd) Engine" where
  "Engine_new local_peer net delivered now = Engine_with_config local_peer net delivered EngineConfig_default now"

definition Engine_active_session_count :: "('s, 'n, 'd) Engine \<Rightarrow> nat" where
  "Engine_active_session_count e = length (bt_keys (en_session_meta e))"

subsection \<open>Access to sessions\<close>

text \<open>\<open>self.channels.get_mut(c).and_then(|c| c.session_mut(m))\<close>, and writing the session back.\<close>

definition session_of :: "('s, 'n, 'd) Engine \<Rightarrow> ChannelId \<Rightarrow> MessageId \<Rightarrow> 's Session option" where
  "session_of e c m = Option.bind (bt_get (en_channels e) c) (\<lambda>ch. Channel_session_mut ch m)"

definition set_session :: "ChannelId \<Rightarrow> MessageId \<Rightarrow> 's Session \<Rightarrow> ('s, 'n, 'd) Engine \<Rightarrow> ('s, 'n, 'd) Engine" where
  "set_session c m se e =
     (case bt_get (en_channels e) c of
        None \<Rightarrow> e
      | Some ch \<Rightarrow> e\<lparr>en_channels := bt_insert c (Channel_set_session ch m se) (en_channels e)\<rparr>)"

definition update_channel :: "ChannelId \<Rightarrow> ('s Channel \<Rightarrow> 's Channel) \<Rightarrow> ('s, 'n, 'd) Engine \<Rightarrow> ('s, 'n, 'd) Engine" where
  "update_channel c f e =
     (case bt_get (en_channels e) c of
        None \<Rightarrow> e | Some ch \<Rightarrow> e\<lparr>en_channels := bt_insert c (f ch) (en_channels e)\<rparr>)"

definition subscribers_of :: "('s, 'n, 'd) Engine \<Rightarrow> ChannelId \<Rightarrow> PeerId list" where
  "subscribers_of e c = (case bt_get (en_channels e) c of None \<Rightarrow> [] | Some ch \<Rightarrow> bt_keys (ch_subscribers ch))"

subsection \<open>Sending\<close>

definition net_send :: "('s, 'e, 'n, 'd) EngineEnv \<Rightarrow> NetSend \<Rightarrow> ('s, 'n, 'd) Engine \<Rightarrow> ('s, 'n, 'd) EngineResult" where
  "net_send E msg e = (case ev_send E (en_net e) msg of (n, r) \<Rightarrow> (e\<lparr>en_net := n\<rparr>, map_err EngNet r))"

definition Engine_subscribe ::
  "('s, 'e, 'n, 'd) EngineEnv \<Rightarrow> ChannelId \<Rightarrow> 's StrategyFactory \<Rightarrow> ('s, 'n, 'd) Engine \<Rightarrow> ('s, 'n, 'd) EngineResult" where
  "Engine_subscribe E channel_id factory e =
     (let e = (if bt_contains channel_id (en_channels e) then e
               else e\<lparr>en_channels := bt_insert channel_id (Channel_new channel_id factory) (en_channels e)\<rparr>)
      in try_each (\<lambda>peer. net_send E (SendSubscribe peer channel_id)) (bt_keys (en_connected e)) e)"

definition register_peer_and_handshake ::
  "('s, 'e, 'n, 'd) EngineEnv \<Rightarrow> PeerId \<Rightarrow> ('s, 'n, 'd) Engine \<Rightarrow> ('s, 'n, 'd) EngineResult" where
  "register_peer_and_handshake E peer e =
     (if bt_contains peer (en_connected e) then (e, Inr ())
      else (let e = e\<lparr>en_connected := bs_insert peer (en_connected e)\<rparr> in
        net_send E (SendHandshake peer PROTOCOL_VERSION (bt_keys (en_channels e)) (en_local_peer_str e)) e))"

definition Engine_connect ::
  "('s, 'e, 'n, 'd) EngineEnv \<Rightarrow> PeerId \<Rightarrow> ('s, 'n, 'd) Engine \<Rightarrow> ('s, 'n, 'd) EngineResult" where
  "Engine_connect E peer e = register_peer_and_handshake E peer e"

definition ensure_session_open ::
  "('s, 'e, 'n, 'd) EngineEnv \<Rightarrow> ChannelId \<Rightarrow> MessageId \<Rightarrow> PeerId \<Rightarrow> ('s, 'n, 'd) Engine \<Rightarrow> ('s, 'n, 'd) EngineResult" where
  "ensure_session_open E c m peer e =
     (if (case bt_get (en_opened_to e) (c, m) of None \<Rightarrow> False | Some s \<Rightarrow> bt_contains peer s) then (e, Inr ())
      else (case bt_get (en_session_preambles e) (c, m) of
          None \<Rightarrow> (e, Inr ())
        | Some preamble \<Rightarrow>
            and_then (net_send E (SendSessionOpen peer c m preamble []) e) (\<lambda>_ e.
              (e\<lparr>en_opened_to := bt_entry bt_empty (c, m) (bs_insert peer) (en_opened_to e)\<rparr>, Inr ()))))"

subsection \<open>Draining a session\<close>

definition poll_session ::
  "('s, 'e, 'n, 'd) EngineEnv \<Rightarrow> ChannelId \<Rightarrow> MessageId \<Rightarrow> ('s, 'n, 'd) Engine \<Rightarrow>
   ('s, 'n, 'd) Engine \<times> (u32, BitMap) SessionWork option" where
  "poll_session E c m e =
     (case session_of e c m of
        None \<Rightarrow> (e, None)
      | Some se \<Rightarrow> (case Session_poll (ev_strategy E) se of (se', w) \<Rightarrow> (set_session c m se' e, Some w)))"

definition send_routing ::
  "('s, 'e, 'n, 'd) EngineEnv \<Rightarrow> ChannelId \<Rightarrow> MessageId \<Rightarrow> bytes \<Rightarrow> PeerId \<Rightarrow> ('s, 'n, 'd) Engine \<Rightarrow>
   ('s, 'n, 'd) EngineResult" where
  "send_routing E c m payload peer e =
     and_then (ensure_session_open E c m peer e) (\<lambda>_. net_send E (SendRoutingUpdate peer c m payload))"

definition notify_chunk_sent ::
  "('s, 'e, 'n, 'd) EngineEnv \<Rightarrow> ChannelId \<Rightarrow> MessageId \<Rightarrow> PeerId \<Rightarrow> u64 \<Rightarrow> bool \<Rightarrow>
   ('s, 'n, 'd) Engine \<Rightarrow> ('s, 'n, 'd) Engine" where
  "notify_chunk_sent E c m peer token ok e =
     (case session_of e c m of
        None \<Rightarrow> e
      | Some se \<Rightarrow> set_session c m (Session_chunk_sent (ev_strategy E) se peer token ok) e)"

text \<open>The dispatch loop of one round; the result is the \<open>stalled\<close> flag.\<close>

fun send_dispatches ::
  "('s, 'e, 'n, 'd) EngineEnv \<Rightarrow> ChannelId \<Rightarrow> MessageId \<Rightarrow> u32 ChunkDispatch list \<Rightarrow> bool \<Rightarrow> ('s, 'n, 'd) Engine \<Rightarrow>
   ('s, 'n, 'd) Engine \<times> (EngineError + bool)" where
  "send_dispatches E c m [] stalled e = (e, Inr stalled)"
| "send_dispatches E c m (d # ds) stalled e =
     and_then (ensure_session_open E c m (cd_peer d) e) (\<lambda>_ e.
       case ev_send E (en_net e) (SendChunk (cd_peer d) c m (cd_chunk_id d) (cd_payload d) (cd_handle d)) of
         (n, Inr _) \<Rightarrow> send_dispatches E c m ds stalled
           (e\<lparr>en_net := n, en_pending_sends := bt_insert (c, m, cd_handle d) (cd_peer d) (en_pending_sends e)\<rparr>)
       | (n, Inl _) \<Rightarrow> send_dispatches E c m ds True
           (notify_chunk_sent E c m (cd_peer d) (cd_handle d) False (e\<lparr>en_net := n\<rparr>)))"

definition drain_round ::
  "('s, 'e, 'n, 'd) EngineEnv \<Rightarrow> ChannelId \<Rightarrow> MessageId \<Rightarrow> (u32, BitMap) SessionWork \<Rightarrow> ('s, 'n, 'd) Engine \<Rightarrow>
   ('s, 'n, 'd) Engine \<times> (EngineError + bool)" where
  "drain_round E c m w e =
     and_then
       (case sw_routing w of
          None \<Rightarrow> (e, Inr ())
        | Some routing \<Rightarrow> try_each (send_routing E c m (BitMap_as_bytes routing)) (subscribers_of e c) e)
       (\<lambda>_. send_dispatches E c m (sw_dispatches w) False)"

partial_function (option) drain_session ::
  "('s, 'e, 'n, 'd) EngineEnv \<Rightarrow> ChannelId \<Rightarrow> MessageId \<Rightarrow> ('s, 'n, 'd) Engine \<Rightarrow> ('s, 'n, 'd) EngineResult option" where
  "drain_session E c m e =
     (case poll_session E c m e of
        (e1, None) \<Rightarrow> Some (e1, Inr ())
      | (e1, Some w) \<Rightarrow>
          (if sw_routing w = None \<and> sw_dispatches w = [] then Some (e1, Inr ())
           else (case drain_round E c m w e1 of
               (e2, Inl err) \<Rightarrow> Some (e2, Inl err)
             | (e2, Inr stalled) \<Rightarrow> (if stalled then Some (e2, Inr ()) else drain_session E c m e2))))"

declare drain_session.simps [code]

fun drain_sessions ::
  "('s, 'e, 'n, 'd) EngineEnv \<Rightarrow> ChannelId \<Rightarrow> MessageId list \<Rightarrow> ('s, 'n, 'd) Engine \<Rightarrow> ('s, 'n, 'd) EngineResult option" where
  "drain_sessions E c [] e = Some (e, Inr ())"
| "drain_sessions E c (m # ms) e =
     Option.bind (drain_session E c m e) (\<lambda>(e, r). case r of
       Inl err \<Rightarrow> Some (e, Inl err) | Inr _ \<Rightarrow> drain_sessions E c ms e)"

definition drain_channel ::
  "('s, 'e, 'n, 'd) EngineEnv \<Rightarrow> ChannelId \<Rightarrow> ('s, 'n, 'd) Engine \<Rightarrow> ('s, 'n, 'd) EngineResult option" where
  "drain_channel E c e =
     (case bt_get (en_channels e) c of
        None \<Rightarrow> Some (e, Inr ())
      | Some ch \<Rightarrow> drain_sessions E c (bt_keys (ch_sessions ch)) e)"

subsection \<open>Session life cycle\<close>

definition record_session_created :: "ChannelId \<Rightarrow> MessageId \<Rightarrow> Instant \<Rightarrow> ('s, 'n, 'd) Engine \<Rightarrow> ('s, 'n, 'd) Engine" where
  "record_session_created c m now e =
     e\<lparr>en_session_meta := bt_entry \<lparr>created_at = now, terminal_at = None\<rparr> (c, m) id (en_session_meta e)\<rparr>"

definition mark_session_terminal :: "ChannelId \<Rightarrow> MessageId \<Rightarrow> Instant \<Rightarrow> ('s, 'n, 'd) Engine \<Rightarrow> ('s, 'n, 'd) Engine" where
  "mark_session_terminal c m now e =
     (case bt_get (en_session_meta e) (c, m) of
        None \<Rightarrow> e
      | Some meta \<Rightarrow> e\<lparr>en_session_meta := bt_insert (c, m)
          (case terminal_at meta of None \<Rightarrow> meta\<lparr>terminal_at := Some now\<rparr> | Some _ \<Rightarrow> meta) (en_session_meta e)\<rparr>)"

definition is_tombstoned :: "('s, 'n, 'd) Engine \<Rightarrow> ChannelId \<Rightarrow> MessageId \<Rightarrow> bool" where
  "is_tombstoned e c m = bt_contains (c, m) (en_tombstones e)"

definition dispose_session :: "ChannelId \<Rightarrow> MessageId \<Rightarrow> Instant \<Rightarrow> ('s, 'n, 'd) Engine \<Rightarrow> ('s, 'n, 'd) Engine" where
  "dispose_session c m now e =
     (let e = update_channel c (\<lambda>ch. Channel_remove_session ch m) e in
      e\<lparr>en_session_meta := bt_remove (c, m) (en_session_meta e),
        en_session_preambles := bt_remove (c, m) (en_session_preambles e),
        en_opened_to := bt_remove (c, m) (en_opened_to e),
        en_parked_chunks := bt_remove (c, m) (en_parked_chunks e),
        en_pending_sends := bt_retain (\<lambda>(c', m', _) _. \<not> (c' = c \<and> m' = m)) (en_pending_sends e),
        en_tombstones := bt_insert (c, m) now (en_tombstones e)\<rparr>)"

definition session_expired :: "EngineConfig \<Rightarrow> Instant \<Rightarrow> SessionMeta \<Rightarrow> bool" where
  "session_expired config now meta \<longleftrightarrow>
     saturating_duration_since now (created_at meta) > active_session_ttl config \<or>
     (case terminal_at meta of None \<Rightarrow> False
      | Some t \<Rightarrow> saturating_duration_since now t > reconstructed_linger config)"

definition run_cleanup :: "Instant \<Rightarrow> ('s, 'n, 'd) Engine \<Rightarrow> ('s, 'n, 'd) Engine" where
  "run_cleanup now e =
     (let expired = map fst (filter (\<lambda>(_, meta). session_expired (en_config e) now meta) (entries (en_session_meta e)));
          e = fold (\<lambda>(c, m). dispose_session c m now) expired e
      in e\<lparr>en_tombstones := bt_retain (\<lambda>_ at. saturating_duration_since now at \<le> tombstone_ttl (en_config e)) (en_tombstones e),
           en_parked_chunks := bt_retain (\<lambda>_ buf. buf \<noteq> [])
             (bt_map (\<lambda>_ buf. filter (\<lambda>pc. saturating_duration_since now (pk_parked_at pc) \<le> PARKED_CHUNK_TTL) buf)
               (en_parked_chunks e))\<rparr>)"

definition maybe_run_cleanup :: "Instant \<Rightarrow> ('s, 'n, 'd) Engine \<Rightarrow> ('s, 'n, 'd) Engine" where
  "maybe_run_cleanup now e =
     (if now < en_next_cleanup e then e
      else run_cleanup now (e\<lparr>en_next_cleanup := now + cleanup_interval (en_config e)\<rparr>))"

subsection \<open>Delivering and parking\<close>

definition maybe_decode_and_deliver ::
  "('s, 'e, 'n, 'd) EngineEnv \<Rightarrow> Instant \<Rightarrow> ChannelId \<Rightarrow> MessageId \<Rightarrow> ('s, 'n, 'd) Engine \<Rightarrow> ('s, 'n, 'd) Engine" where
  "maybe_decode_and_deliver E now c m e =
     (case session_of e c m of
        None \<Rightarrow> e
      | Some se \<Rightarrow>
          (case Session_decode_and_finish (ev_strategy E) se of (se', decoded) \<Rightarrow>
            let e = mark_session_terminal c m now (set_session c m se' e) in
            case decoded of
              Inl _ \<Rightarrow> e
            | Inr payload \<Rightarrow>
                fst (net_send E (SendSessionReconstructed c m)
                  (e\<lparr>en_delivered := ev_try_send E (en_delivered e)
                      \<lparr>dm_channel_id = c, dm_message_id = m, dm_payload = payload\<rparr>\<rparr>))))"

definition detach_session_peer ::
  "('s, 'e, 'n, 'd) EngineEnv \<Rightarrow> ChannelId \<Rightarrow> MessageId \<Rightarrow> PeerId \<Rightarrow> bool \<Rightarrow> ('s, 'n, 'd) Engine \<Rightarrow> ('s, 'n, 'd) Engine" where
  "detach_session_peer E c m peer completed e =
     (case session_of e c m of
        None \<Rightarrow> e
      | Some se \<Rightarrow> set_session c m (Session_detach_peer (ev_strategy E) se peer completed) e)"

definition push_parked :: "ParkedChunk \<Rightarrow> ParkedChunk list \<Rightarrow> ParkedChunk list" where
  "push_parked pc buf = (if length buf \<ge> MAX_PARKED_CHUNKS_PER_MESSAGE then drop 1 buf else buf) @ [pc]"

definition park_chunk ::
  "Instant \<Rightarrow> ChannelId \<Rightarrow> MessageId \<Rightarrow> u32 \<Rightarrow> bytes \<Rightarrow> ('s, 'n, 'd) Engine \<Rightarrow> ('s, 'n, 'd) Engine" where
  "park_chunk now c m chunk_id payload e =
     e\<lparr>en_parked_chunks := bt_entry [] (c, m)
         (push_parked \<lparr>pk_chunk_id = chunk_id, pk_payload = payload, pk_parked_at = now\<rparr>) (en_parked_chunks e)\<rparr>"

definition engine_take_chunk ::
  "('s, 'e, 'n, 'd) EngineEnv \<Rightarrow> ChannelId \<Rightarrow> MessageId \<Rightarrow> u32 \<Rightarrow> bytes \<Rightarrow> ('s, 'n, 'd) Engine \<Rightarrow> ('s, 'n, 'd) Engine \<times> bool" where
  "engine_take_chunk E c m chunk_id payload e =
     (case bt_get (en_channels e) c of
        None \<Rightarrow> (e, False)
      | Some ch \<Rightarrow>
          (case Channel_take_chunk (ev_strategy E) ch m chunk_id payload of (ch', r) \<Rightarrow>
            (e\<lparr>en_channels := bt_insert c ch' (en_channels e)\<rparr>,
             (case r of Inl _ \<Rightarrow> False | Inr out \<Rightarrow> to_complete out))))"

definition replay_parked_chunks ::
  "('s, 'e, 'n, 'd) EngineEnv \<Rightarrow> Instant \<Rightarrow> ChannelId \<Rightarrow> MessageId \<Rightarrow> ('s, 'n, 'd) Engine \<Rightarrow> ('s, 'n, 'd) Engine option" where
  "replay_parked_chunks E now c m e =
     (case bt_get (en_parked_chunks e) (c, m) of
        None \<Rightarrow> Some e
      | Some parked \<Rightarrow>
          (let e = e\<lparr>en_parked_chunks := bt_remove (c, m) (en_parked_chunks e)\<rparr>;
               (e, any_complete) = fold (\<lambda>pc (e, any_complete).
                  case engine_take_chunk E c m (pk_chunk_id pc) (pk_payload pc) e of
                    (e, complete) \<Rightarrow> (e, any_complete \<or> complete)) parked (e, False)
           in Option.bind (drain_session E c m e) (\<lambda>(e, _).
             Some (if any_complete then maybe_decode_and_deliver E now c m e else e))))"

subsection \<open>Event handlers\<close>

fun subscribe_channels ::
  "('s, 'e, 'n, 'd) EngineEnv \<Rightarrow> PeerId \<Rightarrow> ChannelId list \<Rightarrow> ('s, 'n, 'd) Engine \<Rightarrow> ('s, 'n, 'd) Engine option" where
  "subscribe_channels E peer [] e = Some e"
| "subscribe_channels E peer (c # cs) e =
     Option.bind (drain_channel E c (update_channel c (\<lambda>ch. Channel_subscribe_peer (ev_strategy E) ch peer) e))
       (\<lambda>(e, _). subscribe_channels E peer cs e)"

definition handle_session_open ::
  "('s, 'e, 'n, 'd) EngineEnv \<Rightarrow> Instant \<Rightarrow> ChannelId \<Rightarrow> MessageId \<Rightarrow> bytes \<Rightarrow> ('s, 'n, 'd) Engine \<Rightarrow> ('s, 'n, 'd) Engine option" where
  "handle_session_open E now c m preamble e =
     (if is_tombstoned e c m then Some e
      else (case bt_get (en_channels e) c of
          None \<Rightarrow> Some e
        | Some ch \<Rightarrow>
            (case Channel_open_session (ev_strategy E) ch m preamble of (ch', r) \<Rightarrow>
              let e = e\<lparr>en_channels := bt_insert c ch' (en_channels e)\<rparr> in
              case r of
                Inl _ \<Rightarrow> Some e
              | Inr _ \<Rightarrow>
                  (let e = record_session_created c m now
                     (e\<lparr>en_session_preambles := bt_insert (c, m) preamble (en_session_preambles e)\<rparr>)
                   in Option.bind (drain_session E c m e) (\<lambda>(e, _). replay_parked_chunks E now c m e)))))"

definition handle_chunk ::
  "('s, 'e, 'n, 'd) EngineEnv \<Rightarrow> Instant \<Rightarrow> ChannelId \<Rightarrow> MessageId \<Rightarrow> u32 \<Rightarrow> bytes \<Rightarrow> ('s, 'n, 'd) Engine \<Rightarrow>
   ('s, 'n, 'd) Engine option" where
  "handle_chunk E now c m chunk_id payload e =
     (if is_tombstoned e c m then Some e
      else if session_of e c m = None then Some (park_chunk now c m chunk_id payload e)
      else (case engine_take_chunk E c m chunk_id payload e of (e, outcome_complete) \<Rightarrow>
        Option.bind (drain_session E c m e) (\<lambda>(e, _).
          Some (if outcome_complete then maybe_decode_and_deliver E now c m e else e))))"

definition handle_peer_disconnected ::
  "('s, 'e, 'n, 'd) EngineEnv \<Rightarrow> PeerId \<Rightarrow> ('s, 'n, 'd) Engine \<Rightarrow> ('s, 'n, 'd) Engine" where
  "handle_peer_disconnected E peer e =
     e\<lparr>en_connected := bt_remove peer (en_connected e),
       en_pending_sends := bt_retain (\<lambda>_ p. p \<noteq> peer) (en_pending_sends e),
       en_opened_to := bt_map (\<lambda>_ s. bt_remove peer s) (en_opened_to e),
       en_channels := bt_map (\<lambda>_ ch. Channel_unsubscribe_peer (ev_strategy E) ch peer) (en_channels e)\<rparr>"

definition resolve_chunk_send ::
  "('s, 'e, 'n, 'd) EngineEnv \<Rightarrow> PeerId \<Rightarrow> ChannelId \<Rightarrow> MessageId \<Rightarrow> u64 \<Rightarrow> bool \<Rightarrow> ('s, 'n, 'd) Engine \<Rightarrow>
   ('s, 'n, 'd) Engine option" where
  "resolve_chunk_send E peer c m token ok e =
     (if bt_contains (c, m, token) (en_pending_sends e)
      then Option.bind (drain_session E c m (notify_chunk_sent E c m peer token ok
          (e\<lparr>en_pending_sends := bt_remove (c, m, token) (en_pending_sends e)\<rparr>))) (\<lambda>(e, _). Some e)
      else Some e)"

fun handle_event ::
  "('s, 'e, 'n, 'd) EngineEnv \<Rightarrow> Instant \<Rightarrow> NetEvent \<Rightarrow> ('s, 'n, 'd) Engine \<Rightarrow> ('s, 'n, 'd) Engine option" where
  "handle_event E now (EvHandshake peer version channels _) e =
     (if version = PROTOCOL_VERSION
      then subscribe_channels E peer channels (e\<lparr>en_connected := bs_insert peer (en_connected e)\<rparr>)
      else Some (e\<lparr>en_connected := bt_remove peer (en_connected e)\<rparr>))"
| "handle_event E now (EvSubscribe peer c) e =
     Option.bind (drain_channel E c (update_channel c (\<lambda>ch. Channel_subscribe_peer (ev_strategy E) ch peer) e))
       (\<lambda>(e, _). Some e)"
| "handle_event E now (EvUnsubscribe peer c) e =
     Some (update_channel c (\<lambda>ch. Channel_unsubscribe_peer (ev_strategy E) ch peer) e)"
| "handle_event E now (EvSessionOpen _ c m preamble _) e = handle_session_open E now c m preamble e"
| "handle_event E now (EvChunk _ c m chunk_id payload) e = handle_chunk E now c m chunk_id payload e"
| "handle_event E now (EvRoutingUpdate _ _ _ _) e = Some e"
| "handle_event E now (EvPeerDisconnected peer) e = Some (handle_peer_disconnected E peer e)"
| "handle_event E now (EvPeerConnected peer) e = Some (fst (register_peer_and_handshake E peer e))"
| "handle_event E now (EvChunkSendResult peer c m token ok) e = resolve_chunk_send E peer c m token ok e"
| "handle_event E now (EvPeerReconstructed peer c m) e = Some (detach_session_peer E c m peer True e)"
| "handle_event E now (EvSessionClosed peer c m) e = Some (detach_session_peer E c m peer False e)"

definition run_one_step ::
  "('s, 'e, 'n, 'd) EngineEnv \<Rightarrow> Instant \<Rightarrow> NetEvent option \<Rightarrow> ('s, 'n, 'd) Engine \<Rightarrow>
   (('s, 'n, 'd) Engine \<times> StepResult) option" where
  "run_one_step E now ev e =
     (case ev of
        None \<Rightarrow> Some (e, StepClosed)
      | Some event \<Rightarrow>
          Option.bind (handle_event E now event e) (\<lambda>e. Some (maybe_run_cleanup now e, Processed)))"

definition Engine_publish ::
  "('s, 'e, 'n, 'd) EngineEnv \<Rightarrow> Instant \<Rightarrow> ChannelId \<Rightarrow> MessageId \<Rightarrow> 's \<Rightarrow> bytes \<Rightarrow> ('s, 'n, 'd) Engine \<Rightarrow>
   ('s, 'n, 'd) EngineResult option" where
  "Engine_publish E now c m strategy preamble_bytes e =
     (case bt_get (en_channels e) c of
        None \<Rightarrow> Some (e, Inl (UnknownChannel c))
      | Some ch \<Rightarrow>
          (case Channel_start_origin_session (ev_strategy E) ch m strategy of
             (ch', Inl err) \<Rightarrow> Some (e\<lparr>en_channels := bt_insert c ch' (en_channels e)\<rparr>, Inl (EngChannel err))
           | (ch', Inr _) \<Rightarrow>
               (let subscribers = bt_keys (ch_subscribers ch');
                    e = record_session_created c m now
                      (e\<lparr>en_channels := bt_insert c ch' (en_channels e),
                         en_session_preambles := bt_insert (c, m) preamble_bytes (en_session_preambles e)\<rparr>)
                in case try_each (ensure_session_open E c m) subscribers e of
                  (e, Inl err) \<Rightarrow> Some (e, Inl err)
                | (e, Inr _) \<Rightarrow> drain_session E c m e)))"

end
