(* ===== verification/EngineInv.thy ===== *)
theory EngineInv
  imports Engine
begin

text \<open>
  The engine's invariant and the proof that every engine operation returns and keeps it. The
  lemmas are proved once, for any strategy that meets its contract (locale \<open>broadcast_engine\<close>), any
  network and any delivery sink.
\<close>

subsection \<open>Live sessions\<close>

definition live :: "('s, 'n, 'd) Engine \<Rightarrow> SessionKey \<Rightarrow> bool" where
  "live e k \<longleftrightarrow> session_of e (fst k) (snd k) \<noteq> None"

lemma session_of_eq:
  "session_of e c m = (case bt_get (en_channels e) c of None \<Rightarrow> None | Some ch \<Rightarrow> bt_get (ch_sessions ch) m)"
  by (simp add: session_of_def Channel_session_mut_def split: option.split)

lemma session_of_cong: "en_channels e = en_channels e' \<Longrightarrow> session_of e = session_of e'"
  by (rule ext)+ (simp add: session_of_def)

lemma live_cong: "en_channels e = en_channels e' \<Longrightarrow> live e = live e'"
  by (rule ext) (simp add: live_def session_of_def)

text \<open>The session tables: one lifecycle record and one preamble per live session, and nothing else.\<close>

definition tables_inv :: "('s, 'n, 'd) Engine \<Rightarrow> bool" where
  "tables_inv e \<longleftrightarrow>
     (\<forall>k. (bt_get (en_session_meta e) k \<noteq> None) = live e k) \<and>
     (\<forall>k. (bt_get (en_session_preambles e) k \<noteq> None) = live e k) \<and>
     (\<forall>k. bt_get (en_opened_to e) k \<noteq> None \<longrightarrow> live e k) \<and>
     (\<forall>k. bt_get (en_pending_sends e) k \<noteq> None \<longrightarrow> live e (fst k, fst (snd k)))"

lemma tables_invD:
  assumes "tables_inv e"
  shows "bt_get (en_session_meta e) k \<noteq> None \<longleftrightarrow> live e k"
    "bt_get (en_session_preambles e) k \<noteq> None \<longleftrightarrow> live e k"
    "bt_get (en_opened_to e) k \<noteq> None \<Longrightarrow> live e k"
    "bt_get (en_pending_sends e) (c, m, t) \<noteq> None \<Longrightarrow> live e (c, m)"
  using assms unfolding tables_inv_def by (blast, blast, blast, metis fst_conv snd_conv)

lemma tables_invI:
  assumes "\<And>k. bt_get (en_session_meta e) k \<noteq> None \<longleftrightarrow> live e k"
    "\<And>k. bt_get (en_session_preambles e) k \<noteq> None \<longleftrightarrow> live e k"
    "\<And>k. bt_get (en_opened_to e) k \<noteq> None \<Longrightarrow> live e k"
    "\<And>c m t. bt_get (en_pending_sends e) (c, m, t) \<noteq> None \<Longrightarrow> live e (c, m)"
  shows "tables_inv e"
  using assms unfolding tables_inv_def by (auto simp del: not_None_eq)

definition parked_inv :: "('s, 'n, 'd) Engine \<Rightarrow> bool" where
  "parked_inv e \<longleftrightarrow> (\<forall>k buf. bt_get (en_parked_chunks e) k = Some buf \<longrightarrow>
     buf \<noteq> [] \<and> length buf \<le> MAX_PARKED_CHUNKS_PER_MESSAGE)"

definition channels_inv :: "('s \<Rightarrow> bool) \<Rightarrow> ('s, 'n, 'd) Engine \<Rightarrow> bool" where
  "channels_inv I e \<longleftrightarrow> (\<forall>c ch. bt_get (en_channels e) c = Some ch \<longrightarrow> ch_id ch = c \<and> channel_inv I ch)"

definition engine_inv :: "('s \<Rightarrow> bool) \<Rightarrow> ('s, 'n, 'd) Engine \<Rightarrow> bool" where
  "engine_inv I e \<longleftrightarrow> channels_inv I e \<and> tables_inv e \<and> parked_inv e"

lemma channels_inv_session: "channels_inv I e \<Longrightarrow> session_of e c m = Some se \<Longrightarrow> I (se_strategy se)"
  by (auto simp: channels_inv_def session_of_eq dest: channel_inv_session split: option.splits)

lemma channels_inv_insert:
  "channels_inv I e \<Longrightarrow> ch_id ch = c \<Longrightarrow> channel_inv I ch \<Longrightarrow>
   channels_inv I (e\<lparr>en_channels := bt_insert c ch (en_channels e)\<rparr>)"
  by (simp add: channels_inv_def)

lemma channels_inv_update [simp]:
  "channels_inv I (e\<lparr>en_net := n\<rparr>) = channels_inv I e"
  "channels_inv I (e\<lparr>en_opened_to := x1\<rparr>) = channels_inv I e"
  "channels_inv I (e\<lparr>en_pending_sends := x2\<rparr>) = channels_inv I e"
  "channels_inv I (e\<lparr>en_connected := x3\<rparr>) = channels_inv I e"
  "channels_inv I (e\<lparr>en_session_preambles := x4\<rparr>) = channels_inv I e"
  "channels_inv I (e\<lparr>en_session_meta := x5\<rparr>) = channels_inv I e"
  "channels_inv I (e\<lparr>en_parked_chunks := x6\<rparr>) = channels_inv I e"
  "channels_inv I (e\<lparr>en_tombstones := x7\<rparr>) = channels_inv I e"
  "channels_inv I (e\<lparr>en_delivered := x8\<rparr>) = channels_inv I e"
  "channels_inv I (e\<lparr>en_next_cleanup := x9\<rparr>) = channels_inv I e"
  by (simp_all add: channels_inv_def)

lemma live_update [simp]:
  "live (e\<lparr>en_net := n\<rparr>) = live e" "live (e\<lparr>en_opened_to := x1\<rparr>) = live e"
  "live (e\<lparr>en_pending_sends := x2\<rparr>) = live e" "live (e\<lparr>en_connected := x3\<rparr>) = live e"
  "live (e\<lparr>en_session_preambles := x4\<rparr>) = live e" "live (e\<lparr>en_session_meta := x5\<rparr>) = live e"
  "live (e\<lparr>en_parked_chunks := x6\<rparr>) = live e" "live (e\<lparr>en_tombstones := x7\<rparr>) = live e"
  "live (e\<lparr>en_delivered := x8\<rparr>) = live e" "live (e\<lparr>en_next_cleanup := x9\<rparr>) = live e"
  by (rule live_cong, simp)+

lemma tables_inv_update [simp]:
  "tables_inv (e\<lparr>en_net := n\<rparr>) = tables_inv e" "tables_inv (e\<lparr>en_connected := x3\<rparr>) = tables_inv e"
  "tables_inv (e\<lparr>en_parked_chunks := x6\<rparr>) = tables_inv e" "tables_inv (e\<lparr>en_tombstones := x7\<rparr>) = tables_inv e"
  "tables_inv (e\<lparr>en_delivered := x8\<rparr>) = tables_inv e" "tables_inv (e\<lparr>en_next_cleanup := x9\<rparr>) = tables_inv e"
  by (simp_all add: tables_inv_def)

lemma parked_inv_update [simp]:
  "parked_inv (e\<lparr>en_net := n\<rparr>) = parked_inv e" "parked_inv (e\<lparr>en_opened_to := x1\<rparr>) = parked_inv e"
  "parked_inv (e\<lparr>en_pending_sends := x2\<rparr>) = parked_inv e" "parked_inv (e\<lparr>en_connected := x3\<rparr>) = parked_inv e"
  "parked_inv (e\<lparr>en_session_preambles := x4\<rparr>) = parked_inv e" "parked_inv (e\<lparr>en_session_meta := x5\<rparr>) = parked_inv e"
  "parked_inv (e\<lparr>en_tombstones := x7\<rparr>) = parked_inv e" "parked_inv (e\<lparr>en_delivered := x8\<rparr>) = parked_inv e"
  "parked_inv (e\<lparr>en_next_cleanup := x9\<rparr>) = parked_inv e" "parked_inv (e\<lparr>en_channels := xa\<rparr>) = parked_inv e"
  by (simp_all add: parked_inv_def)

lemma engine_inv_update [simp]:
  "engine_inv I (e\<lparr>en_net := n\<rparr>) = engine_inv I e" "engine_inv I (e\<lparr>en_connected := x3\<rparr>) = engine_inv I e"
  "engine_inv I (e\<lparr>en_tombstones := x7\<rparr>) = engine_inv I e" "engine_inv I (e\<lparr>en_delivered := x8\<rparr>) = engine_inv I e"
  "engine_inv I (e\<lparr>en_next_cleanup := x9\<rparr>) = engine_inv I e"
  by (simp_all add: engine_inv_def)

text \<open>Changes to the channels that keep the set of live sessions keep the tables.\<close>

lemma tables_inv_channels:
  "live (e\<lparr>en_channels := cs\<rparr>) = live e \<Longrightarrow> tables_inv (e\<lparr>en_channels := cs\<rparr>) = tables_inv e"
  by (simp add: tables_inv_def)

lemma live_channel_update:
  assumes "bt_get (en_channels e) c = Some ch"
    "\<And>m. (bt_get (ch_sessions ch') m = None) = (bt_get (ch_sessions ch) m = None)"
  shows "live (e\<lparr>en_channels := bt_insert c ch' (en_channels e)\<rparr>) = live e"
  using assms by (simp add: live_def session_of_eq fun_eq_iff del: not_None_eq)

lemma engine_inv_channel_update:
  assumes "engine_inv I e" "bt_get (en_channels e) c = Some ch" "ch_id ch' = ch_id ch" "channel_inv I ch'"
    "\<And>m. (bt_get (ch_sessions ch') m = None) = (bt_get (ch_sessions ch) m = None)"
  shows "engine_inv I (e\<lparr>en_channels := bt_insert c ch' (en_channels e)\<rparr>)"
proof -
  have "ch_id ch' = c" using assms(1-3) by (auto simp: engine_inv_def channels_inv_def)
  then show ?thesis
    using assms live_channel_update [OF assms(2,5)]
    by (simp add: engine_inv_def channels_inv_insert tables_inv_channels)
qed

lemma engine_inv_channel: "engine_inv I e \<Longrightarrow> bt_get (en_channels e) c = Some ch \<Longrightarrow> ch_id ch = c \<and> channel_inv I ch"
  by (simp add: engine_inv_def channels_inv_def)

lemma engine_inv_session: "engine_inv I e \<Longrightarrow> session_of e c m = Some se \<Longrightarrow> I (se_strategy se)"
  by (auto simp: engine_inv_def intro: channels_inv_session)

lemma set_session_channels:
  assumes "session_of e c m = Some se0"
  shows "\<exists>ch. bt_get (en_channels e) c = Some ch \<and> bt_get (ch_sessions ch) m = Some se0 \<and>
    set_session c m se e = e\<lparr>en_channels := bt_insert c (Channel_set_session ch m se) (en_channels e)\<rparr>"
  using assms by (auto simp: session_of_eq set_session_def split: option.splits)

lemma session_of_set_session:
  assumes "session_of e c m = Some se0"
  shows "session_of (set_session c m se e) c' m' = (if c' = c \<and> m' = m then Some se else session_of e c' m')"
  using set_session_channels [OF assms, of se] by (auto simp: session_of_eq Channel_set_session_def)

lemma live_set_session:
  "session_of e c m = Some se0 \<Longrightarrow> live (set_session c m se e) = live e"
  by (auto simp: live_def session_of_set_session fun_eq_iff)

lemma set_session_frame [simp]:
  "en_net (set_session c m se e) = en_net e" "en_opened_to (set_session c m se e) = en_opened_to e"
  "en_pending_sends (set_session c m se e) = en_pending_sends e"
  "en_session_meta (set_session c m se e) = en_session_meta e"
  "en_session_preambles (set_session c m se e) = en_session_preambles e"
  "en_tombstones (set_session c m se e) = en_tombstones e"
  "en_parked_chunks (set_session c m se e) = en_parked_chunks e"
  "en_delivered (set_session c m se e) = en_delivered e"
  "en_connected (set_session c m se e) = en_connected e"
  "en_config (set_session c m se e) = en_config e"
  "en_next_cleanup (set_session c m se e) = en_next_cleanup e"
  by (simp_all add: set_session_def split: option.split)

locale broadcast_engine = broadcast_strategy "ev_strategy E" inv work
  for E :: "('s, 'e, 'n, 'd) EngineEnv" and inv :: "'s \<Rightarrow> bool" and work :: "'s \<Rightarrow> nat"
begin

lemma set_session_inv:
  assumes "engine_inv inv e" "session_of e c m = Some se0" "inv (se_strategy se)"
  shows "engine_inv inv (set_session c m se e)"
proof -
  obtain ch where ch: "bt_get (en_channels e) c = Some ch" "bt_get (ch_sessions ch) m = Some se0"
    "set_session c m se e = e\<lparr>en_channels := bt_insert c (Channel_set_session ch m se) (en_channels e)\<rparr>"
    using set_session_channels [OF assms(2)] by blast
  show ?thesis
    unfolding ch(3)
  proof (rule engine_inv_channel_update [OF assms(1) ch(1)])
    show "channel_inv inv (Channel_set_session ch m se)"
      using engine_inv_channel [OF assms(1) ch(1)] assms(3) by (simp add: channel_ops_inv)
    show "(bt_get (ch_sessions (Channel_set_session ch m se)) m' = None) = (bt_get (ch_sessions ch) m' = None)" for m'
      using ch(2) by (simp add: Channel_set_session_def)
  qed simp
qed

lemma net_send_inv: "engine_inv inv (fst (net_send E msg e)) = engine_inv inv e"
  by (simp add: net_send_def engine_inv_def split: prod.split)

lemma net_send_frame [simp]:
  "en_channels (fst (net_send E msg e)) = en_channels e"
  "en_pending_sends (fst (net_send E msg e)) = en_pending_sends e"
  "en_parked_chunks (fst (net_send E msg e)) = en_parked_chunks e"
  "en_session_meta (fst (net_send E msg e)) = en_session_meta e"
  "en_session_preambles (fst (net_send E msg e)) = en_session_preambles e"
  "en_tombstones (fst (net_send E msg e)) = en_tombstones e"
  "en_opened_to (fst (net_send E msg e)) = en_opened_to e"
  "en_connected (fst (net_send E msg e)) = en_connected e"
  by (simp_all add: net_send_def split: prod.split)

lemma ensure_frame [simp]:
  "en_channels (fst (ensure_session_open E c m p e)) = en_channels e"
  "en_pending_sends (fst (ensure_session_open E c m p e)) = en_pending_sends e"
  "en_parked_chunks (fst (ensure_session_open E c m p e)) = en_parked_chunks e"
  "en_session_meta (fst (ensure_session_open E c m p e)) = en_session_meta e"
  "en_session_preambles (fst (ensure_session_open E c m p e)) = en_session_preambles e"
  "en_tombstones (fst (ensure_session_open E c m p e)) = en_tombstones e"
  by (auto simp: ensure_session_open_def net_send_def and_then_def split: option.split sum.split prod.split)

lemma ensure_inv: "engine_inv inv e \<Longrightarrow> engine_inv inv (fst (ensure_session_open E c m p e))"
proof -
  assume inv: "engine_inv inv e"
  show ?thesis
  proof (cases "bt_get (en_session_preambles e) (c, m)")
    case None
    then show ?thesis using inv by (simp add: ensure_session_open_def)
  next
    case (Some preamble)
    have t: "tables_inv e" using inv by (simp add: engine_inv_def)
    then have "live e (c, m)" using tables_invD(2) Some by blast
    then have "tables_inv (e\<lparr>en_net := n, en_opened_to := bt_entry bt_empty (c, m) (bs_insert p) (en_opened_to e)\<rparr>)" for n
      by (intro tables_invI) (simp_all add: tables_invD [OF t] del: not_None_eq split: if_splits)
    then show ?thesis
      using inv Some
      by (auto simp: ensure_session_open_def net_send_def and_then_def engine_inv_def
          split: prod.split sum.split)
  qed
qed

lemma send_routing_frame [simp]: "en_channels (fst (send_routing E c m b p e)) = en_channels e"
  using ensure_frame(1) [of c m p e]
  by (cases "ensure_session_open E c m p e"; cases "snd (ensure_session_open E c m p e)")
    (auto simp: send_routing_def)

lemma send_routing_inv: "engine_inv inv e \<Longrightarrow> engine_inv inv (fst (send_routing E c m b p e))"
  unfolding send_routing_def by (rule and_then_inv) (simp_all add: ensure_inv net_send_inv)

lemma notify_inv: "engine_inv inv e \<Longrightarrow> engine_inv inv (notify_chunk_sent E c m p t ok e)"
  by (auto simp: notify_chunk_sent_def split: option.split
      intro!: set_session_inv session_ops_inv(7) elim: engine_inv_session)

lemma notify_live [simp]: "live (notify_chunk_sent E c m p t ok e) = live e"
  by (simp add: notify_chunk_sent_def live_set_session split: option.split)

lemma pending_inv:
  "engine_inv inv e \<Longrightarrow> live e (c, m) \<Longrightarrow>
   engine_inv inv (e\<lparr>en_net := n, en_pending_sends := bt_insert (c, m, t) p (en_pending_sends e)\<rparr>)"
proof -
  assume inv: "engine_inv inv e" and l: "live e (c, m)"
  then have t: "tables_inv e" by (simp add: engine_inv_def)
  have "tables_inv (e\<lparr>en_net := n, en_pending_sends := bt_insert (c, m, t) p (en_pending_sends e)\<rparr>)"
    by (rule tables_invI) (use l in \<open>simp_all add: tables_invD [OF t] del: not_None_eq split: if_splits\<close>)
  with inv show ?thesis by (simp add: engine_inv_def)
qed

lemma ensure_live [simp]: "live (fst (ensure_session_open E c m p e)) = live e"
  by (rule live_cong) simp

text \<open>
  One round of dispatches keeps the invariant and the live sessions; if no send failed, it leaves
  the channels alone.
\<close>

lemma send_dispatches_inv:
  assumes "engine_inv inv e" "live e (c, m)"
  shows "engine_inv inv (fst (send_dispatches E c m ds st e)) \<and> live (fst (send_dispatches E c m ds st e)) = live e \<and>
    (snd (send_dispatches E c m ds st e) = Inr False \<longrightarrow>
      \<not> st \<and> en_channels (fst (send_dispatches E c m ds st e)) = en_channels e)"
  using assms
proof (induction ds arbitrary: st e)
  case (Cons d ds)
  obtain e1 r where e1: "ensure_session_open E c m (cd_peer d) e = (e1, r)"
    by (cases "ensure_session_open E c m (cd_peer d) e")
  have i1: "engine_inv inv e1" "live e1 = live e" "en_channels e1 = en_channels e"
    using ensure_inv [OF Cons.prems(1), of c m "cd_peer d"] ensure_live [of c m "cd_peer d" e]
      ensure_frame(1) [of c m "cd_peer d" e] by (simp_all add: e1)
  let ?msg = "SendChunk (cd_peer d) c m (cd_chunk_id d) (cd_payload d) (cd_handle d)"
  obtain n q where s: "ev_send E (en_net e1) ?msg = (n, q)" by (cases "ev_send E (en_net e1) ?msg")
  let ?ok = "e1\<lparr>en_net := n, en_pending_sends := bt_insert (c, m, cd_handle d) (cd_peer d) (en_pending_sends e1)\<rparr>"
  let ?bad = "notify_chunk_sent E c m (cd_peer d) (cd_handle d) False (e1\<lparr>en_net := n\<rparr>)"
  have ok: "engine_inv inv ?ok" "live ?ok = live e" "en_channels ?ok = en_channels e"
    using i1 Cons.prems(2) by (simp_all add: pending_inv)
  have "engine_inv inv (e1\<lparr>en_net := n\<rparr>)" using i1(1) by (simp add: engine_inv_def)
  then have bad: "engine_inv inv ?bad" "live ?bad = live e" using i1(2) by (simp_all add: notify_inv)
  show ?case
  proof (cases r)
    case (Inl x)
    then show ?thesis using i1 by (simp add: e1)
  next
    case r: (Inr u)
    show ?thesis
    proof (cases q)
      case (Inl x)
      then show ?thesis using Cons.IH [OF bad(1), of True] bad(2) Cons.prems(2) by (simp add: e1 r s)
    next
      case (Inr y)
      then show ?thesis using Cons.IH [OF ok(1), of st] ok Cons.prems(2) by (auto simp: e1 r s)
    qed
  qed
qed simp

lemma drain_round_inv:
  assumes "engine_inv inv e" "live e (c, m)"
  shows "engine_inv inv (fst (drain_round E c m w e)) \<and> live (fst (drain_round E c m w e)) = live e \<and>
    (snd (drain_round E c m w e) = Inr False \<longrightarrow> en_channels (fst (drain_round E c m w e)) = en_channels e)"
proof -
  let ?r = "case sw_routing w of None \<Rightarrow> (e, Inr ())
    | Some routing \<Rightarrow> try_each (send_routing E c m (BitMap_as_bytes routing)) (subscribers_of e c) e"
  have "engine_inv inv (fst ?r)"
    using assms(1) by (auto split: option.split intro!: try_each_inv send_routing_inv)
  moreover have ch: "en_channels (fst ?r) = en_channels e"
    by (auto split: option.split intro: try_each_inv [where P = "\<lambda>x. en_channels x = en_channels e"])
  moreover have "live (fst ?r) = live e" by (rule live_cong) (rule ch)
  ultimately have "engine_inv inv (fst ?r)" "live (fst ?r) = live e" "en_channels (fst ?r) = en_channels e" by blast+
  then show ?thesis
    using send_dispatches_inv [of "fst ?r" c m "sw_dispatches w" False] assms(2)
    by (cases ?r; cases "snd ?r") (auto simp: drain_round_def)
qed

text \<open>Polling keeps the invariant and uses up the session's work.\<close>

lemma poll_session_inv:
  assumes "engine_inv inv e" "poll_session E c m e = (e', Some w)"
  obtains se se' where "session_of e c m = Some se" "session_of e' c m = Some se'"
    "engine_inv inv e'" "live e' = live e"
    "work (se_strategy se') + (if sw_routing w = None then 0 else 1) + (if sw_dispatches w = [] then 0 else 1) \<le> work (se_strategy se)"
proof -
  obtain se where se: "session_of e c m = Some se" using assms(2) by (auto simp: poll_session_def split: option.splits)
  obtain se' where p: "Session_poll (ev_strategy E) se = (se', w)" "e' = set_session c m se' e"
    using assms(2) se by (auto simp: poll_session_def split: prod.splits)
  note r = poll_result [OF engine_inv_session [OF assms(1) se] p(1)]
  show ?thesis
    using that [OF se _ _ _ r(2)] set_session_inv [OF assms(1) se r(1)] live_set_session [OF se]
      session_of_set_session [OF se] by (simp add: p(2))
qed

lemma poll_session_None: "poll_session E c m e = (e', None) \<Longrightarrow> e' = e"
  by (auto simp: poll_session_def split: option.splits prod.splits)

text \<open>
  The drain loop returns: each round that continues has used up some of the session's work and has
  not touched the session since.
\<close>

lemma drain_session_returns:
  assumes "engine_inv inv e"
  shows "\<exists>e' r. drain_session E c m e = Some (e', r) \<and> engine_inv inv e' \<and> live e' = live e"
  using assms
proof (induction "case session_of e c m of None \<Rightarrow> 0 | Some se \<Rightarrow> work (se_strategy se)" arbitrary: e rule: less_induct)
  case less
  obtain e1 ow where p: "poll_session E c m e = (e1, ow)" by (cases "poll_session E c m e")
  show ?case
  proof (cases ow)
    case None
    then have "e1 = e" using poll_session_None p by simp
    then show ?thesis using less.prems p None by (subst drain_session.simps) simp
  next
    case (Some w)
    obtain se se' where s: "session_of e c m = Some se" "session_of e1 c m = Some se'"
      "engine_inv inv e1" "live e1 = live e"
      "work (se_strategy se') + (if sw_routing w = None then 0 else 1) + (if sw_dispatches w = [] then 0 else 1) \<le> work (se_strategy se)"
      using poll_session_inv [OF less.prems p [unfolded Some]] .
    have lv: "live e1 (c, m)" using s(2) by (simp add: live_def)
    obtain e2 r where d: "drain_round E c m w e1 = (e2, r)" by (cases "drain_round E c m w e1")
    have i2: "engine_inv inv e2" "live e2 = live e" "r = Inr False \<Longrightarrow> en_channels e2 = en_channels e1"
      using drain_round_inv [OF s(3) lv, of w] s(4) by (simp_all add: d)
    show ?thesis
    proof (cases "(sw_routing w = None \<and> sw_dispatches w = []) \<or> r \<noteq> Inr False")
      case True
      then show ?thesis
        using i2 s(3,4) by (subst drain_session.simps) (auto simp: p Some d split: sum.split)
    next
      case False
      then have r: "r = Inr False" and w: "\<not> (sw_routing w = None \<and> sw_dispatches w = [])" by auto
      have "session_of e2 c m = Some se'" using session_of_cong [OF i2(3) [OF r]] s(2) by simp
      then have "(case session_of e2 c m of None \<Rightarrow> 0 | Some se \<Rightarrow> work (se_strategy se))
          < (case session_of e c m of None \<Rightarrow> 0 | Some se \<Rightarrow> work (se_strategy se))"
        using s(1,5) w by (auto split: if_splits)
      from less.hyps [OF this i2(1)]
      have "\<exists>e' q. drain_session E c m e2 = Some (e', q) \<and> engine_inv inv e' \<and> live e' = live e" using i2(2) by simp
      moreover have "drain_session E c m e = drain_session E c m e2"
        using w by (subst drain_session.simps) (auto simp: p Some d r)
      ultimately show ?thesis by simp
    qed
  qed
qed

lemma drain_sessions_returns:
  "engine_inv inv e \<Longrightarrow> \<exists>e' r. drain_sessions E c ms e = Some (e', r) \<and> engine_inv inv e' \<and> live e' = live e"
proof (induction ms arbitrary: e)
  case (Cons m ms)
  obtain e1 r where d: "drain_session E c m e = Some (e1, r)" "engine_inv inv e1" "live e1 = live e"
    using drain_session_returns [OF Cons.prems] by blast
  then show ?case using Cons.IH [OF d(2)] by (cases r) auto
qed simp

lemma drain_channel_returns:
  "engine_inv inv e \<Longrightarrow> \<exists>e' r. drain_channel E c e = Some (e', r) \<and> engine_inv inv e' \<and> live e' = live e"
  using drain_sessions_returns by (simp add: drain_channel_def split: option.split)

lemma update_channel_inv:
  assumes "engine_inv inv e" "\<And>ch. channel_inv inv ch \<Longrightarrow> channel_inv inv (f ch)" "\<And>ch. ch_id (f ch) = ch_id ch"
    "\<And>ch m. (bt_get (ch_sessions (f ch)) m = None) = (bt_get (ch_sessions ch) m = None)"
  shows "engine_inv inv (update_channel c f e)"
proof (cases "bt_get (en_channels e) c")
  case None
  then show ?thesis using assms(1) by (simp add: update_channel_def)
next
  case (Some ch)
  then show ?thesis
    using engine_inv_channel_update [OF assms(1) Some assms(3) _ assms(4)] engine_inv_channel [OF assms(1) Some] assms(2)
    by (simp add: update_channel_def)
qed

lemma subscribe_update_inv:
  "engine_inv inv e \<Longrightarrow> engine_inv inv (update_channel c (\<lambda>ch. Channel_subscribe_peer (ev_strategy E) ch p) e)"
  "engine_inv inv e \<Longrightarrow> engine_inv inv (update_channel c (\<lambda>ch. Channel_unsubscribe_peer (ev_strategy E) ch p) e)"
  by (rule update_channel_inv; simp add: channel_ops_inv channel_live)+

lemma subscribe_channels_returns:
  "engine_inv inv e \<Longrightarrow> \<exists>e'. subscribe_channels E p cs e = Some e' \<and> engine_inv inv e'"
proof (induction cs arbitrary: e)
  case (Cons c cs)
  obtain e1 r where "drain_channel E c (update_channel c (\<lambda>ch. Channel_subscribe_peer (ev_strategy E) ch p) e) = Some (e1, r)"
    "engine_inv inv e1"
    using drain_channel_returns [OF subscribe_update_inv(1) [OF Cons.prems]] by blast
  then show ?case using Cons.IH by simp
qed simp

lemma mark_terminal_inv: "engine_inv inv e \<Longrightarrow> engine_inv inv (mark_session_terminal c m now e)"
proof -
  assume inv: "engine_inv inv e"
  then have t: "tables_inv e" by (simp add: engine_inv_def)
  show ?thesis
  proof (cases "bt_get (en_session_meta e) (c, m)")
    case None
    then show ?thesis using inv by (simp add: mark_session_terminal_def)
  next
    case (Some meta)
    then have "live e (c, m)" using tables_invD(1) [OF t] by blast
    then have "tables_inv (e\<lparr>en_session_meta := bt_insert (c, m) x (en_session_meta e)\<rparr>)" for x
      by (intro tables_invI) (simp_all add: tables_invD [OF t] del: not_None_eq split: if_splits)
    then show ?thesis using inv Some by (simp add: mark_session_terminal_def engine_inv_def)
  qed
qed

lemma deliver_inv: "engine_inv inv e \<Longrightarrow> engine_inv inv (maybe_decode_and_deliver E now c m e)"
proof -
  assume inv: "engine_inv inv e"
  show ?thesis
  proof (cases "session_of e c m")
    case None
    then show ?thesis using inv by (simp add: maybe_decode_and_deliver_def)
  next
    case (Some se)
    obtain se' d where f: "Session_decode_and_finish (ev_strategy E) se = (se', d)"
      by (cases "Session_decode_and_finish (ev_strategy E) se")
    have "inv (se_strategy se')"
      using session_ops_inv(5) [OF engine_inv_session [OF inv Some]] by (simp add: f)
    then have "engine_inv inv (mark_session_terminal c m now (set_session c m se' e))"
      by (intro mark_terminal_inv set_session_inv [OF inv Some])
    then show ?thesis
      using Some by (cases d) (simp_all add: maybe_decode_and_deliver_def f Let_def net_send_inv)
  qed
qed

lemma detach_inv: "engine_inv inv e \<Longrightarrow> engine_inv inv (detach_session_peer E c m p b e)"
  by (auto simp: detach_session_peer_def split: option.split
      intro!: set_session_inv session_ops_inv(2) elim: engine_inv_session)

lemma push_parked_length: "length buf \<le> MAX_PARKED_CHUNKS_PER_MESSAGE \<Longrightarrow>
   length (push_parked pc buf) \<le> MAX_PARKED_CHUNKS_PER_MESSAGE \<and> push_parked pc buf \<noteq> []"
  by (simp add: push_parked_def MAX_PARKED_CHUNKS_PER_MESSAGE_def)

lemma park_inv: "engine_inv inv e \<Longrightarrow> engine_inv inv (park_chunk now c m i d e)"
proof -
  assume inv: "engine_inv inv e"
  have "length (bt_get_or [] (en_parked_chunks e) (c, m)) \<le> MAX_PARKED_CHUNKS_PER_MESSAGE"
    using inv by (auto simp: engine_inv_def parked_inv_def bt_get_or_def split: option.split)
  from push_parked_length [OF this]
  have "parked_inv (park_chunk now c m i d e)"
    using inv by (auto simp: park_chunk_def engine_inv_def parked_inv_def)
  then show ?thesis using inv by (simp add: engine_inv_def park_chunk_def)
qed

lemma take_inv: "engine_inv inv e \<Longrightarrow> engine_inv inv (fst (engine_take_chunk E c m i d e))"
proof (cases "bt_get (en_channels e) c")
  case (Some ch)
  assume inv: "engine_inv inv e"
  let ?ch = "fst (Channel_take_chunk (ev_strategy E) ch m i d)"
  have "engine_inv inv (e\<lparr>en_channels := bt_insert c ?ch (en_channels e)\<rparr>)"
    using engine_inv_channel [OF inv Some]
    by (intro engine_inv_channel_update [OF inv Some]) (simp_all add: channel_ops_inv channel_live)
  then show ?thesis by (simp add: engine_take_chunk_def Some case_prod_unfold)
qed (simp add: engine_take_chunk_def)

lemma replay_returns:
  assumes "engine_inv inv e" shows "\<exists>e'. replay_parked_chunks E now c m e = Some e' \<and> engine_inv inv e'"
proof (cases "bt_get (en_parked_chunks e) (c, m)")
  case None
  then show ?thesis using assms by (simp add: replay_parked_chunks_def)
next
  case (Some parked)
  let ?step = "\<lambda>pc (e, any_complete). case engine_take_chunk E c m (pk_chunk_id pc) (pk_payload pc) e of
      (e, complete) \<Rightarrow> (e, any_complete \<or> complete)"
  let ?e0 = "e\<lparr>en_parked_chunks := bt_remove (c, m) (en_parked_chunks e)\<rparr>"
  have step: "engine_inv inv (fst (?step pc st))" if "engine_inv inv (fst st)" for pc st
    using take_inv [OF that, of c m "pk_chunk_id pc" "pk_payload pc"] by (simp add: case_prod_unfold)
  have fold: "engine_inv inv (fst (fold ?step pcs st))" if "engine_inv inv (fst st)" for pcs st
    using that
  proof (induction pcs arbitrary: st)
    case (Cons pc pcs)
    show ?case using Cons.IH [OF step [OF Cons.prems]] by simp
  qed simp
  have "engine_inv inv ?e0" using assms by (auto simp: engine_inv_def parked_inv_def)
  then have f: "engine_inv inv (fst (fold ?step parked (?e0, False)))" by (intro fold) simp
  obtain e1 b where fe: "fold ?step parked (?e0, False) = (e1, b)" by (cases "fold ?step parked (?e0, False)")
  obtain e2 r where "drain_session E c m e1 = Some (e2, r)" "engine_inv inv e2"
  proof -
    have "engine_inv inv e1" using f by (simp add: fe)
    from drain_session_returns [OF this, of c m] that show ?thesis by blast
  qed
  then show ?thesis by (simp add: replay_parked_chunks_def Some fe Let_def deliver_inv)
qed

lemma opened_inv:
  assumes inv: "engine_inv inv e" and ch: "bt_get (en_channels e) c = Some ch"
    and ch': "ch_id ch' = ch_id ch" "channel_inv inv ch'" "bt_get (ch_sessions ch') m \<noteq> None"
    "\<And>m'. m' \<noteq> m \<Longrightarrow> (bt_get (ch_sessions ch') m' = None) = (bt_get (ch_sessions ch) m' = None)"
  shows "engine_inv inv (record_session_created c m now
    (e\<lparr>en_channels := bt_insert c ch' (en_channels e), en_session_preambles := bt_insert (c, m) b (en_session_preambles e)\<rparr>))"
proof -
  let ?e = "record_session_created c m now
    (e\<lparr>en_channels := bt_insert c ch' (en_channels e), en_session_preambles := bt_insert (c, m) b (en_session_preambles e)\<rparr>)"
  have t: "tables_inv e" using inv by (simp add: engine_inv_def)
  have lv: "live ?e k \<longleftrightarrow> k = (c, m) \<or> live e k" for k
    using ch ch'(3) ch'(4) [of "snd k"]
    by (cases k; cases "fst k = c"; cases "snd k = m")
      (simp_all add: live_def session_of_eq record_session_created_def del: not_None_eq)
  have "tables_inv ?e"
    by (rule tables_invI, unfold lv)
      (auto simp: record_session_created_def tables_invD [OF t] simp del: not_None_eq split: if_splits
        intro: tables_invD(3,4) [OF t])
  moreover have "channels_inv inv ?e"
    using inv ch ch' by (auto simp: record_session_created_def engine_inv_def channels_inv_def)
  ultimately show ?thesis using inv by (simp add: engine_inv_def record_session_created_def)
qed

lemma handle_session_open_returns:
  assumes inv: "engine_inv inv e" shows "\<exists>e'. handle_session_open E now c m b e = Some e' \<and> engine_inv inv e'"
proof (cases "is_tombstoned e c m \<or> bt_get (en_channels e) c = None")
  case True
  then show ?thesis using inv by (auto simp: handle_session_open_def)
next
  case False
  then obtain ch where ch: "bt_get (en_channels e) c = Some ch" by auto
  obtain ch' r where o: "Channel_open_session (ev_strategy E) ch m b = (ch', r)"
    by (cases "Channel_open_session (ev_strategy E) ch m b")
  have ch': "ch_id ch' = ch_id ch" "channel_inv inv ch'"
    using channel_ops_inv(3) [of ch m b] channel_id_frame(3) [of "ev_strategy E" ch m b] engine_inv_channel [OF inv ch]
    by (simp_all add: o)
  have lv: "(bt_get (ch_sessions ch') m' = None) = (bt_get (ch_sessions ch) m' = None \<and> (m' = m \<longrightarrow> r \<noteq> Inr ()))" for m'
    using open_session_live [of "ev_strategy E" ch m b m'] by (simp add: o)
  show ?thesis
  proof (cases r)
    case (Inl x)
    then have "engine_inv inv (e\<lparr>en_channels := bt_insert c ch' (en_channels e)\<rparr>)"
      using lv by (intro engine_inv_channel_update [OF inv ch ch']) simp
    then show ?thesis using False by (simp add: handle_session_open_def ch o Inl)
  next
    case (Inr u)
    let ?e = "record_session_created c m now (e\<lparr>en_channels := bt_insert c ch' (en_channels e),
      en_session_preambles := bt_insert (c, m) b (en_session_preambles e)\<rparr>)"
    have "engine_inv inv ?e" using lv Inr by (intro opened_inv [OF inv ch ch']) auto
    then obtain e1 q where "drain_session E c m ?e = Some (e1, q)" "engine_inv inv e1"
      using drain_session_returns by blast
    then show ?thesis
      using False replay_returns [of e1] by (simp add: handle_session_open_def ch o Inr Let_def)
  qed
qed

lemma handle_chunk_returns:
  assumes inv: "engine_inv inv e" shows "\<exists>e'. handle_chunk E now c m i d e = Some e' \<and> engine_inv inv e'"
proof (cases "is_tombstoned e c m \<or> session_of e c m = None")
  case True
  then show ?thesis using inv park_inv [OF inv] by (auto simp: handle_chunk_def)
next
  case False
  obtain e1 b where t: "engine_take_chunk E c m i d e = (e1, b)" by (cases "engine_take_chunk E c m i d e")
  have "engine_inv inv e1" using take_inv [OF inv, of c m i d] by (simp add: t)
  then obtain e2 r where "drain_session E c m e1 = Some (e2, r)" "engine_inv inv e2"
    using drain_session_returns by blast
  then show ?thesis using False by (auto simp: handle_chunk_def t deliver_inv)
qed

lemma disconnect_inv:
  assumes inv: "engine_inv inv e" shows "engine_inv inv (handle_peer_disconnected E p e)"
proof -
  let ?e = "handle_peer_disconnected E p e"
  have t: "tables_inv e" using inv by (simp add: engine_inv_def)
  have lv: "live ?e k = live e k" for k
    by (simp add: live_def session_of_eq handle_peer_disconnected_def channel_live split: option.split del: not_None_eq)
  have "tables_inv ?e"
    by (rule tables_invI, unfold lv)
      (auto simp: handle_peer_disconnected_def tables_invD [OF t] simp del: not_None_eq
        intro: tables_invD(3,4) [OF t] split: option.splits if_splits)
  moreover have "channels_inv inv ?e"
    using inv by (auto simp: handle_peer_disconnected_def engine_inv_def channels_inv_def channel_ops_inv)
  ultimately show ?thesis using inv by (simp add: engine_inv_def parked_inv_def handle_peer_disconnected_def)
qed

lemma register_inv: "engine_inv inv e \<Longrightarrow> engine_inv inv (fst (register_peer_and_handshake E p e))"
  by (simp add: register_peer_and_handshake_def Let_def net_send_inv)

lemma remove_pending_inv:
  "engine_inv inv e \<Longrightarrow> engine_inv inv (e\<lparr>en_pending_sends := bt_retain P (en_pending_sends e)\<rparr>)"
proof -
  assume inv: "engine_inv inv e"
  then have t: "tables_inv e" by (simp add: engine_inv_def)
  have "tables_inv (e\<lparr>en_pending_sends := bt_retain P (en_pending_sends e)\<rparr>)"
    by (rule tables_invI)
      (auto simp: tables_invD [OF t] simp del: not_None_eq intro: tables_invD(3,4) [OF t] split: option.splits if_splits)
  with inv show ?thesis by (simp add: engine_inv_def)
qed

lemma resolve_returns:
  assumes inv: "engine_inv inv e" shows "\<exists>e'. resolve_chunk_send E p c m t ok e = Some e' \<and> engine_inv inv e'"
proof -
  let ?e = "notify_chunk_sent E c m p t ok (e\<lparr>en_pending_sends := bt_remove (c, m, t) (en_pending_sends e)\<rparr>)"
  have "engine_inv inv ?e" unfolding bt_remove_def by (intro notify_inv remove_pending_inv inv)
  then obtain e1 r where "drain_session E c m ?e = Some (e1, r)" "engine_inv inv e1"
    using drain_session_returns by blast
  then show ?thesis using inv by (simp add: resolve_chunk_send_def)
qed

lemma handle_event_returns:
  assumes "engine_inv inv e" shows "\<exists>e'. handle_event E now ev e = Some e' \<and> engine_inv inv e'"
proof (cases ev)
  case (EvSubscribe p c)
  obtain e1 r where "drain_channel E c (update_channel c (\<lambda>ch. Channel_subscribe_peer (ev_strategy E) ch p) e) = Some (e1, r)"
    "engine_inv inv e1"
    using drain_channel_returns [OF subscribe_update_inv(1) [OF assms]] by blast
  then show ?thesis by (simp add: EvSubscribe)
qed (use assms in \<open>simp_all add: subscribe_channels_returns subscribe_update_inv handle_session_open_returns
  handle_chunk_returns disconnect_inv register_inv resolve_returns detach_inv\<close>)

lemma dispose_inv:
  assumes inv: "engine_inv inv e" shows "engine_inv inv (dispose_session c m now e)"
proof -
  let ?e = "dispose_session c m now e" and ?u = "update_channel c (\<lambda>ch. Channel_remove_session ch m) e"
  have t: "tables_inv e" using inv by (simp add: engine_inv_def)
  have u: "en_session_meta ?u = en_session_meta e" "en_session_preambles ?u = en_session_preambles e"
    "en_opened_to ?u = en_opened_to e" "en_pending_sends ?u = en_pending_sends e" "en_parked_chunks ?u = en_parked_chunks e"
    by (simp_all add: update_channel_def split: option.split)
  have lv: "live ?e k \<longleftrightarrow> k \<noteq> (c, m) \<and> live e k" for k
    by (cases k) (auto simp: live_def session_of_eq dispose_session_def update_channel_def Channel_remove_session_def
        Let_def split: option.splits if_splits)
  have "tables_inv ?e"
    by (rule tables_invI, unfold lv)
      (auto simp: dispose_session_def Let_def u tables_invD [OF t] simp del: not_None_eq
        intro: tables_invD(3,4) [OF t] split: option.splits if_splits)
  moreover have "channels_inv inv ?u"
    using inv by (auto simp: engine_inv_def channels_inv_def update_channel_def channel_ops_inv split: option.split)
  then have "channels_inv inv ?e" by (simp add: dispose_session_def Let_def)
  ultimately show ?thesis using inv by (simp add: engine_inv_def dispose_session_def Let_def parked_inv_def u)
qed

lemma cleanup_inv:
  assumes "engine_inv inv e" shows "engine_inv inv (run_cleanup now e)"
proof -
  have "engine_inv inv (fold (\<lambda>(c, m). dispose_session c m now) ks e)" if "engine_inv inv e" for ks e
    using that by (induction ks arbitrary: e) (auto simp: dispose_inv)
  note f = this [OF assms]
  have "engine_inv inv (e\<lparr>en_tombstones := ts, en_parked_chunks :=
      bt_retain (\<lambda>_ buf. buf \<noteq> []) (bt_map (\<lambda>_ buf. filter Q buf) (en_parked_chunks e))\<rparr>)"
    if "engine_inv inv e" for Q ts e
  proof -
    have "parked_inv e" using that by (simp add: engine_inv_def)
    then have "parked_inv (e\<lparr>en_tombstones := ts, en_parked_chunks :=
        bt_retain (\<lambda>_ buf. buf \<noteq> []) (bt_map (\<lambda>_ buf. filter Q buf) (en_parked_chunks e))\<rparr>)"
      unfolding parked_inv_def by (auto simp: bt_get_retain_Some simp del: bt_get_retain intro: le_trans [OF length_filter_le])
    then show ?thesis using that by (simp add: engine_inv_def)
  qed
  from this [OF f] show ?thesis by (simp add: run_cleanup_def Let_def)
qed

lemma maybe_cleanup_inv: "engine_inv inv e \<Longrightarrow> engine_inv inv (maybe_run_cleanup now e)"
  by (simp add: maybe_run_cleanup_def cleanup_inv)

lemma run_one_step_returns:
  "engine_inv inv e \<Longrightarrow> \<exists>e' r. run_one_step E now ev e = Some (e', r) \<and> engine_inv inv e'"
proof (cases ev)
  case (Some event)
  assume "engine_inv inv e"
  then obtain e' where "handle_event E now event e = Some e'" "engine_inv inv e'"
    using handle_event_returns by blast
  then show ?thesis by (simp add: run_one_step_def Some maybe_cleanup_inv)
qed (simp add: run_one_step_def)

lemma publish_returns:
  assumes inv: "engine_inv inv e" and s: "inv s"
  shows "\<exists>e' r. Engine_publish E now c m s b e = Some (e', r) \<and> engine_inv inv e'"
proof (cases "bt_get (en_channels e) c")
  case None
  then show ?thesis using inv by (simp add: Engine_publish_def)
next
  case (Some ch)
  obtain ch' r where o: "Channel_start_origin_session (ev_strategy E) ch m s = (ch', r)"
    by (cases "Channel_start_origin_session (ev_strategy E) ch m s")
  have ch': "ch_id ch' = ch_id ch" "channel_inv inv ch'"
    using channel_ops_inv(4) [of ch s m] channel_id_frame(4) [of "ev_strategy E" ch m s] engine_inv_channel [OF inv Some] s
    by (simp_all add: o)
  have lv: "(bt_get (ch_sessions ch') m' = None) = (bt_get (ch_sessions ch) m' = None \<and> (m' = m \<longrightarrow> r \<noteq> Inr ()))" for m'
    using start_origin_live [of "ev_strategy E" ch m s m'] by (simp add: o)
  show ?thesis
  proof (cases r)
    case (Inl x)
    then have "engine_inv inv (e\<lparr>en_channels := bt_insert c ch' (en_channels e)\<rparr>)"
      using lv by (intro engine_inv_channel_update [OF inv Some ch']) simp
    then show ?thesis by (simp add: Engine_publish_def Some o Inl)
  next
    case (Inr u)
    let ?e = "record_session_created c m now (e\<lparr>en_channels := bt_insert c ch' (en_channels e),
      en_session_preambles := bt_insert (c, m) b (en_session_preambles e)\<rparr>)"
    let ?t = "try_each (ensure_session_open E c m) (bt_keys (ch_subscribers ch')) ?e"
    have "engine_inv inv ?e" using lv Inr by (intro opened_inv [OF inv Some ch']) auto
    then have "engine_inv inv (fst ?t)" by (intro try_each_inv [where P = "engine_inv inv"] ensure_inv)
    then obtain e1 q where "drain_session E c m (fst ?t) = Some (e1, q)" "engine_inv inv e1" "engine_inv inv (fst ?t)"
      using drain_session_returns by blast
    then show ?thesis
      by (cases ?t; cases "snd ?t") (simp_all add: Engine_publish_def Some o Inr Let_def)
  qed
qed

lemma subscribe_inv:
  assumes inv: "engine_inv inv e" and f: "\<And>n b n' s. factory n b = (n', Inr s) \<Longrightarrow> inv s"
  shows "engine_inv inv (fst (Engine_subscribe E c factory e))"
proof -
  let ?e = "e\<lparr>en_channels := bt_insert c (Channel_new c factory) (en_channels e)\<rparr>"
  have "engine_inv inv ?e" if "bt_get (en_channels e) c = None"
  proof -
    have "channel_inv inv (Channel_new c factory)" "ch_id (Channel_new c factory) = c"
      using f by (auto simp: channel_inv_def Channel_new_def)
    moreover have "live ?e = live e"
      using that by (auto simp: live_def session_of_eq Channel_new_def fun_eq_iff)
    ultimately show ?thesis using inv by (simp add: engine_inv_def channels_inv_insert tables_inv_channels)
  qed
  then show ?thesis
    using inv by (auto simp: Engine_subscribe_def Let_def net_send_inv intro!: try_each_inv [where P = "engine_inv inv"])
qed

end

lemma engine_inv_new: "engine_inv I (Engine_with_config p n d config now)"
  by (simp add: engine_inv_def channels_inv_def tables_inv_def parked_inv_def Engine_with_config_def live_def session_of_eq)

subsection \<open>What draining leaves alone\<close>

text \<open>
  Draining only polls the session, sends, records opened streams and pending sends, and reports
  failed sends; a property of the engine that each of these keeps holds after the drain.
\<close>

definition drain_closed ::
  "('s, 'e, 'n, 'd) EngineEnv \<Rightarrow> ChannelId \<Rightarrow> MessageId \<Rightarrow> (('s, 'n, 'd) Engine \<Rightarrow> bool) \<Rightarrow> bool" where
  "drain_closed E c m Q \<longleftrightarrow>
     (\<forall>e. Q e \<longrightarrow> Q (fst (poll_session E c m e))) \<and>
     (\<forall>e msg. Q e \<longrightarrow> Q (e\<lparr>en_net := fst (ev_send E (en_net e) msg)\<rparr>)) \<and>
     (\<forall>e x. Q e \<longrightarrow> Q (e\<lparr>en_opened_to := x\<rparr>)) \<and>
     (\<forall>e x. Q e \<longrightarrow> Q (e\<lparr>en_pending_sends := x\<rparr>)) \<and>
     (\<forall>e p t. Q e \<longrightarrow> Q (notify_chunk_sent E c m p t False e))"

lemma drain_closedD:
  assumes "drain_closed E c m Q" "Q e"
  shows "Q (fst (poll_session E c m e))" "Q (e\<lparr>en_net := fst (ev_send E (en_net e) msg)\<rparr>)" "Q (e\<lparr>en_opened_to := x1\<rparr>)"
    "Q (e\<lparr>en_pending_sends := x2\<rparr>)" "Q (notify_chunk_sent E c m p t False e)"
  using assms by (simp_all add: drain_closed_def)

lemma net_send_keeps: "drain_closed E c m Q \<Longrightarrow> Q e \<Longrightarrow> Q (fst (net_send E msg e))"
  using drain_closedD(2) [of E c m Q e msg] by (simp add: net_send_def case_prod_unfold)

lemma ensure_keeps:
  assumes "drain_closed E c m Q" "Q e" shows "Q (fst (ensure_session_open E c' m' p e))"
proof -
  have "Q (fst (and_then (net_send E msg e) (\<lambda>_ e. (e\<lparr>en_opened_to := f e\<rparr>, Inr ()))))" for msg f
    by (rule and_then_inv) (simp_all add: net_send_keeps [OF assms] drain_closedD(3) [OF assms(1)])
  then show ?thesis using assms(2) by (simp add: ensure_session_open_def split: option.split)
qed

lemma send_dispatches_keeps:
  assumes "drain_closed E c m Q" "Q e" shows "Q (fst (send_dispatches E c m ds st e))"
  using assms(2)
proof (induction ds arbitrary: st e)
  case (Cons d ds)
  let ?msg = "SendChunk (cd_peer d) c m (cd_chunk_id d) (cd_payload d) (cd_handle d)"
  have *: "Q (fst (case ev_send E (en_net e1) ?msg of
         (n, Inr _) \<Rightarrow> send_dispatches E c m ds st
           (e1\<lparr>en_net := n, en_pending_sends := bt_insert (c, m, cd_handle d) (cd_peer d) (en_pending_sends e1)\<rparr>)
       | (n, Inl _) \<Rightarrow> send_dispatches E c m ds True
           (notify_chunk_sent E c m (cd_peer d) (cd_handle d) False (e1\<lparr>en_net := n\<rparr>))))" if "Q e1" for e1
  proof -
    have n: "Q (e1\<lparr>en_net := fst (ev_send E (en_net e1) ?msg)\<rparr>)" by (rule drain_closedD(2) [OF assms(1) that])
    show ?thesis
      using n drain_closedD(4) [OF assms(1) n] drain_closedD(5) [OF assms(1) n]
      by (auto simp: case_prod_unfold split: sum.split intro!: Cons.IH)
  qed
  show ?case
    unfolding send_dispatches.simps
    by (rule and_then_inv [where P = Q]) (use ensure_keeps [OF assms(1) Cons.prems] * in simp_all)
qed simp

lemma drain_round_keeps:
  assumes "drain_closed E c m Q" "Q e" shows "Q (fst (drain_round E c m w e))"
proof -
  have "Q (fst (send_routing E c m b p e))" if "Q e" for b p e
    unfolding send_routing_def
    by (rule and_then_inv [where P = Q]) (simp_all add: ensure_keeps [OF assms(1) that] net_send_keeps [OF assms(1)])
  then have "Q (fst (case sw_routing w of None \<Rightarrow> (e, Inr ())
      | Some routing \<Rightarrow> try_each (send_routing E c m (BitMap_as_bytes routing)) (subscribers_of e c) e))"
    using assms(2) by (auto split: option.split intro!: try_each_inv [where P = Q])
  then show ?thesis
    unfolding drain_round_def
    by (rule and_then_inv [where P = Q]) (simp_all add: send_dispatches_keeps [OF assms(1)])
qed

lemma drain_session_keeps:
  fixes E :: "('s, 'e, 'n, 'd) EngineEnv"
  assumes "drain_session E c m e = Some y" "drain_closed E c m Q" "Q e"
  shows "Q (fst y)"
proof -
  have "drain_closed E c m Q \<longrightarrow> Q e \<longrightarrow> Q (fst y)"
    using assms(1)
  proof (rule drain_session.raw_induct [where P = "\<lambda>E c m e y. drain_closed E c m Q \<longrightarrow> Q e \<longrightarrow> Q (fst y)", rotated])
    fix drain and E :: "('s, 'e, 'n, 'd) EngineEnv" and c m e y
    assume ih: "\<And>E c m e y. drain E c m e = Some y \<Longrightarrow> drain_closed E c m Q \<longrightarrow> Q e \<longrightarrow> Q (fst y)"
      and body: "(case poll_session E c m e of
        (e1, None) \<Rightarrow> Some (e1, Inr ())
      | (e1, Some w) \<Rightarrow>
          (if sw_routing w = None \<and> sw_dispatches w = [] then Some (e1, Inr ())
           else (case drain_round E c m w e1 of
               (e2, Inl err) \<Rightarrow> Some (e2, Inl err)
             | (e2, Inr stalled) \<Rightarrow> (if stalled then Some (e2, Inr ()) else drain E c m e2)))) = Some y"
    show "drain_closed E c m Q \<longrightarrow> Q e \<longrightarrow> Q (fst y)"
    proof (intro impI)
      assume c: "drain_closed E c m Q" and q: "Q e"
      obtain e1 ow where p: "poll_session E c m e = (e1, ow)" by (cases "poll_session E c m e")
      have q1: "Q e1" using drain_closedD(1) [OF c q] by (simp add: p)
      show "Q (fst y)"
      proof (cases ow)
        case None
        then show ?thesis using body q1 by (auto simp: p)
      next
        case (Some w)
        obtain e2 r where d: "drain_round E c m w e1 = (e2, r)" by (cases "drain_round E c m w e1")
        have "Q e2" using drain_round_keeps [OF c q1, of w] by (simp add: d)
        then show ?thesis
          using body q1 ih [of E c m e2 y] c by (auto simp: p Some d split: if_splits sum.splits)
      qed
    qed
  qed
  with assms(2,3) show ?thesis by blast
qed

end
