(* ===== verification/EngineLife.thy ===== *)
theory EngineLife
  imports EngineInv
begin

text \<open>
  The life of sessions in the engine: which events create sessions, what disposal and the cleanup
  sweep remove and keep, and that a disposed session is not revived while its tombstone stands.
\<close>

subsection \<open>The frame of draining\<close>

lemma poll_session_frame [simp]:
  "live (fst (poll_session E c m e)) = live e"
  "en_tombstones (fst (poll_session E c m e)) = en_tombstones e"
  "en_delivered (fst (poll_session E c m e)) = en_delivered e"
  "en_parked_chunks (fst (poll_session E c m e)) = en_parked_chunks e"
  "en_session_meta (fst (poll_session E c m e)) = en_session_meta e"
  "en_session_preambles (fst (poll_session E c m e)) = en_session_preambles e"
  "en_connected (fst (poll_session E c m e)) = en_connected e"
  "en_next_cleanup (fst (poll_session E c m e)) = en_next_cleanup e"
  by (simp_all add: poll_session_def live_set_session split: option.split prod.split)

lemma notify_frame [simp]:
  "live (notify_chunk_sent E c m p t ok e) = live e"
  "en_tombstones (notify_chunk_sent E c m p t ok e) = en_tombstones e"
  "en_delivered (notify_chunk_sent E c m p t ok e) = en_delivered e"
  "en_parked_chunks (notify_chunk_sent E c m p t ok e) = en_parked_chunks e"
  "en_session_meta (notify_chunk_sent E c m p t ok e) = en_session_meta e"
  "en_session_preambles (notify_chunk_sent E c m p t ok e) = en_session_preambles e"
  "en_connected (notify_chunk_sent E c m p t ok e) = en_connected e"
  "en_next_cleanup (notify_chunk_sent E c m p t ok e) = en_next_cleanup e"
  by (simp_all add: notify_chunk_sent_def live_set_session split: option.split)

definition drain_frame :: "('s, 'n, 'd) Engine \<Rightarrow> ('s, 'n, 'd) Engine \<Rightarrow> bool" where
  "drain_frame e e' \<longleftrightarrow> live e' = live e \<and> en_tombstones e' = en_tombstones e \<and> en_delivered e' = en_delivered e \<and>
     en_parked_chunks e' = en_parked_chunks e \<and> en_session_meta e' = en_session_meta e \<and>
     en_session_preambles e' = en_session_preambles e \<and> en_connected e' = en_connected e \<and>
     en_next_cleanup e' = en_next_cleanup e"

lemma drain_frame_refl [simp]: "drain_frame e e"
  by (simp add: drain_frame_def)

lemma drain_frame_trans: "drain_frame e e' \<Longrightarrow> drain_frame e' e'' \<Longrightarrow> drain_frame e e''"
  by (simp add: drain_frame_def)

lemma drain_session_frame: "drain_session E c m e = Some (e', r) \<Longrightarrow> drain_frame e e'"
  using drain_session_keeps [of E c m e "(e', r)" "drain_frame e"]
  by (simp add: drain_closed_def drain_frame_def)

lemma drain_sessions_frame: "drain_sessions E c ms e = Some (e', r) \<Longrightarrow> drain_frame e e'"
proof (induction ms arbitrary: e)
  case (Cons m ms)
  then obtain e1 q where d: "drain_session E c m e = Some (e1, q)" by (cases "drain_session E c m e") auto
  note f = drain_session_frame [OF d]
  show ?case
  proof (cases q)
    case (Inl x)
    then show ?thesis using Cons.prems d f by simp
  next
    case (Inr u)
    then have "drain_frame e1 e'" using Cons.prems d by (intro Cons.IH) simp
    then show ?thesis by (rule drain_frame_trans [OF f])
  qed
qed simp

lemma drain_channel_frame: "drain_channel E c e = Some (e', r) \<Longrightarrow> drain_frame e e'"
  by (auto simp: drain_channel_def dest: drain_sessions_frame split: option.splits)

lemma update_channel_frame [simp]:
  "en_tombstones (update_channel c f e) = en_tombstones e"
  "en_delivered (update_channel c f e) = en_delivered e"
  "en_parked_chunks (update_channel c f e) = en_parked_chunks e"
  "en_session_meta (update_channel c f e) = en_session_meta e"
  "en_session_preambles (update_channel c f e) = en_session_preambles e"
  "en_pending_sends (update_channel c f e) = en_pending_sends e"
  "en_opened_to (update_channel c f e) = en_opened_to e"
  "en_config (update_channel c f e) = en_config e"
  by (simp_all add: update_channel_def split: option.split)

lemma update_channel_live:
  "(\<And>ch m. (bt_get (ch_sessions (f ch)) m = None) = (bt_get (ch_sessions ch) m = None)) \<Longrightarrow> live (update_channel c f e) = live e"
  by (simp add: update_channel_def live_channel_update split: option.split)

lemma subscribe_live [simp]:
  "live (update_channel c (\<lambda>ch. Channel_subscribe_peer S ch p) e) = live e"
  "live (update_channel c (\<lambda>ch. Channel_unsubscribe_peer S ch p) e) = live e"
  by (simp_all add: update_channel_live channel_live)

subsection \<open>Which sessions an event creates\<close>

lemma take_chunk_live [simp]: "live (fst (engine_take_chunk E c m i d e)) = live e"
  by (auto simp: engine_take_chunk_def case_prod_unfold channel_live intro!: live_channel_update split: option.split)

lemma take_chunk_tombs [simp]: "en_tombstones (fst (engine_take_chunk E c m i d e)) = en_tombstones e"
  by (simp add: engine_take_chunk_def case_prod_unfold split: option.split)

lemma mark_terminal_frame [simp]:
  "live (mark_session_terminal c m now e) = live e" "en_tombstones (mark_session_terminal c m now e) = en_tombstones e"
  "en_delivered (mark_session_terminal c m now e) = en_delivered e" "en_net (mark_session_terminal c m now e) = en_net e"
  "en_channels (mark_session_terminal c m now e) = en_channels e"
  by (simp_all add: mark_session_terminal_def split: option.split)

lemma net_send_live [simp]:
  "live (fst (net_send E msg e)) = live e" "en_tombstones (fst (net_send E msg e)) = en_tombstones e"
  "en_delivered (fst (net_send E msg e)) = en_delivered e"
  by (simp_all add: net_send_def split: prod.split)

lemma deliver_live [simp]:
  "live (maybe_decode_and_deliver E now c m e) = live e"
  "en_tombstones (maybe_decode_and_deliver E now c m e) = en_tombstones e"
  by (simp_all add: maybe_decode_and_deliver_def Let_def live_set_session split: option.split prod.split sum.split)

lemma replay_frame:
  assumes "replay_parked_chunks E now c m e = Some e'"
  shows "live e' = live e \<and> en_tombstones e' = en_tombstones e"
proof (cases "bt_get (en_parked_chunks e) (c, m)")
  case None
  then show ?thesis using assms by (simp add: replay_parked_chunks_def)
next
  case (Some parked)
  let ?step = "\<lambda>pc (e, any_complete). case engine_take_chunk E c m (pk_chunk_id pc) (pk_payload pc) e of
      (e, complete) \<Rightarrow> (e, any_complete \<or> complete)"
  let ?e0 = "e\<lparr>en_parked_chunks := bt_remove (c, m) (en_parked_chunks e)\<rparr>"
  have fold: "live (fst (fold ?step pcs st)) = live (fst st) \<and> en_tombstones (fst (fold ?step pcs st)) = en_tombstones (fst st)" for pcs st
    by (induction pcs arbitrary: st) (simp_all add: case_prod_unfold)
  obtain e1 b where fe: "fold ?step parked (?e0, False) = (e1, b)" by (cases "fold ?step parked (?e0, False)")
  have "live e1 = live e" "en_tombstones e1 = en_tombstones e"
    using fold [of parked "(?e0, False)"] by (simp_all add: fe)
  moreover obtain e2 r where d: "drain_session E c m e1 = Some (e2, r)"
    using assms by (auto simp: replay_parked_chunks_def Some fe Let_def bind_eq_Some_conv)
  moreover have "live e2 = live e1" "en_tombstones e2 = en_tombstones e1"
    using drain_session_frame [OF d] by (simp_all add: drain_frame_def)
  ultimately show ?thesis
    using assms by (auto simp: replay_parked_chunks_def Some fe Let_def split: if_splits)
qed

lemma handle_session_open_live:
  assumes "handle_session_open E now c m b e = Some e'"
  shows "en_tombstones e' = en_tombstones e \<and>
    (\<forall>k. live e' k \<longrightarrow> live e k \<or> k = (c, m) \<and> \<not> is_tombstoned e c m)"
proof (cases "is_tombstoned e c m \<or> bt_get (en_channels e) c = None")
  case True
  then show ?thesis using assms by (cases "is_tombstoned e c m") (simp_all add: handle_session_open_def)
next
  case False
  then obtain ch where ch: "bt_get (en_channels e) c = Some ch" by auto
  obtain ch' r where o: "Channel_open_session (ev_strategy E) ch m b = (ch', r)"
    by (cases "Channel_open_session (ev_strategy E) ch m b")
  let ?e = "record_session_created c m now (e\<lparr>en_channels := bt_insert c ch' (en_channels e),
      en_session_preambles := bt_insert (c, m) b (en_session_preambles e)\<rparr>)"
  have lv: "live (e\<lparr>en_channels := bt_insert c ch' (en_channels e)\<rparr>) k \<longrightarrow> live e k \<or> k = (c, m)" for k
    using open_session_live [of "ev_strategy E" ch m b "snd k"]
    by (cases k; cases "fst k = c") (auto simp: live_def session_of_eq ch o)
  show ?thesis
  proof (cases r)
    case (Inl x)
    then show ?thesis using assms False lv by (auto simp: handle_session_open_def ch o)
  next
    case (Inr u)
    have lve: "live ?e = live (e\<lparr>en_channels := bt_insert c ch' (en_channels e)\<rparr>)" "en_tombstones ?e = en_tombstones e"
      by (simp_all add: record_session_created_def)
    obtain e1 q where d: "drain_session E c m ?e = Some (e1, q)" "replay_parked_chunks E now c m e1 = Some e'"
      using assms False by (auto simp: handle_session_open_def ch o Inr Let_def bind_eq_Some_conv)
    have "live e1 = live ?e" "en_tombstones e1 = en_tombstones ?e"
      using drain_session_frame [OF d(1)] by (simp_all add: drain_frame_def)
    then show ?thesis using replay_frame [OF d(2)] lv lve False by auto
  qed
qed

lemma handle_chunk_live:
  assumes "handle_chunk E now c m i d e = Some e'"
  shows "live e' = live e \<and> en_tombstones e' = en_tombstones e"
proof (cases "is_tombstoned e c m \<or> session_of e c m = None")
  case True
  then show ?thesis using assms by (auto simp: handle_chunk_def park_chunk_def split: if_splits)
next
  case False
  obtain e1 b where t: "engine_take_chunk E c m i d e = (e1, b)" by (cases "engine_take_chunk E c m i d e")
  have e1: "live e1 = live e" "en_tombstones e1 = en_tombstones e"
    using take_chunk_live [of E c m i d e] take_chunk_tombs [of E c m i d e] by (simp_all add: t)
  obtain e2 r where dr: "drain_session E c m e1 = Some (e2, r)"
    using assms False by (auto simp: handle_chunk_def t bind_eq_Some_conv)
  then show ?thesis
    using assms False e1 drain_session_frame [OF dr]
    by (auto simp: handle_chunk_def t drain_frame_def split: if_splits)
qed

lemma subscribe_channels_live:
  "subscribe_channels E p cs e = Some e' \<Longrightarrow> live e' = live e \<and> en_tombstones e' = en_tombstones e"
proof (induction cs arbitrary: e)
  case (Cons c cs)
  let ?u = "update_channel c (\<lambda>ch. Channel_subscribe_peer (ev_strategy E) ch p) e"
  obtain e1 r where d: "drain_channel E c ?u = Some (e1, r)" "subscribe_channels E p cs e1 = Some e'"
    using Cons.prems by (auto simp: bind_eq_Some_conv)
  then show ?case using Cons.IH [OF d(2)] drain_channel_frame [OF d(1)] by (simp add: drain_frame_def)
qed simp

lemma disconnect_live [simp]: "live (handle_peer_disconnected E p e) = live e"
  by (simp add: live_def session_of_eq handle_peer_disconnected_def channel_live fun_eq_iff split: option.split del: not_None_eq)

lemma handle_event_live:
  assumes "handle_event E now ev e = Some e'"
  shows "en_tombstones e' = en_tombstones e \<and>
    (\<forall>c m. live e' (c, m) \<longrightarrow> live e (c, m) \<or> (\<exists>p b u. ev = EvSessionOpen p c m b u \<and> \<not> is_tombstoned e c m))"
proof (cases ev)
  case (EvHandshake p v cs s)
  then show ?thesis using assms subscribe_channels_live by (fastforce split: if_splits)
next
  case (EvSubscribe p c)
  let ?u = "update_channel c (\<lambda>ch. Channel_subscribe_peer (ev_strategy E) ch p) e"
  obtain r where "drain_channel E c ?u = Some (e', r)" using assms EvSubscribe by (auto simp: bind_eq_Some_conv)
  from drain_channel_frame [OF this] show ?thesis by (simp add: drain_frame_def)
next
  case (EvSessionOpen p c m b u)
  then show ?thesis using handle_session_open_live [of E now c m b e e'] assms by auto
next
  case (EvChunk p c m i d)
  then show ?thesis using handle_chunk_live [of E now c m i d e e'] assms by auto
next
  case (EvPeerDisconnected p)
  then show ?thesis using assms by (auto simp: handle_peer_disconnected_def [of E p e] simp flip: disconnect_live [of E p e])
next
  case (EvPeerConnected p)
  then show ?thesis using assms by (auto simp: register_peer_and_handshake_def Let_def split: if_splits)
next
  case (EvChunkSendResult p c m t ok)
  then show ?thesis
    using assms by (auto simp: resolve_chunk_send_def bind_eq_Some_conv drain_frame_def split: if_splits
        dest!: drain_session_frame)
next
  case (EvPeerReconstructed p c m)
  then show ?thesis using assms by (auto simp: detach_session_peer_def live_set_session split: option.splits)
next
  case (EvSessionClosed p c m)
  then show ?thesis using assms by (auto simp: detach_session_peer_def live_set_session split: option.splits)
qed (use assms in auto)

subsection \<open>Disposal and the cleanup sweep\<close>

lemma dispose_live: "live (dispose_session c m now e) k \<longleftrightarrow> k \<noteq> (c, m) \<and> live e k"
  by (cases k) (auto simp: live_def session_of_eq dispose_session_def update_channel_def Channel_remove_session_def
      Let_def split: option.splits if_splits)

lemma dispose_tables:
  "bt_get (en_session_meta (dispose_session c m now e)) k = (if k = (c, m) then None else bt_get (en_session_meta e) k)"
  "bt_get (en_session_preambles (dispose_session c m now e)) k = (if k = (c, m) then None else bt_get (en_session_preambles e) k)"
  "bt_get (en_opened_to (dispose_session c m now e)) k = (if k = (c, m) then None else bt_get (en_opened_to e) k)"
  "bt_get (en_parked_chunks (dispose_session c m now e)) k = (if k = (c, m) then None else bt_get (en_parked_chunks e) k)"
  "bt_get (en_pending_sends (dispose_session c m now e)) (c', m', t) =
     (if c' = c \<and> m' = m then None else bt_get (en_pending_sends e) (c', m', t))"
  "bt_get (en_tombstones (dispose_session c m now e)) k = (if k = (c, m) then Some now else bt_get (en_tombstones e) k)"
  "en_config (dispose_session c m now e) = en_config e"
  by (simp_all add: dispose_session_def Let_def split: option.split)

lemma dispose_all:
  "(live (fold (\<lambda>(c, m). dispose_session c m now) ks e) k \<longleftrightarrow> k \<notin> set ks \<and> live e k) \<and>
   bt_get (en_tombstones (fold (\<lambda>(c, m). dispose_session c m now) ks e)) k =
     (if k \<in> set ks then Some now else bt_get (en_tombstones e) k) \<and>
   bt_get (en_parked_chunks (fold (\<lambda>(c, m). dispose_session c m now) ks e)) k =
     (if k \<in> set ks then None else bt_get (en_parked_chunks e) k) \<and>
   en_config (fold (\<lambda>(c, m). dispose_session c m now) ks e) = en_config e"
proof (induction ks arbitrary: e)
  case (Cons x ks)
  obtain c m where x: "x = (c, m)" by (cases x)
  show ?case using Cons.IH [of "dispose_session c m now e"] by (simp add: x dispose_live dispose_tables)
qed simp

definition expired_key :: "Instant \<Rightarrow> ('s, 'n, 'd) Engine \<Rightarrow> SessionKey \<Rightarrow> bool" where
  "expired_key now e k \<longleftrightarrow> (\<exists>meta. bt_get (en_session_meta e) k = Some meta \<and>
     (created_at meta + active_session_ttl (en_config e) < now \<or>
      (\<exists>t. terminal_at meta = Some t \<and> t + reconstructed_linger (en_config e) < now)))"

text \<open>The code's test on saturating differences is that specification.\<close>

lemma session_expired_iff:
  "session_expired config now meta \<longleftrightarrow>
     created_at meta + active_session_ttl config < now \<or>
     (\<exists>t. terminal_at meta = Some t \<and> t + reconstructed_linger config < now)"
  by (auto simp: session_expired_def saturating_duration_since_def split: option.split)

lemma set_expired:
  "set (map fst (filter (\<lambda>(_, meta). session_expired (en_config e) now meta) (entries (en_session_meta e)))) =
   {k. expired_key now e k}"
  by (rule set_eqI) (simp only: in_keys_filter_entries mem_Collect_eq expired_key_def session_expired_iff)

lemma run_cleanup_effect:
  "live (run_cleanup now e) k \<longleftrightarrow> live e k \<and> \<not> expired_key now e k"
  "bt_get (en_tombstones (run_cleanup now e)) k =
     (if expired_key now e k then Some now
      else case bt_get (en_tombstones e) k of None \<Rightarrow> None
        | Some at \<Rightarrow> if saturating_duration_since now at \<le> tombstone_ttl (en_config e) then Some at else None)"
  "bt_get (en_parked_chunks (run_cleanup now e)) k =
     (if expired_key now e k then None
      else case bt_get (en_parked_chunks e) k of None \<Rightarrow> None
        | Some buf \<Rightarrow> (let buf' = filter (\<lambda>pc. saturating_duration_since now (pk_parked_at pc) \<le> PARKED_CHUNK_TTL) buf
            in if buf' = [] then None else Some buf'))"
proof -
  let ?ks = "map fst (filter (\<lambda>(_, meta). session_expired (en_config e) now meta) (entries (en_session_meta e)))"
  note d = dispose_all [of now ?ks e k]
  have k: "k \<in> set ?ks \<longleftrightarrow> expired_key now e k" by (simp only: set_expired mem_Collect_eq)
  show "live (run_cleanup now e) k \<longleftrightarrow> live e k \<and> \<not> expired_key now e k"
    using d k by (simp only: run_cleanup_def Let_def live_update) auto
  show "bt_get (en_tombstones (run_cleanup now e)) k =
     (if expired_key now e k then Some now
      else case bt_get (en_tombstones e) k of None \<Rightarrow> None
        | Some at \<Rightarrow> if saturating_duration_since now at \<le> tombstone_ttl (en_config e) then Some at else None)"
    using d k unfolding run_cleanup_def Let_def
    by (auto simp: saturating_duration_since_def split: option.split)
  show "bt_get (en_parked_chunks (run_cleanup now e)) k =
     (if expired_key now e k then None
      else case bt_get (en_parked_chunks e) k of None \<Rightarrow> None
        | Some buf \<Rightarrow> (let buf' = filter (\<lambda>pc. saturating_duration_since now (pk_parked_at pc) \<le> PARKED_CHUNK_TTL) buf
            in if buf' = [] then None else Some buf'))"
    using d k unfolding run_cleanup_def Let_def
    by (auto split: option.split)
qed

text \<open>What the sweep does to a single session.\<close>

lemma dispose_session_of: "session_of (dispose_session c m now e) c' m' = (if c' = c \<and> m' = m then None else session_of e c' m')"
  by (auto simp: session_of_eq dispose_session_def update_channel_def Channel_remove_session_def Let_def split: option.split)

lemma fold_dispose:
  "session_of (fold (\<lambda>(c, m). dispose_session c m now) ks e) c m = (if (c, m) \<in> set ks then None else session_of e c m)"
  "bt_get (en_session_meta (fold (\<lambda>(c, m). dispose_session c m now) ks e)) k = (if k \<in> set ks then None else bt_get (en_session_meta e) k)"
  "en_delivered (fold (\<lambda>(c, m). dispose_session c m now) ks e) = en_delivered e"
proof -
  have "session_of (fold (\<lambda>(c, m). dispose_session c m now) ks e) c m = (if (c, m) \<in> set ks then None else session_of e c m) \<and>
      bt_get (en_session_meta (fold (\<lambda>(c, m). dispose_session c m now) ks e)) k = (if k \<in> set ks then None else bt_get (en_session_meta e) k) \<and>
      en_delivered (fold (\<lambda>(c, m). dispose_session c m now) ks e) = en_delivered e"
  proof (induction ks arbitrary: e)
    case (Cons x ks)
    obtain c' m' where x: "x = (c', m')" by (cases x)
    have "en_delivered (dispose_session c' m' now e) = en_delivered e" by (simp add: dispose_session_def Let_def)
    then show ?case using Cons.IH [of "dispose_session c' m' now e"] by (auto simp: x dispose_session_of dispose_tables)
  qed simp
  then show "session_of (fold (\<lambda>(c, m). dispose_session c m now) ks e) c m = (if (c, m) \<in> set ks then None else session_of e c m)"
    "bt_get (en_session_meta (fold (\<lambda>(c, m). dispose_session c m now) ks e)) k = (if k \<in> set ks then None else bt_get (en_session_meta e) k)"
    "en_delivered (fold (\<lambda>(c, m). dispose_session c m now) ks e) = en_delivered e" by blast+
qed

lemma run_cleanup_session:
  "session_of (run_cleanup now e) c m = (if expired_key now e (c, m) then None else session_of e c m)"
  "bt_get (en_session_meta (run_cleanup now e)) k = (if expired_key now e k then None else bt_get (en_session_meta e) k)"
  "en_delivered (run_cleanup now e) = en_delivered e" "en_config (run_cleanup now e) = en_config e"
proof -
  let ?ks = "map fst (filter (\<lambda>(_, meta). session_expired (en_config e) now meta) (entries (en_session_meta e)))"
  have k: "k \<in> set ?ks \<longleftrightarrow> expired_key now e k" for k by (simp only: set_expired mem_Collect_eq)
  have "session_of (run_cleanup now e) c m = session_of (fold (\<lambda>(c, m). dispose_session c m now) ?ks e) c m"
    by (simp only: run_cleanup_def Let_def session_of_def) simp
  then show "session_of (run_cleanup now e) c m = (if expired_key now e (c, m) then None else session_of e c m)"
    by (simp only: fold_dispose(1) k)
  have "en_session_meta (run_cleanup now e) = en_session_meta (fold (\<lambda>(c, m). dispose_session c m now) ?ks e)"
    by (simp only: run_cleanup_def Let_def) simp
  then show "bt_get (en_session_meta (run_cleanup now e)) k = (if expired_key now e k then None else bt_get (en_session_meta e) k)"
    by (simp only: fold_dispose(2) k)
  show "en_delivered (run_cleanup now e) = en_delivered e" "en_config (run_cleanup now e) = en_config e"
    using dispose_all [of now ?ks e] by (simp_all add: run_cleanup_def Let_def fold_dispose(3))
qed

subsection \<open>Properties\<close>

text \<open>
  C13. No resurrection. While the tombstone of a disposed session stands, no event brings the session
  back, and handling an event does not remove a tombstone; sessions come into being only through
  a \<open>SessionOpen\<close> event for a key that is not tombstoned.
\<close>

theorem tombstone_blocks_resurrection:
  assumes "handle_event E now ev e = Some e'" "is_tombstoned e c m" "\<not> live e (c, m)"
  shows "\<not> live e' (c, m) \<and> is_tombstoned e' c m"
proof -
  have "en_tombstones e' = en_tombstones e"
    "live e' (c, m) \<longrightarrow> live e (c, m) \<or> (\<exists>p b u. ev = EvSessionOpen p c m b u \<and> \<not> is_tombstoned e c m)"
    using handle_event_live [OF assms(1)] by blast+
  then show ?thesis using assms(2,3) by (auto simp: is_tombstoned_def)
qed

text \<open>
  Disposal is complete and local: afterwards the session is gone together with its lifecycle
  record, preamble, opened streams, parked chunks and pending sends, its tombstone carries the
  current instant, and nothing changes for any other session.
\<close>

theorem dispose_session_exact:
  "(live (dispose_session c m now e) k \<longleftrightarrow> k \<noteq> (c, m) \<and> live e k) \<and>
   bt_get (en_session_meta (dispose_session c m now e)) k = (if k = (c, m) then None else bt_get (en_session_meta e) k) \<and>
   bt_get (en_session_preambles (dispose_session c m now e)) k = (if k = (c, m) then None else bt_get (en_session_preambles e) k) \<and>
   bt_get (en_opened_to (dispose_session c m now e)) k = (if k = (c, m) then None else bt_get (en_opened_to e) k) \<and>
   bt_get (en_parked_chunks (dispose_session c m now e)) k = (if k = (c, m) then None else bt_get (en_parked_chunks e) k) \<and>
   bt_get (en_pending_sends (dispose_session c m now e)) (c', m', t) =
     (if c' = c \<and> m' = m then None else bt_get (en_pending_sends e) (c', m', t)) \<and>
   bt_get (en_tombstones (dispose_session c m now e)) k = (if k = (c, m) then Some now else bt_get (en_tombstones e) k)"
  by (intro conjI dispose_live dispose_tables)

text \<open>
  C14. The cleanup sweep removes exactly what has expired: a session survives exactly if it is
  neither older than \<open>active_session_ttl\<close> nor terminal for longer than \<open>reconstructed_linger\<close>; every
  session it removes gets a tombstone; an old tombstone survives exactly while it is within
  \<open>tombstone_ttl\<close>; parked chunks past their time to live are dropped and no empty buffer stays.
\<close>

theorem run_cleanup_exact:
  "(live (run_cleanup now e) k \<longleftrightarrow> live e k \<and> \<not> expired_key now e k) \<and>
   bt_get (en_tombstones (run_cleanup now e)) k =
     (if expired_key now e k then Some now
      else case bt_get (en_tombstones e) k of None \<Rightarrow> None
        | Some at \<Rightarrow> if now - at \<le> tombstone_ttl (en_config e) then Some at else None) \<and>
   bt_get (en_parked_chunks (run_cleanup now e)) k =
     (if expired_key now e k then None
      else case bt_get (en_parked_chunks e) k of None \<Rightarrow> None
        | Some buf \<Rightarrow> (let buf' = filter (\<lambda>pc. now - pk_parked_at pc \<le> PARKED_CHUNK_TTL) buf
            in if buf' = [] then None else Some buf'))"
  using run_cleanup_effect [of now e k] unfolding saturating_duration_since_def by blast

end
