(* ===== verification/Config.thy ===== *)
theory Config
  imports Prelude
begin

text \<open>
  \<open>strategy/config.rs\<close>: the Reed-Solomon configuration, its defaults and its validating
  constructor.
\<close>

record RsConfig =
  data_shards :: u32
  parity_shards :: u32
  chunk_len :: u32
  bitmap_threshold :: u8
  forward_multiplier :: u32
  disable_bitmap :: bool

datatype ConfigError =
    BitmapThresholdOutOfRange u8
  | DataShardsZero

definition RsConfig_default :: RsConfig where
  "RsConfig_default = \<lparr>data_shards = 16, parity_shards = 16, chunk_len = 0,
     bitmap_threshold = 50, forward_multiplier = 4, disable_bitmap = False\<rparr>"

definition RsConfig_new ::
  "u32 \<Rightarrow> u32 \<Rightarrow> u32 \<Rightarrow> u8 \<Rightarrow> u32 \<Rightarrow> bool \<Rightarrow> ConfigError + RsConfig" where
  "RsConfig_new ds ps cl bt fm db =
     (if ds = 0 then Inl DataShardsZero
      else if bt > 100 then Inl (BitmapThresholdOutOfRange bt)
      else Inr \<lparr>data_shards = ds, parity_shards = ps, chunk_len = cl,
        bitmap_threshold = bt, forward_multiplier = fm, disable_bitmap = db\<rparr>)"

definition RsConfig_total_shards :: "RsConfig \<Rightarrow> u32" where
  "RsConfig_total_shards c = data_shards c + parity_shards c"

text \<open>The field invariants the constructor establishes.\<close>

definition config_ok :: "RsConfig \<Rightarrow> bool" where
  "config_ok c \<longleftrightarrow> data_shards c \<noteq> 0 \<and> bitmap_threshold c \<le> 100"

lemma RsConfig_new_ok: "RsConfig_new ds ps cl bt fm db = Inr c \<Longrightarrow> config_ok c"
  by (auto simp: RsConfig_new_def config_ok_def not_less split: if_splits)

lemma RsConfig_default_ok [simp]: "config_ok RsConfig_default"
  by (simp add: config_ok_def RsConfig_default_def)

end
