(* ===== verification/RsCodec.thy ===== *)
theory RsCodec
  imports Config Verify
begin

text \<open>
  \<open>strategy/rs/encode.rs\<close> and \<open>strategy/rs/decode.rs\<close>. The crates \<open>sha2\<close> and
  \<open>reed_solomon_erasure\<close> are a parameter of the model (the record \<open>Crates\<close>); the facts the code
  relies on are the named hypotheses \<open>sha_ok\<close> (a digest has 32 bytes) and \<open>rs_mds\<close> (the codec is
  systematic and recovers the data shards from any \<open>k\<close> of the \<open>k + m\<close> shards).
  \<open>encode\<close> is an option: \<open>None\<close> is the panic of the division by zero in \<open>resolve_shape\<close>.
\<close>

record 'e Crates =
  sha256 :: "bytes \<Rightarrow> bytes"
  rs_new :: "nat \<Rightarrow> nat \<Rightarrow> 'e option"
  rs_encode :: "nat \<Rightarrow> nat \<Rightarrow> bytes list \<Rightarrow> 'e + bytes list"
  rs_reconstruct_data :: "nat \<Rightarrow> nat \<Rightarrow> bytes option list \<Rightarrow> 'e + bytes option list"
  rs_TooFewShards :: 'e

definition sha_ok :: "'e Crates \<Rightarrow> bool" where
  "sha_ok X \<longleftrightarrow> (\<forall>d. length (sha256 X d) = HASH_LEN)"

text \<open>All shards have the length \<open>l\<close>, and there are \<open>k + m\<close> of them.\<close>

definition shards_shape :: "nat \<Rightarrow> nat \<Rightarrow> nat \<Rightarrow> bytes list \<Rightarrow> bool" where
  "shards_shape k m l ss \<longleftrightarrow> length ss = k + m \<and> (\<forall>s\<in>set ss. length s = l)"

definition rs_mds :: "'e Crates \<Rightarrow> nat \<Rightarrow> nat \<Rightarrow> bool" where
  "rs_mds X k m \<longleftrightarrow> rs_new X k m = None \<and>
     (\<forall>l ss. 0 < l \<and> shards_shape k m l ss \<longrightarrow>
       (\<exists>cs. rs_encode X k m ss = Inr cs \<and> shards_shape k m l cs \<and> take k cs = take k ss \<and>
         (\<forall>bs. length bs = k + m \<and> (\<forall>i < k + m. bs ! i = None \<or> bs ! i = Some (cs ! i)) \<and>
            k \<le> card {i. i < k + m \<and> bs ! i \<noteq> None} \<longrightarrow>
            (\<exists>bs'. rs_reconstruct_data X k m bs = Inr bs' \<and> length bs' = k + m \<and>
               (\<forall>i < k. bs' ! i = Some (cs ! i))))))"

text \<open>Every shape the codec's constructor accepts is such a code.\<close>

definition rs_ok :: "'e Crates \<Rightarrow> bool" where
  "rs_ok X \<longleftrightarrow> (\<forall>k m. rs_new X k m = None \<longrightarrow> rs_mds X k m)"

lemma rs_mds_encode:
  assumes "rs_mds X k m" "0 < l" "shards_shape k m l ss" "rs_encode X k m ss = Inr cs"
  shows "shards_shape k m l cs \<and> take k cs = take k ss"
proof -
  obtain cs' where "rs_encode X k m ss = Inr cs'" "shards_shape k m l cs'" "take k cs' = take k ss"
    using assms(1-3) unfolding rs_mds_def by blast
  with assms(4) show ?thesis by simp
qed

lemma rs_mds_reconstruct:
  assumes "rs_mds X k m" "0 < l" "shards_shape k m l ss" "rs_encode X k m ss = Inr cs"
    and "length bs = k + m" "\<forall>i < k + m. bs ! i = None \<or> bs ! i = Some (cs ! i)"
    and "k \<le> card {i. i < k + m \<and> bs ! i \<noteq> None}"
  obtains bs' where "rs_reconstruct_data X k m bs = Inr bs'" "length bs' = k + m"
    "\<forall>i < k. bs' ! i = Some (cs ! i)"
proof -
  obtain cs' where cs': "rs_encode X k m ss = Inr cs'" and
    rec: "\<forall>bs. length bs = k + m \<and> (\<forall>i < k + m. bs ! i = None \<or> bs ! i = Some (cs' ! i)) \<and>
            k \<le> card {i. i < k + m \<and> bs ! i \<noteq> None} \<longrightarrow>
            (\<exists>bs'. rs_reconstruct_data X k m bs = Inr bs' \<and> length bs' = k + m \<and>
               (\<forall>i < k. bs' ! i = Some (cs' ! i)))"
    using assms(1-3) unfolding rs_mds_def by blast
  have "cs' = cs" using cs' assms(4) by simp
  with rec assms(5-7) that show ?thesis by blast
qed

subsection \<open>Encoding\<close>

datatype 'e EncodeError = EncRs 'e | EmptyPayload | EncShardCountOverflow

definition resolve_shape :: "nat \<Rightarrow> RsConfig \<Rightarrow> (nat \<times> nat \<times> nat) option" where
  "resolve_shape payload_len c =
     (if chunk_len c > 0
      then (let cl = unat (chunk_len c); ds = div_ceil payload_len cl in Some (ds, ds, cl))
      else (let ds = unat (data_shards c); ps = unat (parity_shards c) in
        if ds = 0 then None else Some (ds, ps, div_ceil payload_len ds)))"

definition copy_payload :: "nat \<Rightarrow> bytes \<Rightarrow> bytes list \<Rightarrow> bytes list" where
  "copy_payload cl payload shards =
     fold (\<lambda>(i, chunk) ss. ss[i := chunk @ drop (length chunk) (ss ! i)])
       (enumerate 0 (chunks cl payload)) shards"

definition make_preamble :: "'e Crates \<Rightarrow> nat \<Rightarrow> nat \<Rightarrow> bytes \<Rightarrow> bytes list \<Rightarrow> Preamble option" where
  "make_preamble X ds ps payload shards =
     Option.bind (i32_try_from_nat ds) (\<lambda>nd.
     Option.bind (i32_try_from_nat ps) (\<lambda>np.
     Option.bind (i32_try_from_nat (length payload)) (\<lambda>len.
       Some \<lparr>num_data = nd, num_parity = np, pre_length = len,
         hashes = map (sha256 X) shards, pre_hash = sha256 X payload\<rparr>)))"

definition encode ::
  "'e Crates \<Rightarrow> bytes \<Rightarrow> RsConfig \<Rightarrow> ('e EncodeError + Preamble \<times> bytes list) option" where
  "encode X payload c =
     (if payload = [] then Some (Inl EmptyPayload)
      else case resolve_shape (length payload) c of
        None \<Rightarrow> None
      | Some (ds, ps, cl) \<Rightarrow>
          (case rs_new X ds ps of
            Some e \<Rightarrow> Some (Inl (EncRs e))
          | None \<Rightarrow>
              (case rs_encode X ds ps
                  (copy_payload cl payload (replicate (ds + ps) (replicate cl 0))) of
                Inl e \<Rightarrow> Some (Inl (EncRs e))
              | Inr shards \<Rightarrow>
                  (case make_preamble X ds ps payload shards of
                    None \<Rightarrow> Some (Inl EncShardCountOverflow)
                  | Some p \<Rightarrow> Some (Inr (p, shards))))))"

subsection \<open>Decoding\<close>

datatype 'e DecodeError =
    DecPreamble PreambleError
  | DecRs 'e
  | ShardIndexOutOfRange u32 u32
  | DuplicateShardIndex u32
  | InconsistentShardLength nat nat
  | MessageHashMismatch

fun fill_buckets ::
  "nat \<Rightarrow> nat \<Rightarrow> (u32 \<times> bytes) list \<Rightarrow> bytes option list \<Rightarrow> 'e DecodeError + bytes option list" where
  "fill_buckets tot shard_len [] buckets = Inr buckets"
| "fill_buckets tot shard_len ((idx, data) # rest) buckets =
     (if tot \<le> unat idx then Inl (ShardIndexOutOfRange idx (word_of_nat tot))
      else if length data \<noteq> shard_len then Inl (InconsistentShardLength shard_len (length data))
      else if buckets ! unat idx \<noteq> None then Inl (DuplicateShardIndex idx)
      else fill_buckets tot shard_len rest (buckets[unat idx := Some data]))"

fun concat_slots :: "'e Crates \<Rightarrow> bytes option list \<Rightarrow> bytes \<Rightarrow> 'e DecodeError + bytes" where
  "concat_slots X [] out = Inr out"
| "concat_slots X (None # slots) out = Inl (DecRs (rs_TooFewShards X))"
| "concat_slots X (Some s # slots) out = concat_slots X slots (out @ s)"

definition finish_decode :: "'e Crates \<Rightarrow> Preamble \<Rightarrow> bytes \<Rightarrow> 'e DecodeError + bytes" where
  "finish_decode X p out =
     (if unat (pre_length p) > length out
      then Inl (InconsistentShardLength (unat (pre_length p)) (length out))
      else (let out' = take (unat (pre_length p)) out in
        if sha256 X out' \<noteq> pre_hash p then Inl MessageHashMismatch else Inr out'))"

definition decode :: "'e Crates \<Rightarrow> Preamble \<Rightarrow> (u32 \<times> bytes) list \<Rightarrow> 'e DecodeError + bytes" where
  "decode X p shards_in =
     result_bind (map_err DecPreamble (validate_preamble p)) (\<lambda>_.
     let ds = unat (num_data p); ps = unat (num_parity p); tot = ds + ps in
     case shards_in of
       [] \<Rightarrow> Inl (DecRs (rs_TooFewShards X))
     | (_, s) # _ \<Rightarrow>
         result_bind (fill_buckets tot (length s) shards_in (replicate tot None)) (\<lambda>buckets.
         case rs_new X ds ps of
           Some e \<Rightarrow> Inl (DecRs e)
         | None \<Rightarrow>
             result_bind (map_err DecRs (rs_reconstruct_data X ds ps buckets)) (\<lambda>buckets'.
             result_bind (concat_slots X (take ds buckets') []) (finish_decode X p))))"

subsection \<open>Splitting the payload\<close>

text \<open>The data shards hold the payload followed by zero padding.\<close>

lemma length_copy_payload [simp]: "length (copy_payload cl payload ss) = length ss"
proof -
  have "length (fold (\<lambda>(i, chunk) ss. ss[i := chunk @ drop (length chunk) (ss ! i)]) ics ss) = length ss"
    for ics :: "(nat \<times> bytes) list"
    by (induction ics arbitrary: ss) auto
  then show ?thesis by (simp add: copy_payload_def)
qed

lemma fold_copy_enumerate:
  "length cs + k \<le> length ss \<Longrightarrow>
   fold (\<lambda>(i, chunk) ss. ss[i := chunk @ drop (length chunk) (ss ! i)]) (enumerate k cs) ss =
     take k ss @ map2 (\<lambda>c s. c @ drop (length c) s) cs (drop k ss) @ drop (k + length cs) ss"
proof (induction cs arbitrary: k ss)
  case (Cons c cs)
  let ?upd = "ss[k := c @ drop (length c) (ss ! k)]"
  have k: "k < length ss" using Cons.prems by simp
  have "fold (\<lambda>(i, chunk) ss. ss[i := chunk @ drop (length chunk) (ss ! i)]) (enumerate (Suc k) cs) ?upd =
      take (Suc k) ?upd @ map2 (\<lambda>c s. c @ drop (length c) s) cs (drop (Suc k) ?upd) @
        drop (Suc k + length cs) ?upd"
    using Cons by simp
  moreover have "take (Suc k) ?upd = take k ss @ [c @ drop (length c) (ss ! k)]"
    using k by (simp add: take_Suc_conv_app_nth)
  moreover have "drop k ss = ss ! k # drop (Suc k) ss" using k by (simp add: Cons_nth_drop_Suc)
  ultimately show ?case by simp
qed simp

lemma concat_padded_chunks:
  "0 < cl \<Longrightarrow> n = length (chunks cl xs) \<Longrightarrow>
   concat (map (\<lambda>c. c @ replicate (cl - length c) 0) (chunks cl xs)) =
     xs @ replicate (n * cl - length xs) 0"
proof (induction cl xs arbitrary: n rule: chunks.induct)
  case (1 cl xs)
  show ?case
  proof (cases "xs = []")
    case False
    then have cs: "chunks cl xs = take cl xs # chunks cl (drop cl xs)"
      using 1 by (simp add: chunks_step)
    have ih: "concat (map (\<lambda>c. c @ replicate (cl - length c) 0) (chunks cl (drop cl xs))) =
        drop cl xs @ replicate ((n - 1) * cl - length (drop cl xs)) 0"
      using 1 False cs by simp
    show ?thesis
    proof (cases "length xs \<le> cl")
      case True
      then show ?thesis using 1 cs by simp
    next
      case False
      then have "drop cl xs \<noteq> []" by simp
      then have "1 < n" using 1 cs by (simp add: chunks_step)
      then have "(n - 1) * cl - (length xs - cl) = n * cl - length xs"
        using False by (simp add: diff_mult_distrib)
      then show ?thesis using ih cs False by (simp add: append_assoc [symmetric] del: append_assoc)
    qed
  qed (use 1 in simp)
qed

lemma copy_payload_eq:
  assumes "0 < cl" "div_ceil (length payload) cl \<le> tot"
  shows "copy_payload cl payload (replicate tot (replicate cl 0)) =
    map (\<lambda>c. c @ replicate (cl - length c) 0) (chunks cl payload) @
    replicate (tot - length (chunks cl payload)) (replicate cl 0)"
proof -
  have len: "length (chunks cl payload) \<le> tot" using assms by (simp add: length_chunks)
  have "map2 (\<lambda>c s. c @ drop (length c) s) (chunks cl payload) (replicate tot (replicate cl 0)) =
      map (\<lambda>c. c @ replicate (cl - length c) 0) (chunks cl payload)"
    using len by (auto intro!: nth_equalityI)
  then show ?thesis
    using len by (simp add: copy_payload_def fold_copy_enumerate)
qed

lemma concat_replicate_replicate: "concat (replicate n (replicate c x)) = replicate (n * c) x"
  by (induction n) (auto simp: replicate_add)

lemma copy_payload_data:
  assumes "0 < cl" "length payload \<le> ds * cl"
  shows "shards_shape ds ps cl (copy_payload cl payload (replicate (ds + ps) (replicate cl 0)))"
    and "concat (take ds (copy_payload cl payload (replicate (ds + ps) (replicate cl 0)))) =
      payload @ replicate (ds * cl - length payload) 0"
proof -
  let ?n = "length (chunks cl payload)"
  have n: "?n \<le> ds" using assms by (simp add: length_chunks div_ceil_le_iff)
  then have eq: "copy_payload cl payload (replicate (ds + ps) (replicate cl 0)) =
      map (\<lambda>c. c @ replicate (cl - length c) 0) (chunks cl payload) @
      replicate (ds + ps - ?n) (replicate cl 0)"
    using copy_payload_eq [OF assms(1), of payload "ds + ps"] assms(1) by (simp add: length_chunks)
  show "shards_shape ds ps cl (copy_payload cl payload (replicate (ds + ps) (replicate cl 0)))"
    unfolding shards_shape_def using n assms(1)
    by (auto simp: eq dest: chunks_length_le)
  have "?n * cl \<ge> length payload"
    using assms(1) by (simp add: length_chunks div_ceil_mult_ge)
  then have "?n * cl - length payload + (ds - ?n) * cl = ds * cl - length payload"
    using n by (simp add: diff_mult_distrib)
  then show "concat (take ds (copy_payload cl payload (replicate (ds + ps) (replicate cl 0)))) =
      payload @ replicate (ds * cl - length payload) 0"
    using n concat_padded_chunks [OF assms(1) refl, of payload]
    by (simp add: eq concat_replicate_trivial replicate_add [symmetric] concat_replicate_replicate)
qed

subsection \<open>What encoding produces\<close>

lemma resolve_shape_ok:
  assumes "payload \<noteq> []" "resolve_shape (length payload) c = Some (ds, ps, cl)"
  shows "0 < ds" "0 < cl" "length payload \<le> ds * cl"
proof -
  have "0 < length payload" using assms(1) by simp
  then have *: "0 < ds \<and> 0 < cl \<and> length payload \<le> ds * cl"
    using assms(2)
    by (auto simp: resolve_shape_def Let_def word_less_nat_alt mult.commute [of _ "div_ceil _ _"]
        intro: div_ceil_mult_ge split: if_splits)
  show "0 < ds" "0 < cl" "length payload \<le> ds * cl" using * by auto
qed

lemma make_preamble_Some:
  "make_preamble X ds ps payload shards = Some p \<longleftrightarrow>
   ds < 2 ^ 31 \<and> ps < 2 ^ 31 \<and> length payload < 2 ^ 31 \<and>
   p = \<lparr>num_data = word_of_nat ds, num_parity = word_of_nat ps,
     pre_length = word_of_nat (length payload),
     hashes = map (sha256 X) shards, pre_hash = sha256 X payload\<rparr>"
  by (auto simp: make_preamble_def i32_try_from_nat_def bind_eq_Some_conv split: if_splits)

lemma unat_of_nat_i32: "n < 2 ^ 31 \<Longrightarrow> unat (word_of_nat n :: i32) = n"
  by (simp add: unat_of_nat)

lemma encode_Inr:
  "encode X payload c = Some (Inr (p, shards)) \<longleftrightarrow>
   payload \<noteq> [] \<and> (\<exists>ds ps cl. resolve_shape (length payload) c = Some (ds, ps, cl) \<and>
     rs_new X ds ps = None \<and>
     rs_encode X ds ps (copy_payload cl payload (replicate (ds + ps) (replicate cl 0))) = Inr shards \<and>
     make_preamble X ds ps payload shards = Some p)"
  by (auto simp: encode_def split: option.splits sum.splits prod.splits)

text \<open>
  The shape of a successful encoding: every later lemma about encoded messages starts here.
\<close>

definition encodes :: "'e Crates \<Rightarrow> bytes \<Rightarrow> Preamble \<Rightarrow> bytes list \<Rightarrow> nat \<Rightarrow> bool" where
  "encodes X payload p shards l \<longleftrightarrow>
     0 < unat (num_data p) \<and> 0 < l \<and>
     sint (num_data p) \<ge> 0 \<and> sint (num_parity p) \<ge> 0 \<and> sint (pre_length p) \<ge> 0 \<and>
     shards_shape (unat (num_data p)) (unat (num_parity p)) l shards \<and>
     hashes p = map (sha256 X) shards \<and> pre_hash p = sha256 X payload \<and>
     unat (pre_length p) = length payload \<and>
     take (length payload) (concat (take (unat (num_data p)) shards)) = payload"

lemma encode_encodes:
  assumes "encode X payload c = Some (Inr (p, shards))"
    and mds: "rs_mds X (unat (num_data p)) (unat (num_parity p))"
  obtains l where "encodes X payload p shards l"
    "\<exists>ss. shards_shape (unat (num_data p)) (unat (num_parity p)) l ss \<and>
      rs_encode X (unat (num_data p)) (unat (num_parity p)) ss = Inr shards"
proof -
  obtain ds ps cl where shape: "resolve_shape (length payload) c = Some (ds, ps, cl)"
    and enc: "rs_encode X ds ps (copy_payload cl payload (replicate (ds + ps) (replicate cl 0))) = Inr shards"
    and mk: "make_preamble X ds ps payload shards = Some p" and ne: "payload \<noteq> []"
    using assms(1) by (auto simp: encode_Inr)
  note ok = resolve_shape_ok [OF ne shape]
  note data = copy_payload_data [OF ok(2) ok(3), of ps]
  have nums: "unat (num_data p) = ds" "unat (num_parity p) = ps" "unat (pre_length p) = length payload"
    using mk by (auto simp: make_preamble_Some unat_of_nat_i32)
  have bounds: "ds < 2 ^ 31" "ps < 2 ^ 31" "length payload < 2 ^ 31"
    using mk by (simp_all add: make_preamble_Some)
  have cs: "shards_shape ds ps cl shards"
    "take ds shards = take ds (copy_payload cl payload (replicate (ds + ps) (replicate cl 0)))"
    using rs_mds_encode [OF mds [unfolded nums] ok(2) data(1) enc] by auto
  have "encodes X payload p shards cl"
    unfolding encodes_def nums unat_nonneg_i32
    using ok cs data(2) bounds mk by (simp add: make_preamble_Some)
  moreover have "\<exists>ss. shards_shape (unat (num_data p)) (unat (num_parity p)) cl ss \<and>
      rs_encode X (unat (num_data p)) (unat (num_parity p)) ss = Inr shards"
    unfolding nums using data(1) enc by blast
  ultimately show ?thesis by (rule that)
qed

lemma encode_rs_ok:
  assumes "encode X payload c = Some (Inr (p, shards))" "rs_ok X"
  shows "rs_mds X (unat (num_data p)) (unat (num_parity p))"
  using assms by (auto simp: encode_Inr rs_ok_def make_preamble_Some unat_of_nat_i32)

lemma encodes_preamble_ok: "encodes X payload p shards l \<Longrightarrow> sha_ok X \<Longrightarrow> preamble_ok p"
  by (auto simp: encodes_def preamble_ok_def sha_ok_def shards_shape_def)

lemma encodes_verify:
  assumes "encodes X payload p shards l" "sha_ok X" "unat idx < length shards"
  shows "verify_chunk (sha256 X) p idx (shards ! unat idx) = Accepted"
  using assms encodes_preamble_ok [OF assms(1,2)]
  by (simp add: verify_chunk_iff encodes_def)

subsection \<open>Decoding any \<open>k\<close> shards\<close>

definition drawn_from :: "bytes list \<Rightarrow> (u32 \<times> bytes) list \<Rightarrow> bool" where
  "drawn_from shards xs \<longleftrightarrow> distinct (map fst xs) \<and>
     (\<forall>(i, d)\<in>set xs. unat i < length shards \<and> d = shards ! unat i)"

lemma fill_buckets_drawn:
  assumes "drawn_from shards xs" "length b = length shards" "\<forall>s\<in>set shards. length s = l"
    "\<forall>i\<in>fst ` set xs. b ! unat i = None"
  shows "\<exists>b'. (fill_buckets (length shards) l xs b :: 'e DecodeError + bytes option list) = Inr b' \<and> length b' = length shards \<and>
    (\<forall>i < length shards. b' ! i = (if i \<in> unat ` fst ` set xs then Some (shards ! i) else b ! i))"
  using assms
proof (induction xs arbitrary: b)
  case (Cons x xs)
  obtain i d where x: "x = (i, d)" by (cases x)
  let ?b = "b[unat i := Some d]"
  have i: "unat i < length shards" "d = shards ! unat i" "i \<notin> fst ` set xs"
    using Cons.prems(1) by (auto simp: drawn_from_def x)
  have "drawn_from shards xs" using Cons.prems(1) by (simp add: drawn_from_def)
  moreover have "\<forall>j\<in>fst ` set xs. ?b ! unat j = None"
  proof
    fix j assume j: "j \<in> fst ` set xs"
    then have "j \<noteq> i" using i(3) by blast
    then have "unat j \<noteq> unat i" by (simp add: word_unat_eq_iff)
    then show "?b ! unat j = None" using Cons.prems(4) j by auto
  qed
  moreover have "length ?b = length shards" using Cons.prems(2) by simp
  ultimately obtain b' where b':
    "(fill_buckets (length shards) l xs ?b :: 'e DecodeError + bytes option list) = Inr b'"
    "length b' = length shards"
    "\<forall>j < length shards. b' ! j = (if j \<in> unat ` fst ` set xs then Some (shards ! j) else ?b ! j)"
    using Cons.IH [of ?b] Cons.prems(3) by blast
  have "(fill_buckets (length shards) l (x # xs) b :: 'e DecodeError + bytes option list) = Inr b'"
    using i Cons.prems b'(1) by (simp add: x not_le)
  then show ?case using i b'(2,3) Cons.prems(2) by (auto simp: x nth_list_update)
qed simp

lemma concat_slots_Some:
  "concat_slots X (map Some ss) out = Inr (out @ concat ss)"
  by (induction ss arbitrary: out) auto

lemma card_drawn: "drawn_from shards xs \<Longrightarrow> card (unat ` fst ` set xs) = length xs"
proof -
  assume "drawn_from shards xs"
  then have "card (fst ` set xs) = length xs"
    by (simp add: drawn_from_def distinct_card flip: set_map)
  moreover have "inj_on unat (fst ` set xs)" by (auto simp: inj_on_def word_unat_eq_iff)
  ultimately show ?thesis by (simp add: card_image)
qed

lemma drawn_lengths:
  "drawn_from shards xs \<Longrightarrow> \<forall>s\<in>set shards. length s = l \<Longrightarrow> (i, d) \<in> set xs \<Longrightarrow> length d = l"
  by (auto simp: drawn_from_def)

lemma filled_slots:
  "J \<subseteq> {..<n} \<Longrightarrow> \<forall>i < n. b ! i = (if i \<in> J then Some (f i) else None) \<Longrightarrow>
   {i. i < n \<and> b ! i \<noteq> None} = J"
  by (auto split: if_splits)

lemma decode_drawn:
  fixes X :: "'e Crates"
  assumes enc: "encodes X payload p shards l" and sha: "sha_ok X"
    and mds: "rs_mds X (unat (num_data p)) (unat (num_parity p))"
    and cs: "\<exists>ss. shards_shape (unat (num_data p)) (unat (num_parity p)) l ss \<and>
      rs_encode X (unat (num_data p)) (unat (num_parity p)) ss = Inr shards"
    and xs: "drawn_from shards xs" "unat (num_data p) \<le> length xs"
  shows "decode X p xs = Inr payload"
proof -
  let ?k = "unat (num_data p)" and ?m = "unat (num_parity p)"
  have e: "0 < ?k" "0 < l" "length shards = ?k + ?m" "\<forall>s\<in>set shards. length s = l"
    using enc by (auto simp: encodes_def shards_shape_def)
  obtain i s rest where x: "xs = (i, s) # rest" using e(1) xs(2) by (cases xs) auto
  have s: "length s = l" using drawn_lengths [OF xs(1) e(4)] x by auto
  obtain b where b:
    "(fill_buckets (?k + ?m) l xs (replicate (?k + ?m) None) :: 'e DecodeError + bytes option list) = Inr b"
    "length b = ?k + ?m"
    "\<forall>i < ?k + ?m. b ! i = (if i \<in> unat ` fst ` set xs then Some (shards ! i) else None)"
  proof -
    have "\<forall>i\<in>fst ` set xs. replicate (?k + ?m) (None :: bytes option) ! unat i = None"
      using xs(1) e(3) by (auto simp: drawn_from_def)
    then show ?thesis
      using fill_buckets_drawn [OF xs(1), of "replicate (?k + ?m) None" l, where ?'e = 'e] e that
      by auto
  qed
  have "unat ` fst ` set xs \<subseteq> {..<?k + ?m}"
    using xs(1) e(3) by (auto simp: drawn_from_def)
  then have "{i. i < ?k + ?m \<and> b ! i \<noteq> None} = unat ` fst ` set xs"
    using b(3) by (rule filled_slots)
  then have card: "?k \<le> card {i. i < ?k + ?m \<and> b ! i \<noteq> None}"
    using card_drawn [OF xs(1)] xs(2) by simp
  obtain b' where b': "rs_reconstruct_data X ?k ?m b = Inr b'" "length b' = ?k + ?m"
    "\<forall>i < ?k. b' ! i = Some (shards ! i)"
  proof -
    from cs obtain ss where ss: "shards_shape ?k ?m l ss" "rs_encode X ?k ?m ss = Inr shards" by blast
    have "\<forall>i < ?k + ?m. b ! i = None \<or> b ! i = Some (shards ! i)" using b(3) by auto
    from rs_mds_reconstruct [OF mds e(2) ss b(2) this card] that show ?thesis by blast
  qed
  have "take ?k b' = map Some (take ?k shards)"
    using b' e(3) by (auto intro!: nth_equalityI)
  then have slots: "concat_slots X (take ?k b') [] = Inr (concat (take ?k shards))"
    by (simp add: concat_slots_Some)
  have "validate_preamble p = Inr ()"
    using encodes_preamble_ok [OF enc sha] by (simp add: validate_preamble_iff)
  moreover have "finish_decode X p (concat (take ?k shards)) = Inr payload"
  proof -
    have "length payload \<le> length (concat (take ?k shards))"
      using enc unfolding encodes_def by (metis length_take min.cobounded1)
    then show ?thesis using enc by (simp add: finish_decode_def encodes_def Let_def)
  qed
  moreover have "rs_new X ?k ?m = None" using mds by (simp add: rs_mds_def)
  ultimately show ?thesis
    using b(1) b'(1) slots s by (simp add: decode_def Let_def x del: fill_buckets.simps)
qed

lemma decode_integrity:
  assumes "decode X p xs = Inr out"
  shows "sha256 X out = pre_hash p" "length out = unat (pre_length p)" "preamble_ok p"
proof -
  obtain out' where fin: "finish_decode X p out' = Inr out"
    using assms
    by (auto simp: decode_def Let_def result_bind_Inr_iff split: list.splits option.splits)
  show "sha256 X out = pre_hash p" "length out = unat (pre_length p)"
    using fin by (auto simp: finish_decode_def Let_def split: if_splits)
  show "preamble_ok p"
    using assms by (auto simp: decode_def result_bind_Inr_iff validate_preamble_iff)
qed

subsection \<open>A concrete codec\<close>

text \<open>
  The repetition code with one data shard satisfies the codec hypothesis; padding or truncating to
  32 bytes satisfies the digest hypothesis. The witnesses of the properties run on it.
\<close>

definition repetition_crates :: "unit Crates" where
  "repetition_crates =
     \<lparr>sha256 = (\<lambda>d. take 32 (d @ replicate 32 0)),
      rs_new = (\<lambda>k m. if k = 1 then None else Some ()),
      rs_encode = (\<lambda>k m ss. case ss of [] \<Rightarrow> Inl () | s # _ \<Rightarrow> Inr (map (\<lambda>_. s) ss)),
      rs_reconstruct_data = (\<lambda>k m bs. case filter (\<lambda>b. b \<noteq> None) bs of
          [] \<Rightarrow> Inl () | b # _ \<Rightarrow> Inr (map (\<lambda>_. b) bs)),
      rs_TooFewShards = ()\<rparr>"

lemma repetition_sha_ok [simp]: "sha_ok repetition_crates"
  by (auto simp: sha_ok_def repetition_crates_def HASH_LEN_def)

lemma repetition_mds [simp]: "rs_mds repetition_crates (Suc 0) m"
  unfolding rs_mds_def
proof (intro conjI allI impI)
  show "rs_new repetition_crates (Suc 0) m = None" by (simp add: repetition_crates_def)
  fix l ss assume ss: "0 < l \<and> shards_shape (Suc 0) m l ss"
  then obtain s rest where s: "ss = s # rest" by (cases ss) (auto simp: shards_shape_def)
  let ?cs = "map (\<lambda>_. s) ss"
  have "\<exists>bs'. rs_reconstruct_data repetition_crates (Suc 0) m bs = Inr bs' \<and> length bs' = Suc 0 + m \<and>
      (\<forall>i < Suc 0. bs' ! i = Some (?cs ! i))"
    if bs: "length bs = Suc 0 + m" "\<forall>i < Suc 0 + m. bs ! i = None \<or> bs ! i = Some (?cs ! i)"
      "Suc 0 \<le> card {i. i < Suc 0 + m \<and> bs ! i \<noteq> None}" for bs
  proof -
    have len: "length ss = Suc 0 + m" using ss by (simp add: shards_shape_def)
    have "{i. i < Suc 0 + m \<and> bs ! i \<noteq> None} \<noteq> {}" using bs(3) by (metis card.empty not_less_eq_eq zero_le)
    then obtain i where i: "i < length bs" "bs ! i \<noteq> None" using bs(1) by auto
    then have "bs ! i \<in> set (filter (\<lambda>b. b \<noteq> None) bs)" by auto
    then obtain b rest' where f: "filter (\<lambda>b. b \<noteq> None) bs = b # rest'"
      by (metis (no_types) empty_iff list.exhaust list.set(1))
    then have "b \<in> set (filter (\<lambda>b. b \<noteq> None) bs)" by simp
    then have "b \<in> set bs" "b \<noteq> None" by simp_all
    then have "b = Some s" using bs(1,2) len by (auto simp: in_set_conv_nth)
    then show ?thesis using f bs(1) by (simp add: repetition_crates_def s)
  qed
  moreover have "rs_encode repetition_crates (Suc 0) m ss = Inr ?cs" by (simp add: repetition_crates_def s)
  moreover have "shards_shape (Suc 0) m l ?cs \<and> take (Suc 0) ?cs = take (Suc 0) ss"
    using ss by (auto simp: shards_shape_def s)
  ultimately show "\<exists>cs. rs_encode repetition_crates (Suc 0) m ss = Inr cs \<and> shards_shape (Suc 0) m l cs \<and>
      take (Suc 0) cs = take (Suc 0) ss \<and>
      (\<forall>bs. length bs = Suc 0 + m \<and> (\<forall>i < Suc 0 + m. bs ! i = None \<or> bs ! i = Some (cs ! i)) \<and>
        Suc 0 \<le> card {i. i < Suc 0 + m \<and> bs ! i \<noteq> None} \<longrightarrow>
        (\<exists>bs'. rs_reconstruct_data repetition_crates (Suc 0) m bs = Inr bs' \<and> length bs' = Suc 0 + m \<and>
          (\<forall>i < Suc 0. bs' ! i = Some (cs ! i))))"
    by blast
qed

lemma repetition_rs_ok [simp]: "rs_ok repetition_crates"
  by (auto simp: rs_ok_def repetition_crates_def [THEN arg_cong [where f = rs_new]] split: if_splits)

definition demo_config :: RsConfig where
  "demo_config = \<lparr>data_shards = 1, parity_shards = 1, chunk_len = 0,
     bitmap_threshold = 50, forward_multiplier = 1, disable_bitmap = False\<rparr>"

definition demo_preamble :: Preamble where
  "demo_preamble = \<lparr>num_data = 1, num_parity = 1, pre_length = 2,
     hashes = [[7, 9] @ replicate 30 0, [7, 9] @ replicate 30 0], pre_hash = [7, 9] @ replicate 30 0\<rparr>"

lemma demo_copy: "copy_payload 2 [7, 9] (replicate (1 + 1) (replicate 2 0)) = [[7, 9], [0, 0]]"
proof -
  have "chunks 2 [7, 9 :: u8] = [[7, 9]]" by (simp add: chunks_step)
  then show ?thesis by (simp add: copy_payload_def numeral_2_eq_2)
qed

lemma demo_encode: "encode repetition_crates [7, 9] demo_config = Some (Inr (demo_preamble, [[7, 9], [7, 9]]))"
proof -
  have "resolve_shape (Suc (Suc 0)) demo_config = Some (1, 1, 2)"
    by (simp add: resolve_shape_def demo_config_def div_ceil_def)
  moreover have "rs_new repetition_crates 1 1 = None"
    "rs_encode repetition_crates 1 1 [[7, 9], [0, 0]] = Inr [[7, 9], [7, 9]]"
    "make_preamble repetition_crates 1 1 [7, 9] [[7, 9], [7, 9]] = Some demo_preamble"
    by (simp_all add: repetition_crates_def make_preamble_def i32_try_from_nat_def demo_preamble_def)
  ultimately show ?thesis
    using demo_copy by (simp add: encode_def)
qed

lemma demo_drawn: "drawn_from [[7, 9], [7, 9]] [(0 :: u32, [7, 9])]"
  by (simp add: drawn_from_def)

subsection \<open>Properties\<close>

text \<open>
  C7. Recovery from any \<open>num_data\<close> shards. If a payload was encoded and the codec recovers data
  shards from any \<open>k\<close> shards, decoding any list of at least \<open>num_data\<close> of the encoded shards with
  distinct indices, in any order, returns the payload.
\<close>

theorem decode_any_k_shards:
  assumes "encode X payload c = Some (Inr (p, shards))" "sha_ok X"
    "rs_mds X (unat (num_data p)) (unat (num_parity p))"
    "drawn_from shards xs" "unat (num_data p) \<le> length xs"
  shows "decode X p xs = Inr payload"
  using encode_encodes [OF assms(1,3)] decode_drawn [OF _ assms(2,3) _ assms(4,5)] by metis

theorem decode_any_k_shards_witness:
  "decode repetition_crates demo_preamble [(1, [7, 9])] = Inr [7, 9]"
  by (rule decode_any_k_shards [OF demo_encode])
    (simp_all add: demo_preamble_def drawn_from_def)

text \<open>
  What an encoder publishes passes the receiver's checks: the preamble of a successful encoding
  validates, there is one shard per listed hash, all shards have the same positive length, and
  every shard is accepted at its index.
\<close>

theorem encoded_shards_verify:
  assumes "encode X payload c = Some (Inr (p, shards))" "sha_ok X"
    "rs_mds X (unat (num_data p)) (unat (num_parity p))"
  shows "validate_preamble p = Inr () \<and> length shards = length (hashes p) \<and>
    (\<exists>l. 0 < l \<and> (\<forall>s\<in>set shards. length s = l)) \<and>
    (\<forall>idx. unat idx < length shards \<longrightarrow> verify_chunk (sha256 X) p idx (shards ! unat idx) = Accepted)"
proof -
  obtain l where l: "encodes X payload p shards l" using encode_encodes [OF assms(1,3)] .
  then have "length shards = length (hashes p)" "0 < l" "\<forall>s\<in>set shards. length s = l"
    by (auto simp: encodes_def shards_shape_def)
  then show ?thesis
    using encodes_preamble_ok [OF l assms(2)] encodes_verify [OF l assms(2)]
    by (auto simp: validate_preamble_iff)
qed

theorem encoded_shards_verify_witness:
  "validate_preamble demo_preamble = Inr ()"
  using encoded_shards_verify [OF demo_encode] by (simp add: demo_preamble_def)

text \<open>
  C17. Integrity of decoding, for any input shards and any codec: a payload is only ever returned if
  the preamble is valid, the payload has the announced length and its digest is the announced one.
\<close>

theorem decode_integrity_holds:
  assumes "decode X p xs = Inr out"
  shows "sha256 X out = pre_hash p \<and> length out = unat (pre_length p) \<and> validate_preamble p = Inr ()"
  using decode_integrity [OF assms] by (simp add: validate_preamble_iff)

theorem decode_integrity_holds_witness:
  "sha256 repetition_crates [7, 9] = pre_hash demo_preamble \<and> length [7 :: u8, 9] = unat (pre_length demo_preamble)"
proof -
  have "unat (num_data demo_preamble) = Suc 0" "unat (num_parity demo_preamble) = Suc 0"
    by (simp_all add: demo_preamble_def)
  then have "decode repetition_crates demo_preamble [(0, [7, 9])] = Inr [7, 9]"
    using encode_encodes [OF demo_encode] decode_drawn [of repetition_crates "[7, 9]" demo_preamble "[[7, 9], [7, 9]]" _ "[(0, [7, 9])]"]
    by (metis (no_types, lifting) One_nat_def demo_drawn le_refl length_Cons list.size(3) repetition_mds repetition_sha_ok)
  from decode_integrity_holds [OF this] show ?thesis by blast
qed

text \<open>
  When encoding panics: the division in \<open>resolve_shape\<close> is by zero exactly for a non-empty
  payload, \<open>chunk_len = 0\<close> and \<open>data_shards = 0\<close>, a configuration the validating constructor
  refuses (the fields are public, so it can be built without it).
\<close>

theorem encode_panics_iff:
  "(encode X payload c = None \<longleftrightarrow> payload \<noteq> [] \<and> chunk_len c = 0 \<and> data_shards c = 0) \<and>
   RsConfig_new 0 ps cl bt fm db = Inl DataShardsZero"
proof -
  have "resolve_shape n c = None \<longleftrightarrow> chunk_len c = 0 \<and> data_shards c = 0" for n
    by (auto simp: resolve_shape_def Let_def unat_eq_0 word_gt_0)
  then show ?thesis
    by (auto simp: encode_def RsConfig_new_def split: option.splits sum.splits)
qed

end
