(* ===== verification/BinaryHeap.thy ===== *)
theory BinaryHeap
  imports Prelude
begin

text \<open>
  Priority queues: what the emit planner relies on of \<open>std::collections::BinaryHeap\<close>, as a locale over the
  multiset of queued elements, and the model of the heap as the ascending list of its elements.
  Elements that compare equal are equal, so the list is determined by the multiset and \<open>pop\<close> is
  deterministic, as the source relies on. (The simulator's heap orders entries by a part of them
  and has its own model.)
\<close>

definition heap_push :: "'a::linorder \<Rightarrow> 'a list \<Rightarrow> 'a list" where
  "heap_push x h = insort x h"

fun heap_pop :: "'a list \<Rightarrow> ('a \<times> 'a list) option" where
  "heap_pop [] = None"
| "heap_pop (x # h) = Some (x, h)"

definition heap_push_all :: "'a::linorder list \<Rightarrow> 'a list \<Rightarrow> 'a list" where
  "heap_push_all xs h = fold heap_push xs h"

locale priority_queue =
  fixes empty :: 'q
    and push :: "'a::linorder \<Rightarrow> 'q \<Rightarrow> 'q"
    and pop :: "'q \<Rightarrow> ('a \<times> 'q) option"
    and elems :: "'q \<Rightarrow> 'a multiset"
    and invar :: "'q \<Rightarrow> bool"
  assumes invar_empty: "invar empty"
    and elems_empty: "elems empty = {#}"
    and invar_push: "invar q \<Longrightarrow> invar (push x q)"
    and elems_push: "invar q \<Longrightarrow> elems (push x q) = add_mset x (elems q)"
    and pop_None: "invar q \<Longrightarrow> pop q = None \<longleftrightarrow> elems q = {#}"
    and pop_Some: "invar q \<Longrightarrow> pop q = Some (x, q') \<Longrightarrow>
      invar q' \<and> elems q = add_mset x (elems q') \<and> (\<forall>y\<in>#elems q'. x \<le> y)"
begin

lemma push_all:
  assumes "invar q"
  shows "invar (fold push xs q) \<and> elems (fold push xs q) = mset xs + elems q"
  using assms by (induction xs arbitrary: q) (auto simp: invar_push elems_push)

lemma pop_least: "invar q \<Longrightarrow> pop q = Some (x, q') \<Longrightarrow> y \<in># elems q \<Longrightarrow> x \<le> y"
  using pop_Some [of q x q'] by auto

lemma pop_size: "invar q \<Longrightarrow> pop q = Some (x, q') \<Longrightarrow> size (elems q') < size (elems q)"
  using pop_Some [of q x q'] by auto

end

interpretation bheap: priority_queue "[]" heap_push heap_pop mset sorted
proof
  fix q :: "'a::linorder list" and x q'
  assume q: "sorted q"
  show "heap_pop q = None \<longleftrightarrow> mset q = {#}" by (cases q) auto
  assume "heap_pop q = Some (x, q')"
  with q show "sorted q' \<and> mset q = add_mset x (mset q') \<and> (\<forall>y\<in>#mset q'. x \<le> y)"
    by (cases q) auto
qed (simp_all add: heap_push_def sorted_insort)

lemma heap_push_simps [simp]:
  "set (heap_push x h) = insert x (set h)"
  "length (heap_push x h) = Suc (length h)"
  "sorted (heap_push x h) = sorted h"
  by (simp_all add: heap_push_def set_insort_key sorted_insort)

lemma heap_push_all_simps [simp]:
  "set (heap_push_all xs h) = set xs \<union> set h"
  "length (heap_push_all xs h) = length xs + length h"
  "sorted (heap_push_all xs h) = sorted h"
  unfolding heap_push_all_def by (induction xs arbitrary: h) auto

end
