(* ===== verification/Planner.thy ===== *)
theory Planner
  imports BTree Bitmap BinaryHeap
begin

text \<open>
  \<open>strategy/rs/planner.rs\<close>: the emit planner. A priority queue of entries ordered by allocation
  count, then by a seeded hash, then by index, decides which shard to send to a peer next. The
  queue is invalidated lazily: entries whose count disagrees with the allocation map are dropped
  when they are popped. The model keeps the queue, the two counter maps and the per-peer state
  exactly as the source does; the invariant \<open>planner_inv\<close> says that every shard keeps a live entry,
  and \<open>allocate\<close> is shown to return the least eligible shard of an exhaustive scan.
\<close>

subsection \<open>Data\<close>

definition FIBONACCI :: u64 where
  "FIBONACCI = 0x9E3779B97F4A7C15"

datatype PlannerMode = ModeOrigin | ModeRelay u32

datatype EmitEntry = EmitEntry (ee_allocation: u32) (ee_fib: u32) (ee_idx: u32)

text \<open>\<open>EmitEntry::cmp\<close> compares the allocation, then the hash, then the index.\<close>

definition EmitEntry_cmp :: "EmitEntry \<Rightarrow> EmitEntry \<Rightarrow> Ordering" where
  "EmitEntry_cmp x y =
     cmp_then (cmp_then (ord_cmp (ee_allocation x) (ee_allocation y)) (ord_cmp (ee_fib x) (ee_fib y)))
       (ord_cmp (ee_idx x) (ee_idx y))"

definition EmitEntry_partial_cmp :: "EmitEntry \<Rightarrow> EmitEntry \<Rightarrow> Ordering option" where
  "EmitEntry_partial_cmp x y = Some (EmitEntry_cmp x y)"

lemma EmitEntry_cmp_lex:
  "EmitEntry_cmp x y = ord_cmp (ee_allocation x, ee_fib x, ee_idx x) (ee_allocation y, ee_fib y, ee_idx y)"
  unfolding EmitEntry_cmp_def cmp_then_assoc by (simp only: cmp_then_lex)

instantiation EmitEntry :: linorder
begin

definition less_eq_EmitEntry :: "EmitEntry \<Rightarrow> EmitEntry \<Rightarrow> bool" where
  "less_eq_EmitEntry x y \<longleftrightarrow> EmitEntry_partial_cmp x y \<noteq> Some Greater"

definition less_EmitEntry :: "EmitEntry \<Rightarrow> EmitEntry \<Rightarrow> bool" where
  "less_EmitEntry x y \<longleftrightarrow> EmitEntry_partial_cmp x y = Some Less"

instance
proof
  fix x y z :: EmitEntry
  note defs = less_EmitEntry_def less_eq_EmitEntry_def EmitEntry_partial_cmp_def EmitEntry_cmp_lex ord_cmp_iff option.inject
  show "x < y \<longleftrightarrow> x \<le> y \<and> \<not> y \<le> x" unfolding defs by (rule less_le_not_le)
  show "x \<le> x" unfolding defs by simp
  show "x \<le> y \<Longrightarrow> y \<le> z \<Longrightarrow> x \<le> z" unfolding defs by (rule order_trans)
  show "x \<le> y \<Longrightarrow> y \<le> x \<Longrightarrow> x = y" unfolding defs by (cases x; cases y) (auto dest: antisym)
  show "x \<le> y \<or> y \<le> x" unfolding defs by (rule linear)
qed

end

lemma less_eq_EmitEntry_iff:
  "x \<le> y \<longleftrightarrow> (ee_allocation x, ee_fib x, ee_idx x) \<le> (ee_allocation y, ee_fib y, ee_idx y)"
  by (simp only: less_eq_EmitEntry_def EmitEntry_partial_cmp_def EmitEntry_cmp_lex ord_cmp_iff option.inject not_less simp_thms)

record PeerState =
  ps_in_flight :: "u32 btree_set"
  ps_havelist :: "BitMap option"

definition PeerState_default :: PeerState where
  "PeerState_default = \<lparr>ps_in_flight = bt_empty, ps_havelist = None\<rparr>"

record EmitPlanner =
  pl_mode :: PlannerMode
  pl_num_shards :: u32
  pl_seed :: u64
  pl_heap :: "EmitEntry list"
  pl_allocation :: "(u32, u32) btree_map"
  pl_sent_count :: "(u32, u32) btree_map"
  pl_peers :: "(PeerId, PeerState) btree_map"

subsection \<open>Operations\<close>

definition fib_priority :: "u64 \<Rightarrow> u32 \<Rightarrow> u32" where
  "fib_priority seed idx = ucast (drop_bit 32 ((seed XOR ucast idx) * FIBONACCI))"

definition shard_range :: "u32 \<Rightarrow> u32 list" where
  "shard_range n = map word_of_nat [0..<unat n]"

definition EmitPlanner_new :: "u32 \<Rightarrow> u64 \<Rightarrow> PlannerMode \<Rightarrow> EmitPlanner" where
  "EmitPlanner_new num_shards seed mode =
     \<lparr>pl_mode = mode, pl_num_shards = num_shards, pl_seed = seed,
      pl_heap = fold (\<lambda>idx h. heap_push (EmitEntry 0 (fib_priority seed idx) idx) h)
        (shard_range num_shards) [],
      pl_allocation = bt_empty, pl_sent_count = bt_empty, pl_peers = bt_empty\<rparr>"

definition planner_cap :: "PlannerMode \<Rightarrow> u32 option" where
  "planner_cap mode = (case mode of ModeOrigin \<Rightarrow> None | ModeRelay fm \<Rightarrow> Some fm)"

text \<open>
  The drain loop of \<open>allocate\<close>: pops entries, drops stale ones, sets skipped ones aside, and stops
  at the first candidate. The result is the candidate, the rest of the heap and the skipped
  entries.
\<close>

function alloc_loop ::
  "(u32, u32) btree_map \<Rightarrow> u32 option \<Rightarrow> BitMap option \<Rightarrow> u32 btree_set \<Rightarrow>
   EmitEntry list \<Rightarrow> EmitEntry list \<Rightarrow> EmitEntry option \<times> EmitEntry list \<times> EmitEntry list" where
  "alloc_loop allocation cap havelist in_flight heap skipped =
     (case heap_pop heap of
        None \<Rightarrow> (None, [], skipped)
      | Some (entry, heap') \<Rightarrow>
          if ee_allocation entry \<noteq> bt_get_or 0 allocation (ee_idx entry)
          then alloc_loop allocation cap havelist in_flight heap' skipped
          else if (case cap of None \<Rightarrow> False | Some c \<Rightarrow> c \<le> ee_allocation entry)
          then alloc_loop allocation cap havelist in_flight heap' (skipped @ [entry])
          else if (case havelist of None \<Rightarrow> False | Some b \<Rightarrow> BitMap_get b (ee_idx entry))
          then alloc_loop allocation cap havelist in_flight heap' (skipped @ [entry])
          else if bt_contains (ee_idx entry) in_flight
          then alloc_loop allocation cap havelist in_flight heap' (skipped @ [entry])
          else (Some entry, heap', skipped))"
  by pat_completeness auto
termination
proof (relation "measure (\<lambda>(_, _, _, _, heap, _). length heap)", goal_cases)
  case (2 _ _ _ _ heap)
  then show ?case by (cases heap) auto
next
  case (3 _ _ _ _ heap)
  then show ?case by (cases heap) auto
next
  case (4 _ _ _ _ heap)
  then show ?case by (cases heap) auto
next
  case (5 _ _ _ _ heap)
  then show ?case by (cases heap) auto
qed simp

declare alloc_loop.simps [simp del]

definition EmitPlanner_allocate :: "EmitPlanner \<Rightarrow> PeerId \<Rightarrow> EmitPlanner \<times> u32 option" where
  "EmitPlanner_allocate p peer =
     (let peers = bt_entry PeerState_default peer id (pl_peers p);
          peer_state = bt_get_or PeerState_default peers peer;
          (chosen, heap, skipped) = alloc_loop (pl_allocation p) (planner_cap (pl_mode p))
            (ps_havelist peer_state) (ps_in_flight peer_state) (pl_heap p) [];
          heap = heap_push_all skipped heap
      in case chosen of
        Some e \<Rightarrow>
          (p\<lparr>pl_allocation := bt_entry 0 (ee_idx e) (\<lambda>c. c + 1) (pl_allocation p),
             pl_heap := heap_push (EmitEntry (ee_allocation e + 1) (ee_fib e) (ee_idx e)) heap,
             pl_peers := bt_entry PeerState_default peer
               (\<lambda>s. s\<lparr>ps_in_flight := bs_insert (ee_idx e) (ps_in_flight s)\<rparr>) peers\<rparr>,
           Some (ee_idx e))
      | None \<Rightarrow> (p\<lparr>pl_heap := heap, pl_peers := peers\<rparr>, None))"

definition EmitPlanner_record_sent :: "EmitPlanner \<Rightarrow> PeerId \<Rightarrow> u32 \<Rightarrow> EmitPlanner" where
  "EmitPlanner_record_sent p peer idx =
     p\<lparr>pl_peers := bt_entry PeerState_default peer (\<lambda>s.
         let b = (case ps_havelist s of None \<Rightarrow> BitMap_with_capacity (pl_num_shards p) | Some b \<Rightarrow> b);
             b' = (case BitMap_set b idx of Inl _ \<Rightarrow> b | Inr b' \<Rightarrow> b')
         in s\<lparr>ps_in_flight := bt_remove idx (ps_in_flight s), ps_havelist := Some b'\<rparr>) (pl_peers p),
       pl_sent_count := bt_entry 0 idx (\<lambda>c. c + 1) (pl_sent_count p)\<rparr>"

definition EmitPlanner_cancel_in_flight :: "EmitPlanner \<Rightarrow> PeerId \<Rightarrow> u32 \<Rightarrow> EmitPlanner" where
  "EmitPlanner_cancel_in_flight p peer idx =
     p\<lparr>pl_peers := bt_entry PeerState_default peer
         (\<lambda>s. s\<lparr>ps_in_flight := bt_remove idx (ps_in_flight s)\<rparr>) (pl_peers p)\<rparr>"

definition EmitPlanner_refund_allocation :: "EmitPlanner \<Rightarrow> u32 \<Rightarrow> EmitPlanner" where
  "EmitPlanner_refund_allocation p idx =
     (case bt_get (pl_allocation p) idx of
        None \<Rightarrow> p
      | Some cnt \<Rightarrow>
          if cnt > 0
          then (let new_alloc = cnt - 1 in
            p\<lparr>pl_allocation := (if new_alloc = 0 then bt_remove idx (pl_allocation p)
                else bt_insert idx new_alloc (pl_allocation p)),
              pl_heap := heap_push (EmitEntry new_alloc (fib_priority (pl_seed p) idx) idx) (pl_heap p)\<rparr>)
          else p)"

definition EmitPlanner_remove_peer :: "EmitPlanner \<Rightarrow> PeerId \<Rightarrow> EmitPlanner" where
  "EmitPlanner_remove_peer p peer =
     (case bt_get (pl_peers p) peer of
        None \<Rightarrow> p
      | Some st \<Rightarrow>
          fold (\<lambda>idx q. EmitPlanner_refund_allocation q idx) (bt_keys (ps_in_flight st))
            (p\<lparr>pl_peers := bt_remove peer (pl_peers p)\<rparr>))"

definition EmitPlanner_set_peer_havelist :: "EmitPlanner \<Rightarrow> PeerId \<Rightarrow> BitMap \<Rightarrow> EmitPlanner" where
  "EmitPlanner_set_peer_havelist p peer b =
     p\<lparr>pl_peers := bt_entry PeerState_default peer (\<lambda>s. s\<lparr>ps_havelist := Some b\<rparr>) (pl_peers p)\<rparr>"

definition EmitPlanner_peer_in_flight :: "EmitPlanner \<Rightarrow> PeerId \<Rightarrow> u32 list" where
  "EmitPlanner_peer_in_flight p peer =
     (case bt_get (pl_peers p) peer of None \<Rightarrow> [] | Some s \<Rightarrow> bt_keys (ps_in_flight s))"

definition EmitPlanner_peer_havelist :: "EmitPlanner \<Rightarrow> PeerId \<Rightarrow> BitMap option" where
  "EmitPlanner_peer_havelist p peer = Option.bind (bt_get (pl_peers p) peer) ps_havelist"

definition EmitPlanner_allocation_count :: "EmitPlanner \<Rightarrow> u32 \<Rightarrow> u32" where
  "EmitPlanner_allocation_count p idx = bt_get_or 0 (pl_allocation p) idx"

definition EmitPlanner_sent_count :: "EmitPlanner \<Rightarrow> u32 \<Rightarrow> u32" where
  "EmitPlanner_sent_count p idx = bt_get_or 0 (pl_sent_count p) idx"

subsection \<open>The drain loop in closed form\<close>

definition stale :: "(u32, u32) btree_map \<Rightarrow> EmitEntry \<Rightarrow> bool" where
  "stale allocation e \<longleftrightarrow> ee_allocation e \<noteq> bt_get_or 0 allocation (ee_idx e)"

definition open_to :: "u32 option \<Rightarrow> BitMap option \<Rightarrow> u32 btree_set \<Rightarrow> u32 \<Rightarrow> u32 \<Rightarrow> bool" where
  "open_to cap havelist in_flight cnt idx \<longleftrightarrow>
     (\<forall>c. cap = Some c \<longrightarrow> cnt < c) \<and> (\<forall>b. havelist = Some b \<longrightarrow> \<not> BitMap_get b idx) \<and>
     idx \<notin> bs_elems in_flight"

definition candidate ::
  "(u32, u32) btree_map \<Rightarrow> u32 option \<Rightarrow> BitMap option \<Rightarrow> u32 btree_set \<Rightarrow> EmitEntry \<Rightarrow> bool" where
  "candidate allocation cap havelist in_flight e \<longleftrightarrow>
     \<not> stale allocation e \<and> open_to cap havelist in_flight (ee_allocation e) (ee_idx e)"

lemma alloc_loop_Nil: "alloc_loop a c h f [] sk = (None, [], sk)"
  by (subst alloc_loop.simps) simp

lemma alloc_loop_Cons:
  "alloc_loop a c h f (e # heap) sk =
     (if candidate a c h f e then (Some e, heap, sk)
      else alloc_loop a c h f heap (if stale a e then sk else sk @ [e]))"
  by (subst alloc_loop.simps)
    (auto simp: candidate_def stale_def open_to_def bt_contains_bs_elems not_less not_le
      simp del: bt_contains_iff split: option.split)

lemma alloc_loop_eq:
  "alloc_loop a c h f heap sk =
     (find (candidate a c h f) heap,
      tl (dropWhile (\<lambda>e. \<not> candidate a c h f e) heap),
      sk @ filter (\<lambda>e. \<not> stale a e) (takeWhile (\<lambda>e. \<not> candidate a c h f e) heap))"
  by (induction heap arbitrary: sk) (auto simp: alloc_loop_Nil alloc_loop_Cons)

subsection \<open>The invariant\<close>

text \<open>The entry of shard \<open>idx\<close> that agrees with the allocation map.\<close>

definition live_entry :: "EmitPlanner \<Rightarrow> u32 \<Rightarrow> EmitEntry" where
  "live_entry p idx = EmitEntry (EmitPlanner_allocation_count p idx) (fib_priority (pl_seed p) idx) idx"

definition heap_inv :: "EmitPlanner \<Rightarrow> bool" where
  "heap_inv p \<longleftrightarrow> sorted (pl_heap p) \<and>
     (\<forall>e\<in>set (pl_heap p). ee_idx e < pl_num_shards p \<and> ee_fib e = fib_priority (pl_seed p) (ee_idx e)) \<and>
     (\<forall>idx < pl_num_shards p. live_entry p idx \<in> set (pl_heap p))"

definition cap_inv :: "EmitPlanner \<Rightarrow> bool" where
  "cap_inv p \<longleftrightarrow> (\<forall>c. planner_cap (pl_mode p) = Some c \<longrightarrow> (\<forall>idx. EmitPlanner_allocation_count p idx \<le> c))"

definition peers_inv :: "EmitPlanner \<Rightarrow> bool" where
  "peers_inv p \<longleftrightarrow> (\<forall>peer s. bt_get (pl_peers p) peer = Some s \<longrightarrow>
     (\<forall>idx\<in>bs_elems (ps_in_flight s). idx < pl_num_shards p))"

definition alloc_inv :: "EmitPlanner \<Rightarrow> bool" where
  "alloc_inv p \<longleftrightarrow> (\<forall>idx. bt_get (pl_allocation p) idx \<noteq> None \<longrightarrow> idx < pl_num_shards p)"

definition planner_inv :: "EmitPlanner \<Rightarrow> bool" where
  "planner_inv p \<longleftrightarrow> heap_inv p \<and> cap_inv p \<and> peers_inv p \<and> alloc_inv p"

lemmas planner_inv_defs = planner_inv_def heap_inv_def cap_inv_def peers_inv_def alloc_inv_def

definition peer_state :: "EmitPlanner \<Rightarrow> PeerId \<Rightarrow> PeerState" where
  "peer_state p peer = bt_get_or PeerState_default (pl_peers p) peer"

text \<open>The shards \<open>allocate\<close> may hand out to \<open>peer\<close>, and the exhaustive-scan reference.\<close>

definition eligible :: "EmitPlanner \<Rightarrow> PeerId \<Rightarrow> u32 \<Rightarrow> bool" where
  "eligible p peer idx \<longleftrightarrow> idx < pl_num_shards p \<and>
     open_to (planner_cap (pl_mode p)) (ps_havelist (peer_state p peer)) (ps_in_flight (peer_state p peer))
       (EmitPlanner_allocation_count p idx) idx"

definition allocate_ref :: "EmitPlanner \<Rightarrow> PeerId \<Rightarrow> u32 option" where
  "allocate_ref p peer =
     (case sort (map (live_entry p) (filter (eligible p peer) (shard_range (pl_num_shards p)))) of
        [] \<Rightarrow> None | e # _ \<Rightarrow> Some (ee_idx e))"

lemma set_shard_range [simp]: "set (shard_range n) = {..<n}"
proof -
  have "idx \<in> word_of_nat ` {0..<unat n}" if "idx < n" for idx
    using that by (intro image_eqI [of _ _ "unat idx"]) (auto simp: word_less_nat_alt)
  moreover have "word_of_nat i < n" if "i < unat n" for i
    using that unat_u32_bound [of n] by (simp add: word_less_nat_alt unat_of_nat)
  ultimately show ?thesis by (auto simp: shard_range_def)
qed

lemma live_entry_simps [simp]:
  "ee_idx (live_entry p idx) = idx"
  "ee_allocation (live_entry p idx) = EmitPlanner_allocation_count p idx"
  "ee_fib (live_entry p idx) = fib_priority (pl_seed p) idx"
  by (simp_all add: live_entry_def)

lemma live_entryI:
  assumes "heap_inv p" "e \<in> set (pl_heap p)" "\<not> stale (pl_allocation p) e"
  shows "e = live_entry p (ee_idx e)"
  using assms by (cases e) (auto simp: heap_inv_def stale_def live_entry_def EmitPlanner_allocation_count_def)

lemma not_stale_live [simp]: "\<not> stale (pl_allocation p) (live_entry p idx)"
  by (simp add: stale_def EmitPlanner_allocation_count_def)

subsection \<open>Allocation\<close>

definition planner_candidate :: "EmitPlanner \<Rightarrow> PeerId \<Rightarrow> EmitEntry \<Rightarrow> bool" where
  "planner_candidate p peer = candidate (pl_allocation p) (planner_cap (pl_mode p))
     (ps_havelist (peer_state p peer)) (ps_in_flight (peer_state p peer))"

definition drained :: "EmitPlanner \<Rightarrow> PeerId \<Rightarrow> EmitEntry list" where
  "drained p peer = heap_push_all
     (filter (\<lambda>e. \<not> stale (pl_allocation p) e)
       (takeWhile (\<lambda>e. \<not> planner_candidate p peer e) (pl_heap p)))
     (tl (dropWhile (\<lambda>e. \<not> planner_candidate p peer e) (pl_heap p)))"

lemma allocate_eq:
  "EmitPlanner_allocate p peer =
     (let peers = bt_entry PeerState_default peer id (pl_peers p) in
      case find (planner_candidate p peer) (pl_heap p) of
        None \<Rightarrow> (p\<lparr>pl_heap := drained p peer, pl_peers := peers\<rparr>, None)
      | Some e \<Rightarrow>
          (p\<lparr>pl_allocation := bt_entry 0 (ee_idx e) (\<lambda>c. c + 1) (pl_allocation p),
             pl_heap := heap_push (EmitEntry (ee_allocation e + 1) (ee_fib e) (ee_idx e)) (drained p peer),
             pl_peers := bt_entry PeerState_default peer
               (\<lambda>s. s\<lparr>ps_in_flight := bs_insert (ee_idx e) (ps_in_flight s)\<rparr>) peers\<rparr>,
           Some (ee_idx e)))"
  by (simp add: EmitPlanner_allocate_def alloc_loop_eq Let_def peer_state_def drained_def
      planner_candidate_def split: option.split)

lemma sorted_tl_dropWhile: "sorted xs \<Longrightarrow> sorted (tl (dropWhile P xs))"
  by (metis sorted_tl sorted_dropWhile)

lemma set_tl_dropWhile: "set (tl (dropWhile P xs)) \<subseteq> set xs"
  by (metis list.set_sel(2) set_dropWhileD subset_iff tl_Nil)

lemma find_hd_dropWhile:
  "dropWhile (\<lambda>e. \<not> P e) xs \<noteq> [] \<Longrightarrow> find P xs = Some (hd (dropWhile (\<lambda>e. \<not> P e) xs))"
  by (induction xs) auto

lemma drained_props:
  assumes "heap_inv p"
  shows "sorted (drained p peer)" "set (drained p peer) \<subseteq> set (pl_heap p)"
    "idx < pl_num_shards p \<Longrightarrow> find (planner_candidate p peer) (pl_heap p) \<noteq> Some (live_entry p idx) \<Longrightarrow>
      live_entry p idx \<in> set (drained p peer)"
proof -
  let ?P = "\<lambda>e. \<not> planner_candidate p peer e" and ?h = "pl_heap p"
  show "sorted (drained p peer)"
    using assms by (simp add: drained_def heap_inv_def sorted_tl_dropWhile)
  show "set (drained p peer) \<subseteq> set (pl_heap p)"
    using set_tl_dropWhile [of ?P ?h] by (auto simp: drained_def dest: set_takeWhileD)
  assume idx: "idx < pl_num_shards p" and ne: "find (planner_candidate p peer) ?h \<noteq> Some (live_entry p idx)"
  have "live_entry p idx \<in> set (takeWhile ?P ?h @ dropWhile ?P ?h)"
    using assms idx by (simp add: heap_inv_def)
  then consider "live_entry p idx \<in> set (takeWhile ?P ?h)" | "live_entry p idx \<in> set (dropWhile ?P ?h)"
    unfolding set_append by blast
  then show "live_entry p idx \<in> set (drained p peer)"
  proof cases
    case 2
    then have "dropWhile ?P ?h \<noteq> []" by (metis emptyE list.set(1))
    moreover from this have "find (planner_candidate p peer) ?h = Some (hd (dropWhile ?P ?h))"
      by (rule find_hd_dropWhile)
    ultimately show ?thesis
      using 2 ne by (cases "dropWhile ?P ?h") (auto simp: drained_def)
  qed (simp add: drained_def)
qed

lemma find_least:
  assumes "sorted xs" "find P xs = Some e"
  shows "e \<in> set xs" "P e" "\<And>y. y \<in> set xs \<Longrightarrow> P y \<Longrightarrow> e \<le> y"
  using assms by (induction xs) (auto split: if_splits)

lemma candidate_live [simp]:
  "planner_candidate p peer (live_entry p idx) \<longleftrightarrow> open_to (planner_cap (pl_mode p))
     (ps_havelist (peer_state p peer)) (ps_in_flight (peer_state p peer)) (EmitPlanner_allocation_count p idx) idx"
  by (simp add: planner_candidate_def candidate_def)

text \<open>What the drain loop finds: the live entry of the least eligible shard.\<close>

lemma find_candidate:
  assumes inv: "heap_inv p" and f: "find (planner_candidate p peer) (pl_heap p) = Some e"
  shows "e = live_entry p (ee_idx e)" "eligible p peer (ee_idx e)"
    "\<And>idx. eligible p peer idx \<Longrightarrow> e \<le> live_entry p idx"
proof -
  have srt: "sorted (pl_heap p)" using inv by (simp add: heap_inv_def)
  note e = find_least [OF srt f]
  show live: "e = live_entry p (ee_idx e)"
    using e(1,2) inv by (intro live_entryI) (auto simp: planner_candidate_def candidate_def)
  have "planner_candidate p peer (live_entry p (ee_idx e))" using e(2) live by simp
  then show "eligible p peer (ee_idx e)" using e(1) inv by (simp add: eligible_def heap_inv_def)
  show "e \<le> live_entry p idx" if "eligible p peer idx" for idx
    using that inv by (intro e(3)) (auto simp: eligible_def heap_inv_def)
qed

lemma find_candidate_None:
  assumes "heap_inv p"
  shows "find (planner_candidate p peer) (pl_heap p) = None \<longleftrightarrow> (\<forall>idx. \<not> eligible p peer idx)"
proof
  assume "find (planner_candidate p peer) (pl_heap p) = None"
  then have "\<not> planner_candidate p peer (live_entry p idx)" if "idx < pl_num_shards p" for idx
    using that assms by (auto simp: find_None_iff heap_inv_def)
  then show "\<forall>idx. \<not> eligible p peer idx" by (auto simp: eligible_def)
next
  assume "\<forall>idx. \<not> eligible p peer idx"
  then show "find (planner_candidate p peer) (pl_heap p) = None"
    using find_candidate(2) [OF assms] by (cases "find (planner_candidate p peer) (pl_heap p)") auto
qed

lemma sort_least:
  assumes "e \<in> set xs" "\<And>y. y \<in> set xs \<Longrightarrow> e \<le> y"
  shows "\<exists>ys. sort xs = e # ys"
proof (cases "sort xs")
  case Nil
  then have "set xs = {}" by (metis list.set(1) set_sort)
  with assms(1) show ?thesis by simp
next
  case (Cons x ys)
  have "set xs = insert x (set ys)" by (metis Cons list.simps(15) set_sort)
  moreover have "\<forall>y\<in>set ys. x \<le> y" using Cons sorted_sort [of xs] by simp
  ultimately have "x = e" using assms by (auto intro: antisym)
  with Cons show ?thesis by simp
qed

lemma allocate_ref_correct:
  assumes "heap_inv p"
  shows "snd (EmitPlanner_allocate p peer) = allocate_ref p peer"
proof (cases "find (planner_candidate p peer) (pl_heap p)")
  case None
  then have "filter (eligible p peer) (shard_range (pl_num_shards p)) = []"
    using find_candidate_None [OF assms] by (simp add: filter_empty_conv)
  with None show ?thesis by (simp add: allocate_eq allocate_ref_def Let_def)
next
  case (Some e)
  note e = find_candidate [OF assms Some]
  let ?xs = "map (live_entry p) (filter (eligible p peer) (shard_range (pl_num_shards p)))"
  have "e \<in> live_entry p ` {idx. eligible p peer idx}" using e(1,2) by blast
  then have "e \<in> set ?xs" by (auto simp: eligible_def)
  moreover have "e \<le> y" if "y \<in> set ?xs" for y using that e(3) by auto
  ultimately obtain ys where "sort ?xs = e # ys" using sort_least by metis
  with Some show ?thesis by (simp add: allocate_eq allocate_ref_def Let_def)
qed

text \<open>The state after \<open>allocate\<close>, component by component.\<close>

lemma allocate_frame [simp]:
  "pl_mode (fst (EmitPlanner_allocate p peer)) = pl_mode p"
  "pl_num_shards (fst (EmitPlanner_allocate p peer)) = pl_num_shards p"
  "pl_seed (fst (EmitPlanner_allocate p peer)) = pl_seed p"
  "pl_sent_count (fst (EmitPlanner_allocate p peer)) = pl_sent_count p"
  by (simp_all add: allocate_eq Let_def split: option.split)

lemma allocate_None:
  assumes "EmitPlanner_allocate p peer = (p', None)"
  shows "p' = p\<lparr>pl_heap := drained p peer, pl_peers := bt_entry PeerState_default peer id (pl_peers p)\<rparr>"
    "find (planner_candidate p peer) (pl_heap p) = None"
  using assms by (auto simp: allocate_eq Let_def split: option.splits)

lemma allocate_Some:
  assumes "heap_inv p" "EmitPlanner_allocate p peer = (p', Some idx)"
  shows "eligible p peer idx"
    "pl_allocation p' = bt_entry 0 idx (\<lambda>c. c + 1) (pl_allocation p)"
    "pl_peers p' = bt_entry PeerState_default peer
       (\<lambda>s. s\<lparr>ps_in_flight := bs_insert idx (ps_in_flight s)\<rparr>) (pl_peers p)"
    "pl_heap p' = heap_push (live_entry p' idx) (drained p peer)"
    "find (planner_candidate p peer) (pl_heap p) = Some (live_entry p idx)"
proof -
  obtain e where e: "find (planner_candidate p peer) (pl_heap p) = Some e" "idx = ee_idx e"
    using assms(2) by (auto simp: allocate_eq Let_def split: option.splits)
  note c = find_candidate [OF assms(1) e(1)]
  show "eligible p peer idx" using c(2) e(2) by simp
  have p': "p' = fst (EmitPlanner_allocate p peer)" using assms(2) by simp
  show "pl_allocation p' = bt_entry 0 idx (\<lambda>c. c + 1) (pl_allocation p)"
    by (simp add: p' allocate_eq Let_def e)
  show "pl_peers p' = bt_entry PeerState_default peer
       (\<lambda>s. s\<lparr>ps_in_flight := bs_insert idx (ps_in_flight s)\<rparr>) (pl_peers p)"
    by (rule bt_eqI) (simp add: p' allocate_eq Let_def e)
  have "ee_allocation e = EmitPlanner_allocation_count p idx" "ee_fib e = fib_priority (pl_seed p) idx"
    using c(1) e(2) by (metis live_entry_simps(2), metis live_entry_simps(3))
  then show "pl_heap p' = heap_push (live_entry p' idx) (drained p peer)"
    by (simp add: p' allocate_eq Let_def e live_entry_def EmitPlanner_allocation_count_def)
  show "find (planner_candidate p peer) (pl_heap p) = Some (live_entry p idx)"
    using e c(1) by simp
qed

subsection \<open>Every operation keeps the invariant\<close>

lemma shard_range_bound: "heap_inv p \<Longrightarrow> idx < pl_num_shards p \<Longrightarrow> live_entry p idx \<in> set (pl_heap p)"
  by (simp add: heap_inv_def)

lemma fold_heap_push: "fold (\<lambda>x h. heap_push (f x) h) xs h = heap_push_all (map f xs) h"
  by (simp add: heap_push_all_def fold_map comp_def)

lemma EmitPlanner_new_inv: "planner_inv (EmitPlanner_new n seed mode)"
  by (auto simp: planner_inv_defs EmitPlanner_new_def fold_heap_push live_entry_def
      EmitPlanner_allocation_count_def)

text \<open>The heap and the budget do not depend on the peers.\<close>

lemma heap_cap_inv_peers [simp]:
  "heap_inv (p\<lparr>pl_peers := ps\<rparr>) = heap_inv p"
  "cap_inv (p\<lparr>pl_peers := ps\<rparr>) = cap_inv p"
  "alloc_inv (p\<lparr>pl_peers := ps\<rparr>) = alloc_inv p"
  "heap_inv (p\<lparr>pl_peers := ps, pl_sent_count := sc\<rparr>) = heap_inv p"
  "cap_inv (p\<lparr>pl_peers := ps, pl_sent_count := sc\<rparr>) = cap_inv p"
  "alloc_inv (p\<lparr>pl_peers := ps, pl_sent_count := sc\<rparr>) = alloc_inv p"
  by (simp_all add: heap_inv_def cap_inv_def alloc_inv_def live_entry_def EmitPlanner_allocation_count_def)

lemma peers_inv_entry:
  assumes "peers_inv p"
    "\<And>s. \<forall>idx\<in>bs_elems (ps_in_flight s). idx < pl_num_shards p \<Longrightarrow>
       \<forall>idx\<in>bs_elems (ps_in_flight (f s)). idx < pl_num_shards p"
    "pl_num_shards p' = pl_num_shards p" "pl_peers p' = bt_entry PeerState_default peer f (pl_peers p)"
  shows "peers_inv p'"
proof -
  have "\<forall>idx\<in>bs_elems (ps_in_flight (bt_get_or PeerState_default (pl_peers p) peer)). idx < pl_num_shards p"
    using assms(1) by (auto simp: peers_inv_def bt_get_or_def PeerState_default_def split: option.split)
  from assms(2) [OF this] assms show ?thesis by (auto simp: peers_inv_def)
qed

lemma peers_inv_update:
  "peers_inv p \<Longrightarrow>
   (\<And>s. bs_elems (ps_in_flight (f s)) \<subseteq> bs_elems (ps_in_flight s)) \<Longrightarrow>
   peers_inv (p\<lparr>pl_peers := bt_entry PeerState_default peer f (pl_peers p)\<rparr>)"
  by (rule peers_inv_entry [where f = f and peer = peer]) (simp_all, blast)

lemma peers_inv_sent_count [simp]:
  "peers_inv (p\<lparr>pl_peers := ps, pl_sent_count := sc\<rparr>) = peers_inv (p\<lparr>pl_peers := ps\<rparr>)"
  by (simp add: peers_inv_def)

lemma allocate_inv:
  assumes "planner_inv p" shows "planner_inv (fst (EmitPlanner_allocate p peer))"
proof (cases "EmitPlanner_allocate p peer")
  case (Pair p' r)
  have inv: "heap_inv p" "cap_inv p" "peers_inv p" "alloc_inv p" using assms by (auto simp: planner_inv_def)
  note d = drained_props [OF inv(1), where peer = peer]
  show ?thesis
  proof (cases r)
    case None
    note p' = allocate_None [OF Pair [unfolded None]]
    have "heap_inv p'"
      using inv(1) d p'(2) by (auto simp: p'(1) heap_inv_def live_entry_def EmitPlanner_allocation_count_def)
    moreover have "peers_inv p'" by (rule peers_inv_entry [OF inv(3), where f = id]) (simp_all add: p'(1))
    ultimately show ?thesis
      using inv by (simp add: Pair planner_inv_def p'(1) cap_inv_def alloc_inv_def EmitPlanner_allocation_count_def)
  next
    case (Some idx)
    note p' = allocate_Some [OF inv(1) Pair [unfolded Some]]
    have fr: "pl_mode p' = pl_mode p" "pl_num_shards p' = pl_num_shards p" "pl_seed p' = pl_seed p"
      using allocate_frame [of p peer] by (simp_all add: Pair)
    have el: "idx < pl_num_shards p" "\<And>c. planner_cap (pl_mode p) = Some c \<Longrightarrow> EmitPlanner_allocation_count p idx < c"
      using p'(1) by (auto simp: eligible_def open_to_def)
    have cnt: "EmitPlanner_allocation_count p' i =
        (if i = idx then EmitPlanner_allocation_count p idx + 1 else EmitPlanner_allocation_count p i)" for i
      by (simp add: EmitPlanner_allocation_count_def p'(2))
    then have live: "i \<noteq> idx \<Longrightarrow> live_entry p' i = live_entry p i" for i
      by (simp add: live_entry_def fr)
    have "heap_inv p'"
      unfolding heap_inv_def fr p'(4)
    proof (intro conjI allI impI ballI)
      fix i assume i: "i < pl_num_shards p"
      have "live_entry p idx \<noteq> live_entry p i" if "i \<noteq> idx" using that by (metis live_entry_simps(1))
      then show "live_entry p' i \<in> set (heap_push (live_entry p' idx) (drained p peer))"
        using i d(3) live p'(5) by (cases "i = idx") auto
    qed (use d inv(1) el fr in \<open>auto simp: heap_inv_def\<close>)
    moreover have "cap_inv p'"
      using inv(2) el(2) by (auto simp: cap_inv_def cnt fr intro: inc_le)
    moreover have "peers_inv p'"
      by (rule peers_inv_entry [OF inv(3) _ fr(2) p'(3)]) (use el(1) in auto)
    moreover have "alloc_inv p'" using inv(4) el(1) by (auto simp: alloc_inv_def p'(2) fr)
    ultimately show ?thesis by (simp add: Pair planner_inv_def)
  qed
qed

lemma record_sent_inv: "planner_inv p \<Longrightarrow> planner_inv (EmitPlanner_record_sent p peer idx)"
  unfolding planner_inv_def EmitPlanner_record_sent_def
  by (auto simp: Let_def intro!: peers_inv_update)

lemma cancel_in_flight_inv: "planner_inv p \<Longrightarrow> planner_inv (EmitPlanner_cancel_in_flight p peer idx)"
  unfolding planner_inv_def EmitPlanner_cancel_in_flight_def
  by (auto intro!: peers_inv_update)

lemma set_peer_havelist_inv: "planner_inv p \<Longrightarrow> planner_inv (EmitPlanner_set_peer_havelist p peer b)"
  unfolding planner_inv_def EmitPlanner_set_peer_havelist_def
  by (auto intro!: peers_inv_update)

lemma refund_count:
  "EmitPlanner_allocation_count (EmitPlanner_refund_allocation p idx) i =
     (if i = idx \<and> EmitPlanner_allocation_count p idx > 0 then EmitPlanner_allocation_count p idx - 1
      else EmitPlanner_allocation_count p i)"
  by (auto simp: EmitPlanner_refund_allocation_def EmitPlanner_allocation_count_def bt_get_or_def Let_def
      split: option.split)

lemma refund_frame [simp]:
  "pl_mode (EmitPlanner_refund_allocation p idx) = pl_mode p"
  "pl_num_shards (EmitPlanner_refund_allocation p idx) = pl_num_shards p"
  "pl_seed (EmitPlanner_refund_allocation p idx) = pl_seed p"
  "pl_sent_count (EmitPlanner_refund_allocation p idx) = pl_sent_count p"
  "pl_peers (EmitPlanner_refund_allocation p idx) = pl_peers p"
  by (simp_all add: EmitPlanner_refund_allocation_def Let_def split: option.split)

lemma refund_heap:
  "pl_heap (EmitPlanner_refund_allocation p idx) =
     (if EmitPlanner_allocation_count p idx > 0
      then heap_push (live_entry (EmitPlanner_refund_allocation p idx) idx) (pl_heap p) else pl_heap p)"
  by (auto simp: live_entry_def refund_count)
    (auto simp: EmitPlanner_refund_allocation_def EmitPlanner_allocation_count_def bt_get_or_def Let_def
      split: option.split)

lemma refund_allocation_inv:
  assumes "planner_inv p" shows "planner_inv (EmitPlanner_refund_allocation p idx)"
proof (cases "EmitPlanner_allocation_count p idx > 0")
  case False
  then have "EmitPlanner_refund_allocation p idx = p"
    by (auto simp: EmitPlanner_refund_allocation_def EmitPlanner_allocation_count_def bt_get_or_def split: option.splits)
  with assms show ?thesis by simp
next
  case True
  let ?p = "EmitPlanner_refund_allocation p idx"
  have inv: "heap_inv p" "cap_inv p" "peers_inv p" "alloc_inv p" using assms by (auto simp: planner_inv_def)
  have idx: "idx < pl_num_shards p"
    using True inv(4) by (auto simp: alloc_inv_def EmitPlanner_allocation_count_def bt_get_or_def split: option.splits)
  have live: "i \<noteq> idx \<Longrightarrow> live_entry ?p i = live_entry p i" for i
    by (simp add: live_entry_def refund_count)
  have "heap_inv ?p"
    unfolding heap_inv_def refund_heap refund_frame
  proof (intro conjI allI impI ballI)
    fix i assume i: "i < pl_num_shards p"
    show "live_entry ?p i \<in> set (if EmitPlanner_allocation_count p idx > 0
        then heap_push (live_entry ?p idx) (pl_heap p) else pl_heap p)"
      using i inv(1) live True by (cases "i = idx") (auto simp: heap_inv_def)
  qed (use inv(1) idx in \<open>auto simp: heap_inv_def split: if_splits\<close>)
  moreover have "EmitPlanner_allocation_count p idx - 1 \<le> EmitPlanner_allocation_count p idx"
    using True by (auto simp: word_le_nat_alt word_less_nat_alt unat_sub_if_size)
  then have "cap_inv ?p"
    using inv(2) unfolding cap_inv_def refund_count refund_frame by (auto intro: order_trans)
  moreover have "alloc_inv ?p"
    using inv(4) idx by (auto simp: alloc_inv_def EmitPlanner_refund_allocation_def Let_def split: option.split)
  ultimately show ?thesis using inv(3) by (simp add: planner_inv_def peers_inv_def)
qed

lemma remove_peer_inv: "planner_inv p \<Longrightarrow> planner_inv (EmitPlanner_remove_peer p peer)"
proof -
  assume inv: "planner_inv p"
  have *: "planner_inv q \<Longrightarrow> planner_inv (fold (\<lambda>idx q. EmitPlanner_refund_allocation q idx) is q)" for "is" q
    by (induction "is" arbitrary: q) (auto intro: refund_allocation_inv)
  have "planner_inv (p\<lparr>pl_peers := bt_remove peer (pl_peers p)\<rparr>)"
    using inv by (auto simp: planner_inv_def peers_inv_def)
  then show ?thesis
    using inv * by (simp add: EmitPlanner_remove_peer_def split: option.split)
qed

subsection \<open>The forwarding budget\<close>

text \<open>The peers a shard is in flight to, and the share of its budget that is spent or reserved.\<close>

definition holders :: "EmitPlanner \<Rightarrow> u32 \<Rightarrow> PeerId set" where
  "holders p idx = {peer. idx \<in> bs_elems (ps_in_flight (peer_state p peer))}"

definition budget_used :: "EmitPlanner \<Rightarrow> u32 \<Rightarrow> nat" where
  "budget_used p idx = unat (EmitPlanner_sent_count p idx) + card (holders p idx)"

definition budget_inv :: "EmitPlanner \<Rightarrow> bool" where
  "budget_inv p \<longleftrightarrow> (\<forall>idx. budget_used p idx \<le> unat (EmitPlanner_allocation_count p idx))"

lemma finite_holders [simp]: "finite (holders p idx)"
proof (rule finite_subset)
  show "holders p idx \<subseteq> {peer. bt_get (pl_peers p) peer \<noteq> None}"
    by (auto simp: holders_def peer_state_def bt_get_or_def PeerState_default_def split: option.splits)
qed simp

lemma peer_state_simps [simp]:
  "peer_state (p\<lparr>pl_peers := bt_entry PeerState_default peer f (pl_peers p)\<rparr>) peer' =
     (if peer' = peer then f (peer_state p peer) else peer_state p peer')"
  "peer_state (p\<lparr>pl_peers := bt_remove peer (pl_peers p)\<rparr>) peer' =
     (if peer' = peer then PeerState_default else peer_state p peer')"
  by (simp_all add: peer_state_def)

lemma holders_cong: "pl_peers p = pl_peers q \<Longrightarrow> holders p idx = holders q idx"
  by (simp add: holders_def peer_state_def)

lemma holders_refund [simp]: "holders (EmitPlanner_refund_allocation p i) idx = holders p idx"
  by (rule holders_cong) simp

lemma holders_allocate:
  assumes "heap_inv p" "EmitPlanner_allocate p peer = (p', r)"
  shows "holders p' idx = (if r = Some idx then insert peer (holders p idx) else holders p idx)"
proof (cases r)
  case None
  then show ?thesis using allocate_None(1) [of p peer p'] assms
    by (auto simp: holders_def peer_state_def split: if_splits)
next
  case (Some i)
  note p' = allocate_Some [OF assms(1) assms(2) [unfolded Some]]
  show ?thesis by (auto simp: Some holders_def peer_state_def p'(3) split: if_splits)
qed

lemma holders_record_sent:
  "holders (EmitPlanner_record_sent p peer i) idx = (if idx = i then holders p idx - {peer} else holders p idx)"
proof -
  have "holders (EmitPlanner_record_sent p peer i) idx =
      holders (EmitPlanner_cancel_in_flight p peer i) idx"
    by (auto simp: holders_def EmitPlanner_record_sent_def EmitPlanner_cancel_in_flight_def peer_state_def Let_def)
  also have "\<dots> = (if idx = i then holders p idx - {peer} else holders p idx)"
    by (auto simp: holders_def EmitPlanner_cancel_in_flight_def split: if_splits)
  finally show ?thesis .
qed

lemma holders_cancel:
  "holders (EmitPlanner_cancel_in_flight p peer i) idx = (if idx = i then holders p idx - {peer} else holders p idx)"
  by (auto simp: holders_def EmitPlanner_cancel_in_flight_def split: if_splits)

lemma holders_set_havelist: "holders (EmitPlanner_set_peer_havelist p peer b) idx = holders p idx"
  by (auto simp: holders_def EmitPlanner_set_peer_havelist_def split: if_splits)

lemma fold_refund_frame:
  "pl_peers (fold (\<lambda>idx q. EmitPlanner_refund_allocation q idx) is q) = pl_peers q"
  "pl_sent_count (fold (\<lambda>idx q. EmitPlanner_refund_allocation q idx) is q) = pl_sent_count q"
  "pl_mode (fold (\<lambda>idx q. EmitPlanner_refund_allocation q idx) is q) = pl_mode q"
  "pl_num_shards (fold (\<lambda>idx q. EmitPlanner_refund_allocation q idx) is q) = pl_num_shards q"
  "pl_seed (fold (\<lambda>idx q. EmitPlanner_refund_allocation q idx) is q) = pl_seed q"
  by (induction "is" arbitrary: q) simp_all

lemma fold_refund_count:
  "distinct is \<Longrightarrow>
   EmitPlanner_allocation_count (fold (\<lambda>idx q. EmitPlanner_refund_allocation q idx) is q) i =
     (if i \<in> set is \<and> EmitPlanner_allocation_count q i > 0 then EmitPlanner_allocation_count q i - 1
      else EmitPlanner_allocation_count q i)"
  by (induction "is" arbitrary: q) (auto simp: refund_count)

lemma remove_peer_eq:
  "EmitPlanner_remove_peer p peer =
     fold (\<lambda>idx q. EmitPlanner_refund_allocation q idx) (bt_keys (ps_in_flight (peer_state p peer)))
       (p\<lparr>pl_peers := bt_remove peer (pl_peers p)\<rparr>)"
proof (cases "bt_get (pl_peers p) peer")
  case None
  then have "bt_remove peer (pl_peers p) = pl_peers p" by (intro bt_eqI) simp
  with None show ?thesis
    by (simp add: EmitPlanner_remove_peer_def peer_state_def bt_get_or_def PeerState_default_def)
qed (simp add: EmitPlanner_remove_peer_def peer_state_def bt_get_or_def)

lemma holders_remove_peer: "holders (EmitPlanner_remove_peer p peer) idx = holders p idx - {peer}"
proof -
  have "holders (EmitPlanner_remove_peer p peer) idx = holders (p\<lparr>pl_peers := bt_remove peer (pl_peers p)\<rparr>) idx"
    by (rule holders_cong) (simp add: remove_peer_eq fold_refund_frame)
  then show ?thesis by (auto simp: holders_def PeerState_default_def split: if_splits)
qed

lemma counts_frame:
  "EmitPlanner_allocation_count (EmitPlanner_record_sent p peer i) idx = EmitPlanner_allocation_count p idx"
  "EmitPlanner_allocation_count (EmitPlanner_cancel_in_flight p peer i) idx = EmitPlanner_allocation_count p idx"
  "EmitPlanner_allocation_count (EmitPlanner_set_peer_havelist p peer b) idx = EmitPlanner_allocation_count p idx"
  "EmitPlanner_sent_count (EmitPlanner_cancel_in_flight p peer i) idx = EmitPlanner_sent_count p idx"
  "EmitPlanner_sent_count (EmitPlanner_set_peer_havelist p peer b) idx = EmitPlanner_sent_count p idx"
  "EmitPlanner_sent_count (EmitPlanner_refund_allocation p i) idx = EmitPlanner_sent_count p idx"
  "EmitPlanner_sent_count (EmitPlanner_remove_peer p peer) idx = EmitPlanner_sent_count p idx"
  "EmitPlanner_sent_count (EmitPlanner_record_sent p peer i) idx =
     (if idx = i then EmitPlanner_sent_count p idx + 1 else EmitPlanner_sent_count p idx)"
  by (simp_all add: EmitPlanner_allocation_count_def EmitPlanner_sent_count_def EmitPlanner_record_sent_def
      EmitPlanner_cancel_in_flight_def EmitPlanner_set_peer_havelist_def remove_peer_eq fold_refund_frame)

lemma card_holder: "peer \<in> holders p idx \<Longrightarrow> 0 < card (holders p idx)"
  by (auto simp: card_gt_0_iff)

lemma unat_pred_u32: "0 < (x :: u32) \<Longrightarrow> unat (x - 1) = unat x - 1"
  by (simp add: unat_minus_one word_gt_0)

lemma unat_succ_u32: "(x :: u32) < y \<Longrightarrow> unat (x + 1) = unat x + 1"
  using unat_u32_bound [of y] by (simp add: unat_word_ariths word_less_nat_alt)

lemma budget_inv_allocate:
  assumes "planner_inv p" "budget_inv p" "planner_cap (pl_mode p) = Some c"
  shows "budget_inv (fst (EmitPlanner_allocate p peer))"
proof (cases "EmitPlanner_allocate p peer")
  case (Pair p' r)
  have h: "heap_inv p" using assms(1) by (simp add: planner_inv_def)
  note hold = holders_allocate [OF h Pair]
  have sent: "EmitPlanner_sent_count p' i = EmitPlanner_sent_count p i" for i
    using allocate_frame(4) [of p peer] by (simp add: EmitPlanner_sent_count_def Pair)
  show ?thesis
  proof (cases r)
    case None
    then show ?thesis using assms(2) hold sent allocate_None(1) [of p peer p'] Pair
      by (simp add: budget_inv_def budget_used_def EmitPlanner_allocation_count_def)
  next
    case (Some idx)
    note p' = allocate_Some [OF h Pair [unfolded Some]]
    have el: "EmitPlanner_allocation_count p idx < c" "peer \<notin> holders p idx"
      using p'(1) assms(3) by (auto simp: eligible_def open_to_def holders_def)
    have "unat (EmitPlanner_allocation_count p' i) =
        (if i = idx then unat (EmitPlanner_allocation_count p i) + 1 else unat (EmitPlanner_allocation_count p i))" for i
      using unat_succ_u32 [OF el(1)] by (simp add: EmitPlanner_allocation_count_def p'(2))
    then show ?thesis
      using assms(2) hold sent el(2) Some
      by (auto simp: Pair budget_inv_def budget_used_def)
  qed
qed

lemma budget_inv_record_sent:
  assumes "budget_inv p" "peer \<in> holders p idx"
  shows "budget_inv (EmitPlanner_record_sent p peer idx)"
proof -
  let ?s = "EmitPlanner_sent_count p idx"
  have c: "0 < card (holders p idx)" using assms(2) by (rule card_holder)
  have "unat ?s + card (holders p idx) \<le> unat (EmitPlanner_allocation_count p idx)"
    using assms(1) by (simp add: budget_inv_def budget_used_def)
  then have "?s < EmitPlanner_allocation_count p idx" using c by (simp add: word_less_nat_alt)
  then have "unat (?s + 1) = unat ?s + 1" by (rule unat_succ_u32)
  then show ?thesis
    using assms c unfolding budget_inv_def budget_used_def
    by (auto simp: counts_frame holders_record_sent)
qed

lemma budget_inv_cancel: "budget_inv p \<Longrightarrow> budget_inv (EmitPlanner_cancel_in_flight p peer idx)"
  unfolding budget_inv_def budget_used_def counts_frame holders_cancel
  by (auto intro: order_trans [rotated] card_mono simp: card_Diff_subset_Int)

lemma budget_inv_fail:
  assumes "budget_inv p" "peer \<in> holders p idx"
  shows "budget_inv (EmitPlanner_refund_allocation (EmitPlanner_cancel_in_flight p peer idx) idx)"
proof -
  let ?q = "EmitPlanner_cancel_in_flight p peer idx"
  have c: "0 < card (holders p idx)" using assms(2) by (rule card_holder)
  have le: "unat (EmitPlanner_sent_count p i) + card (holders p i) \<le> unat (EmitPlanner_allocation_count p i)" for i
    using assms(1) by (simp add: budget_inv_def budget_used_def)
  have pos: "0 < EmitPlanner_allocation_count p idx"
    using c le [of idx] by (simp add: word_less_nat_alt)
  have le1: "unat (EmitPlanner_sent_count p idx) + (card (holders p idx) - 1) \<le>
      unat (EmitPlanner_allocation_count p idx) - 1"
    using le [of idx] c by linarith
  show ?thesis
    unfolding budget_inv_def budget_used_def
    using le le1 pos assms(2)
    by (simp add: counts_frame refund_count holders_cancel unat_pred_u32)
qed

lemma budget_inv_remove_peer:
  assumes "budget_inv p" shows "budget_inv (EmitPlanner_remove_peer p peer)"
  unfolding budget_inv_def
proof
  fix idx
  have le: "unat (EmitPlanner_sent_count p idx) + card (holders p idx) \<le> unat (EmitPlanner_allocation_count p idx)"
    using assms by (simp add: budget_inv_def budget_used_def)
  have cnt: "EmitPlanner_allocation_count (EmitPlanner_remove_peer p peer) idx =
      (if peer \<in> holders p idx \<and> EmitPlanner_allocation_count p idx > 0
       then EmitPlanner_allocation_count p idx - 1 else EmitPlanner_allocation_count p idx)"
    by (simp add: remove_peer_eq fold_refund_count holders_def set_bt_keys_bs_elems)
      (simp add: EmitPlanner_allocation_count_def)
  show "budget_used (EmitPlanner_remove_peer p peer) idx
      \<le> unat (EmitPlanner_allocation_count (EmitPlanner_remove_peer p peer) idx)"
  proof (cases "peer \<in> holders p idx")
    case True
    then have "0 < card (holders p idx)" by (rule card_holder)
    moreover from this le have "0 < EmitPlanner_allocation_count p idx" by (simp add: word_less_nat_alt)
    ultimately show ?thesis
      using True le by (simp add: budget_used_def counts_frame holders_remove_peer cnt unat_pred_u32)
  next
    case False
    then show ?thesis using le by (simp add: budget_used_def counts_frame holders_remove_peer cnt)
  qed
qed

lemma budget_inv_set_havelist: "budget_inv p \<Longrightarrow> budget_inv (EmitPlanner_set_peer_havelist p peer b)"
  by (simp add: budget_inv_def budget_used_def counts_frame holders_set_havelist)

lemma budget_inv_new: "budget_inv (EmitPlanner_new n seed mode)"
  by (simp add: budget_inv_def budget_used_def EmitPlanner_new_def EmitPlanner_sent_count_def
      EmitPlanner_allocation_count_def holders_def peer_state_def PeerState_default_def)

subsection \<open>Reachable planners\<close>

text \<open>
  The ways the strategy uses its planner: allocate, report a send (successful or failed, of a shard
  that is in flight to the peer), cancel, drop a peer, replace a havelist.
\<close>

inductive planner_step :: "EmitPlanner \<Rightarrow> EmitPlanner \<Rightarrow> bool" where
  step_allocate: "planner_step p (fst (EmitPlanner_allocate p peer))"
| step_sent: "peer \<in> holders p idx \<Longrightarrow> planner_step p (EmitPlanner_record_sent p peer idx)"
| step_failed: "peer \<in> holders p idx \<Longrightarrow>
    planner_step p (EmitPlanner_refund_allocation (EmitPlanner_cancel_in_flight p peer idx) idx)"
| step_cancel: "planner_step p (EmitPlanner_cancel_in_flight p peer idx)"
| step_remove: "planner_step p (EmitPlanner_remove_peer p peer)"
| step_havelist: "planner_step p (EmitPlanner_set_peer_havelist p peer b)"

inductive planner_reachable :: "u32 \<Rightarrow> u64 \<Rightarrow> PlannerMode \<Rightarrow> EmitPlanner \<Rightarrow> bool" for n seed mode where
  reach_new: "planner_reachable n seed mode (EmitPlanner_new n seed mode)"
| reach_step: "planner_reachable n seed mode p \<Longrightarrow> planner_step p p' \<Longrightarrow> planner_reachable n seed mode p'"

lemma planner_step_inv: "planner_step p p' \<Longrightarrow> planner_inv p \<Longrightarrow> planner_inv p'"
  by (induction rule: planner_step.induct)
    (auto intro: allocate_inv record_sent_inv cancel_in_flight_inv refund_allocation_inv remove_peer_inv
      set_peer_havelist_inv)

lemma planner_ops_mode:
  "pl_mode (EmitPlanner_record_sent p peer idx) = pl_mode p"
  "pl_mode (EmitPlanner_cancel_in_flight p peer idx) = pl_mode p"
  "pl_mode (EmitPlanner_remove_peer p peer) = pl_mode p"
  "pl_mode (EmitPlanner_set_peer_havelist p peer b) = pl_mode p"
  "pl_num_shards (EmitPlanner_record_sent p peer idx) = pl_num_shards p"
  "pl_num_shards (EmitPlanner_cancel_in_flight p peer idx) = pl_num_shards p"
  "pl_num_shards (EmitPlanner_remove_peer p peer) = pl_num_shards p"
  "pl_num_shards (EmitPlanner_set_peer_havelist p peer b) = pl_num_shards p"
  by (simp_all add: EmitPlanner_record_sent_def EmitPlanner_cancel_in_flight_def remove_peer_eq
      fold_refund_frame EmitPlanner_set_peer_havelist_def)

lemma planner_step_mode: "planner_step p p' \<Longrightarrow> pl_mode p' = pl_mode p \<and> pl_num_shards p' = pl_num_shards p"
  by (induction rule: planner_step.induct) (simp_all add: planner_ops_mode)

lemma planner_step_budget:
  "planner_step p p' \<Longrightarrow> planner_inv p \<Longrightarrow> planner_cap (pl_mode p) = Some c \<Longrightarrow> budget_inv p \<Longrightarrow> budget_inv p'"
  by (induction rule: planner_step.induct)
    (auto intro: budget_inv_allocate budget_inv_record_sent budget_inv_cancel budget_inv_fail
      budget_inv_remove_peer budget_inv_set_havelist)

lemma reachable_inv:
  assumes "planner_reachable n seed mode p"
  shows "planner_inv p \<and> pl_mode p = mode \<and> pl_num_shards p = n \<and>
    (planner_cap mode \<noteq> None \<longrightarrow> budget_inv p)"
  using assms
proof (induction rule: planner_reachable.induct)
  case reach_new
  then show ?case by (simp add: EmitPlanner_new_inv budget_inv_new) (simp add: EmitPlanner_new_def)
next
  case (reach_step p p')
  then show ?case
    using planner_step_inv planner_step_mode planner_step_budget by fastforce
qed

lemma reachable_heap: "planner_reachable n seed mode p \<Longrightarrow> heap_inv p"
  using reachable_inv by (simp add: planner_inv_def)

lemma reachable_budget:
  assumes "planner_reachable n seed (ModeRelay fm) p"
  shows "unat (EmitPlanner_sent_count p idx) + card (holders p idx) \<le> unat (EmitPlanner_allocation_count p idx)"
    "EmitPlanner_allocation_count p idx \<le> fm"
  using reachable_inv [OF assms]
  by (auto simp: planner_cap_def budget_inv_def budget_used_def planner_inv_def cap_inv_def)

subsection \<open>Stale entries\<close>

text \<open>
  An allocation whose send fails: \<open>allocate\<close>, then \<open>cancel_in_flight\<close> and \<open>refund_allocation\<close> of the
  shard it returned.
\<close>

definition failed_send :: "PeerId \<Rightarrow> EmitPlanner \<Rightarrow> EmitPlanner" where
  "failed_send peer p =
     (case EmitPlanner_allocate p peer of
        (p', None) \<Rightarrow> p'
      | (p', Some idx) \<Rightarrow> EmitPlanner_refund_allocation (EmitPlanner_cancel_in_flight p' peer idx) idx)"

definition cycled :: "u64 \<Rightarrow> PeerId \<Rightarrow> nat \<Rightarrow> EmitPlanner \<Rightarrow> bool" where
  "cycled seed peer k p \<longleftrightarrow> pl_mode p = ModeOrigin \<and> pl_num_shards p = 1 \<and> pl_seed p = seed \<and>
     pl_allocation p = bt_empty \<and> peer_state p peer = PeerState_default \<and>
     pl_heap p = EmitEntry 0 (fib_priority seed 0) 0 # replicate k (EmitEntry 1 (fib_priority seed 0) 0)"

lemma heap_push_replicate: "heap_push x (replicate k x) = replicate (Suc k) x"
  by (cases k) (simp_all add: heap_push_def)

lemma cycled_allocate:
  assumes "cycled seed peer k p"
  shows "EmitPlanner_allocate p peer =
    (p\<lparr>pl_allocation := bt_insert 0 1 bt_empty, pl_heap := replicate (Suc k) (EmitEntry 1 (fib_priority seed 0) 0),
       pl_peers := bt_entry PeerState_default peer (\<lambda>s. s\<lparr>ps_in_flight := bs_insert 0 (ps_in_flight s)\<rparr>) (pl_peers p)\<rparr>,
     Some 0)"
proof -
  have cand: "planner_candidate p peer (EmitEntry 0 (fib_priority seed 0) 0)"
    using assms by (simp add: cycled_def planner_candidate_def candidate_def stale_def open_to_def
        planner_cap_def PeerState_default_def)
  have "drained p peer = replicate k (EmitEntry 1 (fib_priority seed 0) 0)"
    using assms cand by (simp add: drained_def cycled_def heap_push_all_def)
  moreover have "bt_entry PeerState_default peer f (bt_entry PeerState_default peer id (pl_peers p)) =
      bt_entry PeerState_default peer f (pl_peers p)" for f
    by (rule bt_eqI) simp
  moreover have "bt_entry 0 0 (\<lambda>c. c + 1) bt_empty = (bt_insert 0 1 bt_empty :: (u32, u32) btree_map)"
    by (rule bt_eqI) simp
  moreover have "find (planner_candidate p peer) (pl_heap p) = Some (EmitEntry 0 (fib_priority seed 0) 0)"
    using assms cand by (simp add: cycled_def)
  ultimately show ?thesis
    using assms unfolding allocate_eq by (simp add: cycled_def Let_def heap_push_replicate)
qed

lemma cycled_step:
  assumes "cycled seed peer k p" shows "cycled seed peer (Suc k) (failed_send peer p)"
proof -
  have "bt_remove 0 (bt_insert 0 1 bt_empty) = (bt_empty :: (u32, u32) btree_map)"
    by (rule bt_eqI) simp
  moreover have "heap_push (EmitEntry 0 f 0) (replicate (Suc k) (EmitEntry 1 f 0)) =
      EmitEntry 0 f 0 # replicate (Suc k) (EmitEntry 1 f 0)" for f
    by (simp add: heap_push_def less_eq_EmitEntry_iff)
  moreover have "bt_remove 0 (bs_insert 0 bt_empty) = (bt_empty :: u32 btree_set)"
    by (rule bs_eqI) simp
  ultimately show ?thesis
    using assms unfolding failed_send_def cycled_allocate [OF assms]
    by (simp add: cycled_def EmitPlanner_cancel_in_flight_def EmitPlanner_refund_allocation_def Let_def
        peer_state_def PeerState_default_def del: replicate_Suc)
qed

lemma cycled_new: "cycled seed peer 0 (EmitPlanner_new 1 seed ModeOrigin)"
  by (simp add: cycled_def EmitPlanner_new_def shard_range_def heap_push_def peer_state_def)

lemma cycled_funpow: "cycled seed peer k ((failed_send peer ^^ k) (EmitPlanner_new 1 seed ModeOrigin))"
  by (induction k) (simp_all add: cycled_new cycled_step)

subsection \<open>Properties\<close>

text \<open>
  C8. Allocation is optimal. In every planner that satisfies the invariant, \<open>allocate\<close> (the lazy
  heap drain) returns exactly what an exhaustive scan of all shards returns: the least shard by
  allocation count, hashed priority and index among those that are below the relay cap, not in
  the peer's havelist and not in flight to the peer; and nothing only when there is none. The state
  after the call satisfies the invariant again.
\<close>

theorem allocate_is_least_eligible:
  assumes "planner_inv p"
  shows "snd (EmitPlanner_allocate p peer) = allocate_ref p peer \<and>
    (snd (EmitPlanner_allocate p peer) = None \<longleftrightarrow> (\<forall>idx. \<not> eligible p peer idx)) \<and>
    planner_inv (fst (EmitPlanner_allocate p peer))"
proof -
  have h: "heap_inv p" using assms by (simp add: planner_inv_def)
  have "snd (EmitPlanner_allocate p peer) = None \<longleftrightarrow> (\<forall>idx. \<not> eligible p peer idx)"
    using find_candidate_None [OF h, of peer]
    by (cases "find (planner_candidate p peer) (pl_heap p)") (auto simp: allocate_eq Let_def)
  then show ?thesis using allocate_ref_correct [OF h] allocate_inv [OF assms] by simp
qed

theorem allocate_is_least_eligible_witness:
  "snd (EmitPlanner_allocate (EmitPlanner_new 2 7 ModeOrigin) 5) = allocate_ref (EmitPlanner_new 2 7 ModeOrigin) 5"
  using allocate_is_least_eligible [OF EmitPlanner_new_inv [of 2 7 ModeOrigin], of 5] by simp

text \<open>
  C9. The forwarding budget. In every planner reachable by the calls the strategy makes, a relay's
  shard has been sent or is in flight at most as often as it was allocated, it was allocated at
  most \<open>forward_multiplier\<close> times, and the planner invariant holds.
\<close>

theorem planner_budget:
  assumes "planner_reachable n seed (ModeRelay fm) p"
  shows "planner_inv p \<and>
    unat (EmitPlanner_sent_count p idx) + card (holders p idx) \<le> unat (EmitPlanner_allocation_count p idx) \<and>
    EmitPlanner_allocation_count p idx \<le> fm"
  using reachable_inv [OF assms] reachable_budget [OF assms] by blast

theorem planner_budget_witness:
  "EmitPlanner_allocation_count (fst (EmitPlanner_allocate (EmitPlanner_new 1 0 (ModeRelay 1)) 5)) 0 \<le> 1"
  using planner_budget [OF reach_step [OF reach_new step_allocate], of 1 0 1 5 0] by simp

text \<open>
  The heap grows by one entry per failed send, and the left-over entries are not discarded as
  stale: after \<open>k\<close> failed sends of the only shard the heap has \<open>k + 1\<close> entries, and after the next
  allocation all of them agree with the allocation map. The comment on the \<open>heap\<close> field says that
  exactly one live entry per shard is ever acted on.
\<close>

theorem refund_leaves_live_duplicates:
  "length (pl_heap ((failed_send peer ^^ k) (EmitPlanner_new 1 seed ModeOrigin))) = k + 1 \<and>
   (let p = fst (EmitPlanner_allocate ((failed_send peer ^^ k) (EmitPlanner_new 1 seed ModeOrigin)) peer)
    in pl_heap p = replicate (k + 1) (live_entry p 0))"
proof -
  note c = cycled_funpow [of seed peer k]
  show ?thesis
    using c unfolding cycled_allocate [OF c]
    by (simp add: cycled_def live_entry_def EmitPlanner_allocation_count_def Let_def)
qed

end
