(* ===== verification/RsState.thy ===== *)
theory RsState
  imports RsCodec Planner Session
begin

text \<open>
  \<open>strategy/rs/state.rs\<close>: the Reed-Solomon strategy, one instance per session. It stores the
  verified chunks, plans sends with the emit planner and tracks the dispatches handed to the
  engine. \<open>Vec\<close> indexing that the source guards by \<open>total_shards\<close> is list indexing here; the
  invariant \<open>rs_inv\<close> says that the guard is right.
\<close>

record RsStrategy =
  rs_config :: RsConfig
  rs_preamble :: Preamble
  rs_chunks :: "bytes option list"
  rs_planner :: EmitPlanner
  rs_attached :: "PeerId btree_set"
  rs_in_flight :: "(DispatchHandle, PeerId \<times> u32) btree_map"
  rs_next_handle :: DispatchHandle
  rs_last_routing :: u32

subsection \<open>Construction\<close>

definition RsStrategy_with :: "RsConfig \<Rightarrow> Preamble \<Rightarrow> bytes option list \<Rightarrow> EmitPlanner \<Rightarrow> RsStrategy" where
  "RsStrategy_with config preamble cs planner =
     \<lparr>rs_config = config, rs_preamble = preamble, rs_chunks = cs, rs_planner = planner,
      rs_attached = bt_empty, rs_in_flight = bt_empty, rs_next_handle = 0, rs_last_routing = 0\<rparr>"

definition RsStrategy_new_origin_with_seed ::
  "'e Crates \<Rightarrow> bytes \<Rightarrow> RsConfig \<Rightarrow> u64 \<Rightarrow> ('e EncodeError + RsStrategy) option" where
  "RsStrategy_new_origin_with_seed X payload config seed =
     (case encode X payload config of
        None \<Rightarrow> None
      | Some r \<Rightarrow> Some (result_bind r (\<lambda>(preamble, shards).
          Inr (RsStrategy_with config preamble (map Some shards)
            (EmitPlanner_new (word_of_nat (length shards)) seed ModeOrigin)))))"

definition RsStrategy_new_relay_with_seed ::
  "Preamble \<Rightarrow> RsConfig \<Rightarrow> u64 \<Rightarrow> PreambleError + RsStrategy" where
  "RsStrategy_new_relay_with_seed preamble config seed =
     result_bind (validate_preamble preamble) (\<lambda>_.
       let tot = num_data preamble + num_parity preamble in
       Inr (RsStrategy_with config preamble (replicate (unat tot) None)
         (EmitPlanner_new tot seed (ModeRelay (forward_multiplier config)))))"

text \<open>\<open>planner_seed\<close>: the sub-second nanoseconds of the wall clock and the process id.\<close>

definition planner_seed :: "u32 \<Rightarrow> u32 \<Rightarrow> u64" where
  "planner_seed nanos pid = push_bit 32 (ucast nanos) OR ucast pid"

subsection \<open>Queries\<close>

definition RsStrategy_accepted_count :: "RsStrategy \<Rightarrow> u32" where
  "RsStrategy_accepted_count s = word_of_nat (length (filter (\<lambda>c. c \<noteq> None) (rs_chunks s)))"

definition RsStrategy_can_reconstruct :: "RsStrategy \<Rightarrow> bool" where
  "RsStrategy_can_reconstruct s \<longleftrightarrow> num_data (rs_preamble s) \<le> RsStrategy_accepted_count s"

definition held_pairs :: "RsStrategy \<Rightarrow> (u32 \<times> bytes) list" where
  "held_pairs s = List.map_filter (\<lambda>(i, c). map_option (\<lambda>d. (word_of_nat i, d)) c) (enumerate 0 (rs_chunks s))"

definition RsStrategy_reconstruct :: "'e Crates \<Rightarrow> RsStrategy \<Rightarrow> 'e DecodeError + bytes" where
  "RsStrategy_reconstruct X s = decode X (rs_preamble s) (held_pairs s)"

definition RsStrategy_total_shards :: "RsStrategy \<Rightarrow> u32" where
  "RsStrategy_total_shards s = num_data (rs_preamble s) + num_parity (rs_preamble s)"

definition RsStrategy_local_havelist :: "RsStrategy \<Rightarrow> BitMap" where
  "RsStrategy_local_havelist s =
     fold (\<lambda>(i, slot) b. if slot \<noteq> None then (case BitMap_set b (word_of_nat i) of Inl _ \<Rightarrow> b | Inr b' \<Rightarrow> b') else b)
       (enumerate 0 (rs_chunks s)) (BitMap_with_capacity (RsStrategy_total_shards s))"

definition RsStrategy_issue_handle :: "RsStrategy \<Rightarrow> RsStrategy \<times> DispatchHandle" where
  "RsStrategy_issue_handle s = (s\<lparr>rs_next_handle := rs_next_handle s + 1\<rparr>, rs_next_handle s)"

definition RsStrategy_bitmap_threshold_reached :: "RsStrategy \<Rightarrow> u32 \<Rightarrow> bool" where
  "RsStrategy_bitmap_threshold_reached s cnt =
     (let tot = RsStrategy_total_shards s in
      if tot = 0 then True
      else (let pct = (ucast cnt * 100) div (ucast tot :: u64) in
        ucast (bitmap_threshold (rs_config s)) \<le> pct))"

subsection \<open>The strategy methods\<close>

definition RsStrategy_have_chunk :: "RsStrategy \<Rightarrow> u32 \<Rightarrow> bool" where
  "RsStrategy_have_chunk s idx =
     (if RsStrategy_total_shards s \<le> idx then False else rs_chunks s ! unat idx \<noteq> None)"

definition RsStrategy_take_chunk ::
  "'e Crates \<Rightarrow> RsStrategy \<Rightarrow> u32 \<Rightarrow> bytes \<Rightarrow> RsStrategy \<times> (TakeError + TakeOutcome)" where
  "RsStrategy_take_chunk X s idx data =
     (let tot = RsStrategy_total_shards s in
      if tot \<le> idx then (s, Inl (TakeOutOfRange (ucast idx) (ucast tot)))
      else if rs_chunks s ! unat idx \<noteq> None
      then (s, Inr \<lparr>to_verdict = Redundant, to_complete = RsStrategy_can_reconstruct s\<rparr>)
      else (case verify_chunk (sha256 X) (rs_preamble s) idx data of
          Accepted \<Rightarrow>
            (let s' = s\<lparr>rs_chunks := (rs_chunks s)[unat idx := Some data]\<rparr> in
             (s', Inr \<lparr>to_verdict = Accepted, to_complete = RsStrategy_can_reconstruct s'\<rparr>))
        | other \<Rightarrow> (s, Inr \<lparr>to_verdict = (if other = Invalid then Invalid else other), to_complete = False\<rparr>)))"

definition RsStrategy_attach_peer :: "RsStrategy \<Rightarrow> PeerId \<Rightarrow> RsStrategy" where
  "RsStrategy_attach_peer s peer = s\<lparr>rs_attached := bs_insert peer (rs_attached s)\<rparr>"

definition RsStrategy_detach_peer :: "RsStrategy \<Rightarrow> PeerId \<Rightarrow> bool \<Rightarrow> RsStrategy" where
  "RsStrategy_detach_peer s peer completed =
     s\<lparr>rs_attached := bt_remove peer (rs_attached s),
       rs_in_flight := bt_retain (\<lambda>_ (p, _). p \<noteq> peer) (rs_in_flight s),
       rs_planner := EmitPlanner_remove_peer (rs_planner s) peer\<rparr>"

definition RsStrategy_routing_update :: "RsStrategy \<Rightarrow> PeerId \<Rightarrow> BitMap \<Rightarrow> RsStrategy \<times> DispatchHandle list" where
  "RsStrategy_routing_update s peer update =
     (let merged = (case EmitPlanner_peer_havelist (rs_planner s) peer of
            Some existing \<Rightarrow> (case BitMap_or_merge existing update of Inl _ \<Rightarrow> existing | Inr m \<Rightarrow> m)
          | None \<Rightarrow> update);
          planner = EmitPlanner_set_peer_havelist (rs_planner s) peer merged;
          in_flight_idxs = EmitPlanner_peer_in_flight planner peer
      in (s\<lparr>rs_planner := planner\<rparr>,
          map fst (filter (\<lambda>(_, p, idx). p = peer \<and> idx \<in> set in_flight_idxs \<and> BitMap_get merged idx)
            (entries (rs_in_flight s)))))"

text \<open>One iteration of the peer loop of \<open>poll_chunks\<close>.\<close>

definition poll_peer ::
  "PeerId \<Rightarrow> RsStrategy \<times> u32 ChunkDispatch list \<Rightarrow> RsStrategy \<times> u32 ChunkDispatch list" where
  "poll_peer peer acc =
     (case acc of (s, dispatches) \<Rightarrow>
      case EmitPlanner_allocate (rs_planner s) peer of
        (planner, None) \<Rightarrow> (s\<lparr>rs_planner := planner\<rparr>, dispatches)
      | (planner, Some idx) \<Rightarrow>
          (let s = s\<lparr>rs_planner := planner\<rparr> in
           case (if unat idx < length (rs_chunks s) then rs_chunks s ! unat idx else None) of
             None \<Rightarrow> (s\<lparr>rs_planner := EmitPlanner_cancel_in_flight planner peer idx\<rparr>, dispatches)
           | Some payload \<Rightarrow>
               (case RsStrategy_issue_handle s of (s, handle) \<Rightarrow>
                 (s\<lparr>rs_in_flight := bt_insert handle (peer, idx) (rs_in_flight s)\<rparr>,
                  dispatches @ [\<lparr>cd_peer = peer, cd_chunk_id = idx, cd_handle = handle, cd_payload = payload\<rparr>]))))"

definition RsStrategy_poll_chunks :: "RsStrategy \<Rightarrow> RsStrategy \<times> u32 ChunkDispatch list" where
  "RsStrategy_poll_chunks s = fold poll_peer (bt_keys (rs_attached s)) (s, [])"

definition RsStrategy_poll_routing :: "RsStrategy \<Rightarrow> bool \<Rightarrow> RsStrategy \<times> BitMap option" where
  "RsStrategy_poll_routing s force =
     (if disable_bitmap (rs_config s) \<and> \<not> force then (s, None)
      else (let loc = RsStrategy_local_havelist s;
                cnt = BitMap_count_ones loc;
                crossed_threshold = RsStrategy_bitmap_threshold_reached s cnt;
                changed = (cnt \<noteq> rs_last_routing s)
            in if force \<or> (crossed_threshold \<and> changed)
               then (s\<lparr>rs_last_routing := cnt\<rparr>, Some loc) else (s, None)))"

definition RsStrategy_chunk_sent :: "RsStrategy \<Rightarrow> PeerId \<Rightarrow> DispatchHandle \<Rightarrow> bool \<Rightarrow> RsStrategy" where
  "RsStrategy_chunk_sent s peer handle ok =
     (case bt_get (rs_in_flight s) handle of
        None \<Rightarrow> s
      | Some (_, idx) \<Rightarrow>
          (let s = s\<lparr>rs_in_flight := bt_remove handle (rs_in_flight s)\<rparr> in
           if ok then s\<lparr>rs_planner := EmitPlanner_record_sent (rs_planner s) peer idx\<rparr>
           else s\<lparr>rs_planner := EmitPlanner_refund_allocation
               (EmitPlanner_cancel_in_flight (rs_planner s) peer idx) idx\<rparr>))"

definition RsStrategy_progress :: "RsStrategy \<Rightarrow> u32 \<times> u32" where
  "RsStrategy_progress s = (RsStrategy_accepted_count s, num_data (rs_preamble s))"

definition RsStrategy_ops :: "'e Crates \<Rightarrow> (RsStrategy, u32, BitMap, 'e DecodeError) StrategyOps" where
  "RsStrategy_ops X =
     \<lparr>st_have_chunk = RsStrategy_have_chunk,
      st_verify_chunk = (\<lambda>s. verify_chunk (sha256 X) (rs_preamble s)),
      st_take_chunk = RsStrategy_take_chunk X,
      st_attach_peer = RsStrategy_attach_peer,
      st_detach_peer = RsStrategy_detach_peer,
      st_routing_update = RsStrategy_routing_update,
      st_poll_chunks = RsStrategy_poll_chunks,
      st_poll_routing = RsStrategy_poll_routing,
      st_chunk_sent = RsStrategy_chunk_sent,
      st_progress = RsStrategy_progress,
      st_decode = RsStrategy_reconstruct X\<rparr>"

subsection \<open>The invariant\<close>

definition chunks_inv :: "'e Crates \<Rightarrow> RsStrategy \<Rightarrow> bool" where
  "chunks_inv X s \<longleftrightarrow> preamble_ok (rs_preamble s) \<and> length (rs_chunks s) = length (hashes (rs_preamble s)) \<and>
     (\<forall>i d. i < length (rs_chunks s) \<and> rs_chunks s ! i = Some d \<longrightarrow> sha256 X d = hashes (rs_preamble s) ! i)"

definition rs_inv :: "'e Crates \<Rightarrow> RsStrategy \<Rightarrow> bool" where
  "rs_inv X s \<longleftrightarrow> chunks_inv X s \<and> planner_inv (rs_planner s) \<and>
     pl_num_shards (rs_planner s) = RsStrategy_total_shards s"

lemma total_shards_length:
  assumes "chunks_inv X s"
  shows "unat (RsStrategy_total_shards s) = length (rs_chunks s)"
  using assms shard_total_nonneg [of "rs_preamble s"]
  by (auto simp: chunks_inv_def RsStrategy_total_shards_def preamble_ok_def)

lemma chunks_bound: "chunks_inv X s \<Longrightarrow> length (rs_chunks s) < 2 ^ 32"
  using total_shards_length unat_u32_bound by metis

lemma new_relay_inv:
  "RsStrategy_new_relay_with_seed preamble config seed = Inr s \<Longrightarrow> rs_inv X s"
proof -
  assume "RsStrategy_new_relay_with_seed preamble config seed = Inr s"
  then have ok: "preamble_ok preamble" and s: "s = RsStrategy_with config preamble
      (replicate (unat (num_data preamble + num_parity preamble)) None)
      (EmitPlanner_new (num_data preamble + num_parity preamble) seed (ModeRelay (forward_multiplier config)))"
    by (auto simp: RsStrategy_new_relay_with_seed_def result_bind_Inr_iff Let_def validate_preamble_iff)
  have "unat (num_data preamble + num_parity preamble) = length (hashes preamble)"
    using ok shard_total_nonneg(2) [of preamble] by (auto simp: preamble_ok_def)
  moreover have "pl_num_shards (EmitPlanner_new n seed m) = n" for n m by (simp add: EmitPlanner_new_def)
  ultimately show ?thesis
    using ok by (auto simp: s rs_inv_def chunks_inv_def RsStrategy_with_def EmitPlanner_new_inv
        RsStrategy_total_shards_def)
qed

lemma new_origin_inv:
  assumes "RsStrategy_new_origin_with_seed X payload config seed = Some (Inr s)" "sha_ok X"
    and "rs_mds X (unat (num_data (rs_preamble s))) (unat (num_parity (rs_preamble s)))"
  shows "rs_inv X s"
proof -
  obtain p shards where enc: "encode X payload config = Some (Inr (p, shards))"
    and s: "s = RsStrategy_with config p (map Some shards)
      (EmitPlanner_new (word_of_nat (length shards)) seed ModeOrigin)"
    using assms(1) by (auto simp: RsStrategy_new_origin_with_seed_def result_bind_Inr_iff split: option.splits)
  have "rs_preamble s = p" by (simp add: s RsStrategy_with_def)
  with assms(3) obtain l where l: "encodes X payload p shards l"
    using encode_encodes [OF enc] by auto
  have ok: "preamble_ok p" using encodes_preamble_ok [OF l assms(2)] .
  have "unat (num_data p + num_parity p) = length shards"
    using ok l shard_total_nonneg(2) [of p] by (auto simp: preamble_ok_def encodes_def)
  moreover have "word_of_nat (unat (num_data p + num_parity p)) = num_data p + num_parity p" by simp
  ultimately have "word_of_nat (length shards) = num_data p + num_parity p" by simp
  moreover have "pl_num_shards (EmitPlanner_new n seed m) = n" for n m by (simp add: EmitPlanner_new_def)
  ultimately show ?thesis
    using ok l by (auto simp: s rs_inv_def chunks_inv_def RsStrategy_with_def EmitPlanner_new_inv
        RsStrategy_total_shards_def encodes_def)
qed

subsection \<open>Taking chunks\<close>

text \<open>Every result of \<open>take_chunk\<close>, by the state of the slot and the digest of the data.\<close>

lemma take_chunk_cases:
  assumes "chunks_inv X s"
  shows "RsStrategy_take_chunk X s idx data =
    (if length (rs_chunks s) \<le> unat idx
     then (s, Inl (TakeOutOfRange (ucast idx) (ucast (RsStrategy_total_shards s))))
     else if rs_chunks s ! unat idx \<noteq> None
     then (s, Inr \<lparr>to_verdict = Redundant, to_complete = RsStrategy_can_reconstruct s\<rparr>)
     else if sha256 X data = hashes (rs_preamble s) ! unat idx
     then (let s' = s\<lparr>rs_chunks := (rs_chunks s)[unat idx := Some data]\<rparr> in
       (s', Inr \<lparr>to_verdict = Accepted, to_complete = RsStrategy_can_reconstruct s'\<rparr>))
     else (s, Inr \<lparr>to_verdict = Invalid, to_complete = False\<rparr>))"
proof -
  have ok: "preamble_ok (rs_preamble s)" and len: "length (hashes (rs_preamble s)) = length (rs_chunks s)"
    using assms by (auto simp: chunks_inv_def)
  have "RsStrategy_total_shards s \<le> idx \<longleftrightarrow> length (rs_chunks s) \<le> unat idx"
    by (simp add: word_le_nat_alt total_shards_length [OF assms])
  moreover have "verify_chunk (sha256 X) (rs_preamble s) idx data =
      (if unat idx < length (rs_chunks s) \<and> sha256 X data = hashes (rs_preamble s) ! unat idx then Accepted else Invalid)"
    using verify_chunk_iff [OF ok, of "sha256 X" idx data]
      verify_chunk_cases [of "sha256 X" "rs_preamble s" idx data] len by auto
  ultimately show ?thesis
    by (auto simp: RsStrategy_take_chunk_def Let_def)
qed

lemma take_chunk_chunks_inv:
  assumes "chunks_inv X s" shows "chunks_inv X (fst (RsStrategy_take_chunk X s idx data))"
  using assms by (auto simp: take_chunk_cases [OF assms] Let_def chunks_inv_def nth_list_update)

lemma take_chunk_frame [simp]:
  "rs_preamble (fst (RsStrategy_take_chunk X s idx data)) = rs_preamble s"
  "rs_planner (fst (RsStrategy_take_chunk X s idx data)) = rs_planner s"
  "rs_attached (fst (RsStrategy_take_chunk X s idx data)) = rs_attached s"
  "rs_in_flight (fst (RsStrategy_take_chunk X s idx data)) = rs_in_flight s"
  by (simp_all add: RsStrategy_take_chunk_def Let_def split: Verdict.split)

lemma total_shards_frame: "rs_preamble s = rs_preamble t \<Longrightarrow> RsStrategy_total_shards s = RsStrategy_total_shards t"
  by (simp add: RsStrategy_total_shards_def)

lemma take_chunk_inv: "rs_inv X s \<Longrightarrow> rs_inv X (fst (RsStrategy_take_chunk X s idx data))"
  unfolding rs_inv_def using take_chunk_chunks_inv by (auto simp: RsStrategy_total_shards_def)

subsection \<open>Polling\<close>

text \<open>The parts of the state that polling leaves alone.\<close>

lemma poll_peer_frame [simp]:
  "rs_config (fst (poll_peer peer acc)) = rs_config (fst acc)"
  "rs_preamble (fst (poll_peer peer acc)) = rs_preamble (fst acc)"
  "rs_chunks (fst (poll_peer peer acc)) = rs_chunks (fst acc)"
  "rs_attached (fst (poll_peer peer acc)) = rs_attached (fst acc)"
  "rs_last_routing (fst (poll_peer peer acc)) = rs_last_routing (fst acc)"
  by (simp_all add: poll_peer_def RsStrategy_issue_handle_def Let_def split: prod.split option.split)

lemma poll_peer_planner:
  "rs_planner (fst (poll_peer peer (s, ds))) =
     (case EmitPlanner_allocate (rs_planner s) peer of
        (planner, None) \<Rightarrow> planner
      | (planner, Some idx) \<Rightarrow>
          if unat idx < length (rs_chunks s) \<and> rs_chunks s ! unat idx \<noteq> None then planner
          else EmitPlanner_cancel_in_flight planner peer idx)"
  by (auto simp: poll_peer_def RsStrategy_issue_handle_def Let_def split: prod.split option.split)

lemma planner_num_shards [simp]:
  "pl_num_shards (EmitPlanner_cancel_in_flight p peer idx) = pl_num_shards p"
  "pl_num_shards (EmitPlanner_remove_peer p peer) = pl_num_shards p"
  "pl_num_shards (EmitPlanner_set_peer_havelist p peer b) = pl_num_shards p"
  "pl_num_shards (EmitPlanner_record_sent p peer idx) = pl_num_shards p"
  by (simp_all add: planner_ops_mode)

lemma poll_peer_inv:
  assumes "rs_inv X (fst acc)" shows "rs_inv X (fst (poll_peer peer acc))"
proof (cases acc)
  case (Pair s ds)
  have "planner_inv (rs_planner s)" "pl_num_shards (rs_planner s) = RsStrategy_total_shards s" "chunks_inv X s"
    using assms Pair by (auto simp: rs_inv_def)
  moreover have "planner_inv (rs_planner (fst (poll_peer peer (s, ds)))) \<and>
      pl_num_shards (rs_planner (fst (poll_peer peer (s, ds)))) = pl_num_shards (rs_planner s)"
    using allocate_inv [OF calculation(1), of peer] allocate_frame(2) [of "rs_planner s" peer]
    by (cases "EmitPlanner_allocate (rs_planner s) peer")
      (auto simp: poll_peer_planner cancel_in_flight_inv split: option.split)
  ultimately show ?thesis
    by (simp add: Pair rs_inv_def chunks_inv_def RsStrategy_total_shards_def)
qed

lemma fold_poll_inv: "rs_inv X (fst acc) \<Longrightarrow> rs_inv X (fst (fold poll_peer peers acc))"
  by (induction peers arbitrary: acc) (simp_all add: poll_peer_inv)

lemma poll_chunks_inv: "rs_inv X s \<Longrightarrow> rs_inv X (fst (RsStrategy_poll_chunks s))"
  unfolding RsStrategy_poll_chunks_def by (rule fold_poll_inv) simp

lemma fold_poll_frame [simp]:
  "rs_config (fst (fold poll_peer peers acc)) = rs_config (fst acc)"
  "rs_preamble (fst (fold poll_peer peers acc)) = rs_preamble (fst acc)"
  "rs_chunks (fst (fold poll_peer peers acc)) = rs_chunks (fst acc)"
  "rs_attached (fst (fold poll_peer peers acc)) = rs_attached (fst acc)"
  "rs_last_routing (fst (fold poll_peer peers acc)) = rs_last_routing (fst acc)"
  by (induction peers arbitrary: acc) simp_all

subsection \<open>The work that polling can still produce\<close>

definition peer_slack :: "EmitPlanner \<Rightarrow> PeerId \<Rightarrow> nat" where
  "peer_slack p peer = unat (pl_num_shards p) - card (bs_elems (ps_in_flight (peer_state p peer)))"

definition routing_pending :: "RsStrategy \<Rightarrow> bool" where
  "routing_pending s \<longleftrightarrow> snd (RsStrategy_poll_routing s False) \<noteq> None"

definition rs_work :: "RsStrategy \<Rightarrow> nat" where
  "rs_work s = (if routing_pending s then 1 else 0) +
     (\<Sum>peer\<in>bs_elems (rs_attached s). peer_slack (rs_planner s) peer)"

lemma card_in_flight:
  assumes "peers_inv p"
  shows "card (bs_elems (ps_in_flight (peer_state p peer))) \<le> unat (pl_num_shards p)"
proof -
  have "bs_elems (ps_in_flight (peer_state p peer)) \<subseteq> {..<pl_num_shards p}"
    using assms by (auto simp: peers_inv_def peer_state_def bt_get_or_def PeerState_default_def split: option.splits)
  moreover have "card {..<pl_num_shards p} \<le> unat (pl_num_shards p)"
  proof -
    have "card (set (shard_range (pl_num_shards p))) \<le> length (shard_range (pl_num_shards p))"
      by (rule card_length)
    then show ?thesis by (simp only: set_shard_range) (simp add: shard_range_def)
  qed
  ultimately show ?thesis
    by (meson card_mono finite order_trans)
qed

lemma peer_slack_poll:
  assumes inv: "planner_inv (rs_planner s)" and p': "p' = rs_planner (fst (poll_peer peer (s, ds)))"
  shows "q \<noteq> peer \<Longrightarrow> peer_slack p' q = peer_slack (rs_planner s) q"
    "peer_slack p' peer + (length (snd (poll_peer peer (s, ds))) - length ds) = peer_slack (rs_planner s) peer"
    "length ds \<le> length (snd (poll_peer peer (s, ds)))"
proof -
  let ?p = "rs_planner s"
  have h: "heap_inv ?p" "peers_inv ?p" using inv by (auto simp: planner_inv_def)
  obtain pa r where al: "EmitPlanner_allocate ?p peer = (pa, r)" by (cases "EmitPlanner_allocate ?p peer")
  have num: "pl_num_shards pa = pl_num_shards ?p" using allocate_frame(2) [of ?p peer] by (simp add: al)
  have "(q \<noteq> peer \<longrightarrow> peer_slack p' q = peer_slack ?p q) \<and>
    peer_slack p' peer + (length (snd (poll_peer peer (s, ds))) - length ds) = peer_slack ?p peer \<and>
    length ds \<le> length (snd (poll_peer peer (s, ds)))" for q
  proof (cases r)
    case None
    note pa = allocate_None(1) [OF al [unfolded None]]
    show ?thesis by (simp add: p' poll_peer_planner al None poll_peer_def peer_slack_def num)
        (simp add: pa peer_state_def)
  next
    case (Some idx)
    note pa = allocate_Some [OF h(1) al [unfolded Some]]
    let ?F = "bs_elems (ps_in_flight (peer_state ?p peer))"
    have new: "idx \<notin> ?F" "idx < pl_num_shards ?p"
      using pa(1) by (auto simp: eligible_def open_to_def)
    have st: "peer_state pa q = (if q = peer
        then (peer_state ?p peer)\<lparr>ps_in_flight := bs_insert idx (ps_in_flight (peer_state ?p peer))\<rparr>
        else peer_state ?p q)" for q
      by (simp add: peer_state_def pa(3))
    have "peers_inv pa" using allocate_inv [OF inv, of peer] by (simp add: al planner_inv_def)
    from card_in_flight [OF this, of peer] have bound: "card (insert idx ?F) \<le> unat (pl_num_shards ?p)"
      by (simp add: st num)
    then show ?thesis
      using new by (auto simp: p' poll_peer_planner al Some poll_peer_def peer_slack_def num st
          EmitPlanner_cancel_in_flight_def RsStrategy_issue_handle_def Let_def split: option.splits)
  qed
  then show "q \<noteq> peer \<Longrightarrow> peer_slack p' q = peer_slack (rs_planner s) q"
    "peer_slack p' peer + (length (snd (poll_peer peer (s, ds))) - length ds) = peer_slack (rs_planner s) peer"
    "length ds \<le> length (snd (poll_peer peer (s, ds)))" by blast+
qed

definition total_slack :: "RsStrategy \<Rightarrow> nat" where
  "total_slack s = (\<Sum>peer\<in>bs_elems (rs_attached s). peer_slack (rs_planner s) peer)"

lemma total_slack_poll_peer:
  assumes "planner_inv (rs_planner s)" "peer \<in> bs_elems (rs_attached s)"
  shows "total_slack (fst (poll_peer peer (s, ds))) + length (snd (poll_peer peer (s, ds))) = total_slack s + length ds"
proof -
  let ?s' = "fst (poll_peer peer (s, ds))" and ?A = "bs_elems (rs_attached s)"
  note ps = peer_slack_poll [OF assms(1) refl, where peer = peer and ds = ds]
  have split: "(\<Sum>q\<in>?A. f q) = f peer + (\<Sum>q\<in>?A - {peer}. f q)" for f :: "PeerId \<Rightarrow> nat"
    using assms(2) by (simp add: sum.remove)
  have "(\<Sum>q\<in>?A - {peer}. peer_slack (rs_planner ?s') q) = (\<Sum>q\<in>?A - {peer}. peer_slack (rs_planner s) q)"
    by (rule sum.cong) (use ps(1) in auto)
  then show ?thesis
    using ps(2,3) by (simp add: total_slack_def split)
qed

lemma total_slack_fold_poll:
  assumes "rs_inv X (fst acc)" "set peers \<subseteq> bs_elems (rs_attached (fst acc))"
  shows "total_slack (fst (fold poll_peer peers acc)) + length (snd (fold poll_peer peers acc)) =
    total_slack (fst acc) + length (snd acc)"
  using assms
proof (induction peers arbitrary: acc)
  case (Cons peer peers)
  have "planner_inv (rs_planner (fst acc))" using Cons.prems(1) by (simp add: rs_inv_def)
  moreover have "peer \<in> bs_elems (rs_attached (fst acc))" using Cons.prems(2) by simp
  ultimately have "total_slack (fst (poll_peer peer acc)) + length (snd (poll_peer peer acc)) =
      total_slack (fst acc) + length (snd acc)"
    using total_slack_poll_peer [of "fst acc" peer "snd acc"] by simp
  moreover have "total_slack (fst (fold poll_peer peers (poll_peer peer acc))) +
      length (snd (fold poll_peer peers (poll_peer peer acc))) =
      total_slack (fst (poll_peer peer acc)) + length (snd (poll_peer peer acc))"
    using Cons.prems by (intro Cons.IH) (simp_all add: poll_peer_inv)
  ultimately show ?case by simp
qed simp

lemma routing_pending_cong:
  "rs_config s = rs_config t \<Longrightarrow> rs_preamble s = rs_preamble t \<Longrightarrow> rs_chunks s = rs_chunks t \<Longrightarrow>
   rs_last_routing s = rs_last_routing t \<Longrightarrow> routing_pending s = routing_pending t"
  by (simp add: routing_pending_def RsStrategy_poll_routing_def RsStrategy_local_havelist_def
      RsStrategy_bitmap_threshold_reached_def RsStrategy_total_shards_def Let_def)

lemma rs_work_eq: "rs_work s = (if routing_pending s then 1 else 0) + total_slack s"
  by (simp add: rs_work_def total_slack_def)

lemma poll_chunks_work:
  assumes "rs_inv X s" "RsStrategy_poll_chunks s = (s', ds)"
  shows "rs_work s' + length ds = rs_work s"
proof -
  have "total_slack s' + length ds = total_slack s"
    using total_slack_fold_poll [of X "(s, [])" "bt_keys (rs_attached s)"] assms
    by (simp add: RsStrategy_poll_chunks_def set_bt_keys_bs_elems)
  moreover have "routing_pending s' = routing_pending s"
  proof (rule routing_pending_cong)
    have s': "s' = fst (fold poll_peer (bt_keys (rs_attached s)) (s, []))"
      using assms(2) by (simp add: RsStrategy_poll_chunks_def)
    show "rs_config s' = rs_config s" "rs_preamble s' = rs_preamble s" "rs_chunks s' = rs_chunks s"
      "rs_last_routing s' = rs_last_routing s" by (simp_all add: s')
  qed
  ultimately show ?thesis by (simp add: rs_work_eq)
qed

lemma havelist_last_routing [simp]:
  "RsStrategy_local_havelist (s\<lparr>rs_last_routing := c\<rparr>) = RsStrategy_local_havelist s"
  by (simp add: RsStrategy_local_havelist_def RsStrategy_total_shards_def)

lemma poll_routing_work:
  assumes "RsStrategy_poll_routing s False = (s', r)"
  shows "rs_work s' + (if r = None then 0 else 1) = rs_work s"
proof (cases r)
  case None
  then have "s' = s" using assms by (auto simp: RsStrategy_poll_routing_def Let_def split: if_splits)
  with None show ?thesis by simp
next
  case (Some b)
  then have s': "s' = s\<lparr>rs_last_routing := BitMap_count_ones (RsStrategy_local_havelist s)\<rparr>"
    using assms by (auto simp: RsStrategy_poll_routing_def Let_def split: if_splits)
  have "routing_pending s" using assms Some by (simp add: routing_pending_def)
  moreover have "\<not> routing_pending s'"
    by (simp add: s' routing_pending_def RsStrategy_poll_routing_def Let_def)
  moreover have "total_slack s' = total_slack s" by (simp add: s' total_slack_def)
  ultimately show ?thesis by (simp add: rs_work_eq Some)
qed

subsection \<open>The strategy meets its contract\<close>

interpretation rs: broadcast_strategy "RsStrategy_ops X" "rs_inv X" rs_work for X :: "'e Crates"
proof
  fix s :: RsStrategy and c :: u32 and d peer completed u force h ok
  assume inv: "rs_inv X s"
  then have c: "chunks_inv X s" and p: "planner_inv (rs_planner s)" by (auto simp: rs_inv_def)
  show "rs_inv X (fst (st_take_chunk (RsStrategy_ops X) s c d))"
    using inv by (simp add: RsStrategy_ops_def take_chunk_inv)
  show "rs_inv X (st_attach_peer (RsStrategy_ops X) s peer)"
    using inv by (simp add: RsStrategy_ops_def RsStrategy_attach_peer_def rs_inv_def chunks_inv_def
        RsStrategy_total_shards_def)
  show "rs_inv X (st_detach_peer (RsStrategy_ops X) s peer completed)"
    using inv by (simp add: RsStrategy_ops_def RsStrategy_detach_peer_def rs_inv_def chunks_inv_def
        RsStrategy_total_shards_def remove_peer_inv)
  show "rs_inv X (fst (st_routing_update (RsStrategy_ops X) s peer u))"
    using inv by (simp add: RsStrategy_ops_def RsStrategy_routing_update_def rs_inv_def chunks_inv_def
        RsStrategy_total_shards_def set_peer_havelist_inv Let_def)
  show "rs_inv X (fst (st_poll_chunks (RsStrategy_ops X) s))"
    using inv by (simp add: RsStrategy_ops_def poll_chunks_inv)
  show "rs_inv X (fst (st_poll_routing (RsStrategy_ops X) s force))"
    using inv by (simp add: RsStrategy_ops_def RsStrategy_poll_routing_def rs_inv_def chunks_inv_def
        RsStrategy_total_shards_def Let_def)
  show "rs_inv X (st_chunk_sent (RsStrategy_ops X) s peer h ok)"
    using inv by (auto simp: RsStrategy_ops_def RsStrategy_chunk_sent_def rs_inv_def chunks_inv_def Let_def
        RsStrategy_total_shards_def record_sent_inv cancel_in_flight_inv refund_allocation_inv split: option.split)
  show "to_verdict out = Redundant"
    if "st_have_chunk (RsStrategy_ops X) s c" "snd (st_take_chunk (RsStrategy_ops X) s c d) = Inr out" for out
    using that c by (auto simp: RsStrategy_ops_def RsStrategy_have_chunk_def take_chunk_cases
        split: if_splits)
  show "snd (st_progress (RsStrategy_ops X) s') \<le> fst (st_progress (RsStrategy_ops X) s')"
    if "st_take_chunk (RsStrategy_ops X) s c d = (s', Inr out)" "to_complete out" for s' out
    using that c by (auto simp: RsStrategy_ops_def RsStrategy_progress_def take_chunk_cases Let_def
        RsStrategy_can_reconstruct_def split: if_splits)
  show "rs_work s' + (if ds = [] then 0 else 1) \<le> rs_work s"
    if "st_poll_chunks (RsStrategy_ops X) s = (s', ds)" for s' ds
    using poll_chunks_work [OF inv, of s' ds] that by (cases ds) (auto simp: RsStrategy_ops_def)
  show "rs_work s' + (if r = None then 0 else 1) \<le> rs_work s"
    if "st_poll_routing (RsStrategy_ops X) s False = (s', r)" for s' r
    using poll_routing_work [of s s' r] that by (simp add: RsStrategy_ops_def)
qed

subsection \<open>Reconstruction from received chunks\<close>

text \<open>A strategy fed with a sequence of received chunks, in order.\<close>

definition feed :: "'e Crates \<Rightarrow> (u32 \<times> bytes) list \<Rightarrow> RsStrategy \<Rightarrow> RsStrategy" where
  "feed X xs s = fold (\<lambda>(i, d) s. fst (RsStrategy_take_chunk X s i d)) xs s"

definition held :: "RsStrategy \<Rightarrow> nat set" where
  "held s = {i. i < length (rs_chunks s) \<and> rs_chunks s ! i \<noteq> None}"

text \<open>The slots hold only shards of the given encoding.\<close>

definition genuine :: "bytes list \<Rightarrow> RsStrategy \<Rightarrow> bool" where
  "genuine shards s \<longleftrightarrow> (\<forall>i d. i < length (rs_chunks s) \<and> rs_chunks s ! i = Some d \<longrightarrow> d = shards ! i)"

text \<open>No received chunk collides with a shard it differs from.\<close>

definition collision_free :: "'e Crates \<Rightarrow> bytes list \<Rightarrow> (u32 \<times> bytes) list \<Rightarrow> bool" where
  "collision_free X shards xs \<longleftrightarrow> (\<forall>(i, d)\<in>set xs. unat i < length shards \<longrightarrow>
     sha256 X d = sha256 X (shards ! unat i) \<longrightarrow> d = shards ! unat i)"

lemma finite_held [simp]: "finite (held s)"
  by (simp add: held_def)

lemma length_filter_some: "length (filter (\<lambda>c. c \<noteq> None) cs) = card {i. i < length cs \<and> cs ! i \<noteq> None}"
  by (rule length_filter_conv_card)

lemma accepted_count_held:
  assumes "chunks_inv X s" shows "unat (RsStrategy_accepted_count s) = card (held s)"
proof -
  have "card (held s) \<le> length (rs_chunks s)"
    using card_mono [of "{..<length (rs_chunks s)}" "held s"] by (auto simp: held_def)
  then have "card (held s) < 2 ^ 32" using chunks_bound [OF assms] by simp
  moreover have "RsStrategy_accepted_count s = word_of_nat (card (held s))"
    unfolding RsStrategy_accepted_count_def length_filter_some held_def ..
  ultimately show ?thesis by (simp add: unat_of_nat)
qed

lemma can_reconstruct_iff:
  "chunks_inv X s \<Longrightarrow> RsStrategy_can_reconstruct s \<longleftrightarrow> unat (num_data (rs_preamble s)) \<le> card (held s)"
  by (simp add: RsStrategy_can_reconstruct_def word_le_nat_alt accepted_count_held)

lemma held_take_chunk:
  assumes "chunks_inv X s"
  shows "held (fst (RsStrategy_take_chunk X s idx data)) =
    (if unat idx < length (rs_chunks s) \<and> sha256 X data = hashes (rs_preamble s) ! unat idx
     then insert (unat idx) (held s) else held s)"
  using assms by (auto simp: take_chunk_cases held_def Let_def nth_list_update split: if_splits)

lemma genuine_take_chunk:
  assumes "chunks_inv X s" "genuine shards s" "hashes (rs_preamble s) = map (sha256 X) shards"
    "collision_free X shards ((idx, data) # xs)"
  shows "genuine shards (fst (RsStrategy_take_chunk X s idx data))"
proof -
  have "length shards = length (rs_chunks s)" using assms(1,3) by (simp add: chunks_inv_def)
  then show ?thesis
    using assms(2-4)
    by (auto simp: take_chunk_cases [OF assms(1)] genuine_def Let_def nth_list_update collision_free_def)
qed

lemma feed_props:
  assumes "chunks_inv X s" "genuine shards s" "hashes (rs_preamble s) = map (sha256 X) shards"
    "collision_free X shards xs"
  shows "chunks_inv X (feed X xs s) \<and> genuine shards (feed X xs s) \<and>
    rs_preamble (feed X xs s) = rs_preamble s \<and>
    held s \<union> {unat i |i d. (i, d) \<in> set xs \<and> unat i < length shards \<and> d = shards ! unat i} \<subseteq> held (feed X xs s)"
  using assms
proof (induction xs arbitrary: s)
  case (Cons x xs)
  obtain i d where x: "x = (i, d)" by (cases x)
  let ?s = "fst (RsStrategy_take_chunk X s i d)"
  have len: "length shards = length (rs_chunks s)" using Cons.prems(1,3) by (simp add: chunks_inv_def)
  have "collision_free X shards xs" using Cons.prems(4) by (simp add: collision_free_def)
  moreover have "genuine shards ?s" using genuine_take_chunk Cons.prems x by blast
  ultimately have ih: "chunks_inv X (feed X xs ?s) \<and> genuine shards (feed X xs ?s) \<and>
      rs_preamble (feed X xs ?s) = rs_preamble ?s \<and>
      held ?s \<union> {unat i |i d. (i, d) \<in> set xs \<and> unat i < length shards \<and> d = shards ! unat i} \<subseteq> held (feed X xs ?s)"
    using Cons.prems by (intro Cons.IH) (simp_all add: take_chunk_chunks_inv)
  have "held s \<union> {unat i |d'. d' = d \<and> unat i < length shards \<and> d = shards ! unat i} \<subseteq> held ?s"
    using Cons.prems(3) len by (auto simp: held_take_chunk [OF Cons.prems(1)])
  with ih show ?case by (auto simp: feed_def x)
qed (simp add: feed_def)

lemma held_pairs_eq:
  "held_pairs s = map (\<lambda>i. (word_of_nat i, the (rs_chunks s ! i)))
     (filter (\<lambda>i. rs_chunks s ! i \<noteq> None) [0..<length (rs_chunks s)])"
proof -
  have "enumerate 0 (rs_chunks s) = map (\<lambda>i. (i, rs_chunks s ! i)) [0..<length (rs_chunks s)]"
    by (auto intro: nth_equalityI simp: nth_enumerate_eq)
  then show ?thesis
    by (simp add: held_pairs_def List.map_filter_def filter_map comp_def)
      (auto intro!: map_cong)
qed

lemma set_held_pairs:
  "set (held_pairs s) = {(word_of_nat i, d) |i d. i < length (rs_chunks s) \<and> rs_chunks s ! i = Some d}"
  by (auto simp: held_pairs_eq image_iff)

lemma map_fst_held_pairs:
  "map fst (held_pairs s) = map (word_of_nat :: nat \<Rightarrow> u32) (filter (\<lambda>i. rs_chunks s ! i \<noteq> None) [0..<length (rs_chunks s)])"
  by (simp add: held_pairs_eq comp_def)

lemma held_pairs_drawn:
  assumes "chunks_inv X s" "genuine shards s" "hashes (rs_preamble s) = map (sha256 X) shards"
  shows "drawn_from shards (held_pairs s)" "length (held_pairs s) = card (held s)"
proof -
  have len: "length shards = length (rs_chunks s)" using assms(1,3) by (simp add: chunks_inv_def)
  have u: "unat (word_of_nat i :: u32) = i" if "i < length (rs_chunks s)" for i
    using that chunks_bound [OF assms(1)] by (simp add: unat_of_nat)
  have "inj_on (word_of_nat :: nat \<Rightarrow> u32) {0..<length (rs_chunks s)}"
    by (rule inj_on_inverseI [where g = unat]) (use u in simp)
  then have "distinct (map fst (held_pairs s))"
    unfolding map_fst_held_pairs distinct_map by (auto intro: inj_on_subset)
  then show "drawn_from shards (held_pairs s)"
    using assms(2) u len by (auto simp: drawn_from_def set_held_pairs genuine_def)
  have "length (held_pairs s) = length (filter (\<lambda>i. rs_chunks s ! i \<noteq> None) [0..<length (rs_chunks s)])"
    by (metis length_map map_fst_held_pairs)
  also have "\<dots> = card (held s)"
    by (subst distinct_card [symmetric]) (auto simp: held_def intro!: arg_cong [where f = card])
  finally show "length (held_pairs s) = card (held s)" .
qed

lemma genuine_reconstruct:
  assumes "chunks_inv X s" "genuine shards s" "encodes X payload (rs_preamble s) shards l" "sha_ok X"
    "rs_mds X (unat (num_data (rs_preamble s))) (unat (num_parity (rs_preamble s)))"
    "\<exists>ss. shards_shape (unat (num_data (rs_preamble s))) (unat (num_parity (rs_preamble s))) l ss \<and>
      rs_encode X (unat (num_data (rs_preamble s))) (unat (num_parity (rs_preamble s))) ss = Inr shards"
    "RsStrategy_can_reconstruct s"
  shows "RsStrategy_reconstruct X s = Inr payload"
proof -
  have h: "hashes (rs_preamble s) = map (sha256 X) shards" using assms(3) by (simp add: encodes_def)
  note d = held_pairs_drawn [OF assms(1,2) h]
  have "unat (num_data (rs_preamble s)) \<le> length (held_pairs s)"
    using assms(7) d(2) by (simp add: can_reconstruct_iff [OF assms(1)])
  from decode_drawn [OF assms(3-6) d(1) this] show ?thesis by (simp add: RsStrategy_reconstruct_def)
qed

lemma new_relay_fresh:
  assumes "RsStrategy_new_relay_with_seed p config seed = Inr s"
  shows "rs_preamble s = p" "genuine shards s" "held s = {}"
  using assms
  by (auto simp: RsStrategy_new_relay_with_seed_def result_bind_Inr_iff Let_def RsStrategy_with_def
      genuine_def held_def)

subsection \<open>Dispatch handles\<close>

text \<open>
  The handle table mirrors the planner's in-flight sets: every outstanding handle stands for one
  in-flight shard of an attached peer, and no two handles for the same one.
\<close>

definition handles_inv :: "RsStrategy \<Rightarrow> bool" where
  "handles_inv s \<longleftrightarrow>
     (\<forall>h p i. bt_get (rs_in_flight s) h = Some (p, i) \<longrightarrow> h < rs_next_handle s) \<and>
     (\<forall>h h' p i. bt_get (rs_in_flight s) h = Some (p, i) \<longrightarrow> bt_get (rs_in_flight s) h' = Some (p, i) \<longrightarrow> h = h') \<and>
     (\<forall>p i. p \<in> holders (rs_planner s) i \<longleftrightarrow> (\<exists>h. bt_get (rs_in_flight s) h = Some (p, i)))"

lemma handles_invD:
  assumes "handles_inv s"
  shows "bt_get (rs_in_flight s) h = Some (p, i) \<Longrightarrow> h < rs_next_handle s"
    "bt_get (rs_in_flight s) h = Some (p, i) \<Longrightarrow> bt_get (rs_in_flight s) h' = Some (p, i) \<Longrightarrow> h = h'"
    "p \<in> holders (rs_planner s) i \<longleftrightarrow> (\<exists>h. bt_get (rs_in_flight s) h = Some (p, i))"
  using assms unfolding handles_inv_def by blast+

lemma handles_inv_cong:
  "rs_in_flight s = rs_in_flight t \<Longrightarrow> rs_next_handle s = rs_next_handle t \<Longrightarrow>
   (\<And>i. holders (rs_planner s) i = holders (rs_planner t) i) \<Longrightarrow> handles_inv s = handles_inv t"
  by (simp add: handles_inv_def)

lemma ex_insert_fresh:
  "T n = None \<Longrightarrow> (\<exists>h. (if h = n then Some x else T h) = Some y) \<longleftrightarrow> x = y \<or> (\<exists>h. T h = Some y)"
  by (metis option.distinct(1) option.inject)

lemma ex_remove_unique:
  assumes "T k = Some x" "\<And>h. T h = Some x \<Longrightarrow> h = k"
  shows "(\<exists>h. (if h = k then None else T h) = Some y) \<longleftrightarrow> y \<noteq> x \<and> (\<exists>h. T h = Some y)"
  using assms by (metis option.distinct(1) option.inject)

lemma poll_peer_unheld:
  "EmitPlanner_allocate (rs_planner s) peer = (q, Some idx) \<Longrightarrow>
   \<not> (unat idx < length (rs_chunks s) \<and> rs_chunks s ! unat idx \<noteq> None) \<Longrightarrow>
   poll_peer peer (s, ds) = (s\<lparr>rs_planner := EmitPlanner_cancel_in_flight q peer idx\<rparr>, ds)"
  by (auto simp: poll_peer_def Let_def)

text \<open>What one iteration of the poll loop does to the planner and the handle table.\<close>

lemma poll_peer_effect:
  assumes "planner_inv (rs_planner s)" "poll_peer peer (s, ds) = (s', ds')"
  obtains (idle) "ds' = ds" "rs_in_flight s' = rs_in_flight s" "rs_next_handle s' = rs_next_handle s"
      "\<And>i. holders (rs_planner s') i = holders (rs_planner s) i"
  | (dispatch) idx payload where "eligible (rs_planner s) peer idx"
      "unat idx < length (rs_chunks s)" "rs_chunks s ! unat idx = Some payload"
      "ds' = ds @ [\<lparr>cd_peer = peer, cd_chunk_id = idx, cd_handle = rs_next_handle s, cd_payload = payload\<rparr>]"
      "rs_in_flight s' = bt_insert (rs_next_handle s) (peer, idx) (rs_in_flight s)"
      "rs_next_handle s' = rs_next_handle s + 1"
      "\<And>i. holders (rs_planner s') i = (if i = idx then insert peer (holders (rs_planner s) i) else holders (rs_planner s) i)"
      "peer \<notin> holders (rs_planner s) idx"
proof -
  let ?p = "rs_planner s"
  have h: "heap_inv ?p" using assms(1) by (simp add: planner_inv_def)
  obtain pa r where al: "EmitPlanner_allocate ?p peer = (pa, r)" by (cases "EmitPlanner_allocate ?p peer")
  note hold = holders_allocate [OF h al]
  show ?thesis
  proof (cases r)
    case None
    then show ?thesis using assms(2) hold by (intro idle) (auto simp: poll_peer_def al)
  next
    case (Some idx)
    have el: "eligible ?p peer idx" using allocate_Some(1) [OF h] al Some by simp
    then have new: "peer \<notin> holders ?p idx" by (auto simp: eligible_def open_to_def holders_def)
    show ?thesis
    proof (cases "unat idx < length (rs_chunks s) \<and> rs_chunks s ! unat idx \<noteq> None")
      case True
      then obtain payload where "rs_chunks s ! unat idx = Some payload" by auto
      then show ?thesis
        using assms(2) True el new hold Some
        by (intro dispatch [of idx payload])
          (auto simp: poll_peer_def al RsStrategy_issue_handle_def Let_def)
    next
      case False
      then have "poll_peer peer (s, ds) = (s\<lparr>rs_planner := EmitPlanner_cancel_in_flight pa peer idx\<rparr>, ds)"
        using al Some by (intro poll_peer_unheld) auto
      then show ?thesis
        using assms(2) new hold Some by (intro idle) (auto simp: holders_cancel split: if_splits)
    qed
  qed
qed

lemma poll_peer_handles:
  assumes "planner_inv (rs_planner s)" "handles_inv s" "unat (rs_next_handle s) + 1 < 2 ^ 64"
    "poll_peer peer (s, ds) = (s', ds')"
  shows "handles_inv s' \<and> unat (rs_next_handle s') \<le> unat (rs_next_handle s) + 1"
  using assms(1,4)
proof (cases rule: poll_peer_effect)
  case idle
  then show ?thesis using assms(2) handles_inv_cong [of s' s] by simp
next
  case (dispatch idx payload)
  let ?n = "rs_next_handle s"
  have succ: "unat (?n + 1) = unat ?n + 1" using assms(3) by (simp add: unat_word_ariths)
  have fresh: "bt_get (rs_in_flight s) ?n = None"
    using handles_invD(1) [OF assms(2)] by (cases "bt_get (rs_in_flight s) ?n") auto
  have "h < ?n + 1" if "h < ?n \<or> h = ?n" for h
    using that succ by (auto simp: word_less_nat_alt)
  moreover have "bt_get (rs_in_flight s) h \<noteq> Some (peer, idx)" for h
    using handles_invD(3) [OF assms(2)] dispatch(8) by blast
  moreover note inv = handles_invD [OF assms(2)]
  ultimately have "handles_inv s'"
    unfolding handles_inv_def dispatch(5-7) bt_get_insert ex_insert_fresh [of "bt_get (rs_in_flight s)", OF fresh]
    by (intro conjI allI) (auto split: if_splits intro: inv(1) inv(2))
  then show ?thesis using dispatch(6) succ by simp
qed

lemma fold_poll_handles:
  assumes "rs_inv X (fst acc)" "handles_inv (fst acc)" "unat (rs_next_handle (fst acc)) + length peers < 2 ^ 64"
  shows "handles_inv (fst (fold poll_peer peers acc))"
  using assms
proof (induction peers arbitrary: acc)
  case (Cons peer peers)
  obtain s ds where acc: "acc = (s, ds)" by (cases acc)
  obtain s' ds' where step: "poll_peer peer (s, ds) = (s', ds')" by (cases "poll_peer peer (s, ds)")
  have "handles_inv s' \<and> unat (rs_next_handle s') \<le> unat (rs_next_handle s) + 1"
    using Cons.prems by (intro poll_peer_handles [OF _ _ _ step]) (auto simp: acc rs_inv_def)
  moreover have "rs_inv X s'" using poll_peer_inv [of X acc peer] Cons.prems(1) by (simp add: acc step)
  ultimately have "handles_inv (fst (fold poll_peer peers (s', ds')))"
    using Cons.prems(3) by (intro Cons.IH) (auto simp: acc)
  then show ?case by (simp add: acc step)
qed simp

lemma poll_chunks_handles:
  assumes "rs_inv X s" "handles_inv s" "unat (rs_next_handle s) + length (bt_keys (rs_attached s)) < 2 ^ 64"
  shows "handles_inv (fst (RsStrategy_poll_chunks s))"
  using fold_poll_handles [of X "(s, [])"] assms by (simp add: RsStrategy_poll_chunks_def)

lemma detach_handles: "handles_inv s \<Longrightarrow> handles_inv (RsStrategy_detach_peer s peer completed)"
  unfolding handles_inv_def RsStrategy_detach_peer_def
  by (simp add: holders_remove_peer bt_get_retain_Some del: bt_get_retain)

lemma chunk_sent_handles:
  assumes "handles_inv s" "\<And>p i. bt_get (rs_in_flight s) h = Some (p, i) \<Longrightarrow> p = peer"
  shows "handles_inv (RsStrategy_chunk_sent s peer h ok)"
proof (cases "bt_get (rs_in_flight s) h")
  case None
  then show ?thesis using assms(1) by (simp add: RsStrategy_chunk_sent_def)
next
  case (Some x)
  then obtain idx where x: "bt_get (rs_in_flight s) h = Some (peer, idx)" using assms(2) by (cases x) auto
  let ?s = "RsStrategy_chunk_sent s peer h ok"
  have hold: "holders (rs_planner ?s) i = (if i = idx then holders (rs_planner s) i - {peer} else holders (rs_planner s) i)" for i
    by (simp add: RsStrategy_chunk_sent_def x Let_def holders_record_sent holders_cancel)
  moreover have "rs_in_flight ?s = bt_remove h (rs_in_flight s)" "rs_next_handle ?s = rs_next_handle s"
    by (simp_all add: RsStrategy_chunk_sent_def x Let_def)
  moreover note inv = handles_invD [OF assms(1)]
  ultimately show ?thesis
    unfolding handles_inv_def
    by (intro conjI allI)
      (auto simp: ex_remove_unique [of "bt_get (rs_in_flight s)", OF x inv(2) [OF _ x]] split: if_splits intro: inv(1) inv(2))
qed

subsection \<open>Runs of a relay\<close>

text \<open>
  The calls the engine makes on a strategy. A send is reported for the peer the dispatch was
  addressed to (the debug assertion of \<open>chunk_sent\<close>), and the 64-bit handle counter has not wrapped.
\<close>

inductive rs_step :: "'e Crates \<Rightarrow> RsStrategy \<Rightarrow> RsStrategy \<Rightarrow> bool" for X where
  rs_take: "rs_step X s (fst (RsStrategy_take_chunk X s idx data))"
| rs_attach: "rs_step X s (RsStrategy_attach_peer s peer)"
| rs_detach: "rs_step X s (RsStrategy_detach_peer s peer completed)"
| rs_routing: "rs_step X s (fst (RsStrategy_routing_update s peer b))"
| rs_poll_routing: "rs_step X s (fst (RsStrategy_poll_routing s force))"
| rs_poll_chunks: "unat (rs_next_handle s) + length (bt_keys (rs_attached s)) < 2 ^ 64 \<Longrightarrow>
    rs_step X s (fst (RsStrategy_poll_chunks s))"
| rs_sent: "(\<And>p i. bt_get (rs_in_flight s) h = Some (p, i) \<Longrightarrow> p = peer) \<Longrightarrow>
    rs_step X s (RsStrategy_chunk_sent s peer h ok)"

inductive relay_reachable :: "'e Crates \<Rightarrow> Preamble \<Rightarrow> RsConfig \<Rightarrow> u64 \<Rightarrow> RsStrategy \<Rightarrow> bool"
  for X preamble config seed where
  relay_new: "RsStrategy_new_relay_with_seed preamble config seed = Inr s \<Longrightarrow>
    relay_reachable X preamble config seed s"
| relay_step: "relay_reachable X preamble config seed s \<Longrightarrow> rs_step X s s' \<Longrightarrow>
    relay_reachable X preamble config seed s'"

definition relay_inv :: "'e Crates \<Rightarrow> u32 \<Rightarrow> RsStrategy \<Rightarrow> bool" where
  "relay_inv X fm s \<longleftrightarrow> rs_inv X s \<and> handles_inv s \<and> budget_inv (rs_planner s) \<and>
     pl_mode (rs_planner s) = ModeRelay fm"

lemma relay_inv_cong:
  assumes "relay_inv X fm s" "rs_inv X t" "rs_planner t = rs_planner s" "rs_in_flight t = rs_in_flight s"
    "rs_next_handle t = rs_next_handle s"
  shows "relay_inv X fm t"
  using assms handles_inv_cong [of t s] by (simp add: relay_inv_def)

lemma poll_peer_relay:
  assumes "rs_inv X (fst acc)" "budget_inv (rs_planner (fst acc))" "pl_mode (rs_planner (fst acc)) = ModeRelay fm"
  shows "budget_inv (rs_planner (fst (poll_peer peer acc))) \<and> pl_mode (rs_planner (fst (poll_peer peer acc))) = ModeRelay fm"
proof (cases acc)
  case (Pair s ds)
  have "planner_inv (rs_planner s)" using assms(1) Pair by (simp add: rs_inv_def)
  then have "budget_inv (fst (EmitPlanner_allocate (rs_planner s) peer))"
    using budget_inv_allocate [of "rs_planner s" fm peer] assms(2,3) Pair by (simp add: planner_cap_def)
  moreover have "pl_mode (fst (EmitPlanner_allocate (rs_planner s) peer)) = ModeRelay fm" using assms(3) Pair by simp
  ultimately show ?thesis
    by (cases "EmitPlanner_allocate (rs_planner s) peer")
      (auto simp: Pair poll_peer_planner budget_inv_cancel planner_ops_mode split: option.split)
qed

lemma fold_poll_relay:
  assumes "rs_inv X (fst acc)" "budget_inv (rs_planner (fst acc))" "pl_mode (rs_planner (fst acc)) = ModeRelay fm"
  shows "budget_inv (rs_planner (fst (fold poll_peer peers acc))) \<and>
    pl_mode (rs_planner (fst (fold poll_peer peers acc))) = ModeRelay fm"
  using assms
proof (induction peers arbitrary: acc)
  case (Cons peer peers)
  then show ?case using poll_peer_relay [OF Cons.prems, of peer] poll_peer_inv [OF Cons.prems(1), of peer] by simp
qed simp

lemma relay_poll_chunks:
  assumes "relay_inv X fm s" "unat (rs_next_handle s) + length (bt_keys (rs_attached s)) < 2 ^ 64"
  shows "relay_inv X fm (fst (RsStrategy_poll_chunks s))"
  using assms poll_chunks_inv [of X s] poll_chunks_handles [of X s] fold_poll_relay [of X "(s, [])" fm]
  by (simp add: relay_inv_def RsStrategy_poll_chunks_def)

lemma relay_chunk_sent:
  assumes "relay_inv X fm s" "\<And>p i. bt_get (rs_in_flight s) h = Some (p, i) \<Longrightarrow> p = peer"
  shows "relay_inv X fm (RsStrategy_chunk_sent s peer h ok)"
proof (cases "bt_get (rs_in_flight s) h")
  case None
  then show ?thesis using assms(1) by (simp add: RsStrategy_chunk_sent_def)
next
  case (Some x)
  then obtain idx where x: "bt_get (rs_in_flight s) h = Some (peer, idx)" using assms(2) by (cases x) auto
  have r: "rs_inv X s" "handles_inv s" "budget_inv (rs_planner s)" "pl_mode (rs_planner s) = ModeRelay fm"
    using assms(1) by (auto simp: relay_inv_def)
  have "peer \<in> holders (rs_planner s) idx" using x handles_invD(3) [OF r(2)] by blast
  then have "budget_inv (rs_planner (RsStrategy_chunk_sent s peer h ok))"
    using r(3) by (auto simp: RsStrategy_chunk_sent_def x Let_def budget_inv_record_sent budget_inv_fail)
  moreover have "pl_mode (rs_planner (RsStrategy_chunk_sent s peer h ok)) = ModeRelay fm"
    using r(4) by (simp add: RsStrategy_chunk_sent_def x Let_def planner_ops_mode)
  moreover have "rs_inv X (RsStrategy_chunk_sent s peer h ok)"
    using rs.inv_sent [OF r(1), of peer h ok] by (simp add: RsStrategy_ops_def)
  ultimately show ?thesis
    using chunk_sent_handles [OF r(2) assms(2)] by (simp add: relay_inv_def)
qed

lemma relay_detach:
  assumes "relay_inv X fm s" shows "relay_inv X fm (RsStrategy_detach_peer s peer completed)"
proof -
  have "rs_inv X (RsStrategy_detach_peer s peer completed)"
    using rs.inv_detach [of X s peer completed] assms by (simp add: RsStrategy_ops_def relay_inv_def)
  moreover have "handles_inv (RsStrategy_detach_peer s peer completed)"
    using assms by (simp add: relay_inv_def detach_handles)
  ultimately show ?thesis
    using assms by (simp add: relay_inv_def RsStrategy_detach_peer_def budget_inv_remove_peer planner_ops_mode)
qed

lemma relay_routing:
  assumes "relay_inv X fm s" shows "relay_inv X fm (fst (RsStrategy_routing_update s peer b))"
proof -
  have "rs_inv X (fst (RsStrategy_routing_update s peer b))"
    using rs.inv_routing [of X s peer b] assms by (simp add: RsStrategy_ops_def relay_inv_def)
  moreover obtain m where m: "rs_planner (fst (RsStrategy_routing_update s peer b)) =
      EmitPlanner_set_peer_havelist (rs_planner s) peer m"
    by (simp add: RsStrategy_routing_update_def Let_def)
  moreover have "handles_inv (fst (RsStrategy_routing_update s peer b)) = handles_inv s"
    by (rule handles_inv_cong) (simp_all add: m holders_set_havelist, simp_all add: RsStrategy_routing_update_def Let_def)
  ultimately show ?thesis
    using assms by (simp add: relay_inv_def budget_inv_set_havelist planner_ops_mode)
qed

lemma relay_step_inv:
  assumes "rs_step X s s'" "relay_inv X fm s" shows "relay_inv X fm s'"
  using assms
proof (induction rule: rs_step.induct)
  case (rs_take s idx data)
  have "rs_next_handle (fst (RsStrategy_take_chunk X s idx data)) = rs_next_handle s"
    by (simp add: RsStrategy_take_chunk_def Let_def split: Verdict.split)
  then show ?case
    using rs_take by (intro relay_inv_cong [OF rs_take]) (simp_all add: relay_inv_def take_chunk_inv)
next
  case (rs_attach s peer)
  then show ?case
    using rs.inv_attach [of X s peer]
    by (intro relay_inv_cong [OF rs_attach]) (simp_all add: relay_inv_def RsStrategy_ops_def RsStrategy_attach_peer_def)
next
  case (rs_poll_routing s force)
  then show ?case
    using rs.inv_poll_routing [of X s force]
    by (intro relay_inv_cong [OF rs_poll_routing])
      (simp_all add: relay_inv_def RsStrategy_ops_def RsStrategy_poll_routing_def Let_def)
qed (simp_all add: relay_detach relay_routing relay_poll_chunks relay_chunk_sent)

lemma relay_reachable_inv: "relay_reachable X preamble config seed s \<Longrightarrow> relay_inv X (forward_multiplier config) s"
proof (induction rule: relay_reachable.induct)
  case (relay_new s)
  have "s = RsStrategy_with config preamble (replicate (unat (num_data preamble + num_parity preamble)) None)
      (EmitPlanner_new (num_data preamble + num_parity preamble) seed (ModeRelay (forward_multiplier config)))"
    using relay_new by (simp add: RsStrategy_new_relay_with_seed_def result_bind_Inr_iff Let_def)
  moreover have "holders (EmitPlanner_new n seed m) i = {}" "pl_mode (EmitPlanner_new n seed m) = m" for n m i
    by (simp_all add: holders_def EmitPlanner_new_def peer_state_def PeerState_default_def)
  ultimately show ?case
    using new_relay_inv [OF relay_new] by (simp add: relay_inv_def RsStrategy_with_def budget_inv_new handles_inv_def)
next
  case (relay_step s s')
  then show ?case using relay_step_inv by blast
qed

lemma card_outstanding:
  assumes "handles_inv s"
  shows "card {h. \<exists>p. bt_get (rs_in_flight s) h = Some (p, idx)} = card (holders (rs_planner s) idx)"
proof (rule bij_betw_same_card)
  let ?f = "\<lambda>h. fst (the (bt_get (rs_in_flight s) h))"
  show "bij_betw ?f {h. \<exists>p. bt_get (rs_in_flight s) h = Some (p, idx)} (holders (rs_planner s) idx)"
    unfolding bij_betw_def
  proof
    show "inj_on ?f {h. \<exists>p. bt_get (rs_in_flight s) h = Some (p, idx)}"
      using handles_invD(2) [OF assms] by (auto simp: inj_on_def)
    show "?f ` {h. \<exists>p. bt_get (rs_in_flight s) h = Some (p, idx)} = holders (rs_planner s) idx"
      using handles_invD(3) [OF assms] by (force simp: image_iff)
  qed
qed

subsection \<open>What is dispatched\<close>

text \<open>A peer is known to have a shard when the bitmap it announced says so. Polling learns nothing of what peers have.\<close>

definition known_to_have :: "EmitPlanner \<Rightarrow> PeerId \<Rightarrow> u32 \<Rightarrow> bool" where
  "known_to_have p peer idx \<longleftrightarrow> (case EmitPlanner_peer_havelist p peer of None \<Rightarrow> False | Some b \<Rightarrow> BitMap_get b idx)"

lemma known_to_have_state:
  "known_to_have p peer idx \<longleftrightarrow> (\<exists>b. ps_havelist (peer_state p peer) = Some b \<and> BitMap_get b idx)"
  by (auto simp: known_to_have_def EmitPlanner_peer_havelist_def peer_state_def bt_get_or_def PeerState_default_def split: option.splits)

lemma eligible_unknown: "eligible p peer idx \<Longrightarrow> \<not> known_to_have p peer idx"
  by (auto simp: eligible_def open_to_def known_to_have_state)

lemma allocate_known:
  assumes "heap_inv p" "EmitPlanner_allocate p peer = (p', r)"
  shows "ps_havelist (peer_state p' q) = ps_havelist (peer_state p q)"
proof (cases r)
  case None
  then show ?thesis using allocate_None(1) [of p peer p'] assms(2) by (simp add: peer_state_def)
next
  case (Some i)
  then show ?thesis using allocate_Some(3) [OF assms(1), of peer p' i] assms(2) by (simp add: peer_state_def)
qed

lemma poll_peer_known:
  assumes "planner_inv (rs_planner s)" "poll_peer peer (s, ds) = (s', ds')"
  shows "known_to_have (rs_planner s') = known_to_have (rs_planner s)"
proof -
  obtain p' r where al: "EmitPlanner_allocate (rs_planner s) peer = (p', r)" by fastforce
  have "ps_havelist (peer_state p' q) = ps_havelist (peer_state (rs_planner s) q)" for q
    using assms(1) by (intro allocate_known [OF _ al]) (simp add: planner_inv_def)
  moreover have "ps_havelist (peer_state (rs_planner s') q) = ps_havelist (peer_state p' q)" for q
    using assms(2)
    by (auto simp: poll_peer_def al RsStrategy_issue_handle_def EmitPlanner_cancel_in_flight_def peer_state_def Let_def
        split: option.splits if_splits)
  ultimately show ?thesis by (simp add: fun_eq_iff known_to_have_state)
qed

text \<open>A dispatch \<open>d\<close> issued by the poll that leads from \<open>s\<close> to \<open>s'\<close>.\<close>

definition dispatch_ok :: "RsStrategy \<Rightarrow> RsStrategy \<Rightarrow> u32 ChunkDispatch \<Rightarrow> bool" where
  "dispatch_ok s s' d \<longleftrightarrow>
     unat (cd_chunk_id d) < length (rs_chunks s) \<and> rs_chunks s ! unat (cd_chunk_id d) = Some (cd_payload d) \<and>
     bt_get (rs_in_flight s) (cd_handle d) = None \<and>
     bt_get (rs_in_flight s') (cd_handle d) = Some (cd_peer d, cd_chunk_id d) \<and>
     cd_peer d \<notin> holders (rs_planner s) (cd_chunk_id d) \<and> \<not> known_to_have (rs_planner s) (cd_peer d) (cd_chunk_id d)"

lemma fold_poll_dispatches:
  assumes "rs_inv X s" "handles_inv s" "unat (rs_next_handle s) + length peers < 2 ^ 64" "distinct peers"
    and "fold poll_peer peers (s, ds) = (s', ds')"
  shows "\<exists>new. ds' = ds @ new \<and> distinct (map cd_peer new) \<and> cd_peer ` set new \<subseteq> set peers \<and>
    (\<forall>d\<in>set new. dispatch_ok s s' d) \<and>
    (\<forall>h x. bt_get (rs_in_flight s) h = Some x \<longrightarrow> bt_get (rs_in_flight s') h = Some x)"
  using assms
proof (induction peers arbitrary: s ds)
  case (Cons peer peers)
  obtain s1 ds1 where step: "poll_peer peer (s, ds) = (s1, ds1)" by (cases "poll_peer peer (s, ds)")
  have inv: "planner_inv (rs_planner s)" using Cons.prems(1) by (simp add: rs_inv_def)
  have h1: "handles_inv s1 \<and> unat (rs_next_handle s1) \<le> unat (rs_next_handle s) + 1"
    using Cons.prems by (intro poll_peer_handles [OF inv _ _ step]) auto
  have r1: "rs_inv X s1" using poll_peer_inv [of X "(s, ds)" peer] Cons.prems(1) by (simp add: step)
  have ch: "rs_chunks s1 = rs_chunks s" "known_to_have (rs_planner s1) = known_to_have (rs_planner s)"
    using poll_peer_frame(3) [of peer "(s, ds)"] poll_peer_known [OF inv step] by (simp_all add: step)
  have "unat (rs_next_handle s1) + length peers < 2 ^ 64" using h1 Cons.prems(3) by simp
  moreover have "fold poll_peer peers (s1, ds1) = (s', ds')" using Cons.prems(5) by (simp add: step)
  ultimately obtain new where new: "ds' = ds1 @ new" "distinct (map cd_peer new)" "cd_peer ` set new \<subseteq> set peers"
    "\<forall>d\<in>set new. dispatch_ok s1 s' d"
    "\<forall>h x. bt_get (rs_in_flight s1) h = Some x \<longrightarrow> bt_get (rs_in_flight s') h = Some x"
    using Cons.IH [of s1 ds1] r1 h1 Cons.prems(4) by auto
  from inv step show ?case
  proof (cases rule: poll_peer_effect)
    case idle
    then have "dispatch_ok s1 s' d = dispatch_ok s s' d" for d by (simp add: dispatch_ok_def ch)
    then show ?thesis using new idle by auto
  next
    case (dispatch idx payload)
    let ?d = "\<lparr>cd_peer = peer, cd_chunk_id = idx, cd_handle = rs_next_handle s, cd_payload = payload\<rparr>"
    have fresh: "bt_get (rs_in_flight s) (rs_next_handle s) = None"
      using handles_invD(1) [OF Cons.prems(2)] by (cases "bt_get (rs_in_flight s) (rs_next_handle s)") auto
    have old: "bt_get (rs_in_flight s') h = Some x" if "bt_get (rs_in_flight s) h = Some x" for h x
      using that new(5) fresh by (metis bt_get_insert dispatch(5) option.distinct(1))
    have "dispatch_ok s s' ?d"
      using dispatch new(5) fresh eligible_unknown [OF dispatch(1)] by (simp add: dispatch_ok_def)
    moreover have "dispatch_ok s s' d" if "d \<in> set new" for d
    proof -
      have d: "dispatch_ok s1 s' d" using that new(4) by blast
      then have "bt_get (rs_in_flight s) (cd_handle d) = None"
        by (simp add: dispatch_ok_def dispatch(5) split: if_splits)
      with d show ?thesis by (simp add: dispatch_ok_def ch dispatch(7) split: if_splits)
    qed
    moreover have "peer \<notin> cd_peer ` set new" using new(3) Cons.prems(4) by auto
    ultimately show ?thesis
      using new(1-3) dispatch(4) old by (intro exI [of _ "?d # new"]) auto
  qed
qed simp

subsection \<open>A concrete relay\<close>

text \<open>Two shards over the repetition code, forward multiplier one; used by the witnesses.\<close>

definition demo_relay :: RsStrategy where
  "demo_relay = RsStrategy_with demo_config demo_preamble (replicate 2 None)
     (EmitPlanner_new 2 0 (ModeRelay 1))"

lemma demo_preamble_ok: "validate_preamble demo_preamble = Inr ()"
  by (simp add: validate_preamble_iff preamble_ok_def demo_preamble_def HASH_LEN_def)

lemma demo_relay_new: "RsStrategy_new_relay_with_seed demo_preamble demo_config 0 = Inr demo_relay"
  unfolding RsStrategy_new_relay_with_seed_def demo_preamble_ok
  by (simp add: demo_relay_def demo_preamble_def demo_config_def)

lemma demo_relay_reachable: "relay_reachable repetition_crates demo_preamble demo_config 0 demo_relay"
  by (rule relay_new [OF demo_relay_new])

lemma demo_attached:
  "rs_inv repetition_crates (RsStrategy_attach_peer demo_relay 5)" "handles_inv (RsStrategy_attach_peer demo_relay 5)"
proof -
  have "relay_reachable repetition_crates demo_preamble demo_config 0 (RsStrategy_attach_peer demo_relay 5)"
    by (rule relay_step [OF demo_relay_reachable rs_attach])
  from relay_reachable_inv [OF this]
  show "rs_inv repetition_crates (RsStrategy_attach_peer demo_relay 5)" "handles_inv (RsStrategy_attach_peer demo_relay 5)"
    by (simp_all add: relay_inv_def)
qed

text \<open>The relay holding both shards, with a peer that announced shard 0.\<close>

definition demo_informed :: RsStrategy where
  "demo_informed = fst (RsStrategy_routing_update (feed repetition_crates [(0, [7, 9]), (1, [7, 9])] (RsStrategy_attach_peer demo_relay 5)) 5
     (case BitMap_set (BitMap_with_capacity 2) 0 of Inl _ \<Rightarrow> BitMap_with_capacity 2 | Inr b \<Rightarrow> b))"

lemma demo_informed_reachable: "relay_reachable repetition_crates demo_preamble demo_config 0 demo_informed"
proof -
  have "relay_reachable repetition_crates demo_preamble demo_config 0 (RsStrategy_attach_peer demo_relay 5)"
    by (rule relay_step [OF demo_relay_reachable rs_attach])
  then have "relay_reachable repetition_crates demo_preamble demo_config 0
      (feed repetition_crates [(0, [7, 9]), (1, [7, 9])] (RsStrategy_attach_peer demo_relay 5))"
    unfolding feed_def by (simp, intro relay_step [OF relay_step [OF _ rs_take] rs_take])
  then show ?thesis unfolding demo_informed_def by (rule relay_step [OF _ rs_routing])
qed

lemma demo_informed_inv: "rs_inv repetition_crates demo_informed" "handles_inv demo_informed"
  using relay_reachable_inv [OF demo_informed_reachable] by (simp_all add: relay_inv_def)

lemma demo_informed_room: "unat (rs_next_handle demo_informed) + length (bt_keys (rs_attached demo_informed)) < 2 ^ 64"
proof -
  have "rs_next_handle demo_informed = 0" "bt_keys (rs_attached demo_informed) = [5]" by code_simp+
  then show ?thesis by simp
qed

lemma demo_informed_poll:
  "map (\<lambda>d. (cd_peer d, cd_chunk_id d, cd_payload d)) (snd (RsStrategy_poll_chunks demo_informed)) = [(5, 1, [7, 9])]"
  by code_simp

subsection \<open>Properties\<close>

text \<open>
  C10. Reconstruction under noise. A relay built from the preamble of an encoded payload is fed an
  arbitrary sequence of chunks (duplicates, out-of-range indices and corrupted data included). If
  the genuine shards of at least \<open>num_data\<close> indices occur in the sequence and no chunk collides with
  a shard under the hash, the relay can reconstruct and reconstruction returns the payload.
\<close>

theorem relay_reconstructs_payload:
  assumes "encode X payload c = Some (Inr (p, shards))" "sha_ok X"
    "rs_mds X (unat (num_data p)) (unat (num_parity p))"
    "RsStrategy_new_relay_with_seed p config seed = Inr s"
    "collision_free X shards xs"
    "unat (num_data p) \<le> card {unat i |i d. (i, d) \<in> set xs \<and> unat i < length shards \<and> d = shards ! unat i}"
  shows "RsStrategy_can_reconstruct (feed X xs s) \<and> RsStrategy_reconstruct X (feed X xs s) = Inr payload"
proof -
  obtain l where l: "encodes X payload p shards l"
    "\<exists>ss. shards_shape (unat (num_data p)) (unat (num_parity p)) l ss \<and>
      rs_encode X (unat (num_data p)) (unat (num_parity p)) ss = Inr shards"
    using encode_encodes [OF assms(1,3)] .
  note fresh = new_relay_fresh [OF assms(4)]
  have "chunks_inv X s" using new_relay_inv [OF assms(4), of X] by (simp add: rs_inv_def)
  moreover have "hashes (rs_preamble s) = map (sha256 X) shards" using l(1) fresh(1) by (simp add: encodes_def)
  ultimately have f: "chunks_inv X (feed X xs s)" "genuine shards (feed X xs s)" "rs_preamble (feed X xs s) = p"
    "{unat i |i d. (i, d) \<in> set xs \<and> unat i < length shards \<and> d = shards ! unat i} \<subseteq> held (feed X xs s)"
    using feed_props [OF _ fresh(2) _ assms(5)] fresh(1,3) by auto
  have "unat (num_data p) \<le> card (held (feed X xs s))"
    using assms(6) card_mono [OF finite_held f(4)] by simp
  then have "RsStrategy_can_reconstruct (feed X xs s)" by (simp add: can_reconstruct_iff [OF f(1)] f(3))
  then show ?thesis
    using genuine_reconstruct [OF f(1,2)] l assms(2,3) f(3) by simp
qed

theorem relay_reconstructs_payload_witness:
  "RsStrategy_reconstruct repetition_crates
     (feed repetition_crates [(9, [1]), (0, [8]), (1, [7, 9]), (1, [7, 9])] demo_relay) = Inr [7, 9]"
proof -
  let ?xs = "[(9, [1]), (0, [8]), (1, [7, 9]), (1, [7, 9])] :: (u32 \<times> bytes) list"
  have "{unat i |i d. (i, d) \<in> set ?xs \<and> unat i < length [[7, 9], [7, 9 :: u8]] \<and> d = [[7, 9], [7, 9]] ! unat i} = {1}"
    by (auto intro: exI [of _ 1])
  moreover have "collision_free repetition_crates [[7, 9], [7, 9]] ?xs"
    by (simp add: collision_free_def repetition_crates_def)
  ultimately show ?thesis
    using relay_reconstructs_payload [OF demo_encode _ _ demo_relay_new, of ?xs]
    by (simp add: demo_preamble_def)
qed

text \<open>
  C11. The forward multiplier bounds what a relay sends: in every state reachable by the engine's
  calls, the completed sends of a shard plus its outstanding dispatches are at most
  \<open>forward_multiplier\<close>.
\<close>

theorem relay_forward_bound:
  assumes "relay_reachable X preamble config seed s"
  shows "unat (EmitPlanner_sent_count (rs_planner s) idx) +
      card {h. \<exists>p. bt_get (rs_in_flight s) h = Some (p, idx)} \<le> unat (forward_multiplier config)"
proof -
  have inv: "relay_inv X (forward_multiplier config) s" using relay_reachable_inv [OF assms] .
  then have "card {h. \<exists>p. bt_get (rs_in_flight s) h = Some (p, idx)} = card (holders (rs_planner s) idx)"
    by (intro card_outstanding) (simp add: relay_inv_def)
  moreover have "unat (EmitPlanner_sent_count (rs_planner s) idx) + card (holders (rs_planner s) idx) \<le>
      unat (EmitPlanner_allocation_count (rs_planner s) idx)"
    using inv by (simp add: relay_inv_def budget_inv_def budget_used_def)
  moreover have "EmitPlanner_allocation_count (rs_planner s) idx \<le> forward_multiplier config"
    using inv by (simp add: relay_inv_def rs_inv_def planner_inv_def cap_inv_def planner_cap_def)
  ultimately show ?thesis by (simp add: word_le_nat_alt)
qed

text \<open>The shard that the relay dispatched stands for its whole budget.\<close>

theorem relay_forward_bound_witness:
  "card {h. \<exists>p. bt_get (rs_in_flight (fst (RsStrategy_poll_chunks demo_informed))) h = Some (p, 1)} = 1"
proof -
  let ?s = "fst (RsStrategy_poll_chunks demo_informed)"
  let ?H = "{h. \<exists>p. bt_get (rs_in_flight ?s) h = Some (p, 1)}"
  have r: "relay_reachable repetition_crates demo_preamble demo_config 0 ?s"
    by (rule relay_step [OF demo_informed_reachable rs_poll_chunks [OF demo_informed_room]])
  have "bt_get (rs_in_flight ?s) 0 = Some (5, 1)" by code_simp
  then have "?H \<noteq> {}" by blast
  then have "1 \<le> card ?H" by (simp add: Suc_le_eq card_gt_0_iff)
  moreover have "card ?H \<le> 1"
    using add_leD2 [OF relay_forward_bound [OF r, of 1]] by (simp add: demo_config_def)
  ultimately show ?thesis by (rule antisym [rotated])
qed

text \<open>
  C15. Every dispatch is well founded: a poll issues at most one dispatch per attached peer; each
  carries the stored, verified bytes of its shard, which was neither in flight to that peer nor marked in the bitmap
  the peer announced, and is recorded under a fresh handle that maps back to its peer and shard. The invariants are kept.
\<close>

theorem poll_chunks_dispatches:
  assumes "rs_inv X s" "handles_inv s" "unat (rs_next_handle s) + length (bt_keys (rs_attached s)) < 2 ^ 64"
    and "RsStrategy_poll_chunks s = (s', ds)"
  shows "distinct (map cd_peer ds) \<and> cd_peer ` set ds \<subseteq> bs_elems (rs_attached s) \<and>
    (\<forall>d\<in>set ds. unat (cd_chunk_id d) < length (rs_chunks s) \<and> rs_chunks s ! unat (cd_chunk_id d) = Some (cd_payload d) \<and>
      sha256 X (cd_payload d) = hashes (rs_preamble s) ! unat (cd_chunk_id d) \<and>
      cd_peer d \<notin> holders (rs_planner s) (cd_chunk_id d) \<and> \<not> known_to_have (rs_planner s) (cd_peer d) (cd_chunk_id d) \<and>
      bt_get (rs_in_flight s) (cd_handle d) = None \<and> bt_get (rs_in_flight s') (cd_handle d) = Some (cd_peer d, cd_chunk_id d)) \<and>
    rs_inv X s' \<and> handles_inv s'"
proof -
  have "fold poll_peer (bt_keys (rs_attached s)) (s, []) = (s', ds)"
    using assms(4) by (simp add: RsStrategy_poll_chunks_def)
  from fold_poll_dispatches [OF assms(1-3) distinct_bt_keys this]
  have "distinct (map cd_peer ds)" "cd_peer ` set ds \<subseteq> bs_elems (rs_attached s)" "\<forall>d\<in>set ds. dispatch_ok s s' d"
    by (auto simp: set_bt_keys_bs_elems)
  moreover have "sha256 X (cd_payload d) = hashes (rs_preamble s) ! unat (cd_chunk_id d)" if "dispatch_ok s s' d" for d
    using that assms(1) by (simp add: dispatch_ok_def rs_inv_def chunks_inv_def)
  ultimately show ?thesis
    using poll_chunks_inv [OF assms(1)] poll_chunks_handles [OF assms(1-3)] assms(4) by (auto simp: dispatch_ok_def)
qed

text \<open>The peer announced that it has shard 0, and is sent shard 1.\<close>

theorem poll_chunks_dispatches_witness:
  "map (\<lambda>d. (cd_peer d, cd_chunk_id d, cd_payload d)) (snd (RsStrategy_poll_chunks demo_informed)) = [(5, 1, [7, 9])] \<and>
   known_to_have (rs_planner demo_informed) 5 0 \<and> \<not> known_to_have (rs_planner demo_informed) 5 1 \<and>
   bt_get (rs_in_flight (fst (RsStrategy_poll_chunks demo_informed))) (cd_handle (hd (snd (RsStrategy_poll_chunks demo_informed)))) = Some (5, 1)"
proof -
  let ?ds = "snd (RsStrategy_poll_chunks demo_informed)"
  have ds: "map (\<lambda>d. (cd_peer d, cd_chunk_id d, cd_payload d)) ?ds = [(5, 1, [7, 9])]" by (rule demo_informed_poll)
  then have hd: "hd ?ds \<in> set ?ds" "cd_peer (hd ?ds) = 5" "cd_chunk_id (hd ?ds) = 1" by (auto simp: map_eq_Cons_conv)
  have "known_to_have (rs_planner demo_informed) 5 0" by code_simp
  with ds hd show ?thesis
    using poll_chunks_dispatches [OF demo_informed_inv demo_informed_room prod.collapse [symmetric]] by fastforce
qed

text \<open>
  Taking a chunk, on every branch: an index beyond the shards is an error and changes nothing; a
  shard already held is \<open>Redundant\<close>; data with the announced digest is stored and \<open>Accepted\<close>; any
  other data is \<open>Invalid\<close> and changes nothing. The strategy is complete exactly when it holds
  \<open>num_data\<close> shards, and the invariant (stored chunks are the announced ones) is kept.
\<close>

theorem take_chunk_spec:
  assumes "rs_inv X s"
  shows "RsStrategy_take_chunk X s idx data =
    (if length (rs_chunks s) \<le> unat idx
     then (s, Inl (TakeOutOfRange (ucast idx) (ucast (RsStrategy_total_shards s))))
     else if rs_chunks s ! unat idx \<noteq> None
     then (s, Inr \<lparr>to_verdict = Redundant, to_complete = (unat (num_data (rs_preamble s)) \<le> card (held s))\<rparr>)
     else if sha256 X data = hashes (rs_preamble s) ! unat idx
     then (s\<lparr>rs_chunks := (rs_chunks s)[unat idx := Some data]\<rparr>,
       Inr \<lparr>to_verdict = Accepted,
         to_complete = (unat (num_data (rs_preamble s)) \<le> card (insert (unat idx) (held s)))\<rparr>)
     else (s, Inr \<lparr>to_verdict = Invalid, to_complete = False\<rparr>)) \<and>
    rs_inv X (fst (RsStrategy_take_chunk X s idx data))"
proof -
  have c: "chunks_inv X s" using assms by (simp add: rs_inv_def)
  let ?s = "s\<lparr>rs_chunks := (rs_chunks s)[unat idx := Some data]\<rparr>"
  have "RsStrategy_can_reconstruct ?s \<longleftrightarrow> unat (num_data (rs_preamble s)) \<le> card (insert (unat idx) (held s))"
    if "unat idx < length (rs_chunks s)" "rs_chunks s ! unat idx = None"
      "sha256 X data = hashes (rs_preamble s) ! unat idx"
    using that take_chunk_chunks_inv [OF c, of idx data] held_take_chunk [OF c, of idx data]
      can_reconstruct_iff [of X ?s] by (simp add: take_chunk_cases [OF c] Let_def)
  then show ?thesis
    using take_chunk_inv [OF assms] by (auto simp: take_chunk_cases [OF c] can_reconstruct_iff [OF c] Let_def)
qed

theorem take_chunk_spec_witness:
  "snd (RsStrategy_take_chunk repetition_crates (RsStrategy_attach_peer demo_relay 5) 1 [7, 9]) =
     Inr \<lparr>to_verdict = Accepted, to_complete = True\<rparr>"
proof -
  let ?s = "RsStrategy_attach_peer demo_relay 5"
  have "held ?s = {}" by (auto simp: held_def RsStrategy_attach_peer_def demo_relay_def RsStrategy_with_def)
  then show ?thesis
    using take_chunk_spec [OF demo_attached(1), of 1 "[7, 9]"]
    by (simp add: RsStrategy_attach_peer_def demo_relay_def RsStrategy_with_def demo_preamble_def
        repetition_crates_def)
qed

text \<open>
  A relay's poll spends forwarding budget on shards it does not hold. When the planner picks a
  shard whose slot is empty, \<open>poll_chunks\<close> cancels the in-flight mark but does not refund the
  allocation: nothing is dispatched and the count stays raised. The comment at the cancel says that
  the planner would not allocate a shard the relay does not have.
\<close>

theorem poll_unheld_leaks_budget:
  assumes "rs_inv X s" "bt_keys (rs_attached s) = [peer]"
    and "snd (EmitPlanner_allocate (rs_planner s) peer) = Some idx" "rs_chunks s ! unat idx = None"
    and "RsStrategy_poll_chunks s = (s', ds)"
  shows "ds = [] \<and> rs_in_flight s' = rs_in_flight s \<and>
    (\<forall>i. holders (rs_planner s') i = holders (rs_planner s) i) \<and>
    EmitPlanner_allocation_count (rs_planner s') idx = EmitPlanner_allocation_count (rs_planner s) idx + 1"
proof -
  have h: "heap_inv (rs_planner s)" using assms(1) by (simp add: rs_inv_def planner_inv_def)
  obtain q where q: "EmitPlanner_allocate (rs_planner s) peer = (q, Some idx)"
    using assms(3) by (cases "EmitPlanner_allocate (rs_planner s) peer") auto
  note al = allocate_Some [OF h q]
  have new: "peer \<notin> holders (rs_planner s) idx" using al(1) by (simp add: eligible_def open_to_def holders_def)
  have "(s', ds) = (s\<lparr>rs_planner := EmitPlanner_cancel_in_flight q peer idx\<rparr>, [])"
    using assms(2,4,5) poll_peer_unheld [OF q] by (simp add: RsStrategy_poll_chunks_def)
  then show ?thesis
    using new by (auto simp: counts_frame holders_cancel holders_allocate [OF h q])
      (simp add: EmitPlanner_allocation_count_def al(2))
qed

text \<open>
  The witness runs the concrete relay: two polls before any chunk arrives exhaust the budget of both
  shards, and once both chunks are held nothing is ever dispatched to the attached peer.
\<close>

theorem poll_unheld_leaks_budget_witness:
  "snd (RsStrategy_poll_chunks (RsStrategy_attach_peer demo_relay 5)) = [] \<and>
   snd (RsStrategy_poll_chunks (feed repetition_crates [(0, [7, 9]), (1, [7, 9])]
     (fst (RsStrategy_poll_chunks (fst (RsStrategy_poll_chunks (RsStrategy_attach_peer demo_relay 5))))))) = []"
proof
  have "bt_keys (rs_attached (RsStrategy_attach_peer demo_relay 5)) = [5]" by code_simp
  moreover have "snd (EmitPlanner_allocate (rs_planner (RsStrategy_attach_peer demo_relay 5)) 5) = Some 0" by code_simp
  moreover have "rs_chunks (RsStrategy_attach_peer demo_relay 5) ! unat (0 :: u32) = None"
    by (simp add: RsStrategy_attach_peer_def demo_relay_def RsStrategy_with_def)
  ultimately show "snd (RsStrategy_poll_chunks (RsStrategy_attach_peer demo_relay 5)) = []"
    using poll_unheld_leaks_budget [OF demo_attached(1) _ _ _ prod.collapse [symmetric]] by blast
  show "snd (RsStrategy_poll_chunks (feed repetition_crates [(0, [7, 9]), (1, [7, 9])]
     (fst (RsStrategy_poll_chunks (fst (RsStrategy_poll_chunks (RsStrategy_attach_peer demo_relay 5))))))) = []"
    by code_simp
qed

end
