(* ===== verification/RsSession.thy ===== *)
theory RsSession
  imports RsState
begin

text \<open>
  Sessions over the Reed-Solomon strategy: the session state machine of \<open>session.rs\<close> composed with
  \<open>strategy/rs/state.rs\<close>, from a fresh relay session to the delivered payload.
\<close>

definition demo_session :: "RsStrategy Session" where
  "demo_session = Session_new_relay demo_relay"

definition feed_session :: "('s, 'c, 'r, 'e) StrategyOps \<Rightarrow> ('c \<times> bytes) list \<Rightarrow> 's Session \<Rightarrow> 's Session" where
  "feed_session S xs se = fold (\<lambda>(i, d) se. fst (Session_take_chunk S se i d)) xs se"

text \<open>Where a relay session stands while it is fed: still short of shards, or ready to decode.\<close>

definition consuming_inv :: "'e Crates \<Rightarrow> Preamble \<Rightarrow> bytes list \<Rightarrow> RsStrategy Session \<Rightarrow> bool" where
  "consuming_inv X p shards se \<longleftrightarrow>
     chunks_inv X (se_strategy se) \<and> genuine shards (se_strategy se) \<and> rs_preamble (se_strategy se) = p \<and>
     (se_state se = Consuming \<and> \<not> RsStrategy_can_reconstruct (se_strategy se) \<or>
      se_state se = SDecoding \<and> RsStrategy_can_reconstruct (se_strategy se))"

lemma rs_ops_take [simp]: "st_take_chunk (RsStrategy_ops X) = RsStrategy_take_chunk X"
  by (simp add: RsStrategy_ops_def)

lemma rs_ops_decode [simp]: "st_decode (RsStrategy_ops X) = RsStrategy_reconstruct X"
  by (simp add: RsStrategy_ops_def)

lemma consuming_step:
  assumes inv: "consuming_inv X p shards se" and h: "hashes p = map (sha256 X) shards"
    and cf: "collision_free X shards ((i, d) # xs)"
  defines "se' \<equiv> fst (Session_take_chunk (RsStrategy_ops X) se i d)"
  shows "consuming_inv X p shards se'"
    "se_state se = Consuming \<Longrightarrow> unat i < length shards \<Longrightarrow> d = shards ! unat i \<Longrightarrow> unat i \<in> held (se_strategy se')"
    "held (se_strategy se) \<subseteq> held (se_strategy se')"
    "se_state se = SDecoding \<Longrightarrow> se' = se"
proof -
  let ?s = "se_strategy se"
  have c: "chunks_inv X ?s" "genuine shards ?s" "rs_preamble ?s = p"
    using inv by (simp_all add: consuming_inv_def)
  show dec: "se_state se = SDecoding \<Longrightarrow> se' = se" by (simp add: se'_def Session_take_chunk_def)
  have con: "se_strategy se' = fst (RsStrategy_take_chunk X ?s i d) \<and>
      (se_state se' = Consuming \<and> \<not> RsStrategy_can_reconstruct (se_strategy se') \<or>
       se_state se' = SDecoding \<and> RsStrategy_can_reconstruct (se_strategy se'))" if "se_state se = Consuming"
    using that inv c(1)
    by (auto simp: se'_def Session_take_chunk_def take_chunk_cases Let_def consuming_inv_def)
  show "consuming_inv X p shards se'"
  proof (cases "se_state se = Consuming")
    case True
    then show ?thesis
      using con c h cf take_chunk_chunks_inv [OF c(1), of i d] genuine_take_chunk [OF c(1,2) _ cf]
      by (auto simp: consuming_inv_def)
  next
    case False
    then show ?thesis using inv dec by (auto simp: consuming_inv_def)
  qed
  have len: "length shards = length (rs_chunks ?s)" using c h by (simp add: chunks_inv_def)
  show "se_state se = Consuming \<Longrightarrow> unat i < length shards \<Longrightarrow> d = shards ! unat i \<Longrightarrow> unat i \<in> held (se_strategy se')"
    using con held_take_chunk [OF c(1), of i d] c(3) h len by simp
  show "held (se_strategy se) \<subseteq> held (se_strategy se')"
    using con dec held_take_chunk [OF c(1), of i d] inv
    by (cases "se_state se") (auto simp: consuming_inv_def split: if_splits)
qed

lemma feed_session_inv:
  assumes "consuming_inv X p shards se" "hashes p = map (sha256 X) shards" "collision_free X shards xs"
  defines "se' \<equiv> feed_session (RsStrategy_ops X) xs se"
  shows "consuming_inv X p shards se' \<and>
    (se_state se' = Consuming \<longrightarrow>
      held (se_strategy se) \<union> {unat i |i d. (i, d) \<in> set xs \<and> unat i < length shards \<and> d = shards ! unat i}
        \<subseteq> held (se_strategy se')) \<and>
    (se_state se = SDecoding \<longrightarrow> se_state se' = SDecoding)"
  using assms(1,3) unfolding se'_def
proof (induction xs arbitrary: se)
  case (Cons x xs)
  obtain i d where x: "x = (i, d)" by (cases x)
  let ?se = "fst (Session_take_chunk (RsStrategy_ops X) se i d)" and ?f = "feed_session (RsStrategy_ops X) xs"
  note step = consuming_step [OF Cons.prems(1) assms(2) Cons.prems(2) [unfolded x]]
  have cf: "collision_free X shards xs" using Cons.prems(2) by (simp add: collision_free_def)
  have eq: "feed_session (RsStrategy_ops X) (x # xs) se = ?f ?se" by (simp add: feed_session_def x)
  note ih = Cons.IH [OF step(1) cf]
  have "se_state se = Consuming \<or> se_state se = SDecoding" using Cons.prems(1) by (auto simp: consuming_inv_def)
  then show ?case
  proof
    assume st: "se_state se = Consuming"
    then show ?thesis using ih step(2,3) unfolding eq by (auto simp: x)
  next
    assume "se_state se = SDecoding"
    then show ?thesis using ih step(4) unfolding eq by auto
  qed
qed (simp add: feed_session_def)

subsection \<open>Properties\<close>

text \<open>
  C16. The session life cycle: whatever sequence of operations is applied, the state only moves
  forward along Consuming, Decoding, then Reconstructed or Failed; each single operation is either
  silent or one arrow of the documented diagram; and origin, reconstructed and failed sessions
  never change state.
\<close>

theorem session_lifecycle:
  assumes "(session_step S)\<^sup>*\<^sup>* se se'"
  shows "state_rank (se_state se) \<le> state_rank (se_state se') \<and>
    (se_state se \<in> {SOrigin, Reconstructed, Failed} \<longrightarrow> se_state se' = se_state se) \<and>
    (\<forall>se''. session_step S se' se'' \<longrightarrow> se_state se'' = se_state se' \<or> session_trans (se_state se') (se_state se''))"
  using session_steps_rank [OF assms] session_steps_terminal [OF assms] session_step_state by blast

text \<open>
  A session hands out its payload at most once: after a decode that returned a payload, no
  later decode returns one, whatever happens in between, and every chunk offered is refused as
  surplus without changing the session.
\<close>

theorem session_delivers_once:
  assumes "snd (Session_decode_and_finish S se) = Inr payload"
    "(session_step S)\<^sup>*\<^sup>* (fst (Session_decode_and_finish S se)) se'"
  shows "snd (Session_decode_and_finish S se') = Inl (NotDecoding Reconstructed) \<and>
    Session_take_chunk S se' idx data = (se', Inl (PostConsuming Surplus))"
proof -
  have "se_state se' = Reconstructed"
    using session_steps_terminal [OF assms(2)] decode_final_state [OF assms(1)] by simp
  then show ?thesis by (simp add: Session_decode_and_finish_def Session_take_chunk_def)
qed

text \<open>The session takes a shard, which completes it, and decodes; a chunk that comes later leaves it \<open>Reconstructed\<close>.\<close>

theorem session_lifecycle_witness:
  "let S = RsStrategy_ops repetition_crates; se1 = fst (Session_take_chunk S demo_session 1 [7, 9]);
     se2 = fst (Session_decode_and_finish S se1); se3 = fst (Session_take_chunk S se2 0 [8])
   in se_state demo_session = Consuming \<and> se_state se1 = SDecoding \<and> session_trans Consuming SDecoding \<and>
     se_state se2 = Reconstructed \<and> session_trans SDecoding Reconstructed \<and> se_state se3 = Reconstructed"
proof -
  let ?S = "RsStrategy_ops repetition_crates"
  let ?se1 = "fst (Session_take_chunk ?S demo_session 1 [7, 9])"
  let ?se2 = "fst (Session_decode_and_finish ?S ?se1)" and ?se3 = "fst (Session_take_chunk ?S (fst (Session_decode_and_finish ?S
    (fst (Session_take_chunk ?S demo_session 1 [7, 9])))) 0 [8])"
  have st: "se_state demo_session = Consuming" "se_state ?se1 = SDecoding" "se_state ?se2 = Reconstructed" by code_simp+
  have "session_trans Consuming SDecoding"
    using session_lifecycle [OF rtranclp.rtrancl_refl, of demo_session ?S] sess_take [of ?S demo_session 1 "[7, 9]"] st by fastforce
  moreover have "session_trans SDecoding Reconstructed"
    using session_lifecycle [OF rtranclp.rtrancl_refl, of ?se1 ?S] sess_decode [of ?S ?se1] st by fastforce
  moreover have "se_state ?se3 = Reconstructed"
    using session_lifecycle [OF r_into_rtranclp [of "session_step ?S", OF sess_take], of ?se2 0 "[8]"] st(3) by simp
  ultimately show ?thesis unfolding Let_def using st by blast
qed

text \<open>
  C12. From the first chunk to the payload: a relay session built from the preamble of an encoded
  payload is offered any sequence of chunks. If the genuine shards of at least \<open>num_data\<close> indices
  occur among them and no chunk collides under the hash, the session ends up ready to decode, and
  decoding moves it to \<open>Reconstructed\<close> and returns exactly the payload.
\<close>

theorem session_reconstructs_payload:
  assumes "encode X payload c = Some (Inr (p, shards))" "sha_ok X"
    "rs_mds X (unat (num_data p)) (unat (num_parity p))"
    "RsStrategy_new_relay_with_seed p config seed = Inr s"
    "collision_free X shards xs"
    "unat (num_data p) \<le> card {unat i |i d. (i, d) \<in> set xs \<and> unat i < length shards \<and> d = shards ! unat i}"
  shows "let se = feed_session (RsStrategy_ops X) xs (Session_new_relay s);
             (se', r) = Session_decode_and_finish (RsStrategy_ops X) se
         in se_state se = SDecoding \<and> se_state se' = Reconstructed \<and> r = Inr payload"
proof -
  obtain l where l: "encodes X payload p shards l"
    "\<exists>ss. shards_shape (unat (num_data p)) (unat (num_parity p)) l ss \<and>
      rs_encode X (unat (num_data p)) (unat (num_parity p)) ss = Inr shards"
    using encode_encodes [OF assms(1,3)] .
  note fresh = new_relay_fresh [OF assms(4)]
  have h: "hashes p = map (sha256 X) shards" "0 < unat (num_data p)" using l(1) by (simp_all add: encodes_def)
  have "chunks_inv X s" using new_relay_inv [OF assms(4), of X] by (simp add: rs_inv_def)
  then have "consuming_inv X p shards (Session_new_relay s)"
    using fresh h(2) by (simp add: consuming_inv_def Session_new_relay_def can_reconstruct_iff)
  note f = feed_session_inv [OF this h(1) assms(5)]
  let ?se = "feed_session (RsStrategy_ops X) xs (Session_new_relay s)"
  have inv: "consuming_inv X p shards ?se" using f by blast
  have "se_state ?se \<noteq> Consuming"
  proof
    assume con: "se_state ?se = Consuming"
    have "card {unat i |i d. (i, d) \<in> set xs \<and> unat i < length shards \<and> d = shards ! unat i} \<le> card (held (se_strategy ?se))"
      using f con by (intro card_mono) auto
    then have "unat (num_data p) \<le> card (held (se_strategy ?se))" using assms(6) by simp
    with inv con show False by (auto simp: consuming_inv_def can_reconstruct_iff)
  qed
  then have dec: "se_state ?se = SDecoding" "RsStrategy_can_reconstruct (se_strategy ?se)"
    using inv by (auto simp: consuming_inv_def)
  have "RsStrategy_reconstruct X (se_strategy ?se) = Inr payload"
    using genuine_reconstruct [of X "se_strategy ?se" shards payload l] inv l assms(2,3) dec(2)
    by (simp add: consuming_inv_def)
  then show ?thesis using dec(1) by (simp add: Session_decode_and_finish_def Let_def)
qed

theorem session_reconstructs_payload_witness:
  "snd (Session_decode_and_finish (RsStrategy_ops repetition_crates)
     (feed_session (RsStrategy_ops repetition_crates) [(0, [8]), (1, [7, 9])] demo_session)) = Inr [7, 9]"
proof -
  let ?xs = "[(0, [8]), (1, [7, 9])] :: (u32 \<times> bytes) list"
  have "{unat i |i d. (i, d) \<in> set ?xs \<and> unat i < length [[7, 9], [7, 9 :: u8]] \<and> d = [[7, 9], [7, 9]] ! unat i} = {1}"
    by (auto intro: exI [of _ 1])
  moreover have "collision_free repetition_crates [[7, 9], [7, 9]] ?xs"
    by (simp add: collision_free_def repetition_crates_def)
  ultimately show ?thesis
    using session_reconstructs_payload [OF demo_encode _ _ demo_relay_new, of ?xs]
    by (simp add: demo_preamble_def demo_session_def Let_def case_prod_unfold)
qed

theorem session_delivers_once_witness:
  "snd (Session_decode_and_finish (RsStrategy_ops repetition_crates) (fst (Session_decode_and_finish
     (RsStrategy_ops repetition_crates)
     (feed_session (RsStrategy_ops repetition_crates) [(1, [7, 9])] demo_session)))) = Inl (NotDecoding Reconstructed)"
proof -
  have "snd (Session_decode_and_finish (RsStrategy_ops repetition_crates)
     (feed_session (RsStrategy_ops repetition_crates) [(1, [7, 9])] demo_session)) = Inr [7, 9]"
    by code_simp
  from session_delivers_once [OF this rtranclp.rtrancl_refl] show ?thesis by blast
qed

end
