(* ===== verification/RsEngine.thy ===== *)
theory RsEngine
  imports EngineLife RsSession
begin

text \<open>
  The engine running the Reed-Solomon strategy: the relay factories of \<open>engine.rs\<close>, the
  interpretation of the engine library on them, the reachable engine states, and the end-to-end
  behaviour of a relay. The decoder of \<open>proto/rs.proto\<close> messages is generated code and is the
  parameter \<open>pb_decode\<close>.
\<close>

definition rs_relay_factory ::
  "(bytes \<Rightarrow> Preamble option) \<Rightarrow> RsConfig \<Rightarrow> (u64 \<Rightarrow> u64) \<Rightarrow> RsStrategy StrategyFactory" where
  "rs_relay_factory pb_decode config seed_at n preamble_bytes =
     (n + 1,
      (case pb_decode preamble_bytes of
         None \<Rightarrow> Inl (InvalidPreamble PreambleUndecodable)
       | Some preamble \<Rightarrow> map_err (\<lambda>e. InvalidPreamble (PreambleRejected e))
           (RsStrategy_new_relay_with_seed preamble config (seed_at n))))"

definition rs_relay_factory_seeded ::
  "(bytes \<Rightarrow> Preamble option) \<Rightarrow> RsConfig \<Rightarrow> u64 \<Rightarrow> RsStrategy StrategyFactory" where
  "rs_relay_factory_seeded pb_decode config base_seed n preamble_bytes =
     (case pb_decode preamble_bytes of
        None \<Rightarrow> (n, Inl (InvalidPreamble PreambleUndecodable))
      | Some preamble \<Rightarrow>
          (n + 1, map_err (\<lambda>e. InvalidPreamble (PreambleRejected e))
            (RsStrategy_new_relay_with_seed preamble config (base_seed + n))))"

definition rs_env ::
  "'e Crates \<Rightarrow> 'n NetOp \<Rightarrow> ('d \<Rightarrow> DeliveredMessage \<Rightarrow> 'd) \<Rightarrow> (RsStrategy, 'e DecodeError, 'n, 'd) EngineEnv" where
  "rs_env X send try_send = \<lparr>ev_strategy = RsStrategy_ops X, ev_send = send, ev_try_send = try_send\<rparr>"

lemma rs_env_simps [simp]:
  "ev_strategy (rs_env X send try_send) = RsStrategy_ops X"
  "ev_send (rs_env X send try_send) = send"
  "ev_try_send (rs_env X send try_send) = try_send"
  by (simp_all add: rs_env_def)

interpretation rs_eng: broadcast_engine "rs_env X send try_send" "rs_inv X" rs_work
  for X :: "'e Crates" and send :: "'n NetOp" and try_send :: "'d \<Rightarrow> DeliveredMessage \<Rightarrow> 'd"
  unfolding broadcast_engine_def rs_env_simps by (rule rs.broadcast_strategy_axioms)

lemma factory_inv:
  "rs_relay_factory pb_decode config seed_at n b = (n', Inr s) \<Longrightarrow> rs_inv X s"
  "rs_relay_factory_seeded pb_decode config base n b = (n', Inr s) \<Longrightarrow> rs_inv X s"
  by (auto simp: rs_relay_factory_def rs_relay_factory_seeded_def intro: new_relay_inv split: option.splits)

subsection \<open>Reachable engines\<close>

inductive engine_reachable ::
  "'e Crates \<Rightarrow> 'n NetOp \<Rightarrow> ('d \<Rightarrow> DeliveredMessage \<Rightarrow> 'd) \<Rightarrow> (RsStrategy, 'n, 'd) Engine \<Rightarrow> bool" for X send try_send where
  eng_new: "engine_reachable X send try_send (Engine_with_config p n d config now)"
| eng_step: "engine_reachable X send try_send e \<Longrightarrow>
    run_one_step (rs_env X send try_send) now ev e = Some (e', r) \<Longrightarrow> engine_reachable X send try_send e'"
| eng_publish: "engine_reachable X send try_send e \<Longrightarrow>
    RsStrategy_new_origin_with_seed X payload config seed = Some (Inr s) \<Longrightarrow>
    Engine_publish (rs_env X send try_send) now c m s b e = Some (e', r) \<Longrightarrow> engine_reachable X send try_send e'"
| eng_subscribe: "engine_reachable X send try_send e \<Longrightarrow>
    engine_reachable X send try_send (fst (Engine_subscribe (rs_env X send try_send) c (rs_relay_factory pb_decode config seed_at) e))"
| eng_subscribe_seeded: "engine_reachable X send try_send e \<Longrightarrow>
    engine_reachable X send try_send (fst (Engine_subscribe (rs_env X send try_send) c (rs_relay_factory_seeded pb_decode config base) e))"
| eng_connect: "engine_reachable X send try_send e \<Longrightarrow>
    engine_reachable X send try_send (fst (Engine_connect (rs_env X send try_send) peer e))"

lemma origin_inv:
  assumes "RsStrategy_new_origin_with_seed X payload config seed = Some (Inr s)" "sha_ok X" "rs_ok X"
  shows "rs_inv X s"
proof -
  obtain p shards where enc: "encode X payload config = Some (Inr (p, shards))" "rs_preamble s = p"
    using assms(1) by (auto simp: RsStrategy_new_origin_with_seed_def result_bind_Inr_iff RsStrategy_with_def split: option.splits)
  show ?thesis using new_origin_inv [OF assms(1,2)] encode_rs_ok [OF enc(1) assms(3)] enc(2) by simp
qed

lemma engine_reachable_inv:
  assumes "engine_reachable X send try_send e" "sha_ok X" "rs_ok X"
  shows "engine_inv (rs_inv X) e"
  using assms(1)
proof (induction rule: engine_reachable.induct)
  case (eng_new p n d config now)
  show ?case by (rule engine_inv_new)
next
  case (eng_step e now ev e' r)
  then show ?case using rs_eng.run_one_step_returns [of X e send try_send now ev] by auto
next
  case (eng_publish e payload config seed s now c m b e' r)
  have "rs_inv X s" using origin_inv eng_publish.hyps(2) assms(2,3) by blast
  then show ?case using rs_eng.publish_returns [of X e s send try_send now c m b] eng_publish by auto
next
  case (eng_subscribe e c pb_decode config seed_at)
  then show ?case by (intro rs_eng.subscribe_inv) (auto intro: factory_inv)
next
  case (eng_subscribe_seeded e c pb_decode config base)
  then show ?case by (intro rs_eng.subscribe_inv) (auto intro: factory_inv)
next
  case (eng_connect e peer)
  then show ?case by (simp add: Engine_connect_def rs_eng.register_inv)
qed

subsection \<open>What draining does to a Reed-Solomon session\<close>

text \<open>The part of a session that decides reconstruction: its state, its chunks and its preamble.\<close>

definition view :: "RsStrategy Session \<Rightarrow> SessionState \<times> bytes option list \<times> Preamble" where
  "view se = (se_state se, rs_chunks (se_strategy se), rs_preamble (se_strategy se))"

lemma poll_view: "view (fst (Session_poll (RsStrategy_ops X) se)) = view se"
  by (simp add: view_def Session_poll_def case_prod_unfold RsStrategy_ops_def RsStrategy_poll_chunks_def)
    (simp add: RsStrategy_poll_routing_def Let_def)

lemma sent_view: "view (Session_chunk_sent (RsStrategy_ops X) se p h ok) = view se"
  by (auto simp: view_def Session_chunk_sent_def RsStrategy_ops_def RsStrategy_chunk_sent_def Let_def split: option.split)

lemma drain_view:
  assumes "drain_session (rs_env X send try_send) c m e = Some (e', r)"
  shows "map_option view (session_of e' c m) = map_option view (session_of e c m)"
proof -
  let ?Q = "\<lambda>x. map_option view (session_of x c m) = map_option view (session_of e c m)"
  have poll: "?Q (fst (poll_session (rs_env X send try_send) c m x))" if "?Q x" for x
    using that poll_view [of X]
    by (auto simp: poll_session_def case_prod_unfold session_of_set_session split: option.split)
  have sent: "?Q (notify_chunk_sent (rs_env X send try_send) c m p t False x)" if "?Q x" for p t x
    using that by (auto simp: notify_chunk_sent_def session_of_set_session sent_view split: option.split)
  have "drain_closed (rs_env X send try_send) c m ?Q"
    unfolding drain_closed_def
    by (intro conjI allI impI poll sent) (simp_all add: session_of_def)
  from drain_session_keeps [OF assms this] show ?thesis by simp
qed

lemma view_cong:
  assumes "view se = view se'"
  shows "se_state se = se_state se'" "rs_preamble (se_strategy se) = rs_preamble (se_strategy se')"
    "chunks_inv X (se_strategy se) = chunks_inv X (se_strategy se')"
    "genuine shards (se_strategy se) = genuine shards (se_strategy se')"
    "held (se_strategy se) = held (se_strategy se')"
    "RsStrategy_can_reconstruct (se_strategy se) = RsStrategy_can_reconstruct (se_strategy se')"
    "RsStrategy_reconstruct X (se_strategy se) = RsStrategy_reconstruct X (se_strategy se')"
    "consuming_inv X p shards se = consuming_inv X p shards se'"
  using assms by (simp_all add: view_def chunks_inv_def genuine_def held_def RsStrategy_can_reconstruct_def
      RsStrategy_accepted_count_def RsStrategy_reconstruct_def held_pairs_def consuming_inv_def)

subsection \<open>A relay session inside the engine\<close>

text \<open>
  The session \<open>(c, m)\<close> of an engine with delivery sink \<open>T\<close>: it has received the genuine shards
  \<open>H\<close> and delivered nothing beyond \<open>D\<close>, or it has delivered the payload, once.
\<close>

definition relaying ::
  "'e Crates \<Rightarrow> ('d \<Rightarrow> DeliveredMessage \<Rightarrow> 'd) \<Rightarrow> Preamble \<Rightarrow> bytes list \<Rightarrow> bytes \<Rightarrow> ChannelId \<Rightarrow> MessageId \<Rightarrow> 'd \<Rightarrow> nat set \<Rightarrow>
   (RsStrategy, 'n, 'd) Engine \<Rightarrow> bool" where
  "relaying X T p shards payload c m D H e \<longleftrightarrow>
     \<not> is_tombstoned e c m \<and>
     (\<exists>se. session_of e c m = Some se \<and>
       (consuming_inv X p shards se \<and> se_state se = Consuming \<and> H \<subseteq> held (se_strategy se) \<and> en_delivered e = D \<or>
        se_state se = Reconstructed \<and>
          en_delivered e = T D \<lparr>dm_channel_id = c, dm_message_id = m, dm_payload = payload\<rparr>))"

lemma engine_take_chunk_session:
  assumes "session_of e c m = Some se"
  shows "session_of (fst (engine_take_chunk E c m i d e)) c m = Some (fst (Session_take_chunk (ev_strategy E) se i d))"
    "snd (engine_take_chunk E c m i d e) =
      (case snd (Session_take_chunk (ev_strategy E) se i d) of Inl _ \<Rightarrow> False | Inr out \<Rightarrow> to_complete out)"
    "en_delivered (fst (engine_take_chunk E c m i d e)) = en_delivered e"
proof -
  obtain ch where ch: "bt_get (en_channels e) c = Some ch" "bt_get (ch_sessions ch) m = Some se"
    using assms by (auto simp: session_of_eq split: option.splits)
  show "session_of (fst (engine_take_chunk E c m i d e)) c m = Some (fst (Session_take_chunk (ev_strategy E) se i d))"
    by (simp add: engine_take_chunk_def ch Channel_take_chunk_def case_prod_unfold session_of_eq)
  show "snd (engine_take_chunk E c m i d e) =
      (case snd (Session_take_chunk (ev_strategy E) se i d) of Inl _ \<Rightarrow> False | Inr out \<Rightarrow> to_complete out)"
    by (simp add: engine_take_chunk_def ch Channel_take_chunk_def case_prod_unfold map_err_def split: sum.split)
  show "en_delivered (fst (engine_take_chunk E c m i d e)) = en_delivered e"
    by (simp add: engine_take_chunk_def ch case_prod_unfold)
qed

lemma session_of_frame [simp]:
  "session_of (fst (net_send E msg e)) = session_of e"
  "session_of (mark_session_terminal c m now e) = session_of e"
  "session_of (e\<lparr>en_delivered := x\<rparr>) = session_of e"
  "session_of (e\<lparr>en_session_preambles := y\<rparr>) = session_of e"
  "session_of (record_session_created c m now e) = session_of e"
  by (rule session_of_cong, simp add: net_send_def record_session_created_def split: prod.split)+

text \<open>Completion is reported exactly when the session moves to decoding.\<close>

lemma consuming_complete:
  assumes "consuming_inv X p shards se" "se_state se = Consuming"
  shows "(case snd (Session_take_chunk (RsStrategy_ops X) se i d) of Inl _ \<Rightarrow> False | Inr out \<Rightarrow> to_complete out) \<longleftrightarrow>
    se_state (fst (Session_take_chunk (RsStrategy_ops X) se i d)) = SDecoding"
  using assms by (auto simp: consuming_inv_def Session_take_chunk_def take_chunk_cases Let_def)

lemma deliver_decoded:
  assumes "session_of e c m = Some se" "se_state se = SDecoding" "RsStrategy_reconstruct X (se_strategy se) = Inr payload"
    and e'_def: "e' = maybe_decode_and_deliver (rs_env X send T) now c m e"
  shows "session_of e' c m = Some (se\<lparr>se_state := Reconstructed\<rparr>)"
    "en_delivered e' = T (en_delivered e) \<lparr>dm_channel_id = c, dm_message_id = m, dm_payload = payload\<rparr>"
proof -
  have "Session_decode_and_finish (RsStrategy_ops X) se = (se\<lparr>se_state := Reconstructed\<rparr>, Inr payload)"
    using assms(2,3) by (simp add: Session_decode_and_finish_def)
  then show "session_of e' c m = Some (se\<lparr>se_state := Reconstructed\<rparr>)"
    "en_delivered e' = T (en_delivered e) \<lparr>dm_channel_id = c, dm_message_id = m, dm_payload = payload\<rparr>"
    using assms(1) by (simp_all add: e'_def maybe_decode_and_deliver_def Let_def session_of_set_session)
qed

text \<open>What the lemmas below need of the encoded message.\<close>

definition encoded_message :: "'e Crates \<Rightarrow> bytes \<Rightarrow> Preamble \<Rightarrow> bytes list \<Rightarrow> bool" where
  "encoded_message X payload p shards \<longleftrightarrow> sha_ok X \<and>
     rs_mds X (unat (num_data p)) (unat (num_parity p)) \<and>
     (\<exists>l. encodes X payload p shards l \<and>
       (\<exists>ss. shards_shape (unat (num_data p)) (unat (num_parity p)) l ss \<and>
         rs_encode X (unat (num_data p)) (unat (num_parity p)) ss = Inr shards))"

lemma encoded_messageI:
  assumes "encode X payload c = Some (Inr (p, shards))" "sha_ok X" "rs_ok X"
  shows "encoded_message X payload p shards"
proof -
  note mds = encode_rs_ok [OF assms(1,3)]
  obtain l where "encodes X payload p shards l"
    "\<exists>ss. shards_shape (unat (num_data p)) (unat (num_parity p)) l ss \<and>
      rs_encode X (unat (num_data p)) (unat (num_parity p)) ss = Inr shards"
    using encode_encodes [OF assms(1) mds] .
  then show ?thesis using mds assms(2) by (auto simp: encoded_message_def)
qed

lemma encoded_hashes: "encoded_message X payload p shards \<Longrightarrow> hashes p = map (sha256 X) shards \<and> 0 < unat (num_data p)"
  by (auto simp: encoded_message_def encodes_def)

lemma encoded_reconstruct:
  assumes "encoded_message X payload p shards" "consuming_inv X p shards se" "se_state se = SDecoding"
  shows "RsStrategy_reconstruct X (se_strategy se) = Inr payload"
proof -
  obtain l where "encodes X payload p shards l" "\<exists>ss. shards_shape (unat (num_data p)) (unat (num_parity p)) l ss \<and>
      rs_encode X (unat (num_data p)) (unat (num_parity p)) ss = Inr shards"
    using assms(1) unfolding encoded_message_def by blast
  then show ?thesis
    using genuine_reconstruct [of X "se_strategy se" shards payload l] assms
    by (simp add: consuming_inv_def encoded_message_def)
qed

lemma relaying_chunk:
  assumes msg: "encoded_message X payload p shards" and rel: "relaying X T p shards payload c m D H e"
    and cf: "collision_free X shards [(i, d)]"
    and ev: "handle_chunk (rs_env X send T) now c m i d e = Some e'"
  shows "relaying X T p shards payload c m D
    (H \<union> {j. j = unat i \<and> unat i < length shards \<and> d = shards ! unat i}) e'"
proof -
  let ?E = "rs_env X send T" and ?S = "RsStrategy_ops X"
  let ?H = "H \<union> {j. j = unat i \<and> unat i < length shards \<and> d = shards ! unat i}"
  obtain se where tomb: "\<not> is_tombstoned e c m" and se: "session_of e c m = Some se"
    and cases: "consuming_inv X p shards se \<and> se_state se = Consuming \<and> H \<subseteq> held (se_strategy se) \<and> en_delivered e = D \<or>
        se_state se = Reconstructed \<and> en_delivered e = T D \<lparr>dm_channel_id = c, dm_message_id = m, dm_payload = payload\<rparr>"
    using rel by (auto simp: relaying_def)
  obtain e1 b where t: "engine_take_chunk ?E c m i d e = (e1, b)" by (cases "engine_take_chunk ?E c m i d e")
  let ?se1 = "fst (Session_take_chunk ?S se i d)"
  have e1: "session_of e1 c m = Some ?se1" "en_delivered e1 = en_delivered e"
    "b = (case snd (Session_take_chunk ?S se i d) of Inl _ \<Rightarrow> False | Inr out \<Rightarrow> to_complete out)"
    using engine_take_chunk_session [OF se, of ?E i d] by (simp_all add: t)
  obtain e2 r where dr: "drain_session ?E c m e1 = Some (e2, r)"
    and e': "e' = (if b then maybe_decode_and_deliver ?E now c m e2 else e2)"
    using ev se tomb by (auto simp: handle_chunk_def t bind_eq_Some_conv)
  have "map_option view (session_of e2 c m) = Some (view ?se1)" using drain_view [OF dr] e1(1) by simp
  then obtain se2 where se2: "session_of e2 c m = Some se2" "view se2 = view ?se1" by auto
  note vw = view_cong [OF se2(2)]
  have del: "en_delivered e2 = en_delivered e"
    using drain_session_frame [OF dr] e1(2) by (simp add: drain_frame_def)
  have t': "\<not> is_tombstoned e' c m"
    using tomb handle_chunk_live [OF ev] by (simp add: is_tombstoned_def)
  from cases show ?thesis
  proof
    assume con: "consuming_inv X p shards se \<and> se_state se = Consuming \<and> H \<subseteq> held (se_strategy se) \<and> en_delivered e = D"
    then have ci: "consuming_inv X p shards se" and st: "se_state se = Consuming" by auto
    note step = consuming_step [OF ci conjunct1 [OF encoded_hashes [OF msg]] cf]
    have b: "b \<longleftrightarrow> se_state se2 = SDecoding" using consuming_complete [OF ci st, of i d] e1(3) vw(1) by simp
    have ci2: "consuming_inv X p shards se2" using step(1) vw(8) by blast
    have h2: "?H \<subseteq> held (se_strategy se2)" using con step(2,3) st vw(5) by auto
    show ?thesis
    proof (cases b)
      case True
      then have dec: "se_state se2 = SDecoding" using b by simp
      have "e' = maybe_decode_and_deliver ?E now c m e2" using e' True by simp
      note dd = deliver_decoded [OF se2(1) dec encoded_reconstruct [OF msg ci2 dec] this]
      then show ?thesis using t' del con by (simp add: relaying_def)
    next
      case False
      then have "se_state se2 = Consuming" using b ci2 by (auto simp: consuming_inv_def)
      then show ?thesis using False e' t' se2(1) ci2 h2 del con by (auto simp: relaying_def)
    qed
  next
    assume rc: "se_state se = Reconstructed \<and> en_delivered e = T D \<lparr>dm_channel_id = c, dm_message_id = m, dm_payload = payload\<rparr>"
    then have "?se1 = se" "\<not> b" using e1(3) by (simp_all add: Session_take_chunk_def)
    then show ?thesis using e' t' se2 vw(1) del rc by (simp add: relaying_def)
  qed
qed

text \<open>A session that no longer takes chunks.\<close>

lemma closed_chunk:
  assumes "session_of e c m = Some se" "se_state se \<noteq> Consuming" "handle_chunk (rs_env X send T) now c m i d e = Some e'"
  shows "\<exists>se'. session_of e' c m = Some se' \<and> se_state se' = se_state se" "en_delivered e' = en_delivered e"
proof -
  let ?E = "rs_env X send T"
  have t: "fst (Session_take_chunk (RsStrategy_ops X) se i d) = se" "\<exists>x. snd (Session_take_chunk (RsStrategy_ops X) se i d) = Inl x"
    using assms(2) by (cases "se_state se"; simp add: Session_take_chunk_def)+
  obtain e1 cpl where e1: "engine_take_chunk ?E c m i d e = (e1, cpl)" by fastforce
  have s: "session_of e1 c m = Some se" "\<not> cpl" "en_delivered e1 = en_delivered e"
    using engine_take_chunk_session [OF assms(1), of ?E i d] t by (auto simp: e1)
  have "(\<exists>se'. session_of e' c m = Some se' \<and> se_state se' = se_state se) \<and> en_delivered e' = en_delivered e"
  proof (cases "is_tombstoned e c m")
    case True
    then show ?thesis using assms by (simp add: handle_chunk_def)
  next
    case False
    then obtain r where d: "drain_session ?E c m e1 = Some (e', r)"
      using assms(1,3) s(2) by (auto simp: handle_chunk_def e1 bind_eq_Some_conv)
    have "map_option view (session_of e' c m) = Some (view se)" using drain_view [OF d] s(1) by simp
    then show ?thesis using drain_session_frame [OF d] s(3) by (auto simp: drain_frame_def view_def)
  qed
  then show "\<exists>se'. session_of e' c m = Some se' \<and> se_state se' = se_state se" "en_delivered e' = en_delivered e" by blast+
qed

text \<open>The life-cycle record of a session changes only when it stops consuming.\<close>

lemma chunk_meta:
  assumes "session_of e c m = Some se" "consuming_inv X p shards se" "se_state se = Consuming" "\<not> is_tombstoned e c m"
    "handle_chunk (rs_env X send T) now c m i d e = Some e'" "session_of e' c m = Some se'" "se_state se' = Consuming"
  shows "en_session_meta e' = en_session_meta e"
proof -
  let ?E = "rs_env X send T"
  obtain e1 b where t: "engine_take_chunk ?E c m i d e = (e1, b)" by fastforce
  obtain e2 r where dr: "drain_session ?E c m e1 = Some (e2, r)"
    and e': "e' = (if b then maybe_decode_and_deliver ?E now c m e2 else e2)"
    using assms(1,4,5) by (auto simp: handle_chunk_def t bind_eq_Some_conv)
  have m: "en_session_meta e2 = en_session_meta e"
    using drain_session_frame [OF dr] t by (auto simp: drain_frame_def engine_take_chunk_def split: option.splits prod.splits)
  show ?thesis
  proof (cases b)
    case True
    let ?se1 = "fst (Session_take_chunk (RsStrategy_ops X) se i d)"
    have "map_option view (session_of e2 c m) = Some (view ?se1)" "se_state ?se1 = SDecoding"
      using drain_view [OF dr] engine_take_chunk_session [OF assms(1), of ?E i d] consuming_complete [OF assms(2,3), of i d] True
      by (simp_all add: t)
    then obtain se2 where se2: "session_of e2 c m = Some se2" "se_state se2 = SDecoding" by (auto simp: view_def)
    have "session_of (maybe_decode_and_deliver ?E now c m e2) c m = Some (fst (Session_decode_and_finish (RsStrategy_ops X) se2))"
      by (simp add: maybe_decode_and_deliver_def se2(1) Let_def session_of_set_session [OF se2(1)] split: prod.split sum.split)
    then have False using assms(6,7) True e' se2(2) by (auto simp: Session_decode_and_finish_def split: sum.splits)
    then show ?thesis ..
  qed (use m e' in simp)
qed

lemma take_chunk_config [simp]: "en_config (fst (engine_take_chunk E c m i d e)) = en_config e"
  by (simp add: engine_take_chunk_def case_prod_unfold split: option.split)

lemma drain_config: "drain_session E c m e = Some (e', r) \<Longrightarrow> en_config e' = en_config e"
proof -
  assume d: "drain_session E c m e = Some (e', r)"
  have "drain_closed E c m (\<lambda>x. en_config x = en_config e)"
    by (simp add: drain_closed_def poll_session_def notify_chunk_sent_def split: option.split prod.split)
  from drain_session_keeps [OF d this] show ?thesis by simp
qed

lemma deliver_config [simp]: "en_config (maybe_decode_and_deliver E now c m e) = en_config e"
  by (simp add: maybe_decode_and_deliver_def Let_def net_send_def mark_session_terminal_def split: option.split prod.split sum.split)

lemma handle_chunk_config:
  assumes "handle_chunk E now c m i d e = Some e'"
  shows "en_config e' = en_config e"
proof -
  obtain e1 b where t: "engine_take_chunk E c m i d e = (e1, b)" by fastforce
  have "en_config e1 = en_config e" using take_chunk_config [of E c m i d e] by (simp add: t)
  then show ?thesis using assms
    by (auto simp: handle_chunk_def t park_chunk_def bind_eq_Some_conv dest!: drain_config split: if_splits)
qed

subsection \<open>From the session open to the delivered payload\<close>

text \<open>The caller's loop: one \<open>run_one_step\<close> per event, with the reading of the clock at that step.\<close>

fun run_steps ::
  "('s, 'e, 'n, 'd) EngineEnv \<Rightarrow> (Instant \<times> NetEvent) list \<Rightarrow> ('s, 'n, 'd) Engine \<Rightarrow> ('s, 'n, 'd) Engine option" where
  "run_steps E [] e = Some e"
| "run_steps E ((now, ev) # evs) e = Option.bind (run_one_step E now (Some ev) e) (\<lambda>(e, _). run_steps E evs e)"

lemma run_steps_returns:
  "engine_inv (rs_inv X) e \<Longrightarrow> \<exists>e'. run_steps (rs_env X send try_send) evs e = Some e' \<and> engine_inv (rs_inv X) e'"
proof (induction evs arbitrary: e)
  case (Cons ev evs)
  obtain now x where ev: "ev = (now, x)" by (cases ev)
  obtain e1 r where "run_one_step (rs_env X send try_send) now (Some x) e = Some (e1, r)" "engine_inv (rs_inv X) e1"
    using rs_eng.run_one_step_returns [OF Cons.prems] by blast
  then show ?case using Cons.IH by (simp add: ev)
qed simp

lemma run_steps_append: "run_steps E (xs @ ys) e = Option.bind (run_steps E xs e) (run_steps E ys)"
  by (induction xs arbitrary: e) (auto split: Option.bind_splits)

text \<open>
  The traffic of the session \<open>(c, m)\<close>: its chunks, none of which collides with a shard under the hash, and routing
  updates; and the indices of the shards that an event brings.
\<close>

fun traffic :: "'e Crates \<Rightarrow> bytes list \<Rightarrow> ChannelId \<Rightarrow> MessageId \<Rightarrow> NetEvent \<Rightarrow> bool" where
  "traffic X shards c m (EvChunk _ c' m' i d) \<longleftrightarrow> c' = c \<and> m' = m \<and> collision_free X shards [(i, d)]"
| "traffic X shards c m (EvRoutingUpdate _ _ _ _) \<longleftrightarrow> True"
| "traffic X shards c m _ \<longleftrightarrow> False"

fun brings :: "bytes list \<Rightarrow> NetEvent \<Rightarrow> nat set" where
  "brings shards (EvChunk _ _ _ i d) = (if unat i < length shards \<and> d = shards ! unat i then {unat i} else {})"
| "brings shards _ = {}"

text \<open>
  The session is being received since the instant \<open>t0\<close>, with the shards \<open>H\<close> so far; or its payload was delivered, and then the
  session may already have been disposed of.
\<close>

definition receiving ::
  "'e Crates \<Rightarrow> Preamble \<Rightarrow> bytes list \<Rightarrow> ChannelId \<Rightarrow> MessageId \<Rightarrow> 'd \<Rightarrow> Instant \<Rightarrow> nat set \<Rightarrow> (RsStrategy, 'n, 'd) Engine \<Rightarrow> bool" where
  "receiving X p shards c m D t0 H e \<longleftrightarrow> \<not> is_tombstoned e c m \<and> en_delivered e = D \<and>
     bt_get (en_session_meta e) (c, m) = Some \<lparr>created_at = t0, terminal_at = None\<rparr> \<and>
     (\<exists>se. session_of e c m = Some se \<and> consuming_inv X p shards se \<and> se_state se = Consuming \<and> H \<subseteq> held (se_strategy se))"

definition received ::
  "('d \<Rightarrow> DeliveredMessage \<Rightarrow> 'd) \<Rightarrow> bytes \<Rightarrow> ChannelId \<Rightarrow> MessageId \<Rightarrow> 'd \<Rightarrow> (RsStrategy, 'n, 'd) Engine \<Rightarrow> bool" where
  "received T payload c m D e \<longleftrightarrow> (\<forall>se. session_of e c m = Some se \<longrightarrow> se_state se = Reconstructed) \<and>
     en_delivered e = T D \<lparr>dm_channel_id = c, dm_message_id = m, dm_payload = payload\<rparr>"

lemma receiving_chunk:
  assumes msg: "encoded_message X payload p shards" and rec: "receiving X p shards c m D t0 H e"
    and cf: "collision_free X shards [(i, d)]" and ev: "handle_chunk (rs_env X send T) now c m i d e = Some e'"
  shows "receiving X p shards c m D t0 (H \<union> brings shards (EvChunk q c m i d)) e' \<or> received T payload c m D e'"
proof -
  let ?H = "H \<union> brings shards (EvChunk q c m i d)"
  obtain se where se: "session_of e c m = Some se" "consuming_inv X p shards se" "se_state se = Consuming" "H \<subseteq> held (se_strategy se)"
    and r: "\<not> is_tombstoned e c m" "en_delivered e = D" "bt_get (en_session_meta e) (c, m) = Some \<lparr>created_at = t0, terminal_at = None\<rparr>"
    using rec by (auto simp: receiving_def)
  have rel: "relaying X T p shards payload c m D H e" using se r by (auto simp: relaying_def)
  have "?H = H \<union> {j. j = unat i \<and> unat i < length shards \<and> d = shards ! unat i}" by auto
  then have "relaying X T p shards payload c m D ?H e'" using relaying_chunk [OF msg rel cf ev] by (simp only:)
  then obtain se' where se': "session_of e' c m = Some se'" "\<not> is_tombstoned e' c m"
    and cases: "consuming_inv X p shards se' \<and> se_state se' = Consuming \<and> ?H \<subseteq> held (se_strategy se') \<and> en_delivered e' = D \<or>
      se_state se' = Reconstructed \<and> en_delivered e' = T D \<lparr>dm_channel_id = c, dm_message_id = m, dm_payload = payload\<rparr>"
    unfolding relaying_def by blast
  from cases show ?thesis
  proof
    assume con: "consuming_inv X p shards se' \<and> se_state se' = Consuming \<and> ?H \<subseteq> held (se_strategy se') \<and> en_delivered e' = D"
    then have "en_session_meta e' = en_session_meta e" using chunk_meta [OF se(1-3) r(1) ev se'(1)] by simp
    then show ?thesis using con se' r(3) unfolding receiving_def by auto
  next
    assume "se_state se' = Reconstructed \<and> en_delivered e' = T D \<lparr>dm_channel_id = c, dm_message_id = m, dm_payload = payload\<rparr>"
    then show ?thesis using se'(1) by (simp add: received_def)
  qed
qed

lemma received_chunk:
  assumes "received T payload c m D e" "handle_chunk (rs_env X send T) now c m i d e = Some e'"
  shows "received T payload c m D e'"
proof (cases "session_of e c m")
  case None
  then have "session_of e' c m = None" "en_delivered e' = en_delivered e"
    using assms(2) by (auto simp: handle_chunk_def park_chunk_def session_of_def split: if_splits)
  then show ?thesis using assms(1) by (simp add: received_def)
next
  case (Some se)
  then have "se_state se = Reconstructed" using assms(1) by (simp add: received_def)
  with closed_chunk [OF Some _ assms(2)] show ?thesis using assms(1) by (auto simp: received_def)
qed

text \<open>The cleanup that follows an event leaves the session alone within its time to live, and never takes a delivery back.\<close>

lemma cleanup_receiving:
  assumes "receiving X p shards c m D t0 H e" "now \<le> t0 + active_session_ttl (en_config e)"
  shows "receiving X p shards c m D t0 H (maybe_run_cleanup now e)"
proof (cases "now < en_next_cleanup e")
  case False
  let ?e = "e\<lparr>en_next_cleanup := now + cleanup_interval (en_config e)\<rparr>"
  have "\<not> expired_key now ?e (c, m)" using assms by (auto simp: expired_key_def receiving_def)
  moreover have "session_of ?e = session_of e" by (rule session_of_cong) simp
  ultimately show ?thesis using assms(1) False
    by (simp add: maybe_run_cleanup_def receiving_def is_tombstoned_def run_cleanup_session run_cleanup_effect(2))
qed (use assms(1) in \<open>simp add: maybe_run_cleanup_def\<close>)

lemma cleanup_received:
  assumes "received T payload c m D e"
  shows "received T payload c m D (maybe_run_cleanup now e)"
proof -
  have "session_of (e\<lparr>en_next_cleanup := t\<rparr>) = session_of e" for t by (rule session_of_cong) simp
  then show ?thesis using assms by (simp add: maybe_run_cleanup_def received_def run_cleanup_session)
qed

lemma cleanup_config [simp]: "en_config (maybe_run_cleanup now e) = en_config e"
  by (simp add: maybe_run_cleanup_def run_cleanup_session)

lemma attach_all_view: "view (attach_all (RsStrategy_ops X) ps se) = view se"
  by (induction ps arbitrary: se)
    (simp_all add: view_def Session_attach_peer_def RsStrategy_ops_def RsStrategy_attach_peer_def)

lemma open_relaying:
  assumes msg: "encoded_message X payload p shards"
    and ch: "bt_get (en_channels e) c = Some ch" "bt_get (ch_sessions ch) m = None"
    and fac: "ch_factory ch (ch_calls ch) b = (n, Inr s)" "RsStrategy_new_relay_with_seed p config seed = Inr s"
    and clear: "\<not> is_tombstoned e c m" "bt_get (en_parked_chunks e) (c, m) = None"
    and ev: "handle_session_open (rs_env X send try_send) now c m b e = Some e'"
  shows "relaying X T p shards payload c m (en_delivered e) {} e'"
    "tables_inv e \<Longrightarrow> receiving X p shards c m (en_delivered e) now {} e'" "en_config e' = en_config e"
proof -
  let ?E = "rs_env X send try_send"
  let ?se = "attach_all (RsStrategy_ops X) (bt_keys (ch_subscribers ch)) (Session_new_relay s)"
  let ?ch = "ch\<lparr>ch_calls := n, ch_sessions := bt_insert m ?se (ch_sessions ch)\<rparr>"
  let ?e = "record_session_created c m now (e\<lparr>en_channels := bt_insert c ?ch (en_channels e),
    en_session_preambles := bt_insert (c, m) b (en_session_preambles e)\<rparr>)"
  have o: "Channel_open_session (RsStrategy_ops X) ch m b = (?ch, Inr ())"
    using ch(2) fac(1) by (simp add: Channel_open_session_def Let_def)
  obtain e1 r where d: "drain_session ?E c m ?e = Some (e1, r)" "replay_parked_chunks ?E now c m e1 = Some e'"
    using ev clear(1) by (auto simp: handle_session_open_def ch o Let_def bind_eq_Some_conv)
  have fr: "en_parked_chunks e1 = en_parked_chunks e" "en_delivered e1 = en_delivered e" "en_tombstones e1 = en_tombstones e"
    "en_session_meta e1 = en_session_meta ?e"
    using drain_session_frame [OF d(1)] by (simp_all add: drain_frame_def record_session_created_def)
  have fresh_meta: "bt_get (en_session_meta ?e) (c, m) = Some \<lparr>created_at = now, terminal_at = None\<rparr>" if "tables_inv e"
  proof -
    have "bt_get (en_session_meta e) (c, m) = None"
      using tables_invD(1) [OF that, of "(c, m)"] ch by (auto simp: live_def session_of_eq)
    then show ?thesis by (simp add: record_session_created_def bt_get_or_def)
  qed
  from fr have e': "e' = e1" using d(2) clear(2) by (simp add: replay_parked_chunks_def)
  have "session_of ?e c m = Some ?se" by (simp add: session_of_eq)
  then have "map_option view (session_of e1 c m) = Some (view (Session_new_relay s))"
    using drain_view [OF d(1)] by (simp only: option.map attach_all_view)
  then obtain se where se: "session_of e1 c m = Some se" "view se = view (Session_new_relay s)" by auto
  note fresh = new_relay_fresh [OF fac(2)]
  have "chunks_inv X s" using new_relay_inv [OF fac(2), of X] by (simp add: rs_inv_def)
  then have "consuming_inv X p shards (Session_new_relay s)"
    using fresh encoded_hashes [OF msg] by (simp add: consuming_inv_def Session_new_relay_def can_reconstruct_iff)
  then have "consuming_inv X p shards se" using view_cong(8) [OF se(2)] by blast
  moreover have "se_state se = Consuming" using view_cong(1) [OF se(2)] by (simp add: Session_new_relay_def)
  ultimately show "relaying X T p shards payload c m (en_delivered e) {} e'"
    "tables_inv e \<Longrightarrow> receiving X p shards c m (en_delivered e) now {} e'"
    using se(1) fr clear(1) e' fresh_meta by (auto simp: relaying_def receiving_def is_tombstoned_def)
  show "en_config e' = en_config e" using drain_config [OF d(1)] e' by (simp add: record_session_created_def)
qed

lemma relaying_delivered:
  assumes "encoded_message X payload p shards" "relaying X T p shards payload c m D H e"
    "finite H" "unat (num_data p) \<le> card H"
  shows "en_delivered e = T D \<lparr>dm_channel_id = c, dm_message_id = m, dm_payload = payload\<rparr>"
proof -
  have False if "consuming_inv X p shards se" "se_state se = Consuming" "H \<subseteq> held (se_strategy se)" for se
  proof -
    have "card H \<le> card (held (se_strategy se))" using that(3) by (simp add: card_mono)
    then show False using that assms(4) by (auto simp: consuming_inv_def can_reconstruct_iff)
  qed
  then show ?thesis using assms(2) by (auto simp: relaying_def)
qed


text \<open>One step of the loop, and the steps up to the end of the session's time to live and after it.\<close>

lemma traffic_step:
  assumes msg: "encoded_message X payload p shards" and tr: "traffic X shards c m ev"
    and step: "run_one_step (rs_env X send T) now (Some ev) e = Some (e', r)"
  shows "en_config e' = en_config e" "received T payload c m D e \<Longrightarrow> received T payload c m D e'"
    "receiving X p shards c m D t0 H e \<Longrightarrow> now \<le> t0 + active_session_ttl (en_config e) \<Longrightarrow>
       receiving X p shards c m D t0 (H \<union> brings shards ev) e' \<or> received T payload c m D e'"
proof -
  obtain e1 where h: "handle_event (rs_env X send T) now ev e = Some e1" and e': "e' = maybe_run_cleanup now e1"
    using step by (auto simp: run_one_step_def bind_eq_Some_conv)
  have cfg: "en_config e1 = en_config e" using tr h by (cases ev) (auto dest: handle_chunk_config)
  then show "en_config e' = en_config e" by (simp add: e')
  show "received T payload c m D e'" if "received T payload c m D e"
  proof -
    have "received T payload c m D e1" using tr h that by (cases ev) (auto intro: received_chunk)
    then show ?thesis unfolding e' by (rule cleanup_received)
  qed
  show "receiving X p shards c m D t0 (H \<union> brings shards ev) e' \<or> received T payload c m D e'"
    if "receiving X p shards c m D t0 H e" "now \<le> t0 + active_session_ttl (en_config e)"
  proof -
    have "receiving X p shards c m D t0 (H \<union> brings shards ev) e1 \<or> received T payload c m D e1"
      using tr h that(1) by (cases ev) (auto simp del: brings.simps(1) dest: receiving_chunk [OF msg])
    then show ?thesis unfolding e' using cleanup_received cleanup_receiving that(2) cfg by metis
  qed
qed

lemma received_steps:
  assumes msg: "encoded_message X payload p shards"
  shows "received T payload c m D e \<Longrightarrow> \<forall>(t, ev)\<in>set tevs. traffic X shards c m ev \<Longrightarrow>
    run_steps (rs_env X send T) tevs e = Some e' \<Longrightarrow> received T payload c m D e'"
proof (induction tevs arbitrary: e)
  case (Cons x tevs)
  obtain t ev where x: "x = (t, ev)" by (cases x)
  obtain e1 r where "run_one_step (rs_env X send T) t (Some ev) e = Some (e1, r)" "run_steps (rs_env X send T) tevs e1 = Some e'"
    using Cons.prems(3) by (auto simp: x bind_eq_Some_conv)
  with Cons show ?case by (auto simp: x dest: traffic_step(2) [OF msg])
qed simp

lemma receiving_steps:
  assumes msg: "encoded_message X payload p shards"
  shows "receiving X p shards c m D t0 H e \<or> received T payload c m D e \<Longrightarrow>
    \<forall>(t, ev)\<in>set tevs. traffic X shards c m ev \<and> t \<le> t0 + active_session_ttl (en_config e) \<Longrightarrow>
    run_steps (rs_env X send T) tevs e = Some e' \<Longrightarrow>
    receiving X p shards c m D t0 (H \<union> (\<Union>(t, ev)\<in>set tevs. brings shards ev)) e' \<or> received T payload c m D e'"
proof (induction tevs arbitrary: e H)
  case (Cons x tevs)
  obtain t ev where x: "x = (t, ev)" by (cases x)
  obtain e1 r where step: "run_one_step (rs_env X send T) t (Some ev) e = Some (e1, r)" and run: "run_steps (rs_env X send T) tevs e1 = Some e'"
    using Cons.prems(3) by (auto simp: x bind_eq_Some_conv)
  have tr: "traffic X shards c m ev" "t \<le> t0 + active_session_ttl (en_config e)" using Cons.prems(2) by (simp_all add: x)
  note s = traffic_step [OF msg tr(1) step]
  have "receiving X p shards c m D t0 (H \<union> brings shards ev) e1 \<or> received T payload c m D e1"
    using Cons.prems(1) s(2,3) tr(2) by blast
  from Cons.IH [OF this _ run] Cons.prems(2) show ?case by (simp add: s(1) x Un_assoc)
qed simp

lemma receiving_short:
  assumes "receiving X p shards c m D t0 H e"
  shows "card H < unat (num_data p)"
proof -
  obtain se where "consuming_inv X p shards se" "se_state se = Consuming" "H \<subseteq> held (se_strategy se)"
    using assms by (auto simp: receiving_def)
  moreover from this(3) have "card H \<le> card (held (se_strategy se))" by (simp add: card_mono)
  ultimately show ?thesis by (auto simp: consuming_inv_def can_reconstruct_iff)
qed

text \<open>A relay that gets enough genuine shards in time delivers the payload.\<close>

lemma relay_delivers:
  assumes "encode X payload cfg = Some (Inr (p, shards))" "sha_ok X" "rs_ok X"
    and "engine_inv (rs_inv X) e" "bt_get (en_channels e) c = Some ch"
    and "ch_factory ch (ch_calls ch) b = (n, Inr s)" "RsStrategy_new_relay_with_seed p config seed = Inr s"
    and "\<not> live e (c, m)" "\<not> is_tombstoned e c m" "bt_get (en_parked_chunks e) (c, m) = None"
    and "\<forall>(t, ev)\<in>set (tevs @ late). traffic X shards c m ev"
    and "\<forall>(t, ev)\<in>set tevs. t \<le> now + active_session_ttl (en_config e)"
    and "unat (num_data p) \<le> card (\<Union>(t, ev)\<in>set tevs. brings shards ev)"
  shows "\<exists>e'. run_steps (rs_env X send (\<lambda>ds msg. ds @ [msg])) ((now, EvSessionOpen q c m b u) # tevs @ late) e = Some e' \<and>
    en_delivered e' = en_delivered e @ [\<lparr>dm_channel_id = c, dm_message_id = m, dm_payload = payload\<rparr>]"
proof -
  let ?T = "\<lambda>ds msg. ds @ [msg :: DeliveredMessage]" and ?E = "rs_env X send (\<lambda>ds msg. ds @ [msg])"
  let ?D = "en_delivered e"
  note msg = encoded_messageI [OF assms(1-3)]
  have none: "bt_get (ch_sessions ch) m = None" using assms(5,8) by (simp add: live_def session_of_eq)
  obtain e' where run: "run_steps ?E ((now, EvSessionOpen q c m b u) # tevs @ late) e = Some e'"
    using run_steps_returns [OF assms(4)] by blast
  then obtain e1 where h: "handle_session_open ?E now c m b e = Some e1"
    and rest: "run_steps ?E (tevs @ late) (maybe_run_cleanup now e1) = Some e'"
    by (auto simp: run_one_step_def bind_eq_Some_conv)
  obtain e2 where e2: "run_steps ?E tevs (maybe_run_cleanup now e1) = Some e2" "run_steps ?E late e2 = Some e'"
    using rest by (auto simp: run_steps_append bind_eq_Some_conv)
  note op = open_relaying [OF msg assms(5) none assms(6,7,9,10) h]
  have "receiving X p shards c m ?D now {} e1" using op(2) assms(4) by (simp add: engine_inv_def)
  then have "receiving X p shards c m ?D now {} (maybe_run_cleanup now e1)" by (rule cleanup_receiving) simp
  then have "receiving X p shards c m ?D now ({} \<union> (\<Union>(t, ev)\<in>set tevs. brings shards ev)) e2 \<or> received ?T payload c m ?D e2"
    by (intro receiving_steps [OF msg _ _ e2(1)]) (use assms(11,12) op(3) in auto)
  then have "received ?T payload c m ?D e2" using receiving_short assms(13) by fastforce
  then have "received ?T payload c m ?D e'" by (rule received_steps [OF msg _ _ e2(2)]) (use assms(11) in auto)
  then show ?thesis using run by (simp add: received_def)
qed

subsection \<open>Deliveries\<close>

text \<open>The messages delivered between two engine states carry the digest their session announced.\<close>

definition deliveries_ok ::
  "'e Crates \<Rightarrow> (RsStrategy, 'n, DeliveredMessage list) Engine \<Rightarrow> (RsStrategy, 'n, DeliveredMessage list) Engine \<Rightarrow> bool" where
  "deliveries_ok X e e' \<longleftrightarrow> en_delivered e' = en_delivered e \<or>
     (\<exists>msg se. en_delivered e' = en_delivered e @ [msg] \<and>
       session_of e' (dm_channel_id msg) (dm_message_id msg) = Some se \<and> se_state se = Reconstructed \<and>
       sha256 X (dm_payload msg) = pre_hash (rs_preamble (se_strategy se)) \<and>
       length (dm_payload msg) = unat (pre_length (rs_preamble (se_strategy se))))"

lemma deliver_ok:
  "deliveries_ok X e (maybe_decode_and_deliver (rs_env X send (\<lambda>ds msg. ds @ [msg])) now c m e)"
proof (cases "session_of e c m")
  case None
  then show ?thesis by (simp add: maybe_decode_and_deliver_def deliveries_ok_def)
next
  case (Some se)
  let ?e' = "maybe_decode_and_deliver (rs_env X send (\<lambda>ds msg. ds @ [msg])) now c m e"
  show ?thesis
  proof (cases "se_state se = SDecoding \<and> (\<exists>payload. RsStrategy_reconstruct X (se_strategy se) = Inr payload)")
    case True
    then obtain payload where rc: "se_state se = SDecoding" "RsStrategy_reconstruct X (se_strategy se) = Inr payload" by blast
    note d = deliver_decoded [OF Some rc, of ?e' send _ now, OF refl]
    have "sha256 X payload = pre_hash (rs_preamble (se_strategy se))"
      "length payload = unat (pre_length (rs_preamble (se_strategy se)))"
      using decode_integrity [of X "rs_preamble (se_strategy se)" "held_pairs (se_strategy se)" payload] rc(2)
      by (simp_all add: RsStrategy_reconstruct_def)
    then show ?thesis using d by (auto simp: deliveries_ok_def)
  next
    case False
    then have "\<exists>se' x. Session_decode_and_finish (RsStrategy_ops X) se = (se', Inl x)"
      by (auto simp: Session_decode_and_finish_def split: sum.split)
    then obtain se' x where "Session_decode_and_finish (RsStrategy_ops X) se = (se', Inl x)" by blast
    then have "en_delivered ?e' = en_delivered e"
      using Some by (simp add: maybe_decode_and_deliver_def Let_def)
    then show ?thesis by (simp add: deliveries_ok_def)
  qed
qed

lemma deliveries_ok_frame: "deliveries_ok X e1 e' \<Longrightarrow> en_delivered e1 = en_delivered e \<Longrightarrow> deliveries_ok X e e'"
  by (simp add: deliveries_ok_def)

lemma deliver_if_ok:
  "en_delivered e2 = en_delivered e \<Longrightarrow>
   deliveries_ok X e (if b then maybe_decode_and_deliver (rs_env X send (\<lambda>ds msg. ds @ [msg])) now c m e2 else e2)"
  using deliveries_ok_frame [OF deliver_ok, of e2 e X send now c m] by (simp add: deliveries_ok_def [of X e e2])

lemma take_delivered [simp]: "en_delivered (fst (engine_take_chunk E c m i d e)) = en_delivered e"
  by (simp add: engine_take_chunk_def case_prod_unfold split: option.split)

lemma replay_deliveries:
  assumes "replay_parked_chunks (rs_env X send (\<lambda>ds msg. ds @ [msg])) now c m e = Some e'"
  shows "deliveries_ok X e e'"
proof (cases "bt_get (en_parked_chunks e) (c, m)")
  case None
  then show ?thesis using assms by (simp add: replay_parked_chunks_def deliveries_ok_def)
next
  case (Some parked)
  let ?E = "rs_env X send (\<lambda>ds msg. ds @ [msg])"
  let ?step = "\<lambda>pc (e, any_complete). case engine_take_chunk ?E c m (pk_chunk_id pc) (pk_payload pc) e of
      (e, complete) \<Rightarrow> (e, any_complete \<or> complete)"
  let ?e0 = "e\<lparr>en_parked_chunks := bt_remove (c, m) (en_parked_chunks e)\<rparr>"
  have fold: "en_delivered (fst (fold ?step pcs st)) = en_delivered (fst st)" for pcs st
    by (induction pcs arbitrary: st) (simp_all add: case_prod_unfold)
  obtain e1 b where fe: "fold ?step parked (?e0, False) = (e1, b)" by (cases "fold ?step parked (?e0, False)")
  have "en_delivered e1 = en_delivered e" using fold [of parked "(?e0, False)"] by (simp add: fe)
  moreover obtain e2 r where d: "drain_session ?E c m e1 = Some (e2, r)"
    and e': "e' = (if b then maybe_decode_and_deliver ?E now c m e2 else e2)"
    using assms by (auto simp: replay_parked_chunks_def Some fe Let_def bind_eq_Some_conv)
  ultimately have "en_delivered e2 = en_delivered e" using drain_session_frame [OF d] by (simp add: drain_frame_def)
  then show ?thesis unfolding e' by (rule deliver_if_ok)
qed

lemma handle_chunk_deliveries:
  assumes "handle_chunk (rs_env X send (\<lambda>ds msg. ds @ [msg])) now c m i d e = Some e'"
  shows "deliveries_ok X e e'"
proof (cases "is_tombstoned e c m \<or> session_of e c m = None")
  case True
  then have "en_delivered e' = en_delivered e"
    using assms by (cases "is_tombstoned e c m") (auto simp: handle_chunk_def park_chunk_def)
  then show ?thesis by (simp add: deliveries_ok_def)
next
  case False
  let ?E = "rs_env X send (\<lambda>ds msg. ds @ [msg])"
  obtain e1 b where t: "engine_take_chunk ?E c m i d e = (e1, b)" by (cases "engine_take_chunk ?E c m i d e")
  obtain e2 r where d: "drain_session ?E c m e1 = Some (e2, r)"
    and e': "e' = (if b then maybe_decode_and_deliver ?E now c m e2 else e2)"
    using assms False by (auto simp: handle_chunk_def t bind_eq_Some_conv)
  have "en_delivered e2 = en_delivered e"
    using drain_session_frame [OF d] take_delivered [of ?E c m i d e] by (simp add: drain_frame_def t)
  then show ?thesis unfolding e' by (rule deliver_if_ok)
qed

lemma handle_session_open_deliveries:
  assumes "handle_session_open (rs_env X send (\<lambda>ds msg. ds @ [msg])) now c m b e = Some e'"
  shows "deliveries_ok X e e'"
proof (cases "is_tombstoned e c m \<or> bt_get (en_channels e) c = None")
  case True
  then show ?thesis
    using assms by (cases "is_tombstoned e c m") (auto simp: handle_session_open_def deliveries_ok_def)
next
  case False
  let ?E = "rs_env X send (\<lambda>ds msg. ds @ [msg])"
  obtain ch where ch: "bt_get (en_channels e) c = Some ch" using False by auto
  obtain ch' r where o: "Channel_open_session (RsStrategy_ops X) ch m b = (ch', r)"
    by (cases "Channel_open_session (RsStrategy_ops X) ch m b")
  show ?thesis
  proof (cases r)
    case (Inl x)
    then show ?thesis using assms False by (auto simp: handle_session_open_def ch o deliveries_ok_def)
  next
    case (Inr u)
    then obtain e1 q where d: "drain_session ?E c m (record_session_created c m now
        (e\<lparr>en_channels := bt_insert c ch' (en_channels e), en_session_preambles := bt_insert (c, m) b (en_session_preambles e)\<rparr>)) = Some (e1, q)"
      "replay_parked_chunks ?E now c m e1 = Some e'"
      using assms False by (auto simp: handle_session_open_def ch o Let_def bind_eq_Some_conv)
    have "en_delivered e1 = en_delivered e"
      using drain_session_frame [OF d(1)] by (simp add: drain_frame_def record_session_created_def)
    then show ?thesis by (rule deliveries_ok_frame [OF replay_deliveries [OF d(2)]])
  qed
qed

lemma subscribe_channels_delivered:
  "subscribe_channels E p cs e = Some e' \<Longrightarrow> en_delivered e' = en_delivered e"
proof (induction cs arbitrary: e)
  case (Cons c cs)
  let ?u = "update_channel c (\<lambda>ch. Channel_subscribe_peer (ev_strategy E) ch p) e"
  obtain e1 r where d: "drain_channel E c ?u = Some (e1, r)" "subscribe_channels E p cs e1 = Some e'"
    using Cons.prems by (auto simp: bind_eq_Some_conv)
  then show ?case using Cons.IH [OF d(2)] drain_channel_frame [OF d(1)] by (simp add: drain_frame_def)
qed simp

lemma handle_event_deliveries:
  assumes "handle_event (rs_env X send (\<lambda>ds msg. ds @ [msg])) now ev e = Some e'"
  shows "deliveries_ok X e e'"
proof (cases "(\<exists>p c m b u. ev = EvSessionOpen p c m b u) \<or> (\<exists>p c m i d. ev = EvChunk p c m i d)")
  case True
  then show ?thesis using assms handle_session_open_deliveries handle_chunk_deliveries by fastforce
next
  case False
  have "en_delivered e' = en_delivered e"
    using assms False
    by (cases ev)
      (auto simp: handle_peer_disconnected_def register_peer_and_handshake_def resolve_chunk_send_def
        detach_session_peer_def Let_def bind_eq_Some_conv drain_frame_def
        dest!: subscribe_channels_delivered drain_channel_frame drain_session_frame split: if_splits option.splits)
  then show ?thesis by (simp add: deliveries_ok_def)
qed

end
