(* ===== verification/Broadcast.thy ===== *)
theory Broadcast
  imports RsEngine NetLaws
begin

text \<open>
  What a publication does over a reliable network: the origin opens a session to every subscriber and sends it
  every shard, and a subscriber that handles what arrives delivers the payload. The lemmas are proved in the
  locale \<open>reliable_net\<close>, so they hold for every network that meets its contract.
\<close>

subsection \<open>The origin's strategy\<close>

text \<open>All shards are held, there is no forwarding limit, and nothing is known of what peers hold.\<close>

definition origin_ok :: "'e Crates \<Rightarrow> bytes list \<Rightarrow> RsStrategy \<Rightarrow> bool" where
  "origin_ok X shards s \<longleftrightarrow> rs_inv X s \<and> rs_chunks s = map Some shards \<and> pl_mode (rs_planner s) = ModeOrigin \<and>
     (\<forall>p. ps_havelist (peer_state (rs_planner s) p) = None)"

definition sent_to :: "RsStrategy \<Rightarrow> PeerId \<Rightarrow> u32 set" where
  "sent_to s p = bs_elems (ps_in_flight (peer_state (rs_planner s) p))"

lemma origin_okD:
  assumes "origin_ok X shards s"
  shows "rs_inv X s" "rs_chunks s = map Some shards" "heap_inv (rs_planner s)" "planner_inv (rs_planner s)"
  using assms by (simp_all add: origin_ok_def rs_inv_def planner_inv_def)

lemma origin_eligible:
  assumes "origin_ok X shards s"
  shows "eligible (rs_planner s) p i \<longleftrightarrow> unat i < length shards \<and> i \<notin> sent_to s p"
proof -
  have "pl_num_shards (rs_planner s) = RsStrategy_total_shards s" "chunks_inv X s"
    using origin_okD(1) [OF assms] by (simp_all add: rs_inv_def)
  then have "unat (pl_num_shards (rs_planner s)) = length shards"
    using total_shards_length origin_okD(2) [OF assms] by fastforce
  then show ?thesis using assms
    by (simp add: eligible_def open_to_def planner_cap_def origin_ok_def sent_to_def word_less_nat_alt)
qed

lemma allocate_peer_state:
  assumes "heap_inv p" "EmitPlanner_allocate p peer = (p', r)"
  shows "peer_state p' q = (case r of None \<Rightarrow> peer_state p q
    | Some i \<Rightarrow> if q = peer then (peer_state p q)\<lparr>ps_in_flight := bs_insert i (ps_in_flight (peer_state p q))\<rparr> else peer_state p q)"
proof (cases r)
  case None
  then show ?thesis using allocate_None(1) [of p peer p'] assms(2) by (simp add: peer_state_def)
next
  case (Some i)
  then show ?thesis using allocate_Some(3) [OF assms(1), of peer p' i] assms(2) by (simp add: peer_state_def)
qed

lemma allocate_exhausted:
  assumes "heap_inv p" "EmitPlanner_allocate p peer = (p', None)"
  shows "\<not> eligible p peer i"
  using allocate_None(2) [OF assms(2)] find_candidate_None [OF assms(1)] by blast

lemma origin_poll_peer:
  assumes ok: "origin_ok X shards s" and poll: "poll_peer p (s, ds) = (s', ds')"
  obtains (idle) "ds' = ds" "\<And>i. unat i < length shards \<Longrightarrow> i \<in> sent_to s p" "sent_to s' = sent_to s" "origin_ok X shards s'"
  | (send) d where "ds' = ds @ [d]" "cd_peer d = p" "unat (cd_chunk_id d) < length shards"
      "cd_payload d = shards ! unat (cd_chunk_id d)" "cd_chunk_id d \<notin> sent_to s p"
      "\<And>q. sent_to s' q = (if q = p then insert (cd_chunk_id d) (sent_to s q) else sent_to s q)" "origin_ok X shards s'"
proof -
  note d = origin_okD [OF ok]
  obtain pl r where al: "EmitPlanner_allocate (rs_planner s) p = (pl, r)" by fastforce
  note ps = allocate_peer_state [OF d(3) al]
  have s': "rs_inv X s'" "rs_chunks s' = map Some shards"
    using poll_peer_inv [of X "(s, ds)" p] poll_peer_frame(3) [of p "(s, ds)"] d(1,2) by (simp_all add: poll)
  have mode: "pl_mode pl = ModeOrigin" using allocate_frame(1) [of "rs_planner s" p] ok by (simp add: al origin_ok_def)
  show thesis
  proof (cases r)
    case None
    then have "s' = s\<lparr>rs_planner := pl\<rparr>" "ds' = ds" using poll by (simp_all add: poll_peer_def al)
    moreover have "\<not> eligible (rs_planner s) p i" for i using allocate_exhausted [OF d(3)] al None by blast
    ultimately show thesis using None ps mode ok s' origin_eligible [OF ok]
      by (intro idle) (auto simp: origin_ok_def sent_to_def fun_eq_iff)
  next
    case (Some i)
    then have "eligible (rs_planner s) p i" using allocate_Some(1) [OF d(3)] al by blast
    then have i: "unat i < length shards" "i \<notin> sent_to s p" by (simp_all add: origin_eligible [OF ok])
    then have "s' = s\<lparr>rs_planner := pl, rs_next_handle := rs_next_handle s + 1, rs_in_flight := bt_insert (rs_next_handle s) (p, i) (rs_in_flight s)\<rparr>"
      "ds' = ds @ [\<lparr>cd_peer = p, cd_chunk_id = i, cd_handle = rs_next_handle s, cd_payload = shards ! unat i\<rparr>]"
      using poll d(2) by (simp_all add: poll_peer_def al Some RsStrategy_issue_handle_def)
    then show thesis using Some ps mode ok s' i
      by (intro send) (auto simp: origin_ok_def sent_to_def)
  qed
qed

lemma origin_poll_all:
  assumes "origin_ok X shards s" "fold poll_peer ps (s, ds) = (s', ds')"
  shows "\<exists>new. ds' = ds @ new \<and> origin_ok X shards s' \<and>
    (\<forall>d\<in>set new. cd_peer d \<in> set ps \<and> unat (cd_chunk_id d) < length shards \<and> cd_payload d = shards ! unat (cd_chunk_id d)) \<and>
    (\<forall>q. sent_to s' q = sent_to s q \<union> cd_chunk_id ` {d \<in> set new. cd_peer d = q}) \<and>
    (new = [] \<longrightarrow> (\<forall>p\<in>set ps. \<forall>i. unat i < length shards \<longrightarrow> i \<in> sent_to s p))"
  using assms
proof (induction ps arbitrary: s ds)
  case (Cons p ps)
  obtain s1 ds1 where p: "poll_peer p (s, ds) = (s1, ds1)" by fastforce
  have rest: "fold poll_peer ps (s1, ds1) = (s', ds')" using Cons.prems(2) p by simp
  from Cons.prems(1) p show ?case
  proof (cases rule: origin_poll_peer)
    case idle
    from Cons.IH [OF idle(4) rest] obtain new where "ds' = ds1 @ new" "origin_ok X shards s'"
      "\<forall>d\<in>set new. cd_peer d \<in> set ps \<and> unat (cd_chunk_id d) < length shards \<and> cd_payload d = shards ! unat (cd_chunk_id d)"
      "\<forall>q. sent_to s' q = sent_to s1 q \<union> cd_chunk_id ` {d \<in> set new. cd_peer d = q}"
      "new = [] \<longrightarrow> (\<forall>p\<in>set ps. \<forall>i. unat i < length shards \<longrightarrow> i \<in> sent_to s1 p)" by blast
    then show ?thesis using idle by (intro exI [of _ new]) auto
  next
    case (send d)
    from Cons.IH [OF send(7) rest] obtain new where "ds' = ds1 @ new" "origin_ok X shards s'"
      "\<forall>d\<in>set new. cd_peer d \<in> set ps \<and> unat (cd_chunk_id d) < length shards \<and> cd_payload d = shards ! unat (cd_chunk_id d)"
      "\<forall>q. sent_to s' q = sent_to s1 q \<union> cd_chunk_id ` {d \<in> set new. cd_peer d = q}" by blast
    then show ?thesis using send by (intro exI [of _ "d # new"]) (auto split: if_splits)
  qed
qed simp

text \<open>The messages that polling can still produce: one per open shard and peer, and one routing update per peer.\<close>

definition budget :: "RsStrategy \<Rightarrow> nat" where
  "budget s = total_slack s + (if routing_pending s then card (bs_elems (rs_attached s)) else 0)"

lemma poll_routing_frame:
  assumes "RsStrategy_poll_routing s False = (s1, r)"
  shows "rs_chunks s1 = rs_chunks s" "rs_planner s1 = rs_planner s" "rs_attached s1 = rs_attached s" "rs_preamble s1 = rs_preamble s"
  using assms by (auto simp: RsStrategy_poll_routing_def Let_def split: if_splits)

lemma origin_session_poll:
  assumes ok: "origin_ok X shards (se_strategy se)" and poll: "Session_poll (RsStrategy_ops X) se = (se', w)"
  shows "origin_ok X shards (se_strategy se')" "rs_attached (se_strategy se') = rs_attached (se_strategy se)"
    "\<forall>d\<in>set (sw_dispatches w). cd_peer d \<in> bs_elems (rs_attached (se_strategy se)) \<and>
       unat (cd_chunk_id d) < length shards \<and> cd_payload d = shards ! unat (cd_chunk_id d)"
    "sent_to (se_strategy se') q = sent_to (se_strategy se) q \<union> cd_chunk_id ` {d \<in> set (sw_dispatches w). cd_peer d = q}"
    "sw_dispatches w = [] \<Longrightarrow> q \<in> bs_elems (rs_attached (se_strategy se)) \<Longrightarrow> unat i < length shards \<Longrightarrow> i \<in> sent_to (se_strategy se) q"
    "budget (se_strategy se') + length (sw_dispatches w) +
       (if sw_routing w = None then 0 else card (bs_elems (rs_attached (se_strategy se)))) = budget (se_strategy se)"
    "rs_work (se_strategy se') + length (sw_dispatches w) + (if sw_routing w = None then 0 else 1) = rs_work (se_strategy se)"
proof -
  let ?s = "se_strategy se"
  obtain s1 r where r: "RsStrategy_poll_routing ?s False = (s1, r)" by fastforce
  obtain s2 ds where c: "RsStrategy_poll_chunks s1 = (s2, ds)" by fastforce
  have out: "se_strategy se' = s2" "sw_dispatches w = ds" "sw_routing w = r"
    using poll by (auto simp: Session_poll_def RsStrategy_ops_def r c)
  note f = poll_routing_frame [OF r]
  have ok1: "origin_ok X shards s1"
  proof -
    have "chunks_inv X s1 = chunks_inv X ?s" "RsStrategy_total_shards s1 = RsStrategy_total_shards ?s"
      by (simp_all add: chunks_inv_def RsStrategy_total_shards_def f)
    then show ?thesis using ok by (simp add: origin_ok_def rs_inv_def f)
  qed
  have sent1: "sent_to s1 = sent_to ?s" by (simp add: fun_eq_iff sent_to_def f)
  have keys: "set (bt_keys (rs_attached s1)) = bs_elems (rs_attached ?s)" by (simp add: set_bt_keys_bs_elems f)
  obtain new where n: "ds = [] @ new" "origin_ok X shards s2"
    "\<forall>d\<in>set new. cd_peer d \<in> set (bt_keys (rs_attached s1)) \<and> unat (cd_chunk_id d) < length shards \<and> cd_payload d = shards ! unat (cd_chunk_id d)"
    "\<forall>q. sent_to s2 q = sent_to s1 q \<union> cd_chunk_id ` {d \<in> set new. cd_peer d = q}"
    "new = [] \<longrightarrow> (\<forall>p\<in>set (bt_keys (rs_attached s1)). \<forall>i. unat i < length shards \<longrightarrow> i \<in> sent_to s1 p)"
    using origin_poll_all [OF ok1 c [unfolded RsStrategy_poll_chunks_def]] by blast
  have att: "rs_attached s2 = rs_attached ?s"
    using fold_poll_frame(4) [of "bt_keys (rs_attached s1)" "(s1, [])"] c f(3) by (simp add: RsStrategy_poll_chunks_def del: fold_poll_frame)
  show "origin_ok X shards (se_strategy se')" "rs_attached (se_strategy se') = rs_attached ?s" using n(2) att by (simp_all add: out)
  show "\<forall>d\<in>set (sw_dispatches w). cd_peer d \<in> bs_elems (rs_attached ?s) \<and>
       unat (cd_chunk_id d) < length shards \<and> cd_payload d = shards ! unat (cd_chunk_id d)"
    using n(1,3) keys by (simp add: out)
  show "sent_to (se_strategy se') q = sent_to ?s q \<union> cd_chunk_id ` {d \<in> set (sw_dispatches w). cd_peer d = q}"
    using n(1,4) by (simp add: out sent1)
  show "i \<in> sent_to ?s q" if "sw_dispatches w = []" "q \<in> bs_elems (rs_attached ?s)" "unat i < length shards"
    using n(1,5) that keys by (simp add: out sent1)
  have slack: "total_slack s1 = total_slack ?s" by (simp add: total_slack_def f)
  have w1: "rs_work s1 + (if r = None then 0 else 1) = rs_work ?s" by (rule poll_routing_work [OF r])
  have w2: "rs_work s2 + length ds = rs_work s1" by (rule poll_chunks_work [OF origin_okD(1) [OF ok1] c])
  have "total_slack s2 + length ds = total_slack s1"
    using total_slack_fold_poll [of X "(s1, [])" "bt_keys (rs_attached s1)"] origin_okD(1) [OF ok1] c
    by (simp add: RsStrategy_poll_chunks_def set_bt_keys_bs_elems)
  then show "budget (se_strategy se') + length (sw_dispatches w) +
       (if sw_routing w = None then 0 else card (bs_elems (rs_attached ?s))) = budget ?s"
    using w1 w2 slack by (auto simp: out budget_def rs_work_eq att split: if_splits)
  show "rs_work (se_strategy se') + length (sw_dispatches w) + (if sw_routing w = None then 0 else 1) = rs_work ?s"
    using w1 w2 by (simp add: out)
qed

text \<open>Attaching the subscribers to a new origin session.\<close>

lemma attach_all_strategy:
  "se_strategy (attach_all (RsStrategy_ops X) ps se) =
     (se_strategy se)\<lparr>rs_attached := fold bs_insert ps (rs_attached (se_strategy se))\<rparr>"
  by (induction ps arbitrary: se) (simp_all add: Session_attach_peer_def RsStrategy_ops_def RsStrategy_attach_peer_def)

lemma fold_bs_insert: "bs_elems (fold bs_insert ps A) = set ps \<union> bs_elems A"
  by (induction ps arbitrary: A) auto

lemma origin_ok_attached [simp]:
  "origin_ok X shards (s\<lparr>rs_attached := A\<rparr>) = origin_ok X shards s" "sent_to (s\<lparr>rs_attached := A\<rparr>) = sent_to s"
  by (simp_all add: origin_ok_def rs_inv_def chunks_inv_def RsStrategy_total_shards_def sent_to_def fun_eq_iff)

lemma budget_bound:
  assumes "origin_ok X shards s"
  shows "budget s \<le> card (bs_elems (rs_attached s)) * (length shards + 1)"
proof -
  have "pl_num_shards (rs_planner s) = RsStrategy_total_shards s" "chunks_inv X s"
    using origin_okD(1) [OF assms] by (simp_all add: rs_inv_def)
  then have "unat (pl_num_shards (rs_planner s)) = length shards"
    using total_shards_length origin_okD(2) [OF assms] by fastforce
  then have "peer_slack (rs_planner s) p \<le> length shards" for p by (simp add: peer_slack_def)
  then have "total_slack s \<le> card (bs_elems (rs_attached s)) * length shards"
    unfolding total_slack_def using sum_bounded_above [of "bs_elems (rs_attached s)" "peer_slack (rs_planner s)" "length shards"] by simp
  then show ?thesis by (simp add: budget_def)
qed

subsection \<open>Sending over a reliable network\<close>

definition opened :: "('s, 'n, 'd) Engine \<Rightarrow> ChannelId \<Rightarrow> MessageId \<Rightarrow> PeerId \<Rightarrow> bool" where
  "opened e c m p \<longleftrightarrow> (case bt_get (en_opened_to e) (c, m) of None \<Rightarrow> False | Some s \<Rightarrow> bt_contains p s)"

definition chunk_event :: "PeerId \<Rightarrow> ChannelId \<Rightarrow> MessageId \<Rightarrow> u32 ChunkDispatch \<Rightarrow> NetEvent" where
  "chunk_event self c m d = EvChunk self c m (cd_chunk_id d) (cd_payload d)"

lemma opened_frame [simp]:
  "opened (e\<lparr>en_net := n\<rparr>) = opened e" "opened (e\<lparr>en_pending_sends := x\<rparr>) = opened e"
  by (simp_all add: opened_def fun_eq_iff)

lemma ensure_opened: "opened e c m p \<Longrightarrow> ensure_session_open E c m p e = (e, Inr ())"
  by (simp add: ensure_session_open_def opened_def)

text \<open>What a subscriber sees of a session after its opening: routing updates and genuine shards.\<close>

definition shard_event :: "PeerId \<Rightarrow> ChannelId \<Rightarrow> MessageId \<Rightarrow> bytes list \<Rightarrow> NetEvent \<Rightarrow> bool" where
  "shard_event self c m shards ev \<longleftrightarrow> (\<exists>b. ev = EvRoutingUpdate self c m b) \<or>
     (\<exists>i. unat i < length shards \<and> ev = EvChunk self c m i (shards ! unat i))"

definition chunk_ids :: "NetEvent list \<Rightarrow> u32 set" where
  "chunk_ids evs = {i. \<exists>q c m d. EvChunk q c m i d \<in> set evs}"

lemma chunk_ids_append [simp]: "chunk_ids (xs @ ys) = chunk_ids xs \<union> chunk_ids ys"
  by (auto simp: chunk_ids_def)

lemma chunk_ids_dispatches: "chunk_ids (map (chunk_event self c m) ds) = cd_chunk_id ` set ds"
  by (force simp: chunk_ids_def chunk_event_def)

text \<open>
  The state of a publication: the session's strategy is an origin's, its peers are the channel's subscribers, their
  streams are open, and each has received exactly the shards that the planner has in flight to it.
\<close>

definition spreading ::
  "'e Crates \<Rightarrow> bytes list \<Rightarrow> PeerId \<Rightarrow> ChannelId \<Rightarrow> MessageId \<Rightarrow> PeerId btree_set \<Rightarrow> ('n \<Rightarrow> PeerId \<Rightarrow> NetEvent list) \<Rightarrow>
   (PeerId \<Rightarrow> NetEvent list) \<Rightarrow> (RsStrategy, 'n, 'd) Engine \<Rightarrow> RsStrategy Session \<Rightarrow> bool" where
  "spreading X shards self c m A box start e se \<longleftrightarrow>
     session_of e c m = Some se \<and> origin_ok X shards (se_strategy se) \<and> rs_attached (se_strategy se) = A \<and>
     subscribers_of e c = bt_keys A \<and>
     (\<forall>p\<in>bs_elems A. opened e c m p \<and>
        (\<exists>evs. box (en_net e) p = start p @ evs \<and> (\<forall>ev\<in>set evs. shard_event self c m shards ev) \<and>
           chunk_ids evs = sent_to (se_strategy se) p))"

lemma subscribers_of_cong: "en_channels e' = en_channels e \<Longrightarrow> subscribers_of e' = subscribers_of e"
  by (simp add: subscribers_of_def fun_eq_iff)

lemma subscribers_set_session [simp]: "subscribers_of (set_session c m se e) c' = subscribers_of e c'"
  by (auto simp: set_session_def subscribers_of_def Channel_set_session_def split: option.split)

lemma opened_set_session [simp]: "opened (set_session c m se e) = opened e"
  by (simp add: opened_def fun_eq_iff)

lemma opened_cong: "en_opened_to e' = en_opened_to e \<Longrightarrow> opened e' = opened e"
  by (simp add: opened_def fun_eq_iff)

context reliable_net
begin

lemma dispatches_sent:
  assumes E: "ev_send E = send" and "inv (length ds + k) (en_net e)"
    and "\<forall>d\<in>set ds. reachable (en_net e) (cd_peer d) \<and> opened e c m (cd_peer d)"
  shows "\<exists>e'. send_dispatches E c m ds False e = (e', Inr False) \<and> inv k (en_net e') \<and>
    (\<forall>p. reachable (en_net e') p \<longleftrightarrow> reachable (en_net e) p) \<and> en_channels e' = en_channels e \<and> en_opened_to e' = en_opened_to e \<and>
    (\<forall>p. p \<noteq> self \<longrightarrow> inbox (en_net e') p = inbox (en_net e) p @ map (chunk_event self c m) (filter (\<lambda>d. cd_peer d = p) ds))"
  using assms(2,3)
proof (induction ds arbitrary: e)
  case (Cons d ds)
  let ?msg = "SendChunk (cd_peer d) c m (cd_chunk_id d) (cd_payload d) (cd_handle d)"
  have "inv (Suc (length ds + k)) (en_net e)" "reachable (en_net e) (cd_peer d)" using Cons.prems by simp_all
  note rel = send_reliable [of "length ds + k" "en_net e" ?msg "cd_peer d", OF this(1) _ this(2)]
  obtain n where n: "send (en_net e) ?msg = (n, Inr ())" "inv (length ds + k) n" "\<And>p. reachable n p \<longleftrightarrow> reachable (en_net e) p"
    "\<And>p. p \<noteq> self \<Longrightarrow> inbox n p = inbox (en_net e) p @ (if p = cd_peer d then [the (sent_event self ?msg)] else [])"
    using rel by auto
  let ?e = "e\<lparr>en_net := n, en_pending_sends := bt_insert (c, m, cd_handle d) (cd_peer d) (en_pending_sends e)\<rparr>"
  have "inv (length ds + k) (en_net ?e)" "\<forall>d\<in>set ds. reachable (en_net ?e) (cd_peer d) \<and> opened ?e c m (cd_peer d)"
    using n Cons.prems(2) by simp_all
  from Cons.IH [OF this] show ?case
    using Cons.prems(2) by (auto simp: E n ensure_opened chunk_event_def)
qed simp

lemma routing_sent:
  assumes E: "ev_send E = send" and "inv (length ps + k) (en_net e)" "distinct ps"
    and "\<forall>p\<in>set ps. reachable (en_net e) p \<and> opened e c m p"
  shows "\<exists>e'. try_each (send_routing E c m b) ps e = (e', Inr ()) \<and> inv k (en_net e') \<and>
    (\<forall>p. reachable (en_net e') p \<longleftrightarrow> reachable (en_net e) p) \<and> en_channels e' = en_channels e \<and> en_opened_to e' = en_opened_to e \<and>
    (\<forall>p. p \<noteq> self \<longrightarrow> inbox (en_net e') p = inbox (en_net e) p @ (if p \<in> set ps then [EvRoutingUpdate self c m b] else []))"
  using assms(2-4)
proof (induction ps arbitrary: e)
  case (Cons q ps)
  have "inv (Suc (length ps + k)) (en_net e)" "reachable (en_net e) q" using Cons.prems by simp_all
  note rel = send_reliable [of "length ps + k" "en_net e" "SendRoutingUpdate q c m b" q, OF this(1) _ this(2)]
  obtain n where n: "send (en_net e) (SendRoutingUpdate q c m b) = (n, Inr ())" "inv (length ps + k) n"
    "\<And>p. reachable n p \<longleftrightarrow> reachable (en_net e) p"
    "\<And>p. p \<noteq> self \<Longrightarrow> inbox n p = inbox (en_net e) p @ (if p = q then [EvRoutingUpdate self c m b] else [])"
    using rel by auto
  have step: "send_routing E c m b q e = (e\<lparr>en_net := n\<rparr>, Inr ())"
    using Cons.prems(3) by (simp add: send_routing_def ensure_opened net_send_def E n)
  have "inv (length ps + k) (en_net (e\<lparr>en_net := n\<rparr>))" "distinct ps"
    "\<forall>p\<in>set ps. reachable (en_net (e\<lparr>en_net := n\<rparr>)) p \<and> opened (e\<lparr>en_net := n\<rparr>) c m p"
    using n Cons.prems(2,3) by simp_all
  from Cons.IH [OF this] show ?case using Cons.prems(2) by (auto simp: step n)
qed simp

lemma sessions_opened:
  assumes E: "ev_send E = send" and "inv (length ps + k) (en_net e)" "distinct ps"
    and "\<forall>p\<in>set ps. reachable (en_net e) p \<and> \<not> opened e c m p" "bt_get (en_session_preambles e) (c, m) = Some b"
  shows "\<exists>e'. try_each (ensure_session_open E c m) ps e = (e', Inr ()) \<and> inv k (en_net e') \<and>
    (\<forall>p. reachable (en_net e') p \<longleftrightarrow> reachable (en_net e) p) \<and> en_channels e' = en_channels e \<and>
    (\<forall>p. opened e' c m p \<longleftrightarrow> opened e c m p \<or> p \<in> set ps) \<and>
    (\<forall>p. p \<noteq> self \<longrightarrow> inbox (en_net e') p = inbox (en_net e) p @ (if p \<in> set ps then [EvSessionOpen self c m b []] else []))"
  using assms(2-5)
proof (induction ps arbitrary: e)
  case (Cons q ps)
  have "inv (Suc (length ps + k)) (en_net e)" "reachable (en_net e) q" using Cons.prems by simp_all
  note rel = send_reliable [of "length ps + k" "en_net e" "SendSessionOpen q c m b []" q, OF this(1) _ this(2)]
  obtain n where n: "send (en_net e) (SendSessionOpen q c m b []) = (n, Inr ())" "inv (length ps + k) n"
    "\<And>p. reachable n p \<longleftrightarrow> reachable (en_net e) p"
    "\<And>p. p \<noteq> self \<Longrightarrow> inbox n p = inbox (en_net e) p @ (if p = q then [EvSessionOpen self c m b []] else [])"
    using rel by auto
  let ?e = "e\<lparr>en_net := n, en_opened_to := bt_entry bt_empty (c, m) (bs_insert q) (en_opened_to e)\<rparr>"
  have step: "ensure_session_open E c m q e = (?e, Inr ())"
    using Cons.prems(3,4) unfolding opened_def by (simp add: ensure_session_open_def net_send_def E n)
  have op: "opened ?e c m p \<longleftrightarrow> opened e c m p \<or> p = q" for p
    by (auto simp: opened_def bt_get_or_def bt_contains_bs_elems simp del: bt_contains_iff split: option.splits)
  have "inv (length ps + k) (en_net ?e)" "distinct ps" "\<forall>p\<in>set ps. reachable (en_net ?e) p \<and> \<not> opened ?e c m p"
    "bt_get (en_session_preambles ?e) (c, m) = Some b"
    using n Cons.prems op by auto
  from Cons.IH [OF this] show ?case using Cons.prems(2) by (auto simp: step n op)
qed simp


text \<open>One round of the drain loop gets everything through that was polled.\<close>

lemma round_sent:
  assumes E: "ev_send E = send" "ev_strategy E = RsStrategy_ops X"
    and spread: "spreading X shards self c m A inbox start e se"
    and net: "inv (budget (se_strategy se) + k) (en_net e)" "\<forall>p\<in>bs_elems A. p \<noteq> self \<and> reachable (en_net e) p"
    and poll: "Session_poll (RsStrategy_ops X) se = (se1, w)"
  shows "\<exists>e2. drain_round E c m w (set_session c m se1 e) = (e2, Inr False) \<and> spreading X shards self c m A inbox start e2 se1 \<and>
    inv (budget (se_strategy se1) + k) (en_net e2) \<and> (\<forall>p. reachable (en_net e2) p \<longleftrightarrow> reachable (en_net e) p)"
proof -
  let ?s = "se_strategy se" and ?e1 = "set_session c m se1 e"
  have sp: "session_of e c m = Some se" "origin_ok X shards ?s" "rs_attached ?s = A" "subscribers_of e c = bt_keys A"
    and per: "\<And>p. p \<in> bs_elems A \<Longrightarrow> opened e c m p \<and> (\<exists>evs. inbox (en_net e) p = start p @ evs \<and>
      (\<forall>ev\<in>set evs. shard_event self c m shards ev) \<and> chunk_ids evs = sent_to ?s p)"
    using spread by (simp_all add: spreading_def)
  note ps = origin_session_poll [OF sp(2) poll]
  let ?ds = "sw_dispatches w" and ?routing = "case sw_routing w of None \<Rightarrow> (?e1, Inr ())
    | Some routing \<Rightarrow> try_each (send_routing E c m (BitMap_as_bytes routing)) (subscribers_of ?e1 c) ?e1"
  let ?k = "length ?ds + (budget (se_strategy se1) + k)"
  have card: "length (bt_keys A) = card (bs_elems A)" using distinct_card [OF distinct_bt_keys [of A]] by (simp add: set_bt_keys_bs_elems)
  obtain ea where ea: "?routing = (ea, Inr ())" "inv ?k (en_net ea)" "\<And>p. reachable (en_net ea) p \<longleftrightarrow> reachable (en_net e) p"
    "en_channels ea = en_channels ?e1" "en_opened_to ea = en_opened_to e"
    "\<And>p. p \<in> bs_elems A \<Longrightarrow> \<exists>rs. inbox (en_net ea) p = inbox (en_net e) p @ rs \<and> (\<forall>ev\<in>set rs. \<exists>b. ev = EvRoutingUpdate self c m b)"
  proof (cases "sw_routing w")
    case None
    have "?k = budget ?s + k" using ps(6) None by simp
    then have "inv ?k (en_net ?e1)" using net(1) unfolding set_session_frame by metis
    then show thesis using that [of ?e1] None by (simp add: exI [of _ "[]"])
  next
    case (Some r)
    have "length (bt_keys A) + ?k = budget ?s + k" using ps(6) Some sp(3) card by simp
    then have "inv (length (bt_keys A) + ?k) (en_net ?e1)" using net(1) unfolding set_session_frame by metis
    moreover have "\<forall>p\<in>set (bt_keys A). reachable (en_net ?e1) p \<and> opened ?e1 c m p"
      using net(2) per by (simp add: set_bt_keys_bs_elems)
    ultimately obtain ea where "try_each (send_routing E c m (BitMap_as_bytes r)) (bt_keys A) ?e1 = (ea, Inr ())" "inv ?k (en_net ea)"
      "\<forall>p. reachable (en_net ea) p \<longleftrightarrow> reachable (en_net ?e1) p" "en_channels ea = en_channels ?e1" "en_opened_to ea = en_opened_to ?e1"
      "\<forall>p. p \<noteq> self \<longrightarrow> inbox (en_net ea) p = inbox (en_net ?e1) p @ (if p \<in> set (bt_keys A) then [EvRoutingUpdate self c m (BitMap_as_bytes r)] else [])"
      using routing_sent [OF E(1) _ distinct_bt_keys, of A ?k ?e1 c m "BitMap_as_bytes r"] by blast
    then show thesis using that [of ea] Some sp(4) net(2) by (simp add: set_bt_keys_bs_elems)
  qed
  have "\<forall>d\<in>set ?ds. reachable (en_net ea) (cd_peer d) \<and> opened ea c m (cd_peer d)"
    using ps(3) sp(3) net(2) per ea(3) opened_cong [OF ea(5)] by simp
  then obtain e2 where e2: "send_dispatches E c m ?ds False ea = (e2, Inr False)" "inv (budget (se_strategy se1) + k) (en_net e2)"
    "\<And>p. reachable (en_net e2) p \<longleftrightarrow> reachable (en_net ea) p" "en_channels e2 = en_channels ea" "en_opened_to e2 = en_opened_to ea"
    "\<And>p. p \<noteq> self \<Longrightarrow> inbox (en_net e2) p = inbox (en_net ea) p @ map (chunk_event self c m) (filter (\<lambda>d. cd_peer d = p) ?ds)"
    using dispatches_sent [OF E(1) ea(2)] by blast
  have "drain_round E c m w ?e1 = (e2, Inr False)" using ea(1) e2(1) by (simp add: drain_round_def)
  moreover have "spreading X shards self c m A inbox start e2 se1"
  proof -
    have ch: "en_channels e2 = en_channels ?e1" using e2(4) ea(4) by simp
    have "session_of e2 c m = Some se1" using session_of_cong [OF ch] session_of_set_session [OF sp(1), of se1 c m] by simp
    moreover have "subscribers_of e2 c = bt_keys A" using subscribers_of_cong [OF ch] sp(4) by simp
    moreover have "opened e2 c m p \<and> (\<exists>evs. inbox (en_net e2) p = start p @ evs \<and>
        (\<forall>ev\<in>set evs. shard_event self c m shards ev) \<and> chunk_ids evs = sent_to (se_strategy se1) p)" if p: "p \<in> bs_elems A" for p
    proof -
      obtain evs where evs: "inbox (en_net e) p = start p @ evs" "\<forall>ev\<in>set evs. shard_event self c m shards ev" "chunk_ids evs = sent_to ?s p"
        using per [OF p] by blast
      obtain rs where rs: "inbox (en_net ea) p = inbox (en_net e) p @ rs" "\<forall>ev\<in>set rs. \<exists>b. ev = EvRoutingUpdate self c m b"
        using ea(6) [OF p] by blast
      let ?new = "map (chunk_event self c m) (filter (\<lambda>d. cd_peer d = p) ?ds)"
      have "inbox (en_net e2) p = start p @ (evs @ rs @ ?new)" using e2(6) [of p] net(2) p rs(1) evs(1) by simp
      moreover have "\<forall>ev\<in>set (evs @ rs @ ?new). shard_event self c m shards ev"
        using evs(2) rs(2) ps(3) by (auto simp: shard_event_def chunk_event_def)
      moreover have "chunk_ids rs = {}" using rs(2) by (auto simp: chunk_ids_def)
      then have "chunk_ids (evs @ rs @ ?new) = sent_to (se_strategy se1) p"
        using evs(3) ps(4) [of p] by (simp add: chunk_ids_dispatches)
      moreover have "opened e2 c m p" using per [OF p] opened_cong [OF e2(5)] opened_cong [OF ea(5)] by simp
      ultimately show ?thesis by blast
    qed
    ultimately show ?thesis using ps(1,2) sp(3) by (simp add: spreading_def)
  qed
  ultimately show ?thesis using e2(2,3) ea(3) by blast
qed

lemma drain_spreads:
  assumes E: "ev_send E = send" "ev_strategy E = RsStrategy_ops X"
    and "spreading X shards self c m A inbox start e se"
    and "inv (budget (se_strategy se) + k) (en_net e)" "\<forall>p\<in>bs_elems A. p \<noteq> self \<and> reachable (en_net e) p"
  shows "\<exists>e' se'. drain_session E c m e = Some (e', Inr ()) \<and> spreading X shards self c m A inbox start e' se' \<and>
    inv (budget (se_strategy se') + k) (en_net e') \<and> (\<forall>p. reachable (en_net e') p \<longleftrightarrow> reachable (en_net e) p) \<and>
    (\<forall>p\<in>bs_elems A. \<forall>i. unat i < length shards \<longrightarrow> i \<in> sent_to (se_strategy se') p)"
  using assms(3-5)
proof (induction "rs_work (se_strategy se)" arbitrary: e se rule: less_induct)
  case less
  have sp: "session_of e c m = Some se" "origin_ok X shards (se_strategy se)" "rs_attached (se_strategy se) = A"
    using less.prems(1) by (simp_all add: spreading_def)
  obtain se1 w where poll: "Session_poll (RsStrategy_ops X) se = (se1, w)" by fastforce
  note ps = origin_session_poll [OF sp(2) poll]
  have p: "poll_session E c m e = (set_session c m se1 e, Some w)" using sp(1) poll by (simp add: poll_session_def E)
  obtain e2 where e2: "drain_round E c m w (set_session c m se1 e) = (e2, Inr False)" "spreading X shards self c m A inbox start e2 se1"
    "inv (budget (se_strategy se1) + k) (en_net e2)" "\<And>p. reachable (en_net e2) p \<longleftrightarrow> reachable (en_net e) p"
    using round_sent [OF E less.prems poll] by blast
  show ?case
  proof (cases "sw_routing w = None \<and> sw_dispatches w = []")
    case True
    then have d: "drain_session E c m e = Some (set_session c m se1 e, Inr ())" by (subst drain_session.simps) (simp add: p)
    have e2': "e2 = set_session c m se1 e" using e2(1) True by (simp add: drain_round_def)
    show ?thesis using d e2 e2' ps(4,5) True sp(3) by (intro exI [of _ "set_session c m se1 e"] exI [of _ se1]) auto
  next
    case False
    then have "drain_session E c m e = drain_session E c m e2" by (subst drain_session.simps) (auto simp: p e2(1))
    moreover have "rs_work (se_strategy se1) < rs_work (se_strategy se)"
      using ps(7) False by (cases "sw_dispatches w") (auto split: if_splits)
    moreover have "\<forall>p\<in>bs_elems A. p \<noteq> self \<and> reachable (en_net e2) p" using less.prems(3) e2(4) by simp
    ultimately show ?thesis using less.hyps [OF _ e2(2,3)] e2(4) by simp
  qed
qed

lemma publish_spreads:
  assumes E: "ev_send E = send" "ev_strategy E = RsStrategy_ops X"
    and ok: "origin_ok X shards s" "rs_attached s = bt_empty" "\<And>p. sent_to s p = {}"
    and ch: "bt_get (en_channels e) c = Some ch" "bt_get (ch_sessions ch) m = None" "bt_get (en_opened_to e) (c, m) = None"
    and peers: "\<forall>p\<in>bs_elems (ch_subscribers ch). p \<noteq> self \<and> reachable (en_net e) p"
    and room: "inv (card (bs_elems (ch_subscribers ch)) * (length shards + 2)) (en_net e)"
  shows "\<exists>e'. Engine_publish E now c m s b e = Some (e', Inr ()) \<and>
    (\<forall>p\<in>bs_elems (ch_subscribers ch). \<exists>evs. inbox (en_net e') p = inbox (en_net e) p @ EvSessionOpen self c m b [] # evs \<and>
      (\<forall>ev\<in>set evs. shard_event self c m shards ev) \<and> (\<forall>i. unat i < length shards \<longrightarrow> i \<in> chunk_ids evs))"
proof -
  let ?A = "ch_subscribers ch" and ?ps = "bt_keys (ch_subscribers ch)"
  let ?se = "attach_all (RsStrategy_ops X) ?ps (Session_new_origin s)"
  let ?ch = "ch\<lparr>ch_sessions := bt_insert m ?se (ch_sessions ch)\<rparr>"
  let ?e0 = "record_session_created c m now (e\<lparr>en_channels := bt_insert c ?ch (en_channels e),
    en_session_preambles := bt_insert (c, m) b (en_session_preambles e)\<rparr>)"
  have start: "Channel_start_origin_session (ev_strategy E) ch m s = (?ch, Inr ())"
    using ch(2) by (simp add: Channel_start_origin_session_def E)
  have strat: "se_strategy ?se = s\<lparr>rs_attached := ?A\<rparr>"
    using fold_bs_insert [of ?ps bt_empty] ok(2)
    by (simp add: attach_all_strategy Session_new_origin_def set_bt_keys_bs_elems bs_eqI)
  then have st: "origin_ok X shards (se_strategy ?se)" "\<And>p. sent_to (se_strategy ?se) p = {}" "rs_attached (se_strategy ?se) = ?A"
    using ok by simp_all
  let ?n = "card (bs_elems ?A)" and ?b = "budget (se_strategy ?se)"
  have len: "length ?ps = ?n" using distinct_card [OF distinct_bt_keys [of ?A]] by (simp add: set_bt_keys_bs_elems)
  have "?b \<le> ?n * (length shards + 1)" using budget_bound [OF st(1)] st(3) by simp
  then have "length ?ps + (?b + (?n * (length shards + 1) - ?b)) = ?n * (length shards + 2)" by (simp add: len)
  then have r0: "inv (length ?ps + (?b + (?n * (length shards + 1) - ?b))) (en_net ?e0)"
    using room by (simp add: record_session_created_def)
  have o0: "\<not> opened ?e0 c m p" for p using ch(3) by (simp add: opened_def record_session_created_def)
  have p0: "\<forall>p\<in>set ?ps. reachable (en_net ?e0) p \<and> \<not> opened ?e0 c m p"
    using peers o0 by (simp add: record_session_created_def set_bt_keys_bs_elems)
  have b0: "bt_get (en_session_preambles ?e0) (c, m) = Some b" by (simp add: record_session_created_def)
  obtain e1 where e1: "try_each (ensure_session_open E c m) ?ps ?e0 = (e1, Inr ())"
    "inv (?b + (?n * (length shards + 1) - ?b)) (en_net e1)" "\<And>p. reachable (en_net e1) p \<longleftrightarrow> reachable (en_net ?e0) p"
    "en_channels e1 = en_channels ?e0" "\<And>p. opened e1 c m p \<longleftrightarrow> p \<in> set ?ps"
    "\<And>p. p \<noteq> self \<Longrightarrow> inbox (en_net e1) p = inbox (en_net ?e0) p @ (if p \<in> set ?ps then [EvSessionOpen self c m b []] else [])"
    using sessions_opened [OF E(1) r0 distinct_bt_keys p0 b0] o0 by blast
  let ?start = "\<lambda>p. inbox (en_net e) p @ [EvSessionOpen self c m b []]"
  have "session_of e1 c m = Some ?se" "subscribers_of e1 c = ?ps"
    using e1(4) by (simp_all add: session_of_eq subscribers_of_def record_session_created_def)
  moreover have "opened e1 c m p \<and> (\<exists>evs. inbox (en_net e1) p = ?start p @ evs \<and> (\<forall>ev\<in>set evs. shard_event self c m shards ev) \<and>
      chunk_ids evs = sent_to (se_strategy ?se) p)" if "p \<in> bs_elems ?A" for p
  proof -
    have "p \<in> set ?ps" "p \<noteq> self" using that peers by (simp_all add: set_bt_keys_bs_elems)
    then have "opened e1 c m p" "inbox (en_net e1) p = ?start p" using e1(5,6) by (simp_all add: record_session_created_def)
    then show ?thesis using st(2) by (simp add: exI [of _ "[]"] chunk_ids_def)
  qed
  ultimately have spread: "spreading X shards self c m ?A inbox ?start e1 ?se" using st(1,3) by (simp add: spreading_def)
  have "\<forall>p\<in>bs_elems ?A. p \<noteq> self \<and> reachable (en_net e1) p" using peers e1(3) by (simp add: record_session_created_def)
  note drained = drain_spreads [OF E spread e1(2) this]
  obtain e' se' where d: "drain_session E c m e1 = Some (e', Inr ())" "spreading X shards self c m ?A inbox ?start e' se'"
    "\<forall>p\<in>bs_elems ?A. \<forall>i. unat i < length shards \<longrightarrow> i \<in> sent_to (se_strategy se') p"
    using drained by (elim exE conjE)
  have "Engine_publish E now c m s b e = Some (e', Inr ())"
    using d(1) e1(1) by (simp add: Engine_publish_def ch(1) start Let_def)
  moreover have "\<exists>evs. inbox (en_net e') p = inbox (en_net e) p @ EvSessionOpen self c m b [] # evs \<and>
      (\<forall>ev\<in>set evs. shard_event self c m shards ev) \<and> (\<forall>i. unat i < length shards \<longrightarrow> i \<in> chunk_ids evs)" if p: "p \<in> bs_elems ?A" for p
  proof -
    obtain evs where "inbox (en_net e') p = ?start p @ evs" "\<forall>ev\<in>set evs. shard_event self c m shards ev"
      "chunk_ids evs = sent_to (se_strategy se') p"
      using d(2) p by (auto simp: spreading_def)
    then show ?thesis using d(3) p by (intro exI [of _ evs]) simp
  qed
  ultimately show ?thesis by blast
qed

end

subsection \<open>A subscriber\<close>

text \<open>An engine subscribed to the channel that has not seen the session yet.\<close>

definition awaits :: "'e Crates \<Rightarrow> Preamble \<Rightarrow> bytes \<Rightarrow> ChannelId \<Rightarrow> MessageId \<Rightarrow> (RsStrategy, 'n, 'd) Engine \<Rightarrow> bool" where
  "awaits X p b c m e \<longleftrightarrow> engine_inv (rs_inv X) e \<and>
     (\<exists>ch n s config seed. bt_get (en_channels e) c = Some ch \<and> ch_factory ch (ch_calls ch) b = (n, Inr s) \<and>
        RsStrategy_new_relay_with_seed p config seed = Inr s) \<and>
     \<not> live e (c, m) \<and> \<not> is_tombstoned e c m \<and> bt_get (en_parked_chunks e) (c, m) = None"

lemma chunk_ids_Cons:
  "chunk_ids (EvChunk q c m i d # evs) = insert i (chunk_ids evs)" "chunk_ids (EvRoutingUpdate q c m b # evs) = chunk_ids evs"
  by (auto simp: chunk_ids_def)

lemma brings_finite: "finite (brings shards ev)"
  by (cases ev) simp_all

lemma shard_event_traffic: "shard_event self c m shards ev \<Longrightarrow> traffic X shards c m ev"
  by (auto simp: shard_event_def collision_free_def)

lemma shard_event_brings:
  assumes "\<forall>ev\<in>set evs. shard_event self c m shards ev" "i \<in> chunk_ids evs"
  shows "unat i \<in> (\<Union>ev\<in>set evs. brings shards ev)"
proof -
  obtain q c' m' d where ev: "EvChunk q c' m' i d \<in> set evs" using assms(2) by (auto simp: chunk_ids_def)
  then have "shard_event self c m shards (EvChunk q c' m' i d)" using assms(1) by blast
  then have "unat i \<in> brings shards (EvChunk q c' m' i d)" by (simp add: shard_event_def)
  then show ?thesis using ev by blast
qed

lemma encoded_shards:
  assumes "encoded_message X payload p shards"
  shows "unat (num_data p) \<le> length shards" "length shards < 2 ^ 32"
proof -
  obtain l where l: "encodes X payload p shards l" using assms by (auto simp: encoded_message_def)
  then show "unat (num_data p) \<le> length shards" by (auto simp: encodes_def shards_shape_def)
  have "preamble_ok p" using encodes_preamble_ok [OF l] assms by (simp add: encoded_message_def)
  then have "unat (num_data p + num_parity p) = length shards"
    using l shard_total_nonneg(2) [of p] by (auto simp: preamble_ok_def encodes_def)
  then show "length shards < 2 ^ 32" using unat_u32_bound [of "num_data p + num_parity p"] by simp
qed

lemma subscriber_delivers:
  assumes enc: "encode X payload config = Some (Inr (p, shards))" "sha_ok X" "rs_ok X" and aw: "awaits X p b c m e"
    and evs: "\<forall>ev\<in>set evs. shard_event self c m shards ev" "\<forall>i. unat i < length shards \<longrightarrow> i \<in> chunk_ids evs"
    and tevs: "map snd tevs = EvSessionOpen self c m b u # evs" "\<forall>t\<in>set (map fst tevs). t \<le> fst (hd tevs) + active_session_ttl (en_config e)"
  shows "\<exists>e'. run_steps (rs_env X send (\<lambda>ds msg. ds @ [msg])) tevs e = Some e' \<and>
    en_delivered e' = en_delivered e @ [\<lparr>dm_channel_id = c, dm_message_id = m, dm_payload = payload\<rparr>]"
proof -
  obtain now rest where t: "tevs = (now, EvSessionOpen self c m b u) # rest" "map snd rest = evs"
    using tevs(1) by (cases tevs) auto
  note msg = encoded_messageI [OF enc]
  let ?H = "\<Union>(t, ev)\<in>set rest. brings shards ev"
  have H: "?H = (\<Union>ev\<in>set evs. brings shards ev)" unfolding t(2) [symmetric] by auto
  have "{..<length shards} \<subseteq> ?H"
  proof
    fix j assume j: "j \<in> {..<length shards}"
    then have "unat (word_of_nat j :: u32) = j" using encoded_shards(2) [OF msg] by (simp add: unat_of_nat)
    then show "j \<in> ?H" using j evs(2) shard_event_brings [OF evs(1), of "word_of_nat j"] unfolding H by simp
  qed
  moreover have "finite ?H" unfolding H by (intro finite_UN_I finite_set brings_finite)
  ultimately have "card {..<length shards} \<le> card ?H" by (intro card_mono)
  then have card: "unat (num_data p) \<le> card ?H" using encoded_shards(1) [OF msg] by simp
  have tr: "\<forall>(t, ev)\<in>set (rest @ []). traffic X shards c m ev" using evs(1) t(2) by (force intro: shard_event_traffic)
  have time: "\<forall>(t, ev)\<in>set rest. t \<le> now + active_session_ttl (en_config e)" using tevs(2) by (auto simp: t(1))
  obtain ch n s cfg seed where ch: "bt_get (en_channels e) c = Some ch" "ch_factory ch (ch_calls ch) b = (n, Inr s)"
    "RsStrategy_new_relay_with_seed p cfg seed = Inr s"
    using aw by (auto simp: awaits_def)
  have "\<exists>e'. run_steps (rs_env X send (\<lambda>ds msg. ds @ [msg])) ((now, EvSessionOpen self c m b u) # rest @ []) e = Some e' \<and>
      en_delivered e' = en_delivered e @ [\<lparr>dm_channel_id = c, dm_message_id = m, dm_payload = payload\<rparr>]"
    by (rule relay_delivers [OF enc _ ch _ _ _ tr time card]) (use aw in \<open>simp_all add: awaits_def\<close>)
  then show ?thesis by (simp add: t(1))
qed

subsection \<open>From publication to delivery\<close>

text \<open>The strategy of a new origin.\<close>

lemma new_origin_ok:
  assumes "RsStrategy_new_origin_with_seed X payload config seed = Some (Inr s)" "encode X payload config = Some (Inr (p, shards))"
    "sha_ok X" "rs_ok X"
  shows "origin_ok X shards s" "rs_attached s = bt_empty" "sent_to s q = {}"
proof -
  have s: "s = RsStrategy_with config p (map Some shards) (EmitPlanner_new (word_of_nat (length shards)) seed ModeOrigin)"
    using assms(1,2) by (auto simp: RsStrategy_new_origin_with_seed_def)
  show "origin_ok X shards s" using origin_inv [OF assms(1,3,4)]
    by (simp add: origin_ok_def s RsStrategy_with_def EmitPlanner_new_def peer_state_def bt_get_or_def PeerState_default_def)
  show "rs_attached s = bt_empty" by (simp add: s RsStrategy_with_def)
  show "sent_to s q = {}"
    by (simp add: s sent_to_def RsStrategy_with_def EmitPlanner_new_def peer_state_def bt_get_or_def PeerState_default_def bs_elems_def)
qed

context reliable_net
begin

lemma broadcast:
  fixes e :: "(RsStrategy, 'n, 'd) Engine" and send' :: "'k NetOp"
  assumes strat: "RsStrategy_new_origin_with_seed X payload config seed = Some (Inr s)"
    and enc: "encode X payload config = Some (Inr (p, shards))" "sha_ok X" "rs_ok X"
    and e: "engine_inv (rs_inv X) e" "bt_get (en_channels e) c = Some ch" "\<not> live e (c, m)"
    and peers: "\<forall>q\<in>bs_elems (ch_subscribers ch). q \<noteq> self \<and> reachable (en_net e) q"
    and room: "inv (card (bs_elems (ch_subscribers ch)) * (length shards + 2)) (en_net e)"
  shows "\<exists>e'. Engine_publish (rs_env X send try_send) now c m s b e = Some (e', Inr ()) \<and>
    (\<forall>q\<in>bs_elems (ch_subscribers ch). \<exists>evs. inbox (en_net e') q = inbox (en_net e) q @ evs \<and>
      (\<forall>er :: (RsStrategy, 'k, DeliveredMessage list) Engine. \<forall>tevs. awaits X p b c m er \<longrightarrow> map snd tevs = evs \<longrightarrow>
        (\<forall>t\<in>set (map fst tevs). t \<le> fst (hd tevs) + active_session_ttl (en_config er)) \<longrightarrow>
        (\<exists>er'. run_steps (rs_env X send' (\<lambda>ds msg. ds @ [msg])) tevs er = Some er' \<and>
          en_delivered er' = en_delivered er @ [\<lparr>dm_channel_id = c, dm_message_id = m, dm_payload = payload\<rparr>])))"
proof -
  have none: "bt_get (ch_sessions ch) m = None" using e(2,3) by (simp add: live_def session_of_eq)
  have "tables_inv e" using e(1) by (simp add: engine_inv_def)
  then have unopened: "bt_get (en_opened_to e) (c, m) = None" using tables_invD(3) e(3) by blast
  note pub = publish_spreads [of "rs_env X send try_send" X shards s e c ch m now b, OF _ _ new_origin_ok [OF strat enc] e(2) none unopened peers room]
  obtain e' where e': "Engine_publish (rs_env X send try_send) now c m s b e = Some (e', Inr ())"
    "\<forall>q\<in>bs_elems (ch_subscribers ch). \<exists>evs. inbox (en_net e') q = inbox (en_net e) q @ EvSessionOpen self c m b [] # evs \<and>
      (\<forall>ev\<in>set evs. shard_event self c m shards ev) \<and> (\<forall>i. unat i < length shards \<longrightarrow> i \<in> chunk_ids evs)"
    using pub by auto
  show ?thesis
  proof (intro exI [of _ e'] conjI ballI)
    show "Engine_publish (rs_env X send try_send) now c m s b e = Some (e', Inr ())" by (rule e'(1))
    fix q assume "q \<in> bs_elems (ch_subscribers ch)"
    with e'(2) obtain evs where evs: "inbox (en_net e') q = inbox (en_net e) q @ EvSessionOpen self c m b [] # evs"
      "\<forall>ev\<in>set evs. shard_event self c m shards ev" "\<forall>i. unat i < length shards \<longrightarrow> i \<in> chunk_ids evs" by blast
    then show "\<exists>evs. inbox (en_net e') q = inbox (en_net e) q @ evs \<and>
      (\<forall>er :: (RsStrategy, 'k, DeliveredMessage list) Engine. \<forall>tevs. awaits X p b c m er \<longrightarrow> map snd tevs = evs \<longrightarrow>
        (\<forall>t\<in>set (map fst tevs). t \<le> fst (hd tevs) + active_session_ttl (en_config er)) \<longrightarrow>
        (\<exists>er'. run_steps (rs_env X send' (\<lambda>ds msg. ds @ [msg])) tevs er = Some er' \<and>
          en_delivered er' = en_delivered er @ [\<lparr>dm_channel_id = c, dm_message_id = m, dm_payload = payload\<rparr>]))"
      by (intro exI [of _ "EvSessionOpen self c m b [] # evs"] conjI allI impI evs(1) subscriber_delivers [OF enc _ evs(2,3)])
  qed
qed

end

end
