(* ===== verification/EngineNet.thy ===== *)
theory EngineNet
  imports EngineLife
begin

text \<open>
  What an engine does to the network below it: nothing but sending. A property of the network that every
  \<open>Net::send\<close> keeps is kept by every operation of the engine.
\<close>

definition net_closed :: "'n NetOp \<Rightarrow> ('n \<Rightarrow> bool) \<Rightarrow> bool" where
  "net_closed send P \<longleftrightarrow> (\<forall>n msg. P n \<longrightarrow> P (fst (send n msg)))"

lemma net_closedD: "net_closed send P \<Longrightarrow> P n \<Longrightarrow> P (fst (send n msg))"
  by (simp add: net_closed_def)

lemma poll_session_net [simp]: "en_net (fst (poll_session E c m e)) = en_net e"
  by (simp add: poll_session_def split: option.split prod.split)

lemma notify_net [simp]: "en_net (notify_chunk_sent E c m p t ok e) = en_net e"
  by (simp add: notify_chunk_sent_def split: option.split)

lemma net_send_net: "net_closed (ev_send E) P \<Longrightarrow> P (en_net e) \<Longrightarrow> P (en_net (fst (net_send E msg e)))"
  by (simp add: net_send_def case_prod_unfold net_closedD)

lemma update_channel_net [simp]: "en_net (update_channel c f e) = en_net e"
  by (simp add: update_channel_def split: option.split)

lemma take_chunk_net [simp]: "en_net (fst (engine_take_chunk E c m i d e)) = en_net e"
  by (simp add: engine_take_chunk_def case_prod_unfold split: option.split)

lemma drain_closed_net: "net_closed (ev_send E) P \<Longrightarrow> drain_closed E c m (\<lambda>e. P (en_net e))"
  by (simp add: drain_closed_def net_closedD)

lemma ensure_net: "net_closed (ev_send E) P \<Longrightarrow> P (en_net e) \<Longrightarrow> P (en_net (fst (ensure_session_open E c m p e)))"
  by (rule ensure_keeps [OF drain_closed_net])

lemma drain_session_net:
  "drain_session E c m e = Some (e', r) \<Longrightarrow> net_closed (ev_send E) P \<Longrightarrow> P (en_net e) \<Longrightarrow> P (en_net e')"
  using drain_session_keeps [of E c m e "(e', r)" "\<lambda>e. P (en_net e)"] drain_closed_net by fastforce

lemma drain_sessions_net:
  "drain_sessions E c ms e = Some (e', r) \<Longrightarrow> net_closed (ev_send E) P \<Longrightarrow> P (en_net e) \<Longrightarrow> P (en_net e')"
proof (induction ms arbitrary: e)
  case (Cons m ms)
  then obtain e1 q where d: "drain_session E c m e = Some (e1, q)" by (cases "drain_session E c m e") auto
  with Cons show ?case using drain_session_net [OF d, of P] by (auto split: sum.splits)
qed simp

lemma drain_channel_net:
  "drain_channel E c e = Some (e', r) \<Longrightarrow> net_closed (ev_send E) P \<Longrightarrow> P (en_net e) \<Longrightarrow> P (en_net e')"
  by (auto simp: drain_channel_def dest: drain_sessions_net split: option.splits)

lemma deliver_net:
  "net_closed (ev_send E) P \<Longrightarrow> P (en_net e) \<Longrightarrow> P (en_net (maybe_decode_and_deliver E now c m e))"
  by (simp add: maybe_decode_and_deliver_def Let_def net_send_net split: option.split prod.split sum.split)

lemma replay_net:
  assumes "replay_parked_chunks E now c m e = Some e'" "net_closed (ev_send E) P" "P (en_net e)"
  shows "P (en_net e')"
proof (cases "bt_get (en_parked_chunks e) (c, m)")
  case None
  then show ?thesis using assms by (simp add: replay_parked_chunks_def)
next
  case (Some parked)
  let ?step = "\<lambda>pc (e, any_complete). case engine_take_chunk E c m (pk_chunk_id pc) (pk_payload pc) e of
      (e, complete) \<Rightarrow> (e, any_complete \<or> complete)"
  let ?e0 = "e\<lparr>en_parked_chunks := bt_remove (c, m) (en_parked_chunks e)\<rparr>"
  have fold: "en_net (fst (fold ?step pcs st)) = en_net (fst st)" for pcs st
    by (induction pcs arbitrary: st) (simp_all add: case_prod_unfold)
  obtain e1 b where fe: "fold ?step parked (?e0, False) = (e1, b)" by (cases "fold ?step parked (?e0, False)")
  have "en_net e1 = en_net e" using fold [of parked "(?e0, False)"] by (simp add: fe)
  moreover obtain e2 r where d: "drain_session E c m e1 = Some (e2, r)"
    using assms(1) by (auto simp: replay_parked_chunks_def Some fe Let_def bind_eq_Some_conv)
  ultimately have "P (en_net e2)" using drain_session_net [OF d assms(2)] assms(3) by simp
  then show ?thesis using assms(1,2) d deliver_net
    by (auto simp: replay_parked_chunks_def Some fe Let_def split: if_splits)
qed

lemma handle_session_open_net:
  assumes "handle_session_open E now c m b e = Some e'" "net_closed (ev_send E) P" "P (en_net e)"
  shows "P (en_net e')"
proof (cases "is_tombstoned e c m \<or> bt_get (en_channels e) c = None")
  case True
  then show ?thesis using assms by (cases "is_tombstoned e c m") (auto simp: handle_session_open_def)
next
  case False
  then obtain ch where ch: "bt_get (en_channels e) c = Some ch" by auto
  obtain ch' r where o: "Channel_open_session (ev_strategy E) ch m b = (ch', r)" by fastforce
  show ?thesis
  proof (cases r)
    case (Inl x)
    then show ?thesis using assms False by (auto simp: handle_session_open_def ch o)
  next
    case (Inr u)
    then obtain e1 q where d: "drain_session E c m (record_session_created c m now
        (e\<lparr>en_channels := bt_insert c ch' (en_channels e), en_session_preambles := bt_insert (c, m) b (en_session_preambles e)\<rparr>)) = Some (e1, q)"
      "replay_parked_chunks E now c m e1 = Some e'"
      using assms(1) False by (auto simp: handle_session_open_def ch o Let_def bind_eq_Some_conv)
    have "P (en_net e1)" using drain_session_net [OF d(1) assms(2)] assms(3) by (simp add: record_session_created_def)
    then show ?thesis by (rule replay_net [OF d(2) assms(2)])
  qed
qed

lemma handle_chunk_net:
  assumes "handle_chunk E now c m i d e = Some e'" "net_closed (ev_send E) P" "P (en_net e)"
  shows "P (en_net e')"
proof (cases "is_tombstoned e c m \<or> session_of e c m = None")
  case True
  then show ?thesis using assms by (cases "is_tombstoned e c m") (auto simp: handle_chunk_def park_chunk_def)
next
  case False
  obtain e1 b where t: "engine_take_chunk E c m i d e = (e1, b)" by fastforce
  obtain e2 r where d: "drain_session E c m e1 = Some (e2, r)"
    and e': "e' = (if b then maybe_decode_and_deliver E now c m e2 else e2)"
    using assms(1) False by (auto simp: handle_chunk_def t bind_eq_Some_conv)
  have "en_net e1 = en_net e" using take_chunk_net [of E c m i d e] by (simp add: t)
  then have "P (en_net e2)" using drain_session_net [OF d assms(2)] assms(3) by simp
  then show ?thesis using e' deliver_net [OF assms(2)] by simp
qed

lemma subscribe_channels_net:
  "subscribe_channels E p cs e = Some e' \<Longrightarrow> net_closed (ev_send E) P \<Longrightarrow> P (en_net e) \<Longrightarrow> P (en_net e')"
proof (induction cs arbitrary: e)
  case (Cons c cs)
  then show ?case using drain_channel_net [of E c _ _ _ P] by (auto simp: bind_eq_Some_conv)
qed simp

lemma register_net:
  "net_closed (ev_send E) P \<Longrightarrow> P (en_net e) \<Longrightarrow> P (en_net (fst (register_peer_and_handshake E p e)))"
  by (simp add: register_peer_and_handshake_def Let_def net_send_net)

lemma handle_event_net:
  assumes "handle_event E now ev e = Some e'" "net_closed (ev_send E) P" "P (en_net e)"
  shows "P (en_net e')"
proof (cases ev)
  case (EvHandshake p v cs pid)
  then show ?thesis using assms subscribe_channels_net [OF _ assms(2)] by (auto split: if_splits)
next
  case (EvSubscribe p c)
  then show ?thesis using assms drain_channel_net [OF _ assms(2)] by (auto simp: bind_eq_Some_conv)
next
  case (EvChunkSendResult p c m t ok)
  then show ?thesis using assms drain_session_net [OF _ assms(2)]
    by (auto simp: resolve_chunk_send_def bind_eq_Some_conv split: if_splits)
next
  case (EvSessionOpen p c m b u)
  then show ?thesis using handle_session_open_net [OF _ assms(2,3)] assms(1) by simp
next
  case (EvChunk p c m i d)
  then show ?thesis using handle_chunk_net [OF _ assms(2,3)] assms(1) by simp
next
  case (EvPeerConnected p)
  then show ?thesis using register_net [OF assms(2,3)] assms(1) by auto
qed (use assms in \<open>auto simp: handle_peer_disconnected_def detach_session_peer_def split: option.split\<close>)

lemma fold_dispose_net [simp]: "en_net (fold (\<lambda>(c, m). dispose_session c m now) ks e) = en_net e"
  by (induction ks arbitrary: e) (auto simp: dispose_session_def Let_def)

lemma cleanup_net [simp]: "en_net (maybe_run_cleanup now e) = en_net e"
  by (simp add: maybe_run_cleanup_def run_cleanup_def Let_def)

lemma run_one_step_net:
  assumes "run_one_step E now ev e = Some (e', r)" "net_closed (ev_send E) P" "P (en_net e)"
  shows "P (en_net e')"
  using assms by (auto simp: run_one_step_def bind_eq_Some_conv dest: handle_event_net split: option.splits)

lemma subscribe_net:
  "net_closed (ev_send E) P \<Longrightarrow> P (en_net e) \<Longrightarrow> P (en_net (fst (Engine_subscribe E c f e)))"
  unfolding Engine_subscribe_def Let_def
  by (rule try_each_inv [where P = "\<lambda>e. P (en_net e)"]) (simp_all add: net_send_net)

lemma publish_net:
  assumes "Engine_publish E now c m s b e = Some (e', r)" "net_closed (ev_send E) P" "P (en_net e)"
  shows "P (en_net e')"
proof -
  have t: "P (en_net e1)" if "try_each (ensure_session_open E c m) ps e0 = (e1, q)" "P (en_net e0)" for ps e0 e1 q
    using try_each_inv [where P = "\<lambda>e. P (en_net e)" and f = "ensure_session_open E c m" and st = e0 and xs = ps] that ensure_net [OF assms(2)]
    by simp
  show ?thesis
  proof (cases "bt_get (en_channels e) c")
    case None
    then show ?thesis using assms by (simp add: Engine_publish_def)
  next
    case (Some ch)
    obtain ch' q where o: "Channel_start_origin_session (ev_strategy E) ch m s = (ch', q)" by fastforce
    show ?thesis
    proof (cases q)
      case (Inl x)
      then show ?thesis using assms Some o by (auto simp: Engine_publish_def)
    next
      case (Inr u)
      let ?e0 = "record_session_created c m now (e\<lparr>en_channels := bt_insert c ch' (en_channels e),
        en_session_preambles := bt_insert (c, m) b (en_session_preambles e)\<rparr>)"
      obtain e1 q1 where e1: "try_each (ensure_session_open E c m) (bt_keys (ch_subscribers ch')) ?e0 = (e1, q1)" by fastforce
      have "P (en_net e1)" by (rule t [OF e1]) (use assms(3) in \<open>simp add: record_session_created_def\<close>)
      then show ?thesis using assms(1) Some o Inr e1 drain_session_net [OF _ assms(2)]
        by (auto simp: Engine_publish_def Let_def split: sum.splits)
    qed
  qed
qed

end
