(* ===== verification/Forwarding.thy ===== *)
theory Forwarding
  imports Broadcast EngineNet
begin

text \<open>
  What an engine that takes part in a session sends, and how much. Over a network that accepts every message to
  the engine's subscribers, everything a session sends is its preamble, routing updates and genuine shards, and
  every message is paid for by a potential of the session, so that the traffic of a broadcast is bounded.
\<close>

subsection \<open>Networks that accept\<close>

text \<open>The messages of a list handed to the network one by one.\<close>

definition sent_by :: "'n NetOp \<Rightarrow> NetSend list \<Rightarrow> 'n \<Rightarrow> 'n" where
  "sent_by send msgs n = fold (\<lambda>msg n. fst (send n msg)) msgs n"

definition addressed_count :: "NetSend list \<Rightarrow> nat" where
  "addressed_count msgs = length (filter (\<lambda>msg. send_dst msg \<noteq> None) msgs)"

text \<open>The network moved from \<open>n\<close> to \<open>n'\<close> by messages that satisfy \<open>G\<close>, at most \<open>k\<close> of them with an addressee.\<close>

definition sends :: "'n NetOp \<Rightarrow> (NetSend \<Rightarrow> bool) \<Rightarrow> nat \<Rightarrow> 'n \<Rightarrow> 'n \<Rightarrow> bool" where
  "sends send G k n n' \<longleftrightarrow> (\<exists>msgs. n' = sent_by send msgs n \<and> (\<forall>msg\<in>set msgs. G msg) \<and> addressed_count msgs \<le> k)"

lemma sends_refl [simp, intro]: "sends send G k n n"
  unfolding sends_def by (rule exI [of _ "[]"]) (simp add: sent_by_def addressed_count_def)

lemma sends_one: "G msg \<Longrightarrow> (if send_dst msg = None then 0 else 1) \<le> k \<Longrightarrow> sends send G k n (fst (send n msg))"
  unfolding sends_def by (rule exI [of _ "[msg]"]) (auto simp: sent_by_def addressed_count_def split: if_splits)

lemma sends_trans: "sends send G k n n1 \<Longrightarrow> sends send G l n1 n2 \<Longrightarrow> sends send G (k + l) n n2"
  unfolding sends_def
proof (elim exE conjE)
  fix xs ys
  assume "n1 = sent_by send xs n" "n2 = sent_by send ys n1" "\<forall>msg\<in>set xs. G msg" "\<forall>msg\<in>set ys. G msg"
    "addressed_count xs \<le> k" "addressed_count ys \<le> l"
  then show "\<exists>msgs. n2 = sent_by send msgs n \<and> (\<forall>msg\<in>set msgs. G msg) \<and> addressed_count msgs \<le> k + l"
    by (intro exI [of _ "xs @ ys"]) (auto simp: sent_by_def addressed_count_def)
qed

lemma sends_mono: "sends send G k n n' \<Longrightarrow> k \<le> l \<Longrightarrow> sends send G l n n'"
  by (fastforce simp: sends_def)

text \<open>A network that takes every message to one of \<open>dests\<close>.\<close>

locale accepting_net =
  fixes send :: "'n NetOp" and inv :: "'n \<Rightarrow> bool" and dests :: "PeerId set"
  assumes accepts: "inv n \<Longrightarrow> (\<forall>dst. send_dst msg = Some dst \<longrightarrow> dst \<in> dests) \<Longrightarrow> snd (send n msg) = Inr () \<and> inv (fst (send n msg))"
    and finite_dests: "finite dests"
begin

lemma accept_obtain:
  assumes "inv n" "\<forall>dst. send_dst msg = Some dst \<longrightarrow> dst \<in> dests"
  obtains n' where "send n msg = (n', Inr ())" "inv n'" "fst (send n msg) = n'"
  using accepts [OF assms] by (cases "send n msg") auto

end

subsection \<open>The messages of a session\<close>

definition session_msg :: "bytes list \<Rightarrow> bytes \<Rightarrow> ChannelId \<Rightarrow> MessageId \<Rightarrow> PeerId set \<Rightarrow> NetSend \<Rightarrow> bool" where
  "session_msg shards b c m A msg \<longleftrightarrow>
     (\<exists>q\<in>A. \<exists>u. msg = SendSessionOpen q c m b u) \<or> (\<exists>q\<in>A. \<exists>x. msg = SendRoutingUpdate q c m x) \<or>
     (\<exists>q\<in>A. \<exists>i h. unat i < length shards \<and> msg = SendChunk q c m i (shards ! unat i) h) \<or> msg = SendSessionReconstructed c m"

lemma session_msg_intros:
  "q \<in> A \<Longrightarrow> session_msg shards b c m A (SendSessionOpen q c m b u)"
  "q \<in> A \<Longrightarrow> session_msg shards b c m A (SendRoutingUpdate q c m x)"
  "q \<in> A \<Longrightarrow> unat i < length shards \<Longrightarrow> session_msg shards b c m A (SendChunk q c m i (shards ! unat i) h)"
  "session_msg shards b c m A (SendSessionReconstructed c m)"
  by (auto simp: session_msg_def)

definition unopened :: "ChannelId \<Rightarrow> MessageId \<Rightarrow> PeerId set \<Rightarrow> ('s, 'n, 'd) Engine \<Rightarrow> nat" where
  "unopened c m A e = card {q \<in> A. \<not> opened e c m q}"

context accepting_net
begin

text \<open>
  One or several sends of a session: the engine changes nothing but its network, its record of opened
  streams and its pending sends, and what it sends beyond \<open>k\<close> opens streams.
\<close>

definition sending :: "bytes list \<Rightarrow> bytes \<Rightarrow> ChannelId \<Rightarrow> MessageId \<Rightarrow> nat \<Rightarrow>
    ('s, 'n, 'd) Engine \<Rightarrow> ('s, 'n, 'd) Engine \<Rightarrow> bool" where
  "sending shards b c m k e e' \<longleftrightarrow> inv (en_net e') \<and> en_channels e' = en_channels e \<and>
     en_session_preambles e' = en_session_preambles e \<and> en_tombstones e' = en_tombstones e \<and>
     en_next_cleanup e' = en_next_cleanup e \<and> unopened c m dests e' \<le> unopened c m dests e \<and>
     sends send (session_msg shards b c m dests) (k + unopened c m dests e - unopened c m dests e') (en_net e) (en_net e')"

lemma sending_refl [simp]: "inv (en_net e) \<Longrightarrow> sending shards b c m k e e"
  by (auto simp: sending_def)

lemma sending_trans:
  assumes "sending shards b c m k e e1" "sending shards b c m l e1 e2"
  shows "sending shards b c m (k + l) e e2"
proof -
  let ?u = "unopened c m dests"
  have u: "?u e1 \<le> ?u e" "?u e2 \<le> ?u e1" using assms by (simp_all add: sending_def)
  have "sends send (session_msg shards b c m dests) ((k + ?u e - ?u e1) + (l + ?u e1 - ?u e2)) (en_net e) (en_net e2)"
    using assms by (intro sends_trans [of _ _ _ _ "en_net e1"]) (simp_all add: sending_def)
  moreover have "(k + ?u e - ?u e1) + (l + ?u e1 - ?u e2) = k + l + ?u e - ?u e2" using u by simp
  ultimately show ?thesis using assms u by (simp add: sending_def)
qed

lemma ensure_sending:
  assumes E: "ev_send E = send" and "inv (en_net e)" "bt_get (en_session_preambles e) (c, m) = Some b" "q \<in> dests"
  shows "\<exists>e'. ensure_session_open E c m q e = (e', Inr ()) \<and> sending shards b c m 0 e e'"
proof (cases "opened e c m q")
  case True
  then show ?thesis using assms by (auto simp: ensure_opened)
next
  case False
  let ?msg = "SendSessionOpen q c m b []"
  obtain n where n: "send (en_net e) ?msg = (n, Inr ())" "inv n" "fst (send (en_net e) ?msg) = n"
    using accept_obtain [OF assms(2), of ?msg] assms(4) by auto
  let ?e = "e\<lparr>en_net := n, en_opened_to := bt_entry bt_empty (c, m) (bs_insert q) (en_opened_to e)\<rparr>"
  have step: "ensure_session_open E c m q e = (?e, Inr ())"
    using False assms(3) unfolding opened_def by (simp add: ensure_session_open_def net_send_def E n)
  have op: "opened ?e c m p \<longleftrightarrow> opened e c m p \<or> p = q" for p
    by (auto simp: opened_def bt_get_or_def bt_contains_bs_elems simp del: bt_contains_iff split: option.splits)
  have "{p \<in> dests. \<not> opened ?e c m p} = {p \<in> dests. \<not> opened e c m p} - {q}" using op by auto
  moreover have "q \<in> {p \<in> dests. \<not> opened e c m p}" using False assms(4) by simp
  moreover have "finite {p \<in> dests. \<not> opened e c m p}" using finite_dests by simp
  ultimately have u: "Suc (unopened c m dests ?e) = unopened c m dests e"
    using card_Suc_Diff1 [of "{p \<in> dests. \<not> opened e c m p}" q] by (simp only: unopened_def)
  then have d: "unopened c m dests e - unopened c m dests ?e = Suc 0" by simp
  have "sends send (session_msg shards b c m dests) (Suc 0) (en_net e) n"
    using sends_one [of "session_msg shards b c m dests" ?msg "Suc 0" send "en_net e"] assms(4) n(3) by (simp add: session_msg_intros)
  then have "sending shards b c m 0 e ?e" using n(2) u d by (simp add: sending_def)
  then show ?thesis using step by blast
qed

lemma routing_sending:
  assumes E: "ev_send E = send" and "inv (en_net e)" "bt_get (en_session_preambles e) (c, m) = Some b" "set ps \<subseteq> dests"
  shows "\<exists>e'. try_each (send_routing E c m x) ps e = (e', Inr ()) \<and> sending shards b c m (length ps) e e'"
  using assms(2-4)
proof (induction ps arbitrary: e)
  case (Cons q ps)
  obtain e1 where e1: "ensure_session_open E c m q e = (e1, Inr ())" "sending shards b c m 0 e e1"
    using ensure_sending [OF E Cons.prems(1,2), of q shards] Cons.prems(3) by auto
  have i1: "inv (en_net e1)" "bt_get (en_session_preambles e1) (c, m) = Some b"
    using e1(2) Cons.prems(2) by (simp_all add: sending_def)
  let ?msg = "SendRoutingUpdate q c m x"
  obtain n where n: "send (en_net e1) ?msg = (n, Inr ())" "inv n" "fst (send (en_net e1) ?msg) = n"
    using accept_obtain [OF i1(1), of ?msg] Cons.prems(3) by auto
  have "sends send (session_msg shards b c m dests) 1 (en_net e1) n"
    using sends_one [of "session_msg shards b c m dests" ?msg 1 send "en_net e1"] Cons.prems(3) n(3) by (simp add: session_msg_intros)
  then have s2: "sending shards b c m 1 e1 (e1\<lparr>en_net := n\<rparr>)" using n(2) by (simp add: sending_def unopened_def)
  have "send_routing E c m x q e = (e1\<lparr>en_net := n\<rparr>, Inr ())" by (simp add: send_routing_def e1(1) net_send_def E n(1))
  moreover obtain e' where e': "try_each (send_routing E c m x) ps (e1\<lparr>en_net := n\<rparr>) = (e', Inr ())"
    "sending shards b c m (length ps) (e1\<lparr>en_net := n\<rparr>) e'"
    using Cons.IH [of "e1\<lparr>en_net := n\<rparr>"] n(2) i1(2) Cons.prems(3) by auto
  ultimately show ?case
    using sending_trans [OF sending_trans [OF e1(2) s2] e'(2)] by auto
qed simp

lemma dispatches_sending:
  assumes E: "ev_send E = send" and "inv (en_net e)" "bt_get (en_session_preambles e) (c, m) = Some b"
    and "\<forall>d\<in>set ds. cd_peer d \<in> dests \<and> unat (cd_chunk_id d) < length shards \<and> cd_payload d = shards ! unat (cd_chunk_id d)"
  shows "\<exists>e'. send_dispatches E c m ds False e = (e', Inr False) \<and> sending shards b c m (length ds) e e'"
  using assms(2-4)
proof (induction ds arbitrary: e)
  case (Cons d ds)
  obtain e1 where e1: "ensure_session_open E c m (cd_peer d) e = (e1, Inr ())" "sending shards b c m 0 e e1"
    using ensure_sending [OF E Cons.prems(1,2), of "cd_peer d" shards] Cons.prems(3) by auto
  have i1: "inv (en_net e1)" "bt_get (en_session_preambles e1) (c, m) = Some b"
    using e1(2) Cons.prems(2) by (simp_all add: sending_def)
  let ?msg = "SendChunk (cd_peer d) c m (cd_chunk_id d) (cd_payload d) (cd_handle d)"
  obtain n where n: "send (en_net e1) ?msg = (n, Inr ())" "inv n" "fst (send (en_net e1) ?msg) = n"
    using accept_obtain [OF i1(1), of ?msg] Cons.prems(3) by auto
  let ?e = "e1\<lparr>en_net := n, en_pending_sends := bt_insert (c, m, cd_handle d) (cd_peer d) (en_pending_sends e1)\<rparr>"
  have "sends send (session_msg shards b c m dests) 1 (en_net e1) n"
    using sends_one [of "session_msg shards b c m dests" ?msg 1 send "en_net e1"] Cons.prems(3) n(3) by (simp add: session_msg_intros)
  then have s2: "sending shards b c m 1 e1 ?e" using n(2) by (simp add: sending_def unopened_def)
  have "send_dispatches E c m (d # ds) False e = send_dispatches E c m ds False ?e" by (simp add: e1(1) E n(1))
  moreover obtain e' where e': "send_dispatches E c m ds False ?e = (e', Inr False)" "sending shards b c m (length ds) ?e e'"
    using Cons.IH [of ?e] n(2) i1(2) Cons.prems(3) by auto
  ultimately show ?case
    using sending_trans [OF sending_trans [OF e1(2) s2] e'(2)] by auto
qed simp

end


subsection \<open>The potential of a session\<close>

text \<open>The credit \<open>k\<close> pays for the messages sent and leaves \<open>k'\<close>.\<close>

definition spends :: "'n NetOp \<Rightarrow> (NetSend \<Rightarrow> bool) \<Rightarrow> nat \<Rightarrow> nat \<Rightarrow> 'n \<Rightarrow> 'n \<Rightarrow> bool" where
  "spends send G k k' n n' \<longleftrightarrow> k' \<le> k \<and> sends send G (k - k') n n'"

lemma spends_refl [simp]: "k' \<le> k \<Longrightarrow> spends send G k k' n n"
  by (simp add: spends_def)

lemma spends_trans: "spends send G k k1 n n1 \<Longrightarrow> spends send G k1 k2 n1 n2 \<Longrightarrow> spends send G k k2 n n2"
  using sends_trans [of send G "k - k1" n n1 "k1 - k2" n2] by (simp add: spends_def)

lemma spends_mono: "spends send G k k1 n n' \<Longrightarrow> k \<le> l \<Longrightarrow> l1 \<le> k1 \<Longrightarrow> spends send G l l1 n n'"
  using sends_mono [of send G "k - k1" n n' "l - l1"] by (auto simp: spends_def)

text \<open>A strategy that holds genuine shards only and forwards to the peers \<open>A\<close>.\<close>

definition carries :: "'e Crates \<Rightarrow> Preamble \<Rightarrow> bytes list \<Rightarrow> PeerId set \<Rightarrow> RsStrategy \<Rightarrow> bool" where
  "carries X p shards A s \<longleftrightarrow> rs_inv X s \<and> rs_preamble s = p \<and> genuine shards s \<and> length (rs_chunks s) = length shards \<and>
     bs_elems (rs_attached s) = A"

definition unheld :: "RsStrategy \<Rightarrow> nat" where
  "unheld s = length (filter (\<lambda>ch. ch = None) (rs_chunks s))"

text \<open>
  Every open shard of every peer may be dispatched once, and every shard that is still missing may cause a
  routing update to every peer.
\<close>

definition strategy_pot :: "PeerId set \<Rightarrow> RsStrategy \<Rightarrow> nat" where
  "strategy_pot A s = total_slack s + card A * (unheld s + (if routing_pending s then 1 else 0))"

lemma fold_poll_payload:
  assumes "d \<in> set (snd (fold poll_peer peers acc))"
  shows "d \<in> set (snd acc) \<or> cd_peer d \<in> set peers \<and> unat (cd_chunk_id d) < length (rs_chunks (fst acc)) \<and>
    rs_chunks (fst acc) ! unat (cd_chunk_id d) = Some (cd_payload d)"
  using assms
proof (induction peers arbitrary: acc)
  case (Cons peer peers)
  have "d \<in> set (snd (poll_peer peer acc)) \<Longrightarrow> d \<in> set (snd acc) \<or> cd_peer d = peer \<and>
      unat (cd_chunk_id d) < length (rs_chunks (fst acc)) \<and> rs_chunks (fst acc) ! unat (cd_chunk_id d) = Some (cd_payload d)"
    by (auto simp: poll_peer_def RsStrategy_issue_handle_def Let_def split: prod.splits option.splits if_splits)
  then show ?case using Cons.IH [of "poll_peer peer acc"] Cons.prems by auto
qed simp

lemma carries_poll:
  assumes s: "carries X p shards A (se_strategy se)" and poll: "Session_poll (RsStrategy_ops X) se = (se', w)"
  shows "carries X p shards A (se_strategy se')"
    "\<forall>d\<in>set (sw_dispatches w). cd_peer d \<in> A \<and> unat (cd_chunk_id d) < length shards \<and> cd_payload d = shards ! unat (cd_chunk_id d)"
    "strategy_pot A (se_strategy se') + length (sw_dispatches w) + (if sw_routing w = None then 0 else card A) = strategy_pot A (se_strategy se)"
    "rs_work (se_strategy se') + length (sw_dispatches w) + (if sw_routing w = None then 0 else 1) = rs_work (se_strategy se)"
proof -
  let ?s = "se_strategy se"
  obtain s1 r where r: "RsStrategy_poll_routing ?s False = (s1, r)" by fastforce
  obtain s2 ds where c: "RsStrategy_poll_chunks s1 = (s2, ds)" by fastforce
  have out: "se_strategy se' = s2" "sw_dispatches w = ds" "sw_routing w = r"
    using poll by (auto simp: Session_poll_def RsStrategy_ops_def r c)
  note f = poll_routing_frame [OF r]
  have i: "rs_inv X ?s" using s by (simp add: carries_def)
  have i1: "rs_inv X s1" using rs.inv_poll_routing [OF i, of False] r by (simp add: RsStrategy_ops_def)
  have i2: "rs_inv X s2" using poll_chunks_inv [OF i1] by (simp add: c)
  have s2: "s2 = fst (fold poll_peer (bt_keys (rs_attached s1)) (s1, []))" "ds = snd (fold poll_peer (bt_keys (rs_attached s1)) (s1, []))"
    using c by (simp_all add: RsStrategy_poll_chunks_def)
  have f2: "rs_chunks s2 = rs_chunks ?s" "rs_preamble s2 = rs_preamble ?s" "rs_attached s2 = rs_attached ?s"
    using f by (simp_all add: s2(1))
  show "carries X p shards A (se_strategy se')" using s i2 f2 by (simp add: out carries_def genuine_def)
  show "\<forall>d\<in>set (sw_dispatches w). cd_peer d \<in> A \<and> unat (cd_chunk_id d) < length shards \<and> cd_payload d = shards ! unat (cd_chunk_id d)"
    using s fold_poll_payload [of _ "bt_keys (rs_attached s1)" "(s1, [])"] f
    by (auto simp: out s2(2) carries_def genuine_def set_bt_keys_bs_elems)
  have w1: "rs_work s1 + (if r = None then 0 else 1) = rs_work ?s" by (rule poll_routing_work [OF r])
  have w2: "rs_work s2 + length ds = rs_work s1" by (rule poll_chunks_work [OF i1 c])
  have t1: "total_slack s1 = total_slack ?s" by (simp add: total_slack_def f)
  have t2: "total_slack s2 + length ds = total_slack s1"
    using total_slack_fold_poll [of X "(s1, [])" "bt_keys (rs_attached s1)"] i1 c
    by (simp add: RsStrategy_poll_chunks_def set_bt_keys_bs_elems)
  have p1: "routing_pending ?s \<longleftrightarrow> r \<noteq> None \<or> routing_pending s1" and p2: "r \<noteq> None \<longrightarrow> \<not> routing_pending s1"
    using w1 t1 by (auto simp: rs_work_eq split: if_splits)
  have p3: "routing_pending s2 = routing_pending s1" using w2 t2 by (auto simp: rs_work_eq split: if_splits)
  have u: "unheld s2 = unheld ?s" by (simp add: unheld_def f2)
  show "strategy_pot A (se_strategy se') + length (sw_dispatches w) + (if sw_routing w = None then 0 else card A) = strategy_pot A ?s"
    using t1 t2 p1 p2 p3 by (cases "r = None") (auto simp: out strategy_pot_def u)
  show "rs_work (se_strategy se') + length (sw_dispatches w) + (if sw_routing w = None then 0 else 1) = rs_work ?s"
    using w1 w2 by (simp add: out)
qed

lemma unheld_held: "unheld s + card (held s) = length (rs_chunks s)"
proof -
  have "length (filter (\<lambda>ch. ch \<noteq> None) (rs_chunks s)) = card (held s)" unfolding length_filter_some held_def ..
  then show ?thesis unfolding unheld_def using sum_length_filter_compl [of "\<lambda>ch. ch = None" "rs_chunks s"] by simp
qed

text \<open>Taking a genuine shard costs no credit.\<close>

lemma carries_take:
  assumes s: "carries X p shards A s" and h: "hashes p = map (sha256 X) shards" and i: "unat i < length shards"
  shows "carries X p shards A (fst (RsStrategy_take_chunk X s i (shards ! unat i)))"
    "strategy_pot A (fst (RsStrategy_take_chunk X s i (shards ! unat i))) \<le> strategy_pot A s"
proof -
  have c: "chunks_inv X s" "genuine shards s" "rs_preamble s = p" using s by (simp_all add: carries_def rs_inv_def)
  let ?s = "fst (RsStrategy_take_chunk X s i (shards ! unat i))"
  have eq: "?s = s \<or> rs_chunks s ! unat i = None \<and> ?s = s\<lparr>rs_chunks := (rs_chunks s)[unat i := Some (shards ! unat i)]\<rparr>"
    by (auto simp: take_chunk_cases [OF c(1)] Let_def)
  have "rs_inv X s" using s by (simp add: carries_def)
  then have "rs_inv X ?s" by (rule take_chunk_inv)
  moreover have "genuine shards ?s"
    using genuine_take_chunk [OF c(1,2), of i "shards ! unat i" "[]"] c(3) h by (simp add: collision_free_def)
  ultimately show "carries X p shards A ?s" using s eq by (auto simp: carries_def)
  show "strategy_pot A ?s \<le> strategy_pot A s"
  proof (cases "?s = s")
    case False
    then have n: "rs_chunks s ! unat i = None" and e: "?s = s\<lparr>rs_chunks := (rs_chunks s)[unat i := Some (shards ! unat i)]\<rparr>"
      using eq by auto
    have len: "unat i < length (rs_chunks s)" using i s by (simp add: carries_def)
    have "held ?s = insert (unat i) (held s)" "unat i \<notin> held s"
      using n len by (auto simp: e held_def nth_list_update split: if_splits)
    then have "card (held ?s) = Suc (card (held s))" by simp
    then have u: "Suc (unheld ?s) = unheld s" using unheld_held [of s] unheld_held [of ?s] by (simp add: e)
    have "card A * (unheld ?s + (if routing_pending ?s then 1 else 0)) \<le> card A * (unheld s + (if routing_pending s then 1 else 0))"
      using u by (intro mult_left_mono) auto
    moreover have "total_slack ?s = total_slack s" by (simp add: e total_slack_def)
    ultimately show ?thesis unfolding strategy_pot_def by (simp only: add_le_mono le_refl)
  qed simp
qed

subsection \<open>Draining and handling events\<close>

text \<open>The session \<open>(c, m)\<close> of an engine whose subscribers are \<open>A\<close>, and its credit.\<close>

definition forwarding ::
  "'e Crates \<Rightarrow> Preamble \<Rightarrow> bytes list \<Rightarrow> bytes \<Rightarrow> ChannelId \<Rightarrow> MessageId \<Rightarrow> PeerId set \<Rightarrow> (RsStrategy, 'n, 'd) Engine \<Rightarrow>
   RsStrategy Session \<Rightarrow> bool" where
  "forwarding X p shards b c m A e se \<longleftrightarrow> session_of e c m = Some se \<and> carries X p shards A (se_strategy se) \<and>
     set (subscribers_of e c) = A \<and> bt_get (en_session_preambles e) (c, m) = Some b \<and> \<not> is_tombstoned e c m"

definition session_pot :: "ChannelId \<Rightarrow> MessageId \<Rightarrow> PeerId set \<Rightarrow> (RsStrategy, 'n, 'd) Engine \<Rightarrow> RsStrategy Session \<Rightarrow> nat" where
  "session_pot c m A e se = unopened c m A e + strategy_pot A (se_strategy se)"

lemma subscribers_length: "length (subscribers_of e c) = card (set (subscribers_of e c))"
proof -
  have "distinct (subscribers_of e c)" by (simp add: subscribers_of_def split: option.split)
  then show ?thesis by (rule distinct_card [symmetric])
qed

lemma forwarding_tables:
  "forwarding X p shards b c m A (e\<lparr>en_net := n\<rparr>) se = forwarding X p shards b c m A e se"
  "session_pot c m A (e\<lparr>en_net := n\<rparr>) se = session_pot c m A e se"
  by (simp_all add: forwarding_def subscribers_of_def is_tombstoned_def session_of_def session_pot_def unopened_def)

context accepting_net
begin

lemma round_sending:
  assumes E: "ev_send E = send" "ev_strategy E = RsStrategy_ops X"
    and fw: "forwarding X p shards b c m dests e se" and net: "inv (en_net e)"
    and poll: "Session_poll (RsStrategy_ops X) se = (se1, w)"
  shows "\<exists>e2. drain_round E c m w (set_session c m se1 e) = (e2, Inr False) \<and> forwarding X p shards b c m dests e2 se1 \<and> inv (en_net e2) \<and>
    spends send (session_msg shards b c m dests) (session_pot c m dests e se) (session_pot c m dests e2 se1) (en_net e) (en_net e2)"
proof -
  let ?e1 = "set_session c m se1 e" and ?ds = "sw_dispatches w" and ?u = "unopened c m dests"
  have s: "session_of e c m = Some se" "carries X p shards dests (se_strategy se)" "set (subscribers_of e c) = dests"
    "bt_get (en_session_preambles e) (c, m) = Some b" "\<not> is_tombstoned e c m"
    using fw by (simp_all add: forwarding_def)
  note ps = carries_poll [OF s(2) poll]
  let ?r = "if sw_routing w = None then 0 else card dests"
  have u1: "?u ?e1 = ?u e" by (simp add: unopened_def)
  obtain ea where ea: "(case sw_routing w of None \<Rightarrow> (?e1, Inr ())
      | Some routing \<Rightarrow> try_each (send_routing E c m (BitMap_as_bytes routing)) (subscribers_of ?e1 c) ?e1) = (ea, Inr ())"
    "sending shards b c m ?r ?e1 ea"
  proof (cases "sw_routing w")
    case None
    then show thesis using that net by simp
  next
    case (Some r)
    have "length (subscribers_of e c) = card dests" using subscribers_length [of e c] s(3) by simp
    then show thesis
      using that Some routing_sending [OF E(1), of ?e1 c m b "subscribers_of ?e1 c" "BitMap_as_bytes r" shards] net s(3,4) by auto
  qed
  have ia: "inv (en_net ea)" "bt_get (en_session_preambles ea) (c, m) = Some b" using ea(2) s(4) by (simp_all add: sending_def)
  obtain e2 where e2: "send_dispatches E c m ?ds False ea = (e2, Inr False)" "sending shards b c m (length ?ds) ea e2"
    using dispatches_sending [OF E(1) ia ps(2)] by blast
  have d: "drain_round E c m w ?e1 = (e2, Inr False)" using ea(1) e2(1) by (simp add: drain_round_def)
  have snd: "sending shards b c m (?r + length ?ds) ?e1 e2" by (rule sending_trans [OF ea(2) e2(2)])
  have ch: "en_channels e2 = en_channels ?e1" "en_session_preambles e2 = en_session_preambles e" "inv (en_net e2)" "?u e2 \<le> ?u e"
    using snd u1 by (simp_all add: sending_def)
  have "session_of e2 c m = Some se1" using session_of_cong [OF ch(1)] session_of_set_session [OF s(1), of se1 c m] by simp
  moreover have "set (subscribers_of e2 c) = dests" using subscribers_of_cong [OF ch(1)] s(3) by simp
  moreover have "en_tombstones e2 = en_tombstones e"
    using drain_round_keeps [of E c m "\<lambda>x. en_tombstones x = en_tombstones e" ?e1 w] d by (simp add: drain_closed_def)
  ultimately have "forwarding X p shards b c m dests e2 se1"
    using ps(1) s(4,5) ch(2) by (simp add: forwarding_def is_tombstoned_def)
  moreover have "spends send (session_msg shards b c m dests) (session_pot c m dests e se) (session_pot c m dests e2 se1) (en_net e) (en_net e2)"
  proof -
    have "session_pot c m dests e se - session_pot c m dests e2 se1 = ?r + length ?ds + ?u e - ?u e2"
      "session_pot c m dests e2 se1 \<le> session_pot c m dests e se"
      using ps(3) ch(4) by (simp_all add: session_pot_def)
    then show ?thesis using snd u1 by (simp add: spends_def sending_def)
  qed
  ultimately show ?thesis using d ch(3) by blast
qed

lemma drain_forwards:
  assumes E: "ev_send E = send" "ev_strategy E = RsStrategy_ops X"
    and "forwarding X p shards b c m dests e se" "inv (en_net e)"
  shows "\<exists>e' se'. drain_session E c m e = Some (e', Inr ()) \<and> forwarding X p shards b c m dests e' se' \<and> inv (en_net e') \<and>
    spends send (session_msg shards b c m dests) (session_pot c m dests e se) (session_pot c m dests e' se') (en_net e) (en_net e')"
  using assms(3,4)
proof (induction "rs_work (se_strategy se)" arbitrary: e se rule: less_induct)
  case less
  have s: "session_of e c m = Some se" "carries X p shards dests (se_strategy se)"
    using less.prems(1) by (simp_all add: forwarding_def)
  obtain se1 w where poll: "Session_poll (RsStrategy_ops X) se = (se1, w)" by fastforce
  note ps = carries_poll [OF s(2) poll]
  have p: "poll_session E c m e = (set_session c m se1 e, Some w)" using s(1) poll by (simp add: poll_session_def E)
  obtain e2 where e2: "drain_round E c m w (set_session c m se1 e) = (e2, Inr False)" "forwarding X p shards b c m dests e2 se1" "inv (en_net e2)"
    "spends send (session_msg shards b c m dests) (session_pot c m dests e se) (session_pot c m dests e2 se1) (en_net e) (en_net e2)"
    using round_sending [OF E less.prems poll] by blast
  show ?case
  proof (cases "sw_routing w = None \<and> sw_dispatches w = []")
    case True
    then have "drain_session E c m e = Some (set_session c m se1 e, Inr ())" by (subst drain_session.simps) (simp add: p)
    moreover have "e2 = set_session c m se1 e" using e2(1) True by (simp add: drain_round_def)
    ultimately show ?thesis using e2 by blast
  next
    case False
    then have "drain_session E c m e = drain_session E c m e2" by (subst drain_session.simps) (auto simp: p e2(1))
    moreover have "rs_work (se_strategy se1) < rs_work (se_strategy se)"
      using ps(4) False by (cases "sw_dispatches w") (auto split: if_splits)
    moreover have "\<exists>e' se'. drain_session E c m e2 = Some (e', Inr ()) \<and> forwarding X p shards b c m dests e' se' \<and> inv (en_net e') \<and>
      spends send (session_msg shards b c m dests) (session_pot c m dests e2 se1) (session_pot c m dests e' se') (en_net e2) (en_net e')"
      by (rule less.hyps [OF \<open>rs_work (se_strategy se1) < rs_work (se_strategy se)\<close> e2(2,3)])
    ultimately show ?thesis using spends_trans [OF e2(4)] by (metis (no_types, lifting))
  qed
qed

end

text \<open>Taking a chunk changes the session only.\<close>

lemma engine_take_chunk_frame:
  fixes E :: "('s, 'x, 'n, 'd) EngineEnv" and e :: "('s, 'n, 'd) Engine" and i :: u32 and d :: bytes
  assumes "session_of e c m = Some se"
  defines "e1 \<equiv> fst (engine_take_chunk E c m i d e)"
  shows "session_of e1 c m = Some (fst (Session_take_chunk (ev_strategy E) se i d))"
    "subscribers_of e1 c = subscribers_of e c" "en_session_preambles e1 = en_session_preambles e" "en_tombstones e1 = en_tombstones e"
    "opened e1 = opened e" "en_next_cleanup e1 = en_next_cleanup e" "en_net e1 = en_net e"
proof -
  obtain ch where ch: "bt_get (en_channels e) c = Some ch" using assms(1) by (auto simp: session_of_eq split: option.splits)
  show "session_of e1 c m = Some (fst (Session_take_chunk (ev_strategy E) se i d))"
    unfolding e1_def by (rule engine_take_chunk_session(1) [OF assms(1)])
  show "subscribers_of e1 c = subscribers_of e c" "en_session_preambles e1 = en_session_preambles e" "en_tombstones e1 = en_tombstones e"
    "opened e1 = opened e" "en_next_cleanup e1 = en_next_cleanup e" "en_net e1 = en_net e"
    by (simp_all add: e1_def engine_take_chunk_def ch case_prod_unfold subscribers_of_def Channel_take_chunk_def opened_def fun_eq_iff split: option.split)
qed

lemma session_take_carries:
  assumes "carries X p shards A (se_strategy se)" "hashes p = map (sha256 X) shards" "unat i < length shards"
  defines "se' \<equiv> fst (Session_take_chunk (RsStrategy_ops X) se i (shards ! unat i))"
  shows "carries X p shards A (se_strategy se')" "strategy_pot A (se_strategy se') \<le> strategy_pot A (se_strategy se)"
proof -
  have "se_strategy se' = se_strategy se \<or> se_strategy se' = fst (RsStrategy_take_chunk X (se_strategy se) i (shards ! unat i))"
    by (auto simp: se'_def Session_take_chunk_def split: SessionState.split prod.split sum.split)
  then show "carries X p shards A (se_strategy se')" "strategy_pot A (se_strategy se') \<le> strategy_pot A (se_strategy se)"
    using carries_take [OF assms(1-3)] assms(1) by auto
qed

context accepting_net
begin

text \<open>An operation on the session of \<open>e\<close>, paid from its credit, that leaves the session \<open>se'\<close> of \<open>e'\<close>.\<close>

definition forwards ::
  "'e Crates \<Rightarrow> Preamble \<Rightarrow> bytes list \<Rightarrow> bytes \<Rightarrow> ChannelId \<Rightarrow> MessageId \<Rightarrow> nat \<Rightarrow> (RsStrategy, 'n, 'd) Engine \<Rightarrow>
   (RsStrategy, 'n, 'd) Engine \<Rightarrow> RsStrategy Session \<Rightarrow> bool" where
  "forwards X p shards b c m k e e' se' \<longleftrightarrow> forwarding X p shards b c m dests e' se' \<and> inv (en_net e') \<and>
     spends send (session_msg shards b c m dests) k (session_pot c m dests e' se') (en_net e) (en_net e') \<and>
     en_next_cleanup e' = en_next_cleanup e"

lemma deliver_forwards:
  assumes fw: "forwarding X p shards b c m dests e se" and net: "inv (en_net e)"
  shows "\<exists>se'. forwards X p shards b c m (session_pot c m dests e se) e (maybe_decode_and_deliver (rs_env X send T) now c m e) se'"
proof -
  have s: "session_of e c m = Some se" "carries X p shards dests (se_strategy se)" using fw by (simp_all add: forwarding_def)
  obtain se' r where d: "Session_decode_and_finish (RsStrategy_ops X) se = (se', r)" by fastforce
  then have st: "se_strategy se' = se_strategy se" by (auto simp: Session_decode_and_finish_def split: if_splits sum.splits)
  let ?e1 = "mark_session_terminal c m now (set_session c m se' e)"
  have f1: "en_channels ?e1 = en_channels (set_session c m se' e)" "en_net ?e1 = en_net e" "opened ?e1 = opened e" "en_next_cleanup ?e1 = en_next_cleanup e"
    "en_session_preambles ?e1 = en_session_preambles e" "en_tombstones ?e1 = en_tombstones e"
    by (simp_all add: mark_session_terminal_def opened_def fun_eq_iff split: option.split)
  have fw1: "forwarding X p shards b c m dests e' se'" "session_pot c m dests e' se' = session_pot c m dests e se"
    if "en_channels e' = en_channels ?e1" "en_opened_to e' = en_opened_to ?e1" "en_session_preambles e' = en_session_preambles ?e1"
      "en_tombstones e' = en_tombstones ?e1" for e'
  proof -
    have "session_of e' c m = Some se'"
      using session_of_cong [OF that(1)] session_of_cong [OF f1(1)] session_of_set_session [OF s(1), of se' c m] by simp
    moreover have "subscribers_of e' c = subscribers_of e c"
      using subscribers_of_cong [OF that(1)] subscribers_of_cong [OF f1(1)] by simp
    moreover have "opened e' = opened e" using opened_cong [OF that(2)] f1(3) by simp
    ultimately show "forwarding X p shards b c m dests e' se'" "session_pot c m dests e' se' = session_pot c m dests e se"
      using fw st that(3,4) f1(5,6) by (simp_all add: forwarding_def is_tombstoned_def session_pot_def unopened_def)
  qed
  show ?thesis
  proof (cases r)
    case (Inl x)
    then have "maybe_decode_and_deliver (rs_env X send T) now c m e = ?e1"
      by (simp add: maybe_decode_and_deliver_def s(1) d Let_def)
    then show ?thesis using fw1 [of ?e1] net f1 by (intro exI [of _ se']) (simp add: forwards_def)
  next
    case (Inr payload)
    let ?msg = "SendSessionReconstructed c m"
    let ?e2 = "?e1\<lparr>en_delivered := T (en_delivered ?e1) \<lparr>dm_channel_id = c, dm_message_id = m, dm_payload = payload\<rparr>\<rparr>"
    let ?e' = "?e2\<lparr>en_net := fst (send (en_net e) ?msg)\<rparr>"
    have e': "maybe_decode_and_deliver (rs_env X send T) now c m e = ?e'"
      using Inr f1(2) by (simp add: maybe_decode_and_deliver_def s(1) d Let_def net_send_def case_prod_unfold)
    have "inv (fst (send (en_net e) ?msg))" using accepts [OF net, of ?msg] by simp
    moreover have "sends send (session_msg shards b c m dests) 0 (en_net e) (fst (send (en_net e) ?msg))"
      by (rule sends_one) (simp_all add: session_msg_intros)
    ultimately show ?thesis using fw1 [of ?e'] f1 e' by (intro exI [of _ se']) (simp add: forwards_def spends_def)
  qed
qed

lemma chunk_forwards:
  assumes fw: "forwarding X p shards b c m dests e se" and net: "inv (en_net e)"
    and h: "hashes p = map (sha256 X) shards" and i: "unat i < length shards"
  shows "\<exists>e' se'. handle_chunk (rs_env X send T) now c m i (shards ! unat i) e = Some e' \<and>
    forwards X p shards b c m (session_pot c m dests e se) e e' se'"
proof -
  let ?E = "rs_env X send T"
  have s: "session_of e c m = Some se" "carries X p shards dests (se_strategy se)" "\<not> is_tombstoned e c m" using fw by (simp_all add: forwarding_def)
  obtain e1 cpl where t: "engine_take_chunk ?E c m i (shards ! unat i) e = (e1, cpl)" by fastforce
  note f = engine_take_chunk_frame [OF s(1), of ?E i "shards ! unat i", unfolded t fst_conv]
  let ?se1 = "fst (Session_take_chunk (RsStrategy_ops X) se i (shards ! unat i))"
  note st = session_take_carries [OF s(2) h i]
  have fw1: "forwarding X p shards b c m dests e1 ?se1" using fw f st(1) by (simp add: forwarding_def is_tombstoned_def)
  have pot1: "session_pot c m dests e1 ?se1 \<le> session_pot c m dests e se" using f(5) st(2) by (simp add: session_pot_def unopened_def)
  obtain e2 se2 where d: "drain_session ?E c m e1 = Some (e2, Inr ())" "forwarding X p shards b c m dests e2 se2" "inv (en_net e2)"
    "spends send (session_msg shards b c m dests) (session_pot c m dests e1 ?se1) (session_pot c m dests e2 se2) (en_net e1) (en_net e2)"
    using drain_forwards [of ?E X p shards b c m e1 ?se1] fw1 net f(7) by auto
  have n2: "en_next_cleanup e2 = en_next_cleanup e" using drain_session_frame [OF d(1)] f(6) by (simp add: drain_frame_def)
  have sp: "spends send (session_msg shards b c m dests) (session_pot c m dests e se) (session_pot c m dests e2 se2) (en_net e) (en_net e2)"
    using spends_mono [OF d(4) pot1 order_refl] f(7) by simp
  let ?e' = "if cpl then maybe_decode_and_deliver ?E now c m e2 else e2"
  have h: "handle_chunk ?E now c m i (shards ! unat i) e = Some ?e'"
    using s by (simp add: handle_chunk_def t d(1))
  obtain se' where "forwards X p shards b c m (session_pot c m dests e2 se2) e2 (maybe_decode_and_deliver ?E now c m e2) se'"
    using deliver_forwards [OF d(2,3)] by blast
  then have "\<exists>se'. forwards X p shards b c m (session_pot c m dests e se) e ?e' se'"
    using d(2,3) sp n2 spends_trans [OF sp] by (cases cpl) (auto simp: forwards_def)
  then show ?thesis using h by blast
qed

lemma opens_sending:
  assumes E: "ev_send E = send" and "inv (en_net e)" "bt_get (en_session_preambles e) (c, m) = Some b" "set ps \<subseteq> dests"
  shows "\<exists>e'. try_each (ensure_session_open E c m) ps e = (e', Inr ()) \<and> sending shards b c m 0 e e'"
  using assms(2-4)
proof (induction ps arbitrary: e)
  case (Cons q ps)
  obtain e1 where e1: "ensure_session_open E c m q e = (e1, Inr ())" "sending shards b c m 0 e e1"
    using ensure_sending [OF E Cons.prems(1,2), of q shards] Cons.prems(3) by auto
  then have "inv (en_net e1)" "bt_get (en_session_preambles e1) (c, m) = Some b"
    using Cons.prems(2) by (simp_all add: sending_def)
  then obtain e' where "try_each (ensure_session_open E c m) ps e1 = (e', Inr ())" "sending shards b c m 0 e1 e'"
    using Cons.IH [of e1] Cons.prems(3) by auto
  then show ?case using e1 sending_trans [OF e1(2)] by fastforce
qed simp

text \<open>A second preamble for a session that is there changes nothing.\<close>

lemma open_again:
  assumes "session_of e c m = Some se"
  shows "handle_session_open E now c m b e = Some e"
proof (cases "is_tombstoned e c m")
  case False
  obtain ch where ch: "bt_get (en_channels e) c = Some ch" "bt_get (ch_sessions ch) m = Some se"
    using assms by (auto simp: session_of_eq split: option.splits)
  have "bt_insert c ch (en_channels e) = en_channels e" by (rule bt_eqI) (simp add: ch(1))
  then show ?thesis using False ch by (simp add: handle_session_open_def Channel_open_session_def)
qed (simp add: handle_session_open_def)

lemma carries_pot:
  assumes "carries X p shards A s"
  shows "strategy_pot A s \<le> card A * (2 * length shards + 1)"
proof -
  have i: "chunks_inv X s" "pl_num_shards (rs_planner s) = RsStrategy_total_shards s" "length (rs_chunks s) = length shards"
    using assms by (simp_all add: carries_def rs_inv_def)
  then have "peer_slack (rs_planner s) q \<le> length shards" for q
    using total_shards_length [OF i(1)] by (simp add: peer_slack_def)
  then have "total_slack s \<le> card A * length shards"
    using assms sum_bounded_above [of "bs_elems (rs_attached s)" "peer_slack (rs_planner s)" "length shards"]
    by (simp add: total_slack_def carries_def)
  moreover have "unheld s \<le> length shards" using unheld_held [of s] i(3) by simp
  then have "card A * (unheld s + (if routing_pending s then 1 else 0)) \<le> card A * (length shards + 1)" by (intro mult_left_mono) auto
  ultimately show ?thesis unfolding strategy_pot_def by (simp add: algebra_simps)
qed

lemma unopened_le: "unopened c m dests e \<le> card dests"
  unfolding unopened_def using finite_dests by (intro card_mono) auto

text \<open>A session that has just been created on the channel, with the subscribers attached.\<close>

lemma created_forwarding:
  assumes "en_channels e1 = bt_insert c ch1 (en_channels e)" "bt_get (ch_sessions ch1) m = Some (attach_all (RsStrategy_ops X) (bt_keys (ch_subscribers ch)) se)"
    "ch_subscribers ch1 = ch_subscribers ch" "bs_elems (ch_subscribers ch) = dests"
    "carries X p shards {} (se_strategy se)" "bt_get (en_session_preambles e1) (c, m) = Some b" "\<not> is_tombstoned e1 c m"
  shows "forwarding X p shards b c m dests e1 (attach_all (RsStrategy_ops X) (bt_keys (ch_subscribers ch)) se)"
    "session_pot c m dests e1 (attach_all (RsStrategy_ops X) (bt_keys (ch_subscribers ch)) se) \<le> card dests * (2 * length shards + 2)"
proof -
  let ?se = "attach_all (RsStrategy_ops X) (bt_keys (ch_subscribers ch)) se"
  have "bs_elems (rs_attached (se_strategy ?se)) = dests"
    using assms(4,5) by (simp add: attach_all_strategy fold_bs_insert set_bt_keys_bs_elems carries_def)
  then have c: "carries X p shards dests (se_strategy ?se)"
    using assms(5) by (auto simp: carries_def attach_all_strategy rs_inv_def chunks_inv_def RsStrategy_total_shards_def genuine_def)
  then show "forwarding X p shards b c m dests e1 ?se"
    using assms by (simp add: forwarding_def session_of_eq subscribers_of_def set_bt_keys_bs_elems)
  show "session_pot c m dests e1 ?se \<le> card dests * (2 * length shards + 2)"
    using carries_pot [OF c] unopened_le [of c m e1] by (simp add: session_pot_def algebra_simps)
qed

lemma open_forwards:
  assumes aw: "awaits X p b c m e" and subs: "set (subscribers_of e c) = dests" and net: "inv (en_net e)"
    and len: "length (hashes p) = length shards"
  shows "\<exists>e' se'. handle_session_open (rs_env X send T) now c m b e = Some e' \<and>
    forwards X p shards b c m (card dests * (2 * length shards + 2)) e e' se'"
proof -
  let ?E = "rs_env X send T"
  obtain ch n s config seed where ch: "bt_get (en_channels e) c = Some ch" "ch_factory ch (ch_calls ch) b = (n, Inr s)"
    "RsStrategy_new_relay_with_seed p config seed = Inr s" and clear: "\<not> is_tombstoned e c m" "bt_get (en_parked_chunks e) (c, m) = None"
    and none: "bt_get (ch_sessions ch) m = None"
    using aw by (auto simp: awaits_def live_def session_of_eq)
  let ?se = "attach_all (RsStrategy_ops X) (bt_keys (ch_subscribers ch)) (Session_new_relay s)"
  let ?ch = "ch\<lparr>ch_calls := n, ch_sessions := bt_insert m ?se (ch_sessions ch)\<rparr>"
  let ?e = "record_session_created c m now (e\<lparr>en_channels := bt_insert c ?ch (en_channels e),
    en_session_preambles := bt_insert (c, m) b (en_session_preambles e)\<rparr>)"
  have o: "Channel_open_session (RsStrategy_ops X) ch m b = (?ch, Inr ())"
    using none ch(2) by (simp add: Channel_open_session_def Let_def)
  have d: "bs_elems (ch_subscribers ch) = dests" using subs ch(1) by (simp add: subscribers_of_def set_bt_keys_bs_elems)
  note fresh = new_relay_fresh [OF ch(3)] new_relay_inv [OF ch(3), of X]
  have "rs_attached s = bt_empty"
    using ch(3) by (auto simp: RsStrategy_new_relay_with_seed_def result_bind_Inr_iff Let_def RsStrategy_with_def)
  then have "carries X p shards {} (se_strategy (Session_new_relay s))"
    using fresh len by (simp add: carries_def Session_new_relay_def rs_inv_def chunks_inv_def)
  note fw = created_forwarding [of ?e c ?ch e m X ch "Session_new_relay s" p shards b, OF _ _ _ d this]
  have n1: "inv (en_net ?e)" "en_net ?e = en_net e" "en_next_cleanup ?e = en_next_cleanup e" "en_parked_chunks ?e = en_parked_chunks e"
    "en_channels ?e = bt_insert c ?ch (en_channels e)" "bt_get (en_session_preambles ?e) (c, m) = Some b" "\<not> is_tombstoned ?e c m"
    using net clear(1) by (simp_all add: record_session_created_def is_tombstoned_def)
  have fw1: "forwarding X p shards b c m dests ?e ?se" "session_pot c m dests ?e ?se \<le> card dests * (2 * length shards + 2)"
    using n1(5-7) by (intro fw; simp)+
  obtain e' se' where e': "drain_session ?E c m ?e = Some (e', Inr ())" "forwarding X p shards b c m dests e' se'" "inv (en_net e')"
    "spends send (session_msg shards b c m dests) (session_pot c m dests ?e ?se) (session_pot c m dests e' se') (en_net ?e) (en_net e')"
    using drain_forwards [OF _ _ fw1(1) n1(1), of ?E] by auto
  have fr: "en_parked_chunks e' = en_parked_chunks e" "en_next_cleanup e' = en_next_cleanup e"
    using drain_session_frame [OF e'(1)] n1 by (simp_all add: drain_frame_def)
  then have "handle_session_open ?E now c m b e = Some e'"
    using e'(1) clear by (simp add: handle_session_open_def ch o Let_def replay_parked_chunks_def)
  moreover have "forwards X p shards b c m (card dests * (2 * length shards + 2)) e e' se'"
    using e'(2,3) spends_mono [OF e'(4) fw1(2) order_refl] n1(2) fr(2) by (simp add: forwards_def)
  ultimately show ?thesis by blast
qed

text \<open>The publication.\<close>

lemma publish_forwards:
  assumes ch: "bt_get (en_channels e) c = Some ch" "bt_get (ch_sessions ch) m = None" and subs: "set (subscribers_of e c) = dests"
    and net: "inv (en_net e)" and s: "carries X p shards {} s" "\<not> is_tombstoned e c m"
  shows "\<exists>e' se'. Engine_publish (rs_env X send T) now c m s b e = Some (e', Inr ()) \<and> se_state se' = SOrigin \<and>
    forwards X p shards b c m (card dests * (2 * length shards + 2)) e e' se' \<and> en_delivered e' = en_delivered e"
proof -
  let ?E = "rs_env X send T" and ?ps = "bt_keys (ch_subscribers ch)"
  let ?se = "attach_all (RsStrategy_ops X) ?ps (Session_new_origin s)"
  let ?ch = "ch\<lparr>ch_sessions := bt_insert m ?se (ch_sessions ch)\<rparr>"
  let ?e = "record_session_created c m now (e\<lparr>en_channels := bt_insert c ?ch (en_channels e),
    en_session_preambles := bt_insert (c, m) b (en_session_preambles e)\<rparr>)"
  have start: "Channel_start_origin_session (RsStrategy_ops X) ch m s = (?ch, Inr ())"
    using ch(2) by (simp add: Channel_start_origin_session_def)
  have d: "bs_elems (ch_subscribers ch) = dests" using subs ch(1) by (simp add: subscribers_of_def set_bt_keys_bs_elems)
  have "carries X p shards {} (se_strategy (Session_new_origin s))" using s(1) by (simp add: Session_new_origin_def)
  note fw = created_forwarding [of _ c ?ch e m X ch "Session_new_origin s" p shards b, OF _ _ _ d this]
  have n0: "inv (en_net ?e)" "en_net ?e = en_net e" "bt_get (en_session_preambles ?e) (c, m) = Some b" "\<not> is_tombstoned ?e c m"
    "en_next_cleanup ?e = en_next_cleanup e" "en_channels ?e = bt_insert c ?ch (en_channels e)" "en_delivered ?e = en_delivered e"
    using net s(2) by (simp_all add: record_session_created_def is_tombstoned_def)
  obtain e1 where e1: "try_each (ensure_session_open ?E c m) ?ps ?e = (e1, Inr ())" "sending shards b c m 0 ?e e1"
    using opens_sending [OF _ n0(1,3), of ?E ?ps shards] d by (auto simp: set_bt_keys_bs_elems)
  have f1: "forwarding X p shards b c m dests e1 ?se"
    using e1(2) n0 by (intro fw) (simp_all add: sending_def is_tombstoned_def)
  have pot: "session_pot c m dests ?e ?se \<le> card dests * (2 * length shards + 2)" using n0 by (intro fw) simp_all
  have i1: "inv (en_net e1)" using e1(2) by (simp add: sending_def)
  have sp1: "spends send (session_msg shards b c m dests) (session_pot c m dests ?e ?se) (session_pot c m dests e1 ?se) (en_net e) (en_net e1)"
    using e1(2) n0(2) by (simp add: spends_def sending_def session_pot_def)
  obtain e' se' where e': "drain_session ?E c m e1 = Some (e', Inr ())" "forwarding X p shards b c m dests e' se'" "inv (en_net e')"
    "spends send (session_msg shards b c m dests) (session_pot c m dests e1 ?se) (session_pot c m dests e' se') (en_net e1) (en_net e')"
    using drain_forwards [OF _ _ f1 i1, of ?E] by auto
  have "Engine_publish ?E now c m s b e = Some (e', Inr ())"
    using e'(1) e1(1) by (simp add: Engine_publish_def ch(1) start Let_def)
  moreover have "session_of e1 c m = Some ?se" "session_of e' c m = Some se'" using f1 e'(2) by (simp_all add: forwarding_def)
  then have "se_state se' = SOrigin" using drain_view [OF e'(1)] by (simp add: view_def Session_new_origin_def)
  moreover have "forwards X p shards b c m (card dests * (2 * length shards + 2)) e e' se'"
    using e'(2,3) spends_mono [OF spends_trans [OF sp1 e'(4)] pot order_refl] drain_session_frame [OF e'(1)] e1(2) n0(5)
    by (simp add: forwards_def drain_frame_def sending_def)
  moreover have "en_delivered e1 = en_delivered e" 
    using try_each_inv [where P = "\<lambda>x. en_delivered x = en_delivered e" and f = "ensure_session_open ?E c m" and st = ?e and xs = ?ps]
      ensure_keeps [of ?E c m "\<lambda>x. en_delivered x = en_delivered e"] e1(1) n0(7) by (simp add: drain_closed_def)
  then have "en_delivered e' = en_delivered e" using drain_session_frame [OF e'(1)] by (simp add: drain_frame_def)
  ultimately show ?thesis by blast
qed

end

subsection \<open>The events of a session\<close>

definition session_event :: "bytes list \<Rightarrow> bytes \<Rightarrow> ChannelId \<Rightarrow> MessageId \<Rightarrow> NetEvent \<Rightarrow> bool" where
  "session_event shards b c m ev \<longleftrightarrow> (\<exists>q u. ev = EvSessionOpen q c m b u) \<or> (\<exists>q x. ev = EvRoutingUpdate q c m x) \<or>
     (\<exists>q i. unat i < length shards \<and> ev = EvChunk q c m i (shards ! unat i))"

lemma session_msg_event:
  assumes "session_msg shards b c m A msg" "send_dst msg = Some dst"
  shows "dst \<in> A" "session_event shards b c m (the (sent_event self msg))"
  using assms by (auto simp: session_msg_def session_event_def)

text \<open>
  The origin, and a subscriber with the events on its way to it: it waits for the session to be opened and will receive
  every shard, or it takes part and what it received together with what it will receive is every shard.
\<close>

definition origin_part ::
  "'e Crates \<Rightarrow> Preamble \<Rightarrow> bytes list \<Rightarrow> bytes \<Rightarrow> ChannelId \<Rightarrow> MessageId \<Rightarrow> PeerId set \<Rightarrow> 'd \<Rightarrow> nat \<Rightarrow> (RsStrategy, 'n, 'd) Engine \<Rightarrow> bool" where
  "origin_part X p shards b c m A D k e \<longleftrightarrow>
     (\<exists>se. forwarding X p shards b c m A e se \<and> se_state se = SOrigin \<and> en_delivered e = D \<and> session_pot c m A e se \<le> k)"

definition relay_part ::
  "'e Crates \<Rightarrow> ('d \<Rightarrow> DeliveredMessage \<Rightarrow> 'd) \<Rightarrow> Preamble \<Rightarrow> bytes list \<Rightarrow> bytes \<Rightarrow> bytes \<Rightarrow> ChannelId \<Rightarrow> MessageId \<Rightarrow> PeerId set \<Rightarrow> 'd \<Rightarrow>
   NetEvent list \<Rightarrow> nat \<Rightarrow> (RsStrategy, 'n, 'd) Engine \<Rightarrow> bool" where
  "relay_part X T p shards payload b c m A D evs k e \<longleftrightarrow>
     awaits X p b c m e \<and> set (subscribers_of e c) = A \<and> en_delivered e = D \<and> card A * (2 * length shards + 2) \<le> k \<and>
       (\<exists>q u rest. evs = EvSessionOpen q c m b u # rest \<and> {..<length shards} \<subseteq> unat ` chunk_ids rest) \<or>
     (\<exists>se H. forwarding X p shards b c m A e se \<and> relaying X T p shards payload c m D H e \<and> session_pot c m A e se \<le> k \<and>
       {..<length shards} \<subseteq> H \<union> unat ` chunk_ids evs)"

lemma relaying_mono: "relaying X T p shards payload c m D H e \<Longrightarrow> H' \<subseteq> H \<Longrightarrow> relaying X T p shards payload c m D H' e"
  by (auto simp: relaying_def)

lemma relay_part_append:
  assumes "relay_part X T p shards payload b c m A D evs k e"
  shows "relay_part X T p shards payload b c m A D (evs @ evs') k e"
proof -
  have cover: "N \<subseteq> H \<union> unat ` chunk_ids xs \<Longrightarrow> N \<subseteq> H \<union> unat ` chunk_ids (xs @ evs')" for N H xs by auto
  show ?thesis
    using assms cover [of _ "{}"] cover unfolding relay_part_def Un_empty_left by (metis (no_types, lifting) append_Cons)
qed

lemma part_net:
  "origin_part X p shards b c m A D k (e\<lparr>en_net := n\<rparr>) = origin_part X p shards b c m A D k e"
  "relay_part X T p shards payload b c m A D evs k (e\<lparr>en_net := n\<rparr>) = relay_part X T p shards payload b c m A D evs k e"
  by (simp_all add: origin_part_def relay_part_def forwarding_tables awaits_def live_def relaying_def is_tombstoned_def
      session_of_def subscribers_of_def)

lemma relay_part_done:
  assumes "encoded_message X payload p shards" "relay_part X T p shards payload b c m A D [] k e"
  shows "en_delivered e = T D \<lparr>dm_channel_id = c, dm_message_id = m, dm_payload = payload\<rparr>"
proof -
  have "relaying X T p shards payload c m D {..<length shards} e"
    using assms(2) relaying_mono by (fastforce simp: relay_part_def chunk_ids_def)
  from relaying_delivered [OF assms(1) this] show ?thesis using encoded_shards(1) [OF assms(1)] by simp
qed

text \<open>The origin takes no chunks.\<close>

lemma origin_chunk:
  assumes "session_of e c m = Some se" "se_state se = SOrigin" "handle_chunk (rs_env X send T) now c m i d e = Some e'"
    "session_of e' c m = Some se'"
  shows "se_state se' = SOrigin" "en_delivered e' = en_delivered e"
proof -
  let ?E = "rs_env X send T"
  have t: "Session_take_chunk (RsStrategy_ops X) se i d = (se, Inl (PostConsuming Invalid))"
    using assms(2) by (simp add: Session_take_chunk_def)
  obtain e1 cpl where e1: "engine_take_chunk ?E c m i d e = (e1, cpl)" by fastforce
  note s = engine_take_chunk_session [OF assms(1), of ?E i d, unfolded e1 rs_env_simps t fst_conv snd_conv sum.case]
  show "se_state se' = SOrigin" "en_delivered e' = en_delivered e"
  proof (atomize (full), cases "is_tombstoned e c m")
    case True
    then show "se_state se' = SOrigin \<and> en_delivered e' = en_delivered e" using assms by (simp add: handle_chunk_def)
  next
    case False
    then obtain r where d: "drain_session ?E c m e1 = Some (e', r)"
      using assms(1,3) s(2) by (auto simp: handle_chunk_def e1 bind_eq_Some_conv)
    have "se_state se' = se_state se" using drain_view [OF d] s(1) assms(4) by (simp add: view_def)
    then show "se_state se' = SOrigin \<and> en_delivered e' = en_delivered e"
      using drain_session_frame [OF d] s(3) assms(2) by (simp add: drain_frame_def)
  qed
qed

context accepting_net
begin

definition pays :: "bytes list \<Rightarrow> bytes \<Rightarrow> ChannelId \<Rightarrow> MessageId \<Rightarrow> nat \<Rightarrow> nat \<Rightarrow>
    (RsStrategy, 'n, 'd) Engine \<Rightarrow> (RsStrategy, 'n, 'd) Engine \<Rightarrow> bool" where
  "pays shards b c m k k' e e' \<longleftrightarrow> inv (en_net e') \<and> en_next_cleanup e' = en_next_cleanup e \<and>
     spends send (session_msg shards b c m dests) k k' (en_net e) (en_net e')"

lemma forwards_pays:
  "forwards X p shards b c m j e e' se' \<Longrightarrow> j \<le> k \<Longrightarrow> pays shards b c m k (session_pot c m dests e' se') e e'"
  by (auto simp: forwards_def pays_def intro: spends_mono)

lemma pays_refl [simp]: "inv (en_net e) \<Longrightarrow> pays shards b c m k k e e"
  by (simp add: pays_def)

lemma origin_step:
  assumes "origin_part X p shards b c m dests D k e" "session_event shards b c m ev" "inv (en_net e)"
    and h: "hashes p = map (sha256 X) shards"
  shows "\<exists>e' k'. handle_event (rs_env X send T) now ev e = Some e' \<and> origin_part X p shards b c m dests D k' e' \<and> pays shards b c m k k' e e'"
proof -
  obtain se where se: "forwarding X p shards b c m dests e se" "se_state se = SOrigin" "en_delivered e = D" "session_pot c m dests e se \<le> k"
    using assms(1) by (auto simp: origin_part_def)
  have so: "session_of e c m = Some se" using se(1) by (simp add: forwarding_def)
  show ?thesis
  proof (cases "\<exists>q i. unat i < length shards \<and> ev = EvChunk q c m i (shards ! unat i)")
    case True
    then obtain q i where i: "unat i < length shards" "ev = EvChunk q c m i (shards ! unat i)" by blast
    obtain e' se' where e': "handle_chunk (rs_env X send T) now c m i (shards ! unat i) e = Some e'"
      "forwards X p shards b c m (session_pot c m dests e se) e e' se'"
      using chunk_forwards [OF se(1) assms(3) h i(1)] by blast
    then have fw: "forwarding X p shards b c m dests e' se'" by (simp add: forwards_def)
    then have "session_of e' c m = Some se'" by (simp add: forwarding_def)
    from origin_chunk [OF so se(2) e'(1) this]
    have "origin_part X p shards b c m dests D (session_pot c m dests e' se') e'" using se(3) fw by (auto simp: origin_part_def)
    then show ?thesis using e'(1) i(2) forwards_pays [OF e'(2) se(4)] by auto
  next
    case False
    then have "handle_event (rs_env X send T) now ev e = Some e"
      using assms(2) open_again [OF so] by (auto simp: session_event_def)
    then show ?thesis using assms(1,3) by (intro exI [of _ e] exI [of _ k]) simp
  qed
qed

lemma relay_step:
  assumes msg: "encoded_message X payload p shards" and part: "relay_part X T p shards payload b c m dests D (ev # evs) k e"
    and ev: "session_event shards b c m ev" and net: "inv (en_net e)"
  shows "\<exists>e' k'. handle_event (rs_env X send T) now ev e = Some e' \<and>
    relay_part X T p shards payload b c m dests D evs k' e' \<and> pays shards b c m k k' e e'"
proof -
  let ?E = "rs_env X send T"
  have h: "hashes p = map (sha256 X) shards" using encoded_hashes [OF msg] by simp
  from part consider (await) q u where "awaits X p b c m e" "set (subscribers_of e c) = dests" "en_delivered e = D"
      "card dests * (2 * length shards + 2) \<le> k" "ev = EvSessionOpen q c m b u" "{..<length shards} \<subseteq> unat ` chunk_ids evs"
    | (take) se H where "forwarding X p shards b c m dests e se" "relaying X T p shards payload c m D H e"
      "session_pot c m dests e se \<le> k" "{..<length shards} \<subseteq> H \<union> unat ` chunk_ids (ev # evs)"
    unfolding relay_part_def by blast
  then show ?thesis
  proof cases
    case await
    obtain e' se' where e': "handle_session_open ?E now c m b e = Some e'"
      "forwards X p shards b c m (card dests * (2 * length shards + 2)) e e' se'"
      using open_forwards [OF await(1,2) net, of shards T now] h by (metis length_map)
    obtain ch n s config seed where ch: "bt_get (en_channels e) c = Some ch" "ch_factory ch (ch_calls ch) b = (n, Inr s)"
      "RsStrategy_new_relay_with_seed p config seed = Inr s" "\<not> is_tombstoned e c m" "bt_get (en_parked_chunks e) (c, m) = None"
      "bt_get (ch_sessions ch) m = None"
      using await(1) by (auto simp: awaits_def live_def session_of_eq)
    have "relaying X T p shards payload c m D {} e'" using open_relaying(1) [OF msg ch(1,6,2,3,4,5) e'(1)] await(3) by simp
    then have "relay_part X T p shards payload b c m dests D evs (session_pot c m dests e' se') e'"
      using e'(2) await(6) unfolding relay_part_def forwards_def by blast
    then show ?thesis using e'(1) await(5) forwards_pays [OF e'(2) await(4)] by auto
  next
    case take
    have so: "session_of e c m = Some se" using take(1) by (simp add: forwarding_def)
    show ?thesis
    proof (cases "\<exists>q i. unat i < length shards \<and> ev = EvChunk q c m i (shards ! unat i)")
      case True
      then obtain q i where i: "unat i < length shards" "ev = EvChunk q c m i (shards ! unat i)" by blast
      obtain e' se' where e': "handle_chunk ?E now c m i (shards ! unat i) e = Some e'"
        "forwards X p shards b c m (session_pot c m dests e se) e e' se'"
        using chunk_forwards [OF take(1) net h i(1)] by blast
      have "collision_free X shards [(i, shards ! unat i)]" by (simp add: collision_free_def)
      from relaying_chunk [OF msg take(2) this e'(1)] i(1)
      have "relaying X T p shards payload c m D (H \<union> {unat i}) e'" by simp
      moreover have "{..<length shards} \<subseteq> (H \<union> {unat i}) \<union> unat ` chunk_ids evs" using take(4) i(2) by (auto simp: chunk_ids_Cons)
      ultimately have "relay_part X T p shards payload b c m dests D evs (session_pot c m dests e' se') e'"
        using e'(2) unfolding relay_part_def forwards_def by blast
      then show ?thesis using e'(1) i(2) forwards_pays [OF e'(2) take(3)] by auto
    next
      case False
      then have "handle_event ?E now ev e = Some e" "chunk_ids (ev # evs) = chunk_ids evs"
        using ev open_again [OF so] by (auto simp: session_event_def chunk_ids_def)
      moreover from this take have "relay_part X T p shards payload b c m dests D evs k e" unfolding relay_part_def by auto
      ultimately show ?thesis using net by (intro exI [of _ e] exI [of _ k]) simp
    qed
  qed
qed

end

end
