(* ===== verification/SimNet.thy ===== *)
theory SimNet
  imports Mpsc Complex_Main
begin

text \<open>
  \<open>ethp2p-sim\<close>: the trace (\<open>trace.rs\<close>), the fault plan and the transport of the simulator (\<open>net.rs\<close>), its discrete-event
  state (\<open>state.rs\<close>) and its clock (\<open>clock.rs\<close>). The random generator is the \<open>rand\<close> crate's and is the
  parameter \<open>Rng\<close>. A predicate of a fault rule is a closure with state: what it answers depends on the
  messages it was asked about before, so it is a function of that history, and the rule keeps the
  history. A finite \<open>f64\<close> is a rational number; durations are natural numbers of nanoseconds. Where the code
  says \<open>unreachable!\<close> the model has \<open>None\<close>.
\<close>

subsection \<open>The trace\<close>

datatype MsgKind = KHandshake | KSubscribe | KUnsubscribe | KSessionOpen | KRoutingUpdate | KChunk u32

datatype DropReason = DropRule | DropPartition | DropRandom

datatype Disposition = Delivered Duration | Dropped DropReason

datatype TraceKind =
    TraceSend PeerId PeerId MsgKind Disposition
  | TraceEngineStep PeerId

record TraceEntry =
  te_at :: Duration
  te_seq :: u64
  te_kind :: TraceKind

fun MsgKind_of :: "NetSend \<Rightarrow> MsgKind option" where
  "MsgKind_of (SendHandshake _ _ _ _) = Some KHandshake"
| "MsgKind_of (SendSubscribe _ _) = Some KSubscribe"
| "MsgKind_of (SendUnsubscribe _ _) = Some KUnsubscribe"
| "MsgKind_of (SendSessionOpen _ _ _ _ _) = Some KSessionOpen"
| "MsgKind_of (SendRoutingUpdate _ _ _ _) = Some KRoutingUpdate"
| "MsgKind_of (SendChunk _ _ _ chunk_id _ _) = Some (KChunk chunk_id)"
| "MsgKind_of _ = None"

subsection \<open>The fault plan\<close>

fun destination :: "NetSend \<Rightarrow> PeerId option" where
  "destination (SendHandshake peer _ _ _) = Some peer"
| "destination (SendSubscribe peer _) = Some peer"
| "destination (SendUnsubscribe peer _) = Some peer"
| "destination (SendSessionOpen peer _ _ _ _) = Some peer"
| "destination (SendRoutingUpdate peer _ _ _) = Some peer"
| "destination (SendChunk peer _ _ _ _ _) = Some peer"
| "destination _ = None"

fun into_event :: "PeerId \<Rightarrow> NetSend \<Rightarrow> NetEvent option" where
  "into_event src (SendHandshake _ version channels peer_id) = Some (EvHandshake src version channels peer_id)"
| "into_event src (SendSubscribe _ channel) = Some (EvSubscribe src channel)"
| "into_event src (SendUnsubscribe _ channel) = Some (EvUnsubscribe src channel)"
| "into_event src (SendSessionOpen _ channel message_id preamble initial_update) =
     Some (EvSessionOpen src channel message_id preamble initial_update)"
| "into_event src (SendRoutingUpdate _ channel message_id payload) = Some (EvRoutingUpdate src channel message_id payload)"
| "into_event src (SendChunk _ channel message_id chunk_id payload _) = Some (EvChunk src channel message_id chunk_id payload)"
| "into_event src _ = None"

type_synonym SendPredicate = "NetSend list \<Rightarrow> NetSend \<Rightarrow> bool"

datatype FaultAction =
    DropIf SendPredicate "NetSend list"
  | DropWithProbability rat
  | DelayIf SendPredicate "NetSend list" Duration
  | DelayJitter Duration
  | Partition Duration Duration

record FaultRule =
  fr_src :: PeerId
  fr_dst :: PeerId
  fr_action :: FaultAction

text \<open>\<open>ChaCha8Rng\<close>: seeding, \<open>random::<f64>()\<close> and \<open>random_range(0..=max)\<close>.\<close>

record 'g Rng =
  rg_seed_from_u64 :: "u64 \<Rightarrow> 'g"
  rg_f64 :: "'g \<Rightarrow> 'g \<times> rat"
  rg_range :: "'g \<Rightarrow> u64 \<Rightarrow> 'g \<times> u64"

definition rng_ok :: "'g Rng \<Rightarrow> bool" where
  "rng_ok R \<longleftrightarrow> (\<forall>g. 0 \<le> snd (rg_f64 R g) \<and> snd (rg_f64 R g) < 1) \<and> (\<forall>g m. snd (rg_range R g m) \<le> m)"

record 'g FaultPlan =
  fp_seed :: u64
  fp_rules :: "FaultRule list"
  fp_rng :: 'g

datatype Classification = Deliver Duration | DropMsg DropReason

definition FaultPlan_new :: "'g Rng \<Rightarrow> u64 \<Rightarrow> 'g FaultPlan" where
  "FaultPlan_new R seed = \<lparr>fp_seed = seed, fp_rules = [], fp_rng = rg_seed_from_u64 R seed\<rparr>"

definition push_rule :: "PeerId \<Rightarrow> PeerId \<Rightarrow> FaultAction \<Rightarrow> 'g FaultPlan \<Rightarrow> 'g FaultPlan" where
  "push_rule src dst action plan = plan\<lparr>fp_rules := fp_rules plan @ [\<lparr>fr_src = src, fr_dst = dst, fr_action = action\<rparr>]\<rparr>"

definition FaultPlan_drop_if :: "'g FaultPlan \<Rightarrow> PeerId \<Rightarrow> PeerId \<Rightarrow> SendPredicate \<Rightarrow> 'g FaultPlan" where
  "FaultPlan_drop_if plan src dst pred = push_rule src dst (DropIf pred []) plan"

definition FaultPlan_drop_with_probability :: "'g FaultPlan \<Rightarrow> PeerId \<Rightarrow> PeerId \<Rightarrow> rat \<Rightarrow> 'g FaultPlan" where
  "FaultPlan_drop_with_probability plan src dst probability = push_rule src dst (DropWithProbability probability) plan"

definition FaultPlan_delay_if :: "'g FaultPlan \<Rightarrow> PeerId \<Rightarrow> PeerId \<Rightarrow> Duration \<Rightarrow> SendPredicate \<Rightarrow> 'g FaultPlan" where
  "FaultPlan_delay_if plan src dst delay pred = push_rule src dst (DelayIf pred [] delay) plan"

definition FaultPlan_delay_jitter :: "'g FaultPlan \<Rightarrow> PeerId \<Rightarrow> PeerId \<Rightarrow> Duration \<Rightarrow> 'g FaultPlan" where
  "FaultPlan_delay_jitter plan src dst max_delay = push_rule src dst (DelayJitter max_delay) plan"

definition FaultPlan_partition :: "'g FaultPlan \<Rightarrow> PeerId \<Rightarrow> PeerId \<Rightarrow> Duration \<Rightarrow> Duration \<Rightarrow> 'g FaultPlan" where
  "FaultPlan_partition plan a b from until =
     fold (\<lambda>(src, dst). push_rule src dst (Partition from until)) [(a, b), (b, a)] plan"

text \<open>\<open>u64::try_from(max.as_nanos()).unwrap_or(u64::MAX)\<close>.\<close>

definition nanos_saturating :: "Duration \<Rightarrow> u64" where
  "nanos_saturating d = (if d < 2 ^ 64 then word_of_nat d else - 1)"

text \<open>The loop of \<open>classify\<close> over the remaining rules: the updated rules and generator, and the outcome.\<close>

fun classify_rules ::
  "'g Rng \<Rightarrow> PeerId \<Rightarrow> PeerId \<Rightarrow> Duration \<Rightarrow> NetSend \<Rightarrow> FaultRule list \<Rightarrow> 'g \<Rightarrow> Duration \<Rightarrow>
   FaultRule list \<times> 'g \<times> Classification" where
  "classify_rules R src dst now msg [] rng delay = ([], rng, Deliver delay)"
| "classify_rules R src dst now msg (rule # rules) rng delay =
     (let continue = (\<lambda>rule rng delay.
            case classify_rules R src dst now msg rules rng delay of (rules', rng', res) \<Rightarrow> (rule # rules', rng', res))
      in if fr_src rule \<noteq> src \<or> fr_dst rule \<noteq> dst then continue rule rng delay
      else (case fr_action rule of
          Partition from until \<Rightarrow>
            if from \<le> now \<and> now < until then (rule # rules, rng, DropMsg DropPartition) else continue rule rng delay
        | DropIf pred hist \<Rightarrow>
            (let rule' = rule\<lparr>fr_action := DropIf pred (hist @ [msg])\<rparr> in
             if pred hist msg then (rule' # rules, rng, DropMsg DropRule) else continue rule' rng delay)
        | DropWithProbability p \<Rightarrow>
            (case rg_f64 R rng of (rng', x) \<Rightarrow>
              if x < p then (rule # rules, rng', DropMsg DropRandom) else continue rule rng' delay)
        | DelayIf pred hist d \<Rightarrow>
            continue (rule\<lparr>fr_action := DelayIf pred (hist @ [msg]) d\<rparr>) rng (if pred hist msg then delay + d else delay)
        | DelayJitter max_delay \<Rightarrow>
            (case rg_range R rng (nanos_saturating max_delay) of (rng', x) \<Rightarrow> continue rule rng' (delay + unat x))))"

definition FaultPlan_classify ::
  "'g Rng \<Rightarrow> 'g FaultPlan \<Rightarrow> PeerId \<Rightarrow> PeerId \<Rightarrow> Duration \<Rightarrow> NetSend \<Rightarrow> 'g FaultPlan \<times> Classification" where
  "FaultPlan_classify R plan src dst now msg =
     (case classify_rules R src dst now msg (fp_rules plan) (fp_rng plan) 0 of
        (rules, rng, res) \<Rightarrow> (plan\<lparr>fp_rules := rules, fp_rng := rng\<rparr>, res))"

subsection \<open>The event heap\<close>

datatype PumpStep = DeliveredTo PeerId | Woke

text \<open>A wakeup is named by its number in the table of sleepers.\<close>

datatype Pending = Delivery PeerId NetEvent | Wakeup nat

record Entry =
  ent_at :: Duration
  ent_seq :: u64
  ent_pending :: Pending

text \<open>The order of \<open>Entry\<close>, smallest first: by time, then by sequence number. The heap is its entries in this order.\<close>

definition ent_key :: "Entry \<Rightarrow> Duration \<times> u64" where
  "ent_key e = (ent_at e, ent_seq e)"

definition entry_push :: "Entry \<Rightarrow> Entry list \<Rightarrow> Entry list" where
  "entry_push e heap = insort_key ent_key e heap"

text \<open>\<open>sm_sleepers\<close> is the \<open>done\<close> flag of each \<open>WakeupInner\<close>; wakers belong to the async runtime.\<close>

record 'g SimState =
  sm_now :: Duration
  sm_next_seq :: u64
  sm_heap :: "Entry list"
  sm_sim_start :: Instant
  sm_plan :: "'g FaultPlan"
  sm_trace :: "TraceEntry list"
  sm_inboxes :: "(PeerId, nat) btree_map"
  sm_channels :: ChannelStore
  sm_next_channel :: nat
  sm_sleepers :: "bool list"

definition SimState_new :: "'g FaultPlan \<Rightarrow> Instant \<Rightarrow> 'g SimState" where
  "SimState_new plan start =
     \<lparr>sm_now = 0, sm_next_seq = 0, sm_heap = [], sm_sim_start = start, sm_plan = plan, sm_trace = [],
      sm_inboxes = bt_empty, sm_channels = bt_empty, sm_next_channel = 0, sm_sleepers = []\<rparr>"

definition SimState_wall_now :: "'g SimState \<Rightarrow> Instant" where
  "SimState_wall_now st = sm_sim_start st + sm_now st"

definition take_seq :: "'g SimState \<Rightarrow> 'g SimState \<times> u64" where
  "take_seq st = (st\<lparr>sm_next_seq := sm_next_seq st + 1\<rparr>, sm_next_seq st)"

text \<open>\<open>SimNetHub::endpoint\<close> with \<open>register_inbox\<close>: a new channel, whose receiver goes to the endpoint.\<close>

definition SimNetHub_endpoint :: "'g SimState \<Rightarrow> PeerId \<Rightarrow> 'g SimState \<times> nat" where
  "SimNetHub_endpoint st peer =
     (let cid = sm_next_channel st in
      (st\<lparr>sm_next_channel := Suc cid, sm_channels := bt_insert cid \<lparr>uc_items = [], uc_receiver = True\<rparr> (sm_channels st),
          sm_inboxes := bt_insert peer cid (sm_inboxes st)\<rparr>, cid))"

definition SimState_submit_send :: "'g Rng \<Rightarrow> PeerId \<Rightarrow> 'g SimState NetOp" where
  "SimState_submit_send R src st msg =
     (case (destination msg, MsgKind_of msg, into_event src msg) of
        (Some dst, Some kind, Some event) \<Rightarrow>
          if \<not> bt_contains dst (sm_inboxes st) then (st, Inl (PeerNotFound dst))
          else
            (case take_seq st of (st, seq) \<Rightarrow>
             case FaultPlan_classify R (sm_plan st) src dst (sm_now st) msg of (plan, res) \<Rightarrow>
             let st = st\<lparr>sm_plan := plan\<rparr>;
                 entry = (\<lambda>disposition. \<lparr>te_at = sm_now st, te_seq = seq, te_kind = TraceSend src dst kind disposition\<rparr>)
             in case res of
                  DropMsg reason \<Rightarrow> (st\<lparr>sm_trace := sm_trace st @ [entry (Dropped reason)]\<rparr>, Inr ())
                | Deliver delay \<Rightarrow>
                    (let deliver_at = sm_now st + delay in
                     (st\<lparr>sm_trace := sm_trace st @ [entry (Delivered deliver_at)],
                         sm_heap := entry_push \<lparr>ent_at = deliver_at, ent_seq = seq, ent_pending = Delivery dst event\<rparr> (sm_heap st)\<rparr>, Inr ())))
      | _ \<Rightarrow> (st, Inr ()))"

definition SimState_schedule_wakeup :: "'g SimState \<Rightarrow> Duration \<Rightarrow> 'g SimState \<times> nat" where
  "SimState_schedule_wakeup st wake_at =
     (case take_seq st of (st, seq) \<Rightarrow>
      let inner = length (sm_sleepers st) in
      (st\<lparr>sm_sleepers := sm_sleepers st @ [False],
          sm_heap := entry_push \<lparr>ent_at = wake_at, ent_seq = seq, ent_pending = Wakeup inner\<rparr> (sm_heap st)\<rparr>, inner))"

definition SimState_pop_next :: "'g SimState \<Rightarrow> 'g SimState \<times> PumpStep option" where
  "SimState_pop_next st =
     (case sm_heap st of
        [] \<Rightarrow> (st, None)
      | entry # heap \<Rightarrow>
          (let st = st\<lparr>sm_heap := heap, sm_now := ent_at entry\<rparr> in
           case ent_pending entry of
             Delivery dst event \<Rightarrow>
               (case bt_get (sm_inboxes st) dst of
                  None \<Rightarrow> st
                | Some cid \<Rightarrow> st\<lparr>sm_channels := fst (channel_send cid event (sm_channels st))\<rparr>, Some (DeliveredTo dst))
           | Wakeup inner \<Rightarrow> (st\<lparr>sm_sleepers := (sm_sleepers st)[inner := True]\<rparr>, Some Woke)))"

lemma pop_next_heap: "sm_heap (fst (SimState_pop_next st)) = tl (sm_heap st)"
  by (auto simp: SimState_pop_next_def Let_def split: list.split Pending.split option.split)

function advance_loop :: "'g SimState \<Rightarrow> Duration \<Rightarrow> 'g SimState" where
  "advance_loop st target =
     (if sm_heap st \<noteq> [] \<and> ent_at (hd (sm_heap st)) \<le> target then advance_loop (fst (SimState_pop_next st)) target else st)"
  by pat_completeness auto
termination
  by (relation "measure (\<lambda>(st, _). length (sm_heap st))") (auto simp: pop_next_heap)

declare advance_loop.simps [simp del]

definition SimState_advance_to :: "'g SimState \<Rightarrow> Duration \<Rightarrow> 'g SimState" where
  "SimState_advance_to st target =
     (let st = advance_loop st target in if target > sm_now st then st\<lparr>sm_now := target\<rparr> else st)"

definition SimState_record_engine_step :: "'g SimState \<Rightarrow> PeerId \<Rightarrow> 'g SimState" where
  "SimState_record_engine_step st peer =
     (case take_seq st of (st, seq) \<Rightarrow>
       st\<lparr>sm_trace := sm_trace st @ [\<lparr>te_at = sm_now st, te_seq = seq, te_kind = TraceEngineStep peer\<rparr>]\<rparr>)"

function SimNetHub_pump_all :: "'g SimState \<Rightarrow> nat \<Rightarrow> 'g SimState \<times> nat" where
  "SimNetHub_pump_all st n =
     (case SimState_pop_next st of
        (st', None) \<Rightarrow> (st', n)
      | (st', Some _) \<Rightarrow> SimNetHub_pump_all st' (Suc n))"
  by pat_completeness auto
termination
proof (relation "measure (\<lambda>(st, _). length (sm_heap st))", goal_cases)
  case (2 st n st')
  then have "sm_heap st \<noteq> []" by (auto simp: SimState_pop_next_def)
  moreover have "sm_heap st' = tl (sm_heap st)" using 2 pop_next_heap [of st] by (metis fst_conv)
  ultimately show ?case by simp
qed simp

declare SimNetHub_pump_all.simps [simp del]

subsection \<open>The clock\<close>

definition SimClock_now :: "'g SimState \<Rightarrow> Instant" where
  "SimClock_now st = SimState_wall_now st"

definition SimClock_sleep :: "'g SimState \<Rightarrow> Duration \<Rightarrow> 'g SimState \<times> nat" where
  "SimClock_sleep st d = SimState_schedule_wakeup st (sm_now st + d)"

text \<open>\<open>Sleep::poll\<close>: ready once its wakeup has fired.\<close>

definition Sleep_ready :: "'g SimState \<Rightarrow> nat \<Rightarrow> bool" where
  "Sleep_ready st inner \<longleftrightarrow> inner < length (sm_sleepers st) \<and> sm_sleepers st ! inner"

end
