(* ===== verification/SimProofs.thy ===== *)
theory SimProofs
  imports SimNet NetLaws "HOL-Library.Multiset"
begin

text \<open>
  Correctness of the simulator: the event heap and virtual time, the fault plan, the order of delivery and the
  sleepers of the clock. Without fault rules the simulated network is a reliable network in the sense of
  theory \<open>NetLaws\<close>.
\<close>

subsection \<open>The heap\<close>

definition agenda_inv :: "'g SimState \<Rightarrow> bool" where
  "agenda_inv st \<longleftrightarrow> sorted (map ent_key (sm_heap st)) \<and> (\<forall>e\<in>set (sm_heap st). sm_now st \<le> ent_at e)"

text \<open>A sleeper has at most one wakeup in the heap, and is done exactly if it has none.\<close>

definition wakeups_inv :: "'g SimState \<Rightarrow> bool" where
  "wakeups_inv st \<longleftrightarrow>
     (\<forall>e\<in>set (sm_heap st). \<forall>i. ent_pending e = Wakeup i \<longrightarrow> i < length (sm_sleepers st)) \<and>
     (\<forall>e\<in>set (sm_heap st). \<forall>e'\<in>set (sm_heap st). \<forall>i. ent_pending e = Wakeup i \<longrightarrow> ent_pending e' = Wakeup i \<longrightarrow> e = e') \<and>
     (\<forall>i < length (sm_sleepers st). sm_sleepers st ! i \<longleftrightarrow> (\<forall>e\<in>set (sm_heap st). ent_pending e \<noteq> Wakeup i))"

lemma agenda_inv_new [simp]: "agenda_inv (SimState_new plan start)"
  by (simp add: agenda_inv_def SimState_new_def)

lemma take_seq_fields [simp]:
  "fst (take_seq st) = st\<lparr>sm_next_seq := sm_next_seq st + 1\<rparr>" "snd (take_seq st) = sm_next_seq st"
  by (simp_all add: take_seq_def)

lemma entry_push_set [simp]: "set (entry_push e h) = insert e (set h)"
  by (simp add: entry_push_def set_insort_key)

lemma entry_push_sorted [simp]: "sorted (map ent_key (entry_push e h)) = sorted (map ent_key h)"
  by (simp add: entry_push_def sorted_insort_key)

lemma entry_push_distinct [simp]:
  "distinct (map ent_seq (entry_push e h)) \<longleftrightarrow> ent_seq e \<notin> ent_seq ` set h \<and> distinct (map ent_seq h)"
proof -
  have "mset (map ent_seq (entry_push e h)) = mset (map ent_seq (e # h))"
    by (simp add: entry_push_def)
  then have "distinct (map ent_seq (entry_push e h)) \<longleftrightarrow> distinct (map ent_seq (e # h))"
    by (rule mset_eq_imp_distinct_iff)
  then show ?thesis by simp
qed

text \<open>A message that cannot be addressed, one to an unknown peer, a dropped one and a scheduled one.\<close>

lemma destination_send_dst: "destination msg = send_dst msg"
  by (cases msg) simp_all

lemma sends_agree:
  assumes "send_dst msg = Some dst"
  shows "\<exists>kind event. MsgKind_of msg = Some kind \<and> into_event src msg = Some event \<and> sent_event src msg = Some event"
  using assms by (cases msg) auto

lemma into_event_sent [simp]: "into_event src msg = sent_event src msg"
  by (cases msg) simp_all

definition sim_log :: "PeerId \<Rightarrow> NetSend \<Rightarrow> Disposition \<Rightarrow> 'g SimState \<Rightarrow> 'g SimState" where
  "sim_log src msg d st = st\<lparr>sm_next_seq := sm_next_seq st + 1,
     sm_trace := sm_trace st @ [\<lparr>te_at = sm_now st, te_seq = sm_next_seq st,
       te_kind = TraceSend src (the (send_dst msg)) (the (MsgKind_of msg)) d\<rparr>]\<rparr>"

definition sim_schedule :: "Duration \<Rightarrow> u64 \<Rightarrow> Pending \<Rightarrow> 'g SimState \<Rightarrow> 'g SimState" where
  "sim_schedule t q pending st = st\<lparr>sm_heap := entry_push \<lparr>ent_at = t, ent_seq = q, ent_pending = pending\<rparr> (sm_heap st)\<rparr>"

lemma submit_send_eq:
  "SimState_submit_send R src st msg =
     (case send_dst msg of
        None \<Rightarrow> (st, Inr ())
      | Some dst \<Rightarrow>
          if bt_get (sm_inboxes st) dst = None then (st, Inl (PeerNotFound dst))
          else (case FaultPlan_classify R (sm_plan st) src dst (sm_now st) msg of (plan, res) \<Rightarrow>
            let st' = st\<lparr>sm_plan := plan\<rparr> in
            case res of
              DropMsg reason \<Rightarrow> (sim_log src msg (Dropped reason) st', Inr ())
            | Deliver delay \<Rightarrow>
                (sim_schedule (sm_now st + delay) (sm_next_seq st) (Delivery dst (the (sent_event src msg)))
                   (sim_log src msg (Delivered (sm_now st + delay)) st'), Inr ())))"
proof (cases "send_dst msg")
  case None
  then show ?thesis by (simp add: SimState_submit_send_def destination_send_dst)
next
  case (Some dst)
  then obtain kind event where "MsgKind_of msg = Some kind" "sent_event src msg = Some event"
    using sends_agree by blast
  then show ?thesis using Some
    by (simp add: SimState_submit_send_def destination_send_dst take_seq_def sim_log_def sim_schedule_def Let_def
        split: prod.split Classification.split)
qed

text \<open>Taking an entry from the heap.\<close>

lemma pop_next_eq:
  "SimState_pop_next st =
     (case sm_heap st of
        [] \<Rightarrow> (st, None)
      | e # h \<Rightarrow>
          (case ent_pending e of
             Delivery dst ev \<Rightarrow>
               (st\<lparr>sm_heap := h, sm_now := ent_at e, sm_channels := box_post (sm_inboxes st) dst ev (sm_channels st)\<rparr>,
                Some (DeliveredTo dst))
           | Wakeup i \<Rightarrow> (st\<lparr>sm_heap := h, sm_now := ent_at e, sm_sleepers := (sm_sleepers st)[i := True]\<rparr>, Some Woke)))"
  by (auto simp: SimState_pop_next_def Let_def box_post_def split: list.split Pending.split option.split)

lemma pop_next_fields [simp]:
  "sm_heap (fst (SimState_pop_next st)) = tl (sm_heap st)"
  "sm_next_seq (fst (SimState_pop_next st)) = sm_next_seq st" "sm_plan (fst (SimState_pop_next st)) = sm_plan st"
  "sm_inboxes (fst (SimState_pop_next st)) = sm_inboxes st" "sm_next_channel (fst (SimState_pop_next st)) = sm_next_channel st"
  "sm_trace (fst (SimState_pop_next st)) = sm_trace st" "sm_sim_start (fst (SimState_pop_next st)) = sm_sim_start st"
  "length (sm_sleepers (fst (SimState_pop_next st))) = length (sm_sleepers st)"
  by (simp_all add: pop_next_eq split: list.split Pending.split)

lemma pop_next_now: "sm_heap st = e # h \<Longrightarrow> sm_now (fst (SimState_pop_next st)) = ent_at e"
  by (simp add: pop_next_eq split: Pending.split)

lemma sorted_key_at: "sorted (map ent_key (e # h)) \<Longrightarrow> e' \<in> set h \<Longrightarrow> ent_at e \<le> ent_at e'"
  by (auto simp: ent_key_def)

text \<open>
  The invariant of the simulator: the heap is in order and holds nothing of the past, no entry has a sequence
  number still to be given out, wakeups have their sleepers, and mailboxes are disjoint.
\<close>

definition seqs_inv :: "'g SimState \<Rightarrow> bool" where
  "seqs_inv st \<longleftrightarrow> (\<forall>e\<in>set (sm_heap st). ent_seq e < sm_next_seq st) \<and> distinct (map ent_seq (sm_heap st))"

definition sim_inv :: "'g SimState \<Rightarrow> bool" where
  "sim_inv st \<longleftrightarrow> agenda_inv st \<and> seqs_inv st \<and> wakeups_inv st \<and>
     boxes_inv (sm_inboxes st) (sm_channels st) (sm_next_channel st)"

lemma sim_invD:
  assumes "sim_inv st"
  shows "agenda_inv st" "seqs_inv st" "wakeups_inv st" "boxes_inv (sm_inboxes st) (sm_channels st) (sm_next_channel st)"
  using assms by (simp_all add: sim_inv_def)

lemma sim_inv_new [simp]: "sim_inv (SimState_new plan start)"
  by (simp add: sim_inv_def agenda_inv_def seqs_inv_def wakeups_inv_def SimState_new_def)

lemma sim_inv_cong:
  assumes "sim_inv st" "sm_heap st' = sm_heap st" "sm_now st' = sm_now st" "sm_next_seq st \<le> sm_next_seq st'"
    "sm_sleepers st' = sm_sleepers st"
    "boxes_inv (sm_inboxes st') (sm_channels st') (sm_next_channel st')"
  shows "sim_inv st'"
  using assms unfolding sim_inv_def agenda_inv_def seqs_inv_def wakeups_inv_def by (auto intro: less_le_trans)

text \<open>Sequence numbers are given out once: \<open>next_seq\<close> overflows, and panics, only after \<open>2 ^ 64\<close> numbers.\<close>

definition seq_room :: "nat \<Rightarrow> 'g SimState \<Rightarrow> bool" where
  "seq_room k st \<longleftrightarrow> unat (sm_next_seq st) + k < 2 ^ 64"

lemma seq_room_next:
  assumes "seq_room (Suc k) st"
  shows "unat (sm_next_seq st + 1) = Suc (unat (sm_next_seq st))"
  using assms unfolding seq_room_def by (subst unat_add_lem [THEN iffD1]) auto

lemma seq_room_less: "seq_room (Suc k) st \<Longrightarrow> sm_next_seq st < sm_next_seq st + 1"
  using seq_room_next [of k st] by (simp add: word_less_nat_alt)

lemma sim_inv_schedule:
  assumes "sim_inv st" "sm_now st \<le> t" "q < sm_next_seq st" "\<forall>e\<in>set (sm_heap st). ent_seq e < q"
  shows "sim_inv (sim_schedule t q (Delivery dst ev) st)"
  using assms by (auto simp: sim_inv_def agenda_inv_def seqs_inv_def wakeups_inv_def sim_schedule_def)

lemma seqs_below: "sim_inv st \<Longrightarrow> e \<in> set (sm_heap st) \<Longrightarrow> ent_seq e < sm_next_seq st"
  by (simp add: sim_inv_def seqs_inv_def)

lemma sim_log_fields [simp]:
  "sm_heap (sim_log src msg d st) = sm_heap st" "sm_now (sim_log src msg d st) = sm_now st"
  "sm_next_seq (sim_log src msg d st) = sm_next_seq st + 1" "sm_sleepers (sim_log src msg d st) = sm_sleepers st"
  "sm_inboxes (sim_log src msg d st) = sm_inboxes st" "sm_channels (sim_log src msg d st) = sm_channels st"
  "sm_next_channel (sim_log src msg d st) = sm_next_channel st" "sm_plan (sim_log src msg d st) = sm_plan st"
  by (simp_all add: sim_log_def)

lemma sim_schedule_fields [simp]:
  "sm_now (sim_schedule t q pd st) = sm_now st" "sm_next_seq (sim_schedule t q pd st) = sm_next_seq st"
  "sm_sleepers (sim_schedule t q pd st) = sm_sleepers st" "sm_inboxes (sim_schedule t q pd st) = sm_inboxes st"
  "sm_channels (sim_schedule t q pd st) = sm_channels st" "sm_plan (sim_schedule t q pd st) = sm_plan st"
  "sm_next_channel (sim_schedule t q pd st) = sm_next_channel st" "sm_trace (sim_schedule t q pd st) = sm_trace st"
  by (simp_all add: sim_schedule_def)

lemma sim_inv_log:
  assumes "sim_inv st" "seq_room (Suc k) st"
  shows "sim_inv (sim_log src msg d (st\<lparr>sm_plan := plan\<rparr>))"
  by (rule sim_inv_cong [OF assms(1)]) (use assms seq_room_less [OF assms(2)] in \<open>simp_all add: sim_invD less_imp_le\<close>)

lemma submit_send_inv:
  assumes "sim_inv st" "seq_room (Suc k) st"
  shows "sim_inv (fst (SimState_submit_send R src st msg))"
proof -
  note log = sim_inv_log [OF assms]
  show ?thesis
    by (auto simp: submit_send_eq Let_def log seq_room_less [OF assms(2)] assms(1) split: option.split prod.split Classification.split
        intro!: sim_inv_schedule dest: seqs_below [OF assms(1)])
qed

lemma schedule_wakeup_eq:
  "SimState_schedule_wakeup st t =
     (sim_schedule t (sm_next_seq st) (Wakeup (length (sm_sleepers st)))
        (st\<lparr>sm_next_seq := sm_next_seq st + 1, sm_sleepers := sm_sleepers st @ [False]\<rparr>), length (sm_sleepers st))"
  by (simp add: SimState_schedule_wakeup_def take_seq_def sim_schedule_def Let_def)

lemma sleep_inv:
  assumes "sim_inv st" "seq_room (Suc k) st"
  shows "sim_inv (fst (SimClock_sleep st d))"
proof -
  note less = seq_room_less [OF assms(2)] and below = seqs_below [OF assms(1)]
  let ?st = "fst (SimClock_sleep st d)" and ?n = "length (sm_sleepers st)"
  have w: "wakeups_inv st" by (rule sim_invD [OF assms(1)])
  then have fresh: "\<forall>e\<in>set (sm_heap st). ent_pending e \<noteq> Wakeup ?n" by (auto simp: wakeups_inv_def)
  have "agenda_inv ?st" using sim_invD(1) [OF assms(1)]
    by (simp add: agenda_inv_def SimClock_sleep_def schedule_wakeup_eq sim_schedule_def)
  moreover have "seqs_inv ?st" using sim_invD(2) [OF assms(1)] less below
    by (auto simp: seqs_inv_def SimClock_sleep_def schedule_wakeup_eq sim_schedule_def intro: less_trans dest: below)
  moreover have "wakeups_inv ?st" using w fresh
    by (fastforce simp: wakeups_inv_def SimClock_sleep_def schedule_wakeup_eq sim_schedule_def nth_append less_Suc_eq)
  ultimately show ?thesis using sim_invD(4) [OF assms(1)]
    by (simp add: sim_inv_def SimClock_sleep_def schedule_wakeup_eq)
qed

lemma record_engine_step_inv:
  assumes "sim_inv st" "seq_room (Suc k) st"
  shows "sim_inv (SimState_record_engine_step st peer)"
  by (rule sim_inv_cong [OF assms(1)])
    (use assms seq_room_less [OF assms(2)] in \<open>simp_all add: SimState_record_engine_step_def take_seq_def sim_invD less_imp_le\<close>)

lemma pop_next_wakeups:
  assumes "sim_inv st"
  shows "wakeups_inv (fst (SimState_pop_next st))"
proof (cases "sm_heap st")
  case Nil
  then show ?thesis using sim_invD(3) [OF assms] by (simp add: pop_next_eq)
next
  case (Cons e h)
  have e: "e \<notin> set h" using sim_invD(2) [OF assms] Cons by (auto simp: seqs_inv_def)
  note w = sim_invD(3) [OF assms, unfolded wakeups_inv_def Cons]
  show ?thesis
  proof (cases "ent_pending e")
    case (Delivery dst ev)
    then show ?thesis using w Cons by (simp add: wakeups_inv_def pop_next_eq)
  next
    case (Wakeup i)
    then have "\<forall>e'\<in>set h. ent_pending e' \<noteq> Wakeup i" using w e by (metis list.set_intros)
    then show ?thesis using w Wakeup Cons by (simp add: wakeups_inv_def pop_next_eq nth_list_update)
  qed
qed

lemma pop_next_inv:
  assumes "sim_inv st"
  shows "sim_inv (fst (SimState_pop_next st))"
proof (cases "sm_heap st")
  case Nil
  then show ?thesis using assms by (simp add: pop_next_eq)
next
  case (Cons e h)
  then have "agenda_inv (fst (SimState_pop_next st))"
    using sim_invD(1) [OF assms] sorted_key_at [of e h] by (auto simp: agenda_inv_def pop_next_now)
  moreover have "boxes_inv (sm_inboxes st) (sm_channels (fst (SimState_pop_next st))) (sm_next_channel st)"
    using sim_invD(4) [OF assms] Cons by (simp add: pop_next_eq split: Pending.split)
  moreover have "seqs_inv (fst (SimState_pop_next st))" using sim_invD(2) [OF assms] Cons by (simp add: seqs_inv_def)
  ultimately show ?thesis using pop_next_wakeups [OF assms] by (simp add: sim_inv_def)
qed

lemma advance_loop_inv: "sim_inv st \<Longrightarrow> sim_inv (advance_loop st target)"
  by (induction st target rule: advance_loop.induct) (subst advance_loop.simps, simp add: pop_next_inv)

text \<open>\<open>advance_to\<close> leaves exactly the entries after the target.\<close>

lemma advance_loop_heap:
  "sim_inv st \<Longrightarrow> sm_heap (advance_loop st target) = filter (\<lambda>e. target < ent_at e) (sm_heap st)"
proof (induction st target rule: advance_loop.induct)
  case (1 st target)
  show ?case
  proof (cases "sm_heap st \<noteq> [] \<and> ent_at (hd (sm_heap st)) \<le> target")
    case True
    with 1 have "sm_heap (advance_loop (fst (SimState_pop_next st)) target) =
        filter (\<lambda>e. target < ent_at e) (tl (sm_heap st))"
      by (simp add: pop_next_inv)
    with True show ?thesis by (subst advance_loop.simps) (auto simp: neq_Nil_conv)
  next
    case False
    have "\<forall>e\<in>set (sm_heap st). target < ent_at e"
    proof (cases "sm_heap st")
      case (Cons e h)
      then show ?thesis
        using False sorted_key_at [of e h] sim_invD(1) [OF 1(2)] by (fastforce simp: agenda_inv_def)
    qed simp
    with False show ?thesis by (subst advance_loop.simps) auto
  qed
qed

lemma advance_loop_now: "sim_inv st \<Longrightarrow> sm_now (advance_loop st target) \<le> max (sm_now st) target \<and> sm_now st \<le> sm_now (advance_loop st target)"
proof (induction st target rule: advance_loop.induct)
  case (1 st target)
  show ?case
  proof (cases "sm_heap st \<noteq> [] \<and> ent_at (hd (sm_heap st)) \<le> target")
    case True
    then obtain e h where h: "sm_heap st = e # h" by (auto simp: neq_Nil_conv)
    have "sm_now st \<le> ent_at e" using sim_invD(1) [OF 1(2)] h by (simp add: agenda_inv_def)
    moreover have "ent_at e \<le> target" using True h by simp
    ultimately show ?thesis using 1(1) [OF True pop_next_inv [OF 1(2)]] True
      by (subst (1 2) advance_loop.simps) (simp add: pop_next_now [OF h])
  qed (subst (1 2) advance_loop.simps, auto)
qed

lemma advance_to_inv: "sim_inv st \<Longrightarrow> sim_inv (SimState_advance_to st target)"
  using advance_loop_inv [of st target] advance_loop_heap [of st target]
  by (auto simp: SimState_advance_to_def Let_def sim_inv_def agenda_inv_def seqs_inv_def wakeups_inv_def)

lemma heap_strict:
  assumes "sim_inv st"
  shows "sorted_wrt (\<lambda>a b. ent_key a < ent_key b) (sm_heap st)"
proof -
  have "distinct (map ent_key (sm_heap st))"
    using assms by (auto simp: sim_inv_def seqs_inv_def distinct_map inj_on_def ent_key_def)
  moreover have "sorted (map ent_key (sm_heap st))" using assms by (simp add: sim_inv_def agenda_inv_def)
  ultimately show ?thesis using strict_sorted_iff [of "map ent_key (sm_heap st)"] by (simp add: sorted_wrt_map)
qed

subsection \<open>Reachable states\<close>

inductive sim_reachable :: "'g Rng \<Rightarrow> 'g SimState \<Rightarrow> bool" for R where
  sim_new: "sim_reachable R (SimState_new plan start)"
| sim_endpoint: "sim_reachable R st \<Longrightarrow> sim_reachable R (fst (SimNetHub_endpoint st peer))"
| sim_send: "sim_reachable R st \<Longrightarrow> seq_room 1 st \<Longrightarrow> sim_reachable R (fst (SimState_submit_send R src st msg))"
| sim_sleep: "sim_reachable R st \<Longrightarrow> seq_room 1 st \<Longrightarrow> sim_reachable R (fst (SimClock_sleep st d))"
| sim_pop: "sim_reachable R st \<Longrightarrow> sim_reachable R (fst (SimState_pop_next st))"
| sim_advance: "sim_reachable R st \<Longrightarrow> sim_reachable R (SimState_advance_to st target)"
| sim_engine: "sim_reachable R st \<Longrightarrow> seq_room 1 st \<Longrightarrow> sim_reachable R (SimState_record_engine_step st peer)"
| sim_recv: "sim_reachable R st \<Longrightarrow> sim_reachable R (st\<lparr>sm_channels := fst (channel_recv cid (sm_channels st))\<rparr>)"

lemma endpoint_inv: "sim_inv st \<Longrightarrow> sim_inv (fst (SimNetHub_endpoint st peer))"
  by (rule sim_inv_cong, assumption) (simp_all add: SimNetHub_endpoint_def Let_def boxes_inv_add sim_invD)

lemma recv_inv: "sim_inv st \<Longrightarrow> sim_inv (st\<lparr>sm_channels := fst (channel_recv cid (sm_channels st))\<rparr>)"
  by (rule sim_inv_cong, assumption) (simp_all add: boxes_inv_recv sim_invD)

lemma sim_reachable_inv: "sim_reachable R st \<Longrightarrow> sim_inv st"
  by (induction rule: sim_reachable.induct)
    (simp_all add: endpoint_inv submit_send_inv [of _ 0] sleep_inv [of _ 0] record_engine_step_inv [of _ 0]
      pop_next_inv advance_to_inv recv_inv)

subsection \<open>Messages in transit\<close>

fun delivery_for :: "PeerId \<Rightarrow> Entry \<Rightarrow> NetEvent option" where
  "delivery_for peer e = (case ent_pending e of Delivery dst ev \<Rightarrow> if dst = peer then Some ev else None | Wakeup _ \<Rightarrow> None)"

definition sim_mailbox :: "'g SimState \<Rightarrow> PeerId \<Rightarrow> NetEvent list" where
  "sim_mailbox st = box_items (sm_inboxes st) (sm_channels st)"

definition sim_open :: "'g SimState \<Rightarrow> PeerId \<Rightarrow> bool" where
  "sim_open st = box_open (sm_inboxes st) (sm_channels st)"

definition scheduled_for :: "'g SimState \<Rightarrow> PeerId \<Rightarrow> NetEvent list" where
  "scheduled_for st peer = List.map_filter (delivery_for peer) (sm_heap st)"

text \<open>What a peer has received and will receive.\<close>

definition in_transit :: "'g SimState \<Rightarrow> PeerId \<Rightarrow> NetEvent list" where
  "in_transit st peer = sim_mailbox st peer @ (if sim_open st peer then scheduled_for st peer else [])"

lemma pop_next_open [simp]: "sim_open (fst (SimState_pop_next st)) p \<longleftrightarrow> sim_open st p"
  by (simp add: sim_open_def pop_next_eq split: list.split Pending.split)

lemma pop_next_transit [simp]:
  assumes "sim_inv st"
  shows "in_transit (fst (SimState_pop_next st)) p = in_transit st p"
proof (cases "sm_heap st")
  case Nil
  then show ?thesis by (simp add: pop_next_eq)
next
  case (Cons e h)
  then show ?thesis using box_post_items [OF sim_invD(4) [OF assms]]
    by (auto simp: in_transit_def scheduled_for_def sim_mailbox_def sim_open_def pop_next_eq map_filter_simps split: Pending.split)
qed

lemma pump_all_unfold:
  "SimState_pop_next st = (st1, None) \<Longrightarrow> SimNetHub_pump_all st n = (st1, n)"
  "SimState_pop_next st = (st1, Some x) \<Longrightarrow> SimNetHub_pump_all st n = SimNetHub_pump_all st1 (Suc n)"
  by (subst SimNetHub_pump_all.simps, simp)+

lemma pump_all_spec:
  assumes "sim_inv st" "SimNetHub_pump_all st n = (st', n')"
  shows "sim_inv st' \<and> sm_heap st' = [] \<and> n' = n + length (sm_heap st) \<and> (\<forall>p. in_transit st' p = in_transit st p) \<and>
    (\<forall>p. sim_open st' p \<longleftrightarrow> sim_open st p)"
  using assms
proof (induction st n arbitrary: st' rule: SimNetHub_pump_all.induct)
  case (1 st n)
  obtain st1 step where p: "SimState_pop_next st = (st1, step)" by fastforce
  show ?case
  proof (cases step)
    case None
    then have "sm_heap st = []" "st1 = st" using p by (auto simp: pop_next_eq split: list.splits Pending.splits)
    then show ?thesis using 1(2,3) p None by (auto simp: pump_all_unfold)
  next
    case (Some x)
    then have h: "sm_heap st \<noteq> []" using p by (auto simp: pop_next_eq)
    have "SimNetHub_pump_all st1 (Suc n) = (st', n')" using 1(3) p Some by (simp add: pump_all_unfold)
    moreover have "sim_inv st1" "sm_heap st1 = tl (sm_heap st)" "\<And>q. in_transit st1 q = in_transit st q" "\<And>q. sim_open st1 q \<longleftrightarrow> sim_open st q"
      using pop_next_inv [OF 1(2)] pop_next_transit [OF 1(2)] pop_next_fields(1) [of st] pop_next_open [of st] by (simp_all add: p)
    ultimately show ?thesis using 1(1) [OF p [symmetric] Some] h by (cases "sm_heap st") simp_all
  qed
qed

subsection \<open>The fault plan\<close>

text \<open>The rules of a link, whether a rule cuts the link at some time, and the longest delay a rule adds.\<close>

definition on_link :: "PeerId \<Rightarrow> PeerId \<Rightarrow> FaultRule \<Rightarrow> bool" where
  "on_link src dst r \<longleftrightarrow> fr_src r = src \<and> fr_dst r = dst"

fun cuts :: "Duration \<Rightarrow> FaultAction \<Rightarrow> bool" where
  "cuts now (Partition from until) \<longleftrightarrow> from \<le> now \<and> now < until"
| "cuts now (DropWithProbability p) \<longleftrightarrow> 1 \<le> p"
| "cuts now _ \<longleftrightarrow> False"

fun max_delay :: "FaultAction \<Rightarrow> Duration" where
  "max_delay (DelayIf _ _ d) = d"
| "max_delay (DelayJitter m) = m"
| "max_delay _ = 0"

fun may_drop :: "Duration \<Rightarrow> DropReason \<Rightarrow> FaultAction \<Rightarrow> bool" where
  "may_drop now DropPartition (Partition from until) \<longleftrightarrow> from \<le> now \<and> now < until"
| "may_drop now DropRandom (DropWithProbability p) \<longleftrightarrow> 0 < p"
| "may_drop now DropRule (DropIf _ _) \<longleftrightarrow> True"
| "may_drop now _ _ \<longleftrightarrow> False"

lemma may_drop_simps [simp]:
  "may_drop now reason (Partition from until) \<longleftrightarrow> reason = DropPartition \<and> from \<le> now \<and> now < until"
  "may_drop now reason (DelayJitter m) \<longleftrightarrow> False" "may_drop now reason (DelayIf p h d) \<longleftrightarrow> False"
  by (cases reason; simp)+

definition link_delay :: "PeerId \<Rightarrow> PeerId \<Rightarrow> FaultRule list \<Rightarrow> Duration" where
  "link_delay src dst rules = sum_list (map (\<lambda>r. max_delay (fr_action r)) (filter (on_link src dst) rules))"

lemma link_delay_simps [simp]:
  "link_delay src dst [] = 0"
  "link_delay src dst (r # rs) = (if on_link src dst r then max_delay (fr_action r) else 0) + link_delay src dst rs"
  by (simp_all add: link_delay_def)

lemma rng_okD:
  assumes "rng_ok R"
  shows "0 \<le> snd (rg_f64 R g)" "snd (rg_f64 R g) < 1" "snd (rg_range R g m) \<le> m"
  using assms by (auto simp: rng_ok_def)

lemma unat_nanos_saturating: "unat (nanos_saturating d) \<le> d"
proof (cases "d < 2 ^ 64")
  case True
  then show ?thesis by (simp add: nanos_saturating_def unat_of_nat)
next
  case False
  moreover have "unat (- 1 :: u64) < 2 ^ 64" using unsigned_less [of "- 1 :: u64"] by simp
  ultimately show ?thesis by (simp add: nanos_saturating_def)
qed

lemma jitter_bound:
  assumes "rng_ok R" "rg_range R g (nanos_saturating m) = (g', x)"
  shows "unat x \<le> m"
proof -
  have "unat x \<le> unat (nanos_saturating m)" using rng_okD(3) [OF assms(1), of g "nanos_saturating m"] assms(2) by (simp add: word_le_nat_alt)
  with unat_nanos_saturating [of m] show ?thesis by simp
qed

text \<open>What a rule may change in itself: the history its predicate has seen.\<close>

fun same_action :: "FaultAction \<Rightarrow> FaultAction \<Rightarrow> bool" where
  "same_action (DropIf p h) a \<longleftrightarrow> (\<exists>h'. a = DropIf p h')"
| "same_action (DelayIf p h d) a \<longleftrightarrow> (\<exists>h'. a = DelayIf p h' d)"
| "same_action b a \<longleftrightarrow> a = b"

definition same_rule :: "FaultRule \<Rightarrow> FaultRule \<Rightarrow> bool" where
  "same_rule r r' \<longleftrightarrow> fr_src r' = fr_src r \<and> fr_dst r' = fr_dst r \<and> same_action (fr_action r) (fr_action r')"

lemma same_action_refl [simp]: "same_action a a" by (cases a) simp_all

lemma same_rule_refl [simp]: "same_rule r r" by (simp add: same_rule_def)

text \<open>One round of the loop: the rule drops the message, or passes it on with a bounded delay.\<close>

lemma classify_round:
  assumes "classify_rules R src dst now msg (r # rs) rng d0 = (rules', rng', res)" "rng_ok R"
  obtains
    (drop) reason r' where "res = DropMsg reason" "on_link src dst r" "may_drop now reason (fr_action r)"
      "rules' = r' # rs" "same_rule r r'"
  | (pass) r' rs' g d where "classify_rules R src dst now msg rs g d = (rs', rng', res)" "rules' = r' # rs'" "same_rule r r'"
      "d0 \<le> d" "d \<le> d0 + (if on_link src dst r then max_delay (fr_action r) else 0)"
      "on_link src dst r \<Longrightarrow> \<not> cuts now (fr_action r)" "\<not> on_link src dst r \<Longrightarrow> r' = r \<and> g = rng \<and> d = d0"
proof (cases "on_link src dst r")
  case False
  then have "classify_rules R src dst now msg (r # rs) rng d0 =
      (case classify_rules R src dst now msg rs rng d0 of (rules', rng', res) \<Rightarrow> (r # rules', rng', res))"
    by (auto simp: on_link_def)
  with False assms(1) show thesis by (auto intro: pass split: prod.splits)
next
  case True
  then have link: "fr_src r = src" "fr_dst r = dst" by (simp_all add: on_link_def)
  show thesis
  proof (cases "fr_action r")
    case (Partition t0 t1)
    show thesis
    proof (cases "t0 \<le> now \<and> now < t1")
      case cut: True
      then have "res = DropMsg DropPartition" "rules' = r # rs" using assms(1) Partition link by (auto simp: Let_def)
      with cut True Partition show thesis by (intro drop [of DropPartition r]) auto
    next
      case False
      then obtain rs' where "classify_rules R src dst now msg rs rng d0 = (rs', rng', res)" "rules' = r # rs'"
        using assms(1) Partition link by (auto simp: Let_def split: prod.splits)
      with False True Partition show thesis by (intro pass [of rng d0 rs' r]) auto
    qed
  next
    case (DropIf pred hist)
    let ?r = "r\<lparr>fr_action := DropIf pred (hist @ [msg])\<rparr>"
    have same: "same_rule r ?r" using DropIf by (simp add: same_rule_def)
    show thesis
    proof (cases "pred hist msg")
      case hit: True
      then have "res = DropMsg DropRule" "rules' = ?r # rs" using assms(1) DropIf link by (auto simp: Let_def)
      with True DropIf same show thesis by (intro drop [of DropRule ?r]) auto
    next
      case False
      then obtain rs' where "classify_rules R src dst now msg rs rng d0 = (rs', rng', res)" "rules' = ?r # rs'"
        using assms(1) DropIf link by (auto simp: Let_def split: prod.splits)
      with True DropIf same show thesis by (intro pass [of rng d0 rs' ?r]) auto
    qed
  next
    case (DropWithProbability p)
    obtain g x where x: "rg_f64 R rng = (g, x)" by fastforce
    have b: "0 \<le> x" "x < 1" using rng_okD(1,2) [OF assms(2), of rng] x by simp_all
    show thesis
    proof (cases "x < p")
      case hit: True
      then have "res = DropMsg DropRandom" "rules' = r # rs" using assms(1) DropWithProbability link x by (auto simp: Let_def)
      with True DropWithProbability b hit show thesis by (intro drop [of DropRandom r]) auto
    next
      case False
      then obtain rs' where "classify_rules R src dst now msg rs g d0 = (rs', rng', res)" "rules' = r # rs'"
        using assms(1) DropWithProbability link x by (auto simp: Let_def split: prod.splits)
      with False True DropWithProbability b show thesis by (intro pass [of g d0 rs' r]) auto
    qed
  next
    case (DelayIf pred hist dd)
    let ?r = "r\<lparr>fr_action := DelayIf pred (hist @ [msg]) dd\<rparr>"
    let ?d = "if pred hist msg then d0 + dd else d0"
    obtain rs' where "classify_rules R src dst now msg rs rng ?d = (rs', rng', res)" "rules' = ?r # rs'"
      using assms(1) DelayIf link by (auto simp: Let_def split: prod.splits)
    moreover have "same_rule r ?r" using DelayIf by (simp add: same_rule_def)
    ultimately show thesis using True DelayIf by (intro pass [of rng ?d rs' ?r]) auto
  next
    case (DelayJitter m)
    obtain g x where x: "rg_range R rng (nanos_saturating m) = (g, x)" by fastforce
    obtain rs' where "classify_rules R src dst now msg rs g (d0 + unat x) = (rs', rng', res)" "rules' = r # rs'"
      using assms(1) DelayJitter link x by (auto simp: Let_def split: prod.splits)
    with jitter_bound [OF assms(2) x] True DelayJitter show thesis by (intro pass [of g "d0 + unat x" rs' r]) auto
  qed
qed

declare classify_rules.simps(2) [simp del]

lemma classify_delivers:
  assumes "rng_ok R"
  shows "classify_rules R src dst now msg rules rng d0 = (rules', rng', Deliver d) \<Longrightarrow>
    d \<le> d0 + link_delay src dst rules \<and> (\<forall>r\<in>set rules. on_link src dst r \<longrightarrow> \<not> cuts now (fr_action r))"
proof (induction rules arbitrary: rng d0 rules')
  case (Cons r rs)
  from Cons.prems assms show ?case
    by (cases rule: classify_round) (auto dest!: Cons.IH split: if_splits)
qed simp

lemma classify_drops:
  assumes "rng_ok R"
  shows "classify_rules R src dst now msg rules rng d0 = (rules', rng', DropMsg reason) \<Longrightarrow>
    \<exists>r\<in>set rules. on_link src dst r \<and> may_drop now reason (fr_action r)"
proof (induction rules arbitrary: rng d0 rules')
  case (Cons r rs)
  from Cons.prems assms show ?case by (cases rule: classify_round) (auto dest!: Cons.IH)
qed simp

lemma classify_rules_same:
  assumes "rng_ok R"
  shows "classify_rules R src dst now msg rules rng d0 = (rules', rng', res) \<Longrightarrow> list_all2 same_rule rules rules'"
proof (induction rules arbitrary: rng d0 rules')
  case (Cons r rs)
  from Cons.prems assms show ?case
    by (cases rule: classify_round) (auto dest!: Cons.IH intro: list.rel_refl)
qed simp

lemma classify_unaffected:
  "\<forall>r\<in>set rules. \<not> on_link src dst r \<Longrightarrow> classify_rules R src dst now msg rules rng d0 = (rules, rng, Deliver d0)"
  by (induction rules) (auto simp: on_link_def classify_rules.simps)

subsection \<open>The fault-free network\<close>

text \<open>Without rules every delivery is due at once; only wakeups wait.\<close>

definition calm :: "'g SimState \<Rightarrow> bool" where
  "calm st \<longleftrightarrow> fp_rules (sm_plan st) = [] \<and>
     (\<forall>e\<in>set (sm_heap st). \<forall>dst ev. ent_pending e = Delivery dst ev \<longrightarrow> ent_at e = sm_now st)"

definition calm_inv :: "nat \<Rightarrow> 'g SimState \<Rightarrow> bool" where
  "calm_inv k st \<longleftrightarrow> sim_inv st \<and> calm st \<and> seq_room k st"

lemma map_filter_push_last:
  assumes "sorted (map ent_key h)" "\<forall>e'\<in>set h. delivery_for p e' \<noteq> None \<longrightarrow> ent_key e' < ent_key e"
  shows "List.map_filter (delivery_for p) (entry_push e h) =
    List.map_filter (delivery_for p) h @ (case delivery_for p e of None \<Rightarrow> [] | Some ev \<Rightarrow> [ev])"
  using assms
proof (induction h)
  case Nil
  then show ?case by (simp add: entry_push_def map_filter_simps del: delivery_for.simps split: option.split)
next
  case (Cons x h)
  show ?case
  proof (cases "ent_key e \<le> ent_key x")
    case True
    then have "\<forall>e'\<in>set (x # h). delivery_for p e' = None"
      using Cons.prems by (fastforce simp del: delivery_for.simps)
    then have "List.map_filter (delivery_for p) (x # h) = []" by (simp add: map_filter_def del: delivery_for.simps)
    then show ?thesis using True
      by (simp add: entry_push_def map_filter_simps del: delivery_for.simps split: option.split)
  next
    case False
    moreover have "List.map_filter (delivery_for p) (entry_push e h) =
        List.map_filter (delivery_for p) h @ (case delivery_for p e of None \<Rightarrow> [] | Some ev \<Rightarrow> [ev])"
      using Cons by (simp del: delivery_for.simps)
    ultimately show ?thesis
      by (simp add: entry_push_def map_filter_simps del: delivery_for.simps split: option.split)
  qed
qed

lemma sim_log_transit [simp]:
  "in_transit (sim_log src msg d st) p = in_transit st p" "sim_open (sim_log src msg d st) p \<longleftrightarrow> sim_open st p"
  "sim_mailbox (sim_log src msg d st) p = sim_mailbox st p"
  by (simp_all add: in_transit_def sim_mailbox_def sim_open_def scheduled_for_def)

lemma plan_transit [simp]:
  "in_transit (st\<lparr>sm_plan := plan\<rparr>) p = in_transit st p" "sim_open (st\<lparr>sm_plan := plan\<rparr>) p \<longleftrightarrow> sim_open st p"
  by (simp_all add: in_transit_def sim_mailbox_def sim_open_def scheduled_for_def)

lemma sim_schedule_open [simp]: "sim_open (sim_schedule t q pd st) p \<longleftrightarrow> sim_open st p"
  by (simp add: sim_open_def)

lemma schedule_transit:
  assumes "sim_inv st" "calm st" "\<forall>e\<in>set (sm_heap st). ent_seq e < q"
  shows "in_transit (sim_schedule (sm_now st) q (Delivery dst ev) st) p =
    in_transit st p @ (if p = dst \<and> sim_open st p then [ev] else [])"
proof -
  have "\<forall>e'\<in>set (sm_heap st). delivery_for p e' \<noteq> None \<longrightarrow>
      ent_key e' < ent_key \<lparr>ent_at = sm_now st, ent_seq = q, ent_pending = Delivery dst ev\<rparr>"
    using assms(2,3) by (auto simp: calm_def ent_key_def split: Pending.splits)
  moreover have "sorted (map ent_key (sm_heap st))" using sim_invD(1) [OF assms(1)] by (simp add: agenda_inv_def)
  ultimately show ?thesis
    by (simp add: in_transit_def scheduled_for_def sim_schedule_def sim_open_def sim_mailbox_def map_filter_push_last)
qed

lemma sim_open_inbox: "sim_open st p \<Longrightarrow> bt_get (sm_inboxes st) p \<noteq> None"
  by (auto simp: sim_open_def box_open_def split: option.splits)

lemma classify_calm: "calm st \<Longrightarrow> FaultPlan_classify R (sm_plan st) src dst now msg = (sm_plan st, Deliver 0)"
  by (cases "sm_plan st") (simp add: calm_def FaultPlan_classify_def)

lemma sim_send_reliable:
  assumes "calm_inv (Suc k) st" "send_dst msg = Some dst" "sim_open st dst"
  shows "\<exists>st'. SimState_submit_send R self st msg = (st', Inr ()) \<and> calm_inv k st' \<and> (\<forall>p. sim_open st' p \<longleftrightarrow> sim_open st p) \<and>
    (\<forall>p. in_transit st' p = in_transit st p @ (if p = dst then [the (sent_event self msg)] else []))"
proof -
  let ?log = "sim_log self msg (Delivered (sm_now st)) st"
  let ?st = "sim_schedule (sm_now st) (sm_next_seq st) (Delivery dst (the (sent_event self msg))) ?log"
  have inv: "sim_inv st" "calm st" "seq_room (Suc k) st" using assms(1) by (simp_all add: calm_inv_def)
  have e: "SimState_submit_send R self st msg = (?st, Inr ())"
    using assms(2) sim_open_inbox [OF assms(3)] classify_calm [OF inv(2)] by (simp add: submit_send_eq)
  have "sim_inv ?st" using submit_send_inv [OF inv(1,3), of R self msg] by (simp add: e)
  moreover have "calm ?st" using inv(2) by (auto simp: calm_def sim_schedule_def)
  moreover have "seq_room k ?st" using inv(3) seq_room_next [OF inv(3)] by (simp add: seq_room_def)
  moreover have "in_transit ?st p = in_transit st p @ (if p = dst then [the (sent_event self msg)] else [])" for p
    using schedule_transit [of ?log "sm_next_seq st" dst "the (sent_event self msg)" p] assms(3) inv(2)
      sim_inv_log [OF inv(1,3), of self msg "Delivered (sm_now st)" "sm_plan st"] seqs_below [OF inv(1)]
    by (auto simp: calm_def)
  ultimately show ?thesis using e by (auto simp: calm_inv_def)
qed

interpretation sim: reliable_net "SimState_submit_send R self" self calm_inv sim_open in_transit for R :: "'g Rng" and self
  by unfold_locales (use sim_send_reliable in fastforce)

lemma pop_next_calm:
  assumes "sim_inv st" "calm st"
  shows "calm (fst (SimState_pop_next st))"
proof (cases "sm_heap st")
  case Nil
  then show ?thesis using assms by (simp add: pop_next_eq)
next
  case (Cons e h)
  have "\<forall>e'\<in>set h. ent_at e \<le> ent_at e'" "sm_now st \<le> ent_at e"
    using sim_invD(1) [OF assms(1)] sorted_key_at [of e h] Cons by (auto simp: agenda_inv_def)
  then show ?thesis using assms(2) Cons by (fastforce simp: calm_def pop_next_now)
qed

lemma advance_to_now: "sim_inv st \<Longrightarrow> sm_now (SimState_advance_to st target) = max (sm_now st) target"
  using advance_loop_now [of st target] by (auto simp: SimState_advance_to_def Let_def)

lemma advance_to_sleepers: "length (sm_sleepers (SimState_advance_to st target)) = length (sm_sleepers st)"
proof -
  have "length (sm_sleepers (advance_loop st target)) = length (sm_sleepers st)"
    by (induction st target rule: advance_loop.induct) (subst advance_loop.simps, simp)
  then show ?thesis by (simp add: SimState_advance_to_def Let_def)
qed

lemma advance_to_heap: "sim_inv st \<Longrightarrow> sm_heap (SimState_advance_to st target) = filter (\<lambda>e. target < ent_at e) (sm_heap st)"
  using advance_loop_heap [of st target] by (auto simp: SimState_advance_to_def Let_def)

definition partitioned :: "PeerId \<Rightarrow> PeerId \<Rightarrow> Duration \<Rightarrow> Duration \<Rightarrow> 'g FaultPlan \<Rightarrow> bool" where
  "partitioned a b t0 t1 plan \<longleftrightarrow>
     (\<forall>(src, dst) \<in> {(a, b), (b, a)}. \<exists>r\<in>set (fp_rules plan). on_link src dst r \<and> fr_action r = Partition t0 t1)"

lemma partitioned_set: "partitioned a b t0 t1 (FaultPlan_partition plan a b t0 t1)"
  by (simp add: partitioned_def FaultPlan_partition_def push_rule_def on_link_def)

lemma partitioned_cong:
  assumes "partitioned a b t0 t1 plan" "list_all2 same_rule (fp_rules plan) (fp_rules plan')"
  shows "partitioned a b t0 t1 plan'"
proof -
  have "\<exists>r\<in>set (fp_rules plan'). on_link src dst r \<and> fr_action r = Partition t0 t1"
    if "\<exists>r\<in>set (fp_rules plan). on_link src dst r \<and> fr_action r = Partition t0 t1" for src dst
  proof -
    from that obtain i where "i < length (fp_rules plan)" "on_link src dst (fp_rules plan ! i)" "fr_action (fp_rules plan ! i) = Partition t0 t1"
      by (auto simp: in_set_conv_nth)
    moreover from this list_all2_nthD [OF assms(2)] have "same_rule (fp_rules plan ! i) (fp_rules plan' ! i)" by simp
    ultimately show ?thesis using list_all2_lengthD [OF assms(2)]
      by (intro bexI [of _ "fp_rules plan' ! i"]) (auto simp: same_rule_def on_link_def)
  qed
  with assms(1) show ?thesis by (simp add: partitioned_def)
qed

lemma classify_plan:
  assumes "rng_ok R" "FaultPlan_classify R plan src dst now msg = (plan', res)"
  shows "list_all2 same_rule (fp_rules plan) (fp_rules plan')"
    and "\<And>d. res = Deliver d \<Longrightarrow> d \<le> link_delay src dst (fp_rules plan) \<and>
      (\<forall>r\<in>set (fp_rules plan). on_link src dst r \<longrightarrow> \<not> cuts now (fr_action r))"
    and "\<And>reason. res = DropMsg reason \<Longrightarrow>
      \<exists>r\<in>set (fp_rules plan). on_link src dst r \<and> may_drop now reason (fr_action r)"
proof -
  obtain rules rng where c: "classify_rules R src dst now msg (fp_rules plan) (fp_rng plan) 0 = (rules, rng, res)"
    and p: "plan' = plan\<lparr>fp_rules := rules, fp_rng := rng\<rparr>"
    using assms(2) by (auto simp: FaultPlan_classify_def split: prod.splits)
  show "list_all2 same_rule (fp_rules plan) (fp_rules plan')" using classify_rules_same [OF assms(1) c] p by simp
  show "d \<le> link_delay src dst (fp_rules plan) \<and> (\<forall>r\<in>set (fp_rules plan). on_link src dst r \<longrightarrow> \<not> cuts now (fr_action r))"
    if "res = Deliver d" for d using classify_delivers [OF assms(1) c [unfolded that]] by simp
  show "\<exists>r\<in>set (fp_rules plan). on_link src dst r \<and> may_drop now reason (fr_action r)" if "res = DropMsg reason" for reason
    using classify_drops [OF assms(1) c [unfolded that]] .
qed

subsection \<open>Properties\<close>

text \<open>Examples use a generator without state that answers one half, and the top of a range.\<close>

definition demo_rng :: "unit Rng" where
  "demo_rng = \<lparr>rg_seed_from_u64 = (\<lambda>_. ()), rg_f64 = (\<lambda>g. (g, 1 / 2)), rg_range = (\<lambda>g m. (g, m))\<rparr>"

lemma demo_rng_ok: "rng_ok demo_rng"
  by (simp add: rng_ok_def demo_rng_def)

definition demo_sim :: "unit FaultPlan \<Rightarrow> unit SimState" where
  "demo_sim plan = fst (SimNetHub_endpoint (fst (SimNetHub_endpoint (SimState_new plan 0) 1)) 2)"

lemma demo_sim_reachable: "sim_reachable demo_rng (demo_sim plan)"
  unfolding demo_sim_def by (intro sim_reachable.intros)

text \<open>
  C30. Virtual time. In every reachable simulator state \<open>pop_next\<close> takes the entry that is least by time and then by
  sequence number, removes nothing else and never moves time backwards, which is what its debug
  assertion demands; \<open>advance_to\<close> processes exactly the entries due by its target and never turns time back.
\<close>

theorem sim_time_ordered:
  assumes "sim_reachable R st"
  shows "(case SimState_pop_next st of
      (st', None) \<Rightarrow> st' = st \<and> sm_heap st = []
    | (st', Some _) \<Rightarrow> \<exists>e. e \<in> set (sm_heap st) \<and> set (sm_heap st') = set (sm_heap st) - {e} \<and>
        (\<forall>e'\<in>set (sm_heap st'). ent_at e < ent_at e' \<or> ent_at e = ent_at e' \<and> ent_seq e < ent_seq e') \<and>
        sm_now st' = ent_at e \<and> sm_now st \<le> sm_now st') \<and>
    set (sm_heap (SimState_advance_to st target)) = {e \<in> set (sm_heap st). target < ent_at e} \<and>
    sm_now (SimState_advance_to st target) = max (sm_now st) target"
proof (intro conjI)
  note inv = sim_reachable_inv [OF assms]
  show "sm_now (SimState_advance_to st target) = max (sm_now st) target" by (rule advance_to_now [OF inv])
  show "set (sm_heap (SimState_advance_to st target)) = {e \<in> set (sm_heap st). target < ent_at e}"
    by (simp add: advance_to_heap [OF inv])
  show "case SimState_pop_next st of
      (st', None) \<Rightarrow> st' = st \<and> sm_heap st = []
    | (st', Some _) \<Rightarrow> \<exists>e. e \<in> set (sm_heap st) \<and> set (sm_heap st') = set (sm_heap st) - {e} \<and>
        (\<forall>e'\<in>set (sm_heap st'). ent_at e < ent_at e' \<or> ent_at e = ent_at e' \<and> ent_seq e < ent_seq e') \<and>
        sm_now st' = ent_at e \<and> sm_now st \<le> sm_now st'"
  proof (cases "sm_heap st")
    case (Cons e h)
    moreover have "\<forall>e'\<in>set h. ent_key e < ent_key e'" "sm_now st \<le> ent_at e" "e \<notin> set h"
      using heap_strict [OF inv] sim_invD(1) [OF inv] Cons by (auto simp: agenda_inv_def)
    ultimately show ?thesis by (auto simp: pop_next_eq ent_key_def split: Pending.split intro!: exI [of _ e])
  qed (simp add: pop_next_eq)
qed

theorem sim_time_ordered_witness:
  "sm_now (SimState_advance_to (fst (SimClock_sleep (demo_sim (FaultPlan_new demo_rng 0)) 5)) 9) = 9"
proof -
  have "sim_reachable demo_rng (fst (SimClock_sleep (demo_sim (FaultPlan_new demo_rng 0)) 5))"
    by (intro sim_sleep demo_sim_reachable) (simp add: seq_room_def demo_sim_def SimNetHub_endpoint_def SimState_new_def Let_def)
  from sim_time_ordered [OF this, of 9] show ?thesis
    by (simp add: SimClock_sleep_def schedule_wakeup_eq demo_sim_def SimNetHub_endpoint_def SimState_new_def Let_def)
qed

text \<open>
  C31. What the fault plan does to a message. A send to a registered peer adds exactly one trace entry, which tells
  what happened: a message reported as dropped is not scheduled, and a rule of its link accounts for the
  reason; one reported as delivered is scheduled at the reported time, which lies within the delays configured for
  its link, and no partition or certain loss was in force there. Rules keep what they say.
\<close>

theorem sim_send_faults:
  assumes "rng_ok R" "sim_reachable R st" "send_dst msg = Some dst" "bt_get (sm_inboxes st) dst \<noteq> None"
  shows "\<exists>st' disposition. SimState_submit_send R src st msg = (st', Inr ()) \<and>
    sm_trace st' = sm_trace st @ [\<lparr>te_at = sm_now st, te_seq = sm_next_seq st,
      te_kind = TraceSend src dst (the (MsgKind_of msg)) disposition\<rparr>] \<and>
    (case disposition of
       Dropped reason \<Rightarrow> sm_heap st' = sm_heap st \<and>
         (\<exists>r\<in>set (fp_rules (sm_plan st)). on_link src dst r \<and> may_drop (sm_now st) reason (fr_action r))
     | Delivered t \<Rightarrow>
         set (sm_heap st') = insert \<lparr>ent_at = t, ent_seq = sm_next_seq st, ent_pending = Delivery dst (the (sent_event src msg))\<rparr> (set (sm_heap st)) \<and>
         sm_now st \<le> t \<and> t \<le> sm_now st + link_delay src dst (fp_rules (sm_plan st)) \<and>
         (\<forall>r\<in>set (fp_rules (sm_plan st)). on_link src dst r \<longrightarrow> \<not> cuts (sm_now st) (fr_action r))) \<and>
    list_all2 same_rule (fp_rules (sm_plan st)) (fp_rules (sm_plan st')) \<and>
    (\<forall>p. sim_mailbox st' p = sim_mailbox st p)"
proof -
  obtain plan res where c: "FaultPlan_classify R (sm_plan st) src dst (sm_now st) msg = (plan, res)" by fastforce
  note facts = classify_plan [OF assms(1) c]
  show ?thesis
  proof (cases res)
    case (Deliver d)
    then show ?thesis using assms(3,4) c facts(1) facts(2) [OF Deliver]
      by (auto simp: submit_send_eq sim_log_def sim_schedule_def sim_mailbox_def intro!: exI [of _ "Delivered (sm_now st + d)"])
  next
    case (DropMsg reason)
    then show ?thesis using assms(3,4) c facts(1) facts(3) [OF DropMsg]
      by (auto simp: submit_send_eq sim_log_def sim_mailbox_def intro!: exI [of _ "Dropped reason"])
  qed
qed

text \<open>A link from 1 to 2 that delays by up to 7 and is cut between 10 and 20.\<close>

definition demo_plan :: "unit FaultPlan" where
  "demo_plan = FaultPlan_partition (FaultPlan_delay_jitter (FaultPlan_new demo_rng 0) 1 2 7) 1 2 10 20"

lemma demo_plan_rules:
  "fp_rules demo_plan = [\<lparr>fr_src = 1, fr_dst = 2, fr_action = DelayJitter 7\<rparr>,
     \<lparr>fr_src = 1, fr_dst = 2, fr_action = Partition 10 20\<rparr>, \<lparr>fr_src = 2, fr_dst = 1, fr_action = Partition 10 20\<rparr>]"
  by (simp add: demo_plan_def FaultPlan_partition_def FaultPlan_delay_jitter_def FaultPlan_new_def push_rule_def)

lemma demo_sim_fields [simp]:
  "sm_plan (demo_sim plan) = plan" "sm_now (demo_sim plan) = 0" "sm_trace (demo_sim plan) = []" "sm_heap (demo_sim plan) = []"
  "sm_next_seq (demo_sim plan) = 0" "sm_inboxes (demo_sim plan) = bt_insert 2 1 (bt_insert 1 0 bt_empty)"
  by (simp_all add: demo_sim_def SimNetHub_endpoint_def SimState_new_def Let_def)

theorem sim_send_faults_witness:
  "\<exists>t \<le> 7. sm_trace (fst (SimState_submit_send demo_rng 1 (demo_sim demo_plan) (SendSubscribe 2 ''c''))) =
     [\<lparr>te_at = 0, te_seq = 0, te_kind = TraceSend 1 2 KSubscribe (Delivered t)\<rparr>]"
proof -
  have "bt_get (sm_inboxes (demo_sim demo_plan)) 2 \<noteq> None" "send_dst (SendSubscribe 2 ''c'') = Some 2" by simp_all
  from sim_send_faults [OF demo_rng_ok demo_sim_reachable this(2,1), of 1] show ?thesis
  proof (elim exE, goal_cases)
    case (1 st' disposition)
    then show ?case by (cases disposition) (auto simp: demo_plan_rules on_link_def)
  qed
qed

text \<open>
  C32. A partition isolates. Once \<open>partition(a, b, from, until)\<close> is configured it stays in the plan whatever is sent, and within
  its window nothing sent between the two peers, in either direction, is ever scheduled, whatever other rules there are.
\<close>

theorem partition_isolates:
  assumes "rng_ok R" "partitioned a b from until (sm_plan st)"
  shows "partitioned a b from until (FaultPlan_partition plan a b from until) \<and>
    partitioned a b from until (sm_plan (fst (SimState_submit_send R src st msg))) \<and>
    ((src, the (send_dst msg)) \<in> {(a, b), (b, a)} \<longrightarrow> from \<le> sm_now st \<longrightarrow> sm_now st < until \<longrightarrow>
      sm_heap (fst (SimState_submit_send R src st msg)) = sm_heap st)"
proof (cases "send_dst msg")
  case None
  then show ?thesis using assms(2) partitioned_set by (simp add: submit_send_eq)
next
  case (Some dst)
  show ?thesis
  proof (cases "bt_get (sm_inboxes st) dst")
    case None
    then show ?thesis using assms(2) Some partitioned_set by (simp add: submit_send_eq)
  next
    case inbox: (Some cid)
    obtain p res where c: "FaultPlan_classify R (sm_plan st) src dst (sm_now st) msg = (p, res)" by fastforce
    have "partitioned a b from until (sm_plan (fst (SimState_submit_send R src st msg)))"
      using partitioned_cong [OF assms(2) classify_plan(1) [OF assms(1) c]]
      by (simp add: submit_send_eq Some inbox c Let_def split: Classification.split)
    moreover have "sm_heap (fst (SimState_submit_send R src st msg)) = sm_heap st"
      if "(src, dst) \<in> {(a, b), (b, a)}" "from \<le> sm_now st" "sm_now st < until"
    proof (cases res)
      case (Deliver d)
      from classify_plan(2) [OF assms(1) c this] assms(2) that show ?thesis by (auto simp: partitioned_def)
    qed (simp add: submit_send_eq Some inbox c)
    ultimately show ?thesis using Some partitioned_set by simp
  qed
qed

theorem partition_isolates_witness:
  "sm_heap (fst (SimState_submit_send demo_rng 2 (SimState_advance_to (demo_sim demo_plan) 15) (SendSubscribe 1 ''c''))) = []"
proof -
  note inv = sim_reachable_inv [OF demo_sim_reachable, of demo_plan]
  have plan: "sm_plan (SimState_advance_to (demo_sim demo_plan) 15) = demo_plan"
    by (simp add: SimState_advance_to_def advance_loop.simps Let_def)
  have "partitioned 1 2 10 20 demo_plan" unfolding demo_plan_def by (rule partitioned_set)
  then have "partitioned 1 2 10 20 (sm_plan (SimState_advance_to (demo_sim demo_plan) 15))" by (simp add: plan)
  from partition_isolates [OF demo_rng_ok this, of demo_plan 2 "SendSubscribe 1 ''c''"] show ?thesis
    by (simp add: advance_to_now [OF inv] advance_to_heap [OF inv])
qed

text \<open>
  C33. Order of delivery. Pumping a reachable simulator until nothing is left takes one step per entry and appends to
  every open mailbox exactly the events scheduled for it, by time of delivery and in the order of submission among
  simultaneous ones.
\<close>

theorem sim_delivery_order:
  assumes "sim_reachable R st" "SimNetHub_pump_all st 0 = (st', n)"
  shows "sm_heap st' = [] \<and> n = length (sm_heap st) \<and>
    sorted_wrt (\<lambda>a b. ent_at a < ent_at b \<or> ent_at a = ent_at b \<and> ent_seq a < ent_seq b) (sm_heap st) \<and>
    (\<forall>p. sim_mailbox st' p = sim_mailbox st p @ (if sim_open st p then scheduled_for st p else []))"
proof -
  note inv = sim_reachable_inv [OF assms(1)]
  have "sorted_wrt (\<lambda>a b. ent_at a < ent_at b \<or> ent_at a = ent_at b \<and> ent_seq a < ent_seq b) (sm_heap st)"
    by (rule sorted_wrt_mono_rel [OF _ heap_strict [OF inv]]) (auto simp: ent_key_def)
  moreover have "sim_mailbox st' p = in_transit st p" for p
  proof -
    have "in_transit st' p = sim_mailbox st' p"
      using pump_all_spec [OF inv assms(2)] by (simp add: in_transit_def scheduled_for_def map_filter_simps)
    then show ?thesis using pump_all_spec [OF inv assms(2)] by metis
  qed
  ultimately show ?thesis using pump_all_spec [OF inv assms(2)] by (simp add: in_transit_def [of st])
qed

text \<open>A link that delays its first message by 5, and two messages sent on it.\<close>

definition slow_start :: "unit FaultPlan" where
  "slow_start = FaultPlan_delay_if (FaultPlan_new demo_rng 0) 1 2 5 (\<lambda>hist msg. hist = [])"

definition overtaking :: "unit SimState" where
  "overtaking = fst (SimState_submit_send demo_rng 1
     (fst (SimState_submit_send demo_rng 1 (demo_sim slow_start) (SendSubscribe 2 ''a''))) (SendSubscribe 2 ''b''))"

theorem sim_delivery_order_witness:
  "sim_mailbox (fst (SimNetHub_pump_all overtaking 0)) 2 = [EvSubscribe 1 ''b'', EvSubscribe 1 ''a'']"
proof -
  have "sim_reachable demo_rng overtaking" unfolding overtaking_def
    by (intro sim_send demo_sim_reachable)
      (simp_all add: seq_room_def submit_send_eq slow_start_def FaultPlan_delay_if_def FaultPlan_new_def push_rule_def
        FaultPlan_classify_def classify_rules.simps)
  from sim_delivery_order [OF this, of "fst (SimNetHub_pump_all overtaking 0)" "snd (SimNetHub_pump_all overtaking 0)"]
  have "sim_mailbox (fst (SimNetHub_pump_all overtaking 0)) 2 =
      sim_mailbox overtaking 2 @ (if sim_open overtaking 2 then scheduled_for overtaking 2 else [])" by simp
  moreover have "sim_mailbox overtaking 2 = []" "sim_open overtaking 2" 
    "scheduled_for overtaking 2 = [EvSubscribe 1 ''b'', EvSubscribe 1 ''a'']"
    by (simp_all add: overtaking_def submit_send_eq slow_start_def FaultPlan_delay_if_def FaultPlan_new_def push_rule_def
        FaultPlan_classify_def classify_rules.simps sim_mailbox_def box_items_def channel_items_def sim_open_def box_open_def
        scheduled_for_def map_filter_simps sim_schedule_def entry_push_def ent_key_def
        demo_sim_def SimNetHub_endpoint_def SimState_new_def Let_def)
  ultimately show ?thesis by simp
qed

text \<open>
  C34. Without fault rules the simulated network delivers exactly once and in order: any batch of messages to open
  peers is accepted, and once the heap is pumped every peer's mailbox has grown by exactly the events of the
  messages addressed to it, in the order sent. This is the contract of a reliable network (\<open>reliable_net\<close>).
\<close>

theorem sim_fault_free_fifo:
  assumes "calm_inv (length msgs) st" "\<forall>msg\<in>set msgs. \<exists>dst. send_dst msg = Some dst \<and> sim_open st dst"
    and "p \<noteq> self" "sim_open st p" "scheduled_for st p = []"
  shows "\<exists>st'. try_each (\<lambda>msg st. SimState_submit_send R self st msg) msgs st = (st', Inr ()) \<and>
    sim_mailbox (fst (SimNetHub_pump_all st' 0)) p = sim_mailbox st p @
      map (\<lambda>msg. the (sent_event self msg)) (filter (\<lambda>msg. send_dst msg = Some p) msgs)"
proof -
  obtain st' where st': "try_each (\<lambda>msg st. SimState_submit_send R self st msg) msgs st = (st', Inr ())" "calm_inv 0 st'"
    and t: "in_transit st' p = in_transit st p @ map (\<lambda>msg. the (sent_event self msg)) (filter (\<lambda>msg. send_dst msg = Some p) msgs)"
    using sim.send_all [of msgs 0 st R self] assms(1-3) by auto
  obtain st2 n where p: "SimNetHub_pump_all st' 0 = (st2, n)" by fastforce
  have "sim_inv st'" using st'(2) by (simp add: calm_inv_def)
  note spec = pump_all_spec [OF this p]
  then have "in_transit st2 p = sim_mailbox st2 p" by (simp add: in_transit_def scheduled_for_def map_filter_simps)
  with spec t have "sim_mailbox st2 p = in_transit st p @ map (\<lambda>msg. the (sent_event self msg)) (filter (\<lambda>msg. send_dst msg = Some p) msgs)"
    by metis
  with st'(1) p assms(4,5) show ?thesis by (auto simp: in_transit_def [of st])
qed

theorem sim_fault_free_fifo_witness:
  "sim_mailbox (fst (SimNetHub_pump_all (fst (try_each (\<lambda>msg st. SimState_submit_send demo_rng 1 st msg)
      [SendSubscribe 2 ''a'', SendSubscribe 2 ''b''] (demo_sim (FaultPlan_new demo_rng 0)))) 0)) 2 =
    [EvSubscribe 1 ''a'', EvSubscribe 1 ''b'']"
proof -
  let ?st = "demo_sim (FaultPlan_new demo_rng 0)" and ?msgs = "[SendSubscribe 2 ''a'', SendSubscribe 2 ''b'']"
  have "calm_inv (length ?msgs) ?st" using sim_reachable_inv [OF demo_sim_reachable]
    by (simp add: calm_inv_def calm_def seq_room_def FaultPlan_new_def)
  moreover have "sim_open ?st 2" "sim_mailbox ?st 2 = []" "scheduled_for ?st 2 = []"
    by (simp_all add: sim_open_def box_open_def sim_mailbox_def box_items_def channel_items_def scheduled_for_def map_filter_simps
        demo_sim_def SimNetHub_endpoint_def SimState_new_def Let_def)
  ultimately show ?thesis using sim_fault_free_fifo [of ?msgs ?st 2 1 demo_rng] by auto
qed

text \<open>
  C35. A sleeper of the virtual clock wakes exactly on time: after \<open>sleep(d)\<close>, advancing the simulation to some
  target makes the future ready exactly if its deadline has come by then.
\<close>

theorem sleep_wakes_on_time:
  assumes "sim_reachable R st" "seq_room 1 st" "SimClock_sleep st d = (st', inner)"
  shows "\<not> Sleep_ready st' inner \<and>
    (Sleep_ready (SimState_advance_to st' target) inner \<longleftrightarrow> sm_now st + d \<le> target)"
proof -
  note inv = sim_reachable_inv [OF assms(1)]
  have s: "sim_inv st'" using sleep_inv [of st 0 d] inv assms(2,3) by simp
  have "sim_inv (SimState_advance_to st' target)" by (rule advance_to_inv [OF s])
  have inner: "inner = length (sm_sleepers st)" "length (sm_sleepers st') = Suc inner"
    and heap: "set (sm_heap st') = insert \<lparr>ent_at = sm_now st + d, ent_seq = sm_next_seq st, ent_pending = Wakeup inner\<rparr> (set (sm_heap st))"
    using assms(3) by (auto simp: SimClock_sleep_def schedule_wakeup_eq sim_schedule_def)
  have fresh: "\<forall>e\<in>set (sm_heap st). ent_pending e \<noteq> Wakeup inner"
    using sim_invD(3) [OF inv] inner by (auto simp: wakeups_inv_def)
  have ready: "Sleep_ready x inner \<longleftrightarrow> (\<forall>e\<in>set (sm_heap x). ent_pending e \<noteq> Wakeup inner)"
    if "sim_inv x" "inner < length (sm_sleepers x)" for x
    using sim_invD(3) [OF that(1)] that(2) by (auto simp: Sleep_ready_def wakeups_inv_def)
  have len: "length (sm_sleepers (SimState_advance_to st' target)) = length (sm_sleepers st')"
    by (rule advance_to_sleepers)
  show ?thesis using ready [OF s] ready [OF advance_to_inv [OF s]] inner len heap fresh
    by (auto simp: advance_to_heap [OF s])
qed

theorem sleep_wakes_on_time_witness:
  "Sleep_ready (SimState_advance_to (fst (SimClock_sleep (demo_sim demo_plan) 5)) 5) 0 \<and>
   \<not> Sleep_ready (SimState_advance_to (fst (SimClock_sleep (demo_sim demo_plan) 5)) 4) 0"
proof -
  have "seq_room 1 (demo_sim demo_plan)" by (simp add: seq_room_def)
  moreover have "SimClock_sleep (demo_sim demo_plan) 5 = (fst (SimClock_sleep (demo_sim demo_plan) 5), 0)"
    by (simp add: SimClock_sleep_def schedule_wakeup_eq demo_sim_def SimNetHub_endpoint_def SimState_new_def Let_def)
  ultimately show ?thesis
    using sleep_wakes_on_time [OF demo_sim_reachable, of demo_plan 5 _ 0 5] sleep_wakes_on_time [OF demo_sim_reachable, of demo_plan 5 _ 0 4]
    by auto
qed

end
