(* ===== verification/SimRunner.thy ===== *)
theory SimRunner
  imports RsEngine EngineNet SimProofs Wire "HOL-Library.Sublist"
begin

text \<open>
  \<open>ethp2p-sim/src/runner.rs\<close>: the driver of several engines over one simulated network. The engines share the hub: an
  engine's \<open>en_net\<close> is its handle, so an operation runs with the hub's current state and the state it leaves becomes
  the hub's. The sink and the receiver of an engine's deliveries are two ends of one bounded channel,
  \<open>en_delivered\<close>; the receiver of an engine's events is a channel of the hub, named in \<open>sr_events\<close>. A
  result \<open>None\<close> stands for a call that panics or does not return.
\<close>

subsection \<open>The runner\<close>

datatype 'e SimError =
    SimEngineFailed PeerId EngineError
  | EngineClosed PeerId
  | MaxStepsExceeded nat
  | UnknownPeer PeerId
  | SimEncode "'e EncodeError"

definition DELIVERY_SINK_CAPACITY :: nat where
  "DELIVERY_SINK_CAPACITY = 16"

text \<open>\<open>mpsc::Sender::try_send\<close> on a full channel loses the message; the engine ignores the error.\<close>

definition sink_try_send :: "DeliveredMessage list \<Rightarrow> DeliveredMessage \<Rightarrow> DeliveredMessage list" where
  "sink_try_send queue msg = (if length queue < DELIVERY_SINK_CAPACITY then queue @ [msg] else queue)"

definition derive_seed :: "u64 \<Rightarrow> PeerId \<Rightarrow> u64" where
  "derive_seed seed peer = seed XOR (peer * 0x9E3779B97F4A7C15)"

type_synonym 'g SimEngine = "(RsStrategy, 'g SimState, DeliveredMessage list) Engine"

record 'g SimRunner =
  sr_hub :: "'g SimState"
  sr_seed :: u64
  sr_engines :: "(PeerId, 'g SimEngine) btree_map"
  sr_events :: "(PeerId, nat) btree_map"

definition sim_env :: "'e Crates \<Rightarrow> 'g Rng \<Rightarrow> PeerId \<Rightarrow> (RsStrategy, 'e DecodeError, 'g SimState, DeliveredMessage list) EngineEnv" where
  "sim_env X R peer = rs_env X (SimState_submit_send R peer) sink_try_send"

definition add_peer :: "PeerId \<Rightarrow> 'g SimRunner \<Rightarrow> 'g SimRunner" where
  "add_peer peer r =
     (case SimNetHub_endpoint (sr_hub r) peer of (hub, cid) \<Rightarrow>
       r\<lparr>sr_hub := hub,
         sr_engines := bt_insert peer (Engine_with_config peer hub [] EngineConfig_default (SimClock_now hub)) (sr_engines r),
         sr_events := bt_insert peer cid (sr_events r)\<rparr>)"

definition SimRunner_new :: "PeerId list \<Rightarrow> 'g FaultPlan \<Rightarrow> Instant \<Rightarrow> 'g SimRunner" where
  "SimRunner_new peers plan start =
     fold add_peer peers \<lparr>sr_hub = SimState_new plan start, sr_seed = fp_seed plan, sr_engines = bt_empty, sr_events = bt_empty\<rparr>"

text \<open>An operation on one engine, with the hub lent to it.\<close>

definition put_engine :: "PeerId \<Rightarrow> 'g SimEngine \<Rightarrow> 'g SimRunner \<Rightarrow> 'g SimRunner" where
  "put_engine peer e r = r\<lparr>sr_hub := en_net e, sr_engines := bt_insert peer e (sr_engines r)\<rparr>"

definition with_engine ::
  "PeerId \<Rightarrow> ('g SimEngine \<Rightarrow> 'g SimEngine \<times> (EngineError + unit)) \<Rightarrow> 'g SimRunner \<Rightarrow> 'g SimRunner \<times> ('e SimError + unit)" where
  "with_engine peer call r =
     (case bt_get (sr_engines r) peer of
        None \<Rightarrow> (r, Inr ())
      | Some e \<Rightarrow> (case call (e\<lparr>en_net := sr_hub r\<rparr>) of (e', res) \<Rightarrow> (put_engine peer e' r, map_err (SimEngineFailed peer) res)))"

definition subscribe_all ::
  "'e Crates \<Rightarrow> 'g Rng \<Rightarrow> Preamble PbCodec \<Rightarrow> ChannelId \<Rightarrow> RsConfig \<Rightarrow> 'g SimRunner \<Rightarrow> 'g SimRunner \<times> ('e SimError + unit)" where
  "subscribe_all X R C channel config r =
     (let seed = sr_seed r in
      try_each (\<lambda>peer. with_engine peer (Engine_subscribe (sim_env X R peer) channel
          (rs_relay_factory_seeded (pb_decode C) config (derive_seed seed peer)))) (bt_keys (sr_engines r)) r)"

definition connect_full_mesh :: "'e Crates \<Rightarrow> 'g Rng \<Rightarrow> 'g SimRunner \<Rightarrow> 'g SimRunner \<times> ('e SimError + unit)" where
  "connect_full_mesh X R r =
     (let peers = bt_keys (sr_engines r) in
      try_each (\<lambda>peer. try_each (\<lambda>other r.
          if other \<noteq> peer then with_engine peer (Engine_connect (sim_env X R peer) other) r else (r, Inr ())) peers) peers r)"

definition SimRunner_publish ::
  "'e Crates \<Rightarrow> 'g Rng \<Rightarrow> Preamble PbCodec \<Rightarrow> PeerId \<Rightarrow> ChannelId \<Rightarrow> MessageId \<Rightarrow> bytes \<Rightarrow> RsConfig \<Rightarrow> 'g SimRunner \<Rightarrow>
   ('g SimRunner \<times> ('e SimError + unit)) option" where
  "SimRunner_publish X R C origin channel message_id payload config r =
     (case encode X payload config of
        None \<Rightarrow> None
      | Some (Inl err) \<Rightarrow> Some (r, Inl (SimEncode err))
      | Some (Inr (preamble, _)) \<Rightarrow>
          (case RsStrategy_new_origin_with_seed X payload config (derive_seed (sr_seed r) origin) of
             None \<Rightarrow> None
           | Some (Inl err) \<Rightarrow> Some (r, Inl (SimEncode err))
           | Some (Inr strategy) \<Rightarrow>
               (case bt_get (sr_engines r) origin of
                  None \<Rightarrow> Some (r, Inl (UnknownPeer origin))
                | Some e \<Rightarrow>
                    Option.bind (Engine_publish (sim_env X R origin) (SimClock_now (sr_hub r)) channel message_id strategy
                        (pb_encode C preamble) (e\<lparr>en_net := sr_hub r\<rparr>))
                      (\<lambda>(e', res). Some (put_engine origin e' r, map_err (SimEngineFailed origin) res)))))"

subsection \<open>Running\<close>

text \<open>
  \<open>events.next().await\<close> on the receiver \<open>cid\<close>: the oldest event; without one the stream ends if its sender is gone, and
  otherwise the call waits, for ever on the runner's single thread.
\<close>

definition next_event :: "nat \<Rightarrow> 'g SimState \<Rightarrow> ('g SimState \<times> NetEvent option) option" where
  "next_event cid hub =
     (case channel_recv cid (sm_channels hub) of
        (store, Some ev) \<Rightarrow> Some (hub\<lparr>sm_channels := store\<rparr>, Some ev)
      | (_, None) \<Rightarrow> if cid \<in> snd ` set (entries (sm_inboxes hub)) then None else Some (hub, None))"

definition step_engine ::
  "'e Crates \<Rightarrow> 'g Rng \<Rightarrow> PeerId \<Rightarrow> 'g SimEngine \<Rightarrow> 'g SimRunner \<Rightarrow> ('g SimRunner \<times> StepResult) option" where
  "step_engine X R peer e r =
     (let hub = SimState_record_engine_step (sr_hub r) peer in
      Option.bind (bt_get (sr_events r) peer) (\<lambda>cid.
      Option.bind (next_event cid hub) (\<lambda>(hub, ev).
      Option.bind (run_one_step (sim_env X R peer) (SimClock_now hub) ev (e\<lparr>en_net := hub\<rparr>)) (\<lambda>(e', res).
      Some (put_engine peer e' r, res)))))"

function run_loop ::
  "'e Crates \<Rightarrow> 'g Rng \<Rightarrow> nat \<Rightarrow> nat \<Rightarrow> 'g SimRunner \<Rightarrow> ('g SimRunner \<times> ('e SimError + nat)) option" where
  "run_loop X R max_steps steps r =
     (case SimState_pop_next (sr_hub r) of
        (hub, None) \<Rightarrow> Some (r\<lparr>sr_hub := hub\<rparr>, Inr steps)
      | (hub, Some step) \<Rightarrow>
          (if Suc steps > max_steps then Some (r\<lparr>sr_hub := hub\<rparr>, Inl (MaxStepsExceeded max_steps))
           else (case step of
               Woke \<Rightarrow> run_loop X R max_steps (Suc steps) (r\<lparr>sr_hub := hub\<rparr>)
             | DeliveredTo peer \<Rightarrow>
                 (case bt_get (sr_engines r) peer of
                    None \<Rightarrow> run_loop X R max_steps (Suc steps) (r\<lparr>sr_hub := hub\<rparr>)
                  | Some e \<Rightarrow>
                      Option.bind (step_engine X R peer e (r\<lparr>sr_hub := hub\<rparr>)) (\<lambda>(r, res).
                        case res of
                          Processed \<Rightarrow> run_loop X R max_steps (Suc steps) r
                        | StepClosed \<Rightarrow> Some (r, Inl (EngineClosed peer)))))))"
  by pat_completeness auto
termination
  by (relation "measure (\<lambda>(_, _, max_steps, steps, _). Suc max_steps - steps)") auto

declare run_loop.simps [simp del]

definition run_to_quiescence ::
  "'e Crates \<Rightarrow> 'g Rng \<Rightarrow> nat \<Rightarrow> 'g SimRunner \<Rightarrow> ('g SimRunner \<times> ('e SimError + nat)) option" where
  "run_to_quiescence X R max_steps r = run_loop X R max_steps 0 r"

definition take_deliveries :: "PeerId \<Rightarrow> 'g SimRunner \<Rightarrow> 'g SimRunner \<times> DeliveredMessage list" where
  "take_deliveries peer r =
     (case bt_get (sr_engines r) peer of
        None \<Rightarrow> (r, [])
      | Some e \<Rightarrow> (r\<lparr>sr_engines := bt_insert peer (e\<lparr>en_delivered := []\<rparr>) (sr_engines r)\<rparr>, en_delivered e))"

subsection \<open>What engines do to the hub\<close>

interpretation sim_eng: broadcast_engine "sim_env X R peer" "rs_inv X" rs_work
  for X :: "'e Crates" and R :: "'g Rng" and peer
  unfolding sim_env_def by (rule rs_eng.broadcast_engine_axioms)

text \<open>Sending changes the plan, the heap, the trace and the counter; time, mailboxes and sleepers stay.\<close>

definition hub_frame :: "'g SimState \<Rightarrow> 'g SimState \<Rightarrow> bool" where
  "hub_frame hub hub' \<longleftrightarrow> sm_now hub' = sm_now hub \<and> sm_inboxes hub' = sm_inboxes hub \<and> sm_channels hub' = sm_channels hub \<and>
     sm_next_channel hub' = sm_next_channel hub \<and> prefix (sm_trace hub) (sm_trace hub') \<and> (agenda_inv hub \<longrightarrow> agenda_inv hub')"

lemma hub_frame_refl [simp]: "hub_frame hub hub"
  by (simp add: hub_frame_def)

lemma submit_send_frame: "hub_frame hub (fst (SimState_submit_send R src hub msg))"
  by (auto simp: submit_send_eq hub_frame_def sim_log_def sim_schedule_def agenda_inv_def Let_def
      split: option.split prod.split Classification.split)

lemma hub_frame_trans: "hub_frame h1 h2 \<Longrightarrow> hub_frame h2 h3 \<Longrightarrow> hub_frame h1 h3"
  by (auto simp: hub_frame_def)

lemma sim_closed: "net_closed (ev_send (sim_env X R peer)) (hub_frame hub)"
  by (simp add: net_closed_def sim_env_def) (blast intro: hub_frame_trans submit_send_frame)

definition hub_ok :: "'g SimState \<Rightarrow> bool" where
  "hub_ok hub \<longleftrightarrow> agenda_inv hub \<and> boxes_inv (sm_inboxes hub) (sm_channels hub) (sm_next_channel hub)"

lemma hub_frame_ok: "hub_frame hub hub' \<Longrightarrow> hub_ok hub \<Longrightarrow> hub_ok hub'"
  by (simp add: hub_frame_def hub_ok_def)

text \<open>The engine of a peer owns the receiver of the peer's mailbox.\<close>

definition listens :: "'g SimState \<Rightarrow> PeerId \<Rightarrow> nat option \<Rightarrow> bool" where
  "listens hub peer cid \<longleftrightarrow> cid \<noteq> None \<and> bt_get (sm_inboxes hub) peer = cid \<and> sim_open hub peer"

lemma hub_frame_listens: "hub_frame hub hub' \<Longrightarrow> listens hub' peer cid \<longleftrightarrow> listens hub peer cid"
  by (simp add: hub_frame_def listens_def sim_open_def)

definition runner_inv :: "'e Crates \<Rightarrow> 'g SimRunner \<Rightarrow> bool" where
  "runner_inv X r \<longleftrightarrow> hub_ok (sr_hub r) \<and>
     (\<forall>peer e. bt_get (sr_engines r) peer = Some e \<longrightarrow>
        engine_inv (rs_inv X) e \<and> listens (sr_hub r) peer (bt_get (sr_events r) peer))"

lemma runner_invD:
  assumes "runner_inv X r" "bt_get (sr_engines r) peer = Some e"
  shows "hub_ok (sr_hub r)" "engine_inv (rs_inv X) e" "listens (sr_hub r) peer (bt_get (sr_events r) peer)"
  using assms by (simp_all add: runner_inv_def)

lemma put_engine_inv:
  assumes "runner_inv X r" "hub_frame (sr_hub r) (en_net e)" "engine_inv (rs_inv X) e" "bt_get (sr_engines r) peer \<noteq> None"
  shows "runner_inv X (put_engine peer e r)"
  using assms by (auto simp: runner_inv_def put_engine_def hub_frame_listens hub_frame_ok split: if_splits)

lemma put_engine_frame [simp]:
  "sr_events (put_engine peer e r) = sr_events r" "sr_seed (put_engine peer e r) = sr_seed r" "sr_hub (put_engine peer e r) = en_net e"
  by (simp_all add: put_engine_def)

lemma add_peer_inv:
  assumes "runner_inv X r"
  shows "runner_inv X (add_peer peer r)"
proof -
  obtain hub cid where h: "SimNetHub_endpoint (sr_hub r) peer = (hub, cid)" by fastforce
  then have hub: "hub = (sr_hub r)\<lparr>sm_next_channel := Suc cid,
      sm_channels := bt_insert cid \<lparr>uc_items = [], uc_receiver = True\<rparr> (sm_channels (sr_hub r)),
      sm_inboxes := bt_insert peer cid (sm_inboxes (sr_hub r))\<rparr>" and cid: "cid = sm_next_channel (sr_hub r)"
    by (auto simp: SimNetHub_endpoint_def Let_def)
  have ok: "hub_ok (sr_hub r)" using assms by (simp add: runner_inv_def)
  then have "hub_ok hub" by (simp add: hub_ok_def hub cid boxes_inv_add agenda_inv_def)
  have "listens hub p (if p = peer then Some cid else bt_get (sr_events r) p)"
    if "p = peer \<or> listens (sr_hub r) p (bt_get (sr_events r) p)" for p
  proof (cases "p = peer")
    case False
    then have l: "listens (sr_hub r) p (bt_get (sr_events r) p)" using that by simp
    then obtain c where c: "bt_get (sm_inboxes (sr_hub r)) p = Some c" by (auto simp: listens_def)
    have "bt_get (sm_channels (sr_hub r)) c \<noteq> None" "c \<noteq> cid"
      using ok c cid unfolding hub_ok_def boxes_inv_def by (metis, metis less_irrefl)
    then show ?thesis using False l c by (auto simp: listens_def hub sim_open_def box_open_def)
  qed (simp add: listens_def hub sim_open_def box_open_def)
  then have "listens hub peer (Some cid)"
    and "\<And>p. p \<noteq> peer \<Longrightarrow> listens (sr_hub r) p (bt_get (sr_events r) p) \<Longrightarrow> listens hub p (bt_get (sr_events r) p)"
    by (fastforce split: if_splits)+
  with assms \<open>hub_ok hub\<close> show ?thesis
    by (simp add: runner_inv_def add_peer_def h engine_inv_new)
qed

lemma SimRunner_new_inv: "runner_inv X (SimRunner_new peers plan start)"
proof -
  have "runner_inv X (fold add_peer peers r)" if "runner_inv X r" for r
    using that by (induction peers arbitrary: r) (simp_all add: add_peer_inv)
  moreover have "runner_inv X \<lparr>sr_hub = SimState_new plan start, sr_seed = fp_seed plan, sr_engines = bt_empty, sr_events = bt_empty\<rparr>"
    by (simp add: runner_inv_def hub_ok_def SimState_new_def agenda_inv_def)
  ultimately show ?thesis unfolding SimRunner_new_def by blast
qed

lemma with_engine_inv:
  assumes "runner_inv X r"
    and "\<And>e. engine_inv (rs_inv X) e \<Longrightarrow> engine_inv (rs_inv X) (fst (call e)) \<and> hub_frame (en_net e) (en_net (fst (call e)))"
  shows "runner_inv X (fst (with_engine peer call r))"
proof (cases "bt_get (sr_engines r) peer")
  case None
  then show ?thesis using assms(1) by (simp add: with_engine_def)
next
  case (Some e)
  then show ?thesis
    using put_engine_inv [OF assms(1), of "fst (call (e\<lparr>en_net := sr_hub r\<rparr>))" peer] assms(2) [of "e\<lparr>en_net := sr_hub r\<rparr>"]
      runner_invD(2) [OF assms(1) Some]
    by (simp add: with_engine_def case_prod_unfold)
qed

lemma subscribe_all_inv: "runner_inv X r \<Longrightarrow> runner_inv X (fst (subscribe_all X R C channel config r))"
  unfolding subscribe_all_def Let_def
  by (rule try_each_inv [where P = "runner_inv X"])
    (auto intro!: with_engine_inv subscribe_net [OF sim_closed] sim_eng.subscribe_inv intro: factory_inv)

lemma connect_full_mesh_inv: "runner_inv X r \<Longrightarrow> runner_inv X (fst (connect_full_mesh X R r))"
proof -
  have c: "runner_inv X (fst (with_engine peer (Engine_connect (sim_env X R peer) other) r))" if "runner_inv X r" for peer other r
    by (rule with_engine_inv [OF that])
      (simp add: Engine_connect_def sim_eng.register_inv register_net [OF sim_closed])
  show "runner_inv X r \<Longrightarrow> ?thesis" unfolding connect_full_mesh_def Let_def
    by (rule try_each_inv [where P = "runner_inv X"], rule try_each_inv [where P = "runner_inv X"]) (simp_all add: c)
qed

lemma SimRunner_publish_inv:
  assumes "SimRunner_publish X R C origin c m payload config r = Some (r', res)" "runner_inv X r" "sha_ok X" "rs_ok X"
  shows "runner_inv X r'"
proof -
  consider "r' = r"
    | p s e e' q where "RsStrategy_new_origin_with_seed X payload config (derive_seed (sr_seed r) origin) = Some (Inr s)"
      "bt_get (sr_engines r) origin = Some e" "r' = put_engine origin e' r"
      "Engine_publish (sim_env X R origin) (SimClock_now (sr_hub r)) c m s (pb_encode C p) (e\<lparr>en_net := sr_hub r\<rparr>) = Some (e', q)"
  proof -
    obtain p shards where enc: "encode X payload config = Some (Inr (p, shards)) \<or> r' = r"
      using assms(1) by (auto simp: SimRunner_publish_def split: option.splits sum.splits)
    show thesis
    proof (cases "r' = r")
      case False
      with enc have "encode X payload config = Some (Inr (p, shards))" by simp
      then show thesis using assms(1) False that(2)
        by (simp add: SimRunner_publish_def bind_eq_Some_conv split: option.splits sum.splits) blast+
    qed (rule that(1))
  qed
  then show ?thesis
  proof cases
    case (2 p s e e' q)
    have "engine_inv (rs_inv X) (e\<lparr>en_net := sr_hub r\<rparr>)" using runner_invD(2) [OF assms(2) 2(2)] by simp
    from sim_eng.publish_returns [OF this origin_inv [OF 2(1) assms(3,4)]] 2(4)
    have "engine_inv (rs_inv X) e'" by (metis option.inject prod.inject)
    moreover have "hub_frame (sr_hub r) (en_net e')" using publish_net [OF 2(4) sim_closed] by simp
    ultimately show ?thesis using put_engine_inv [OF assms(2)] 2(2,3) by simp
  qed (use assms(2) in simp)
qed

lemma take_deliveries_inv: "runner_inv X r \<Longrightarrow> runner_inv X (fst (take_deliveries peer r))"
  by (auto simp: take_deliveries_def runner_inv_def split: option.split if_splits)

subsection \<open>Running to quiescence\<close>

text \<open>How a run moves the hub: time and trace only grow, mailboxes keep their places.\<close>

definition hub_runs :: "'g SimState \<Rightarrow> 'g SimState \<Rightarrow> bool" where
  "hub_runs hub hub' \<longleftrightarrow> sm_now hub \<le> sm_now hub' \<and> prefix (sm_trace hub) (sm_trace hub')"

lemma hub_runs_refl [simp]: "hub_runs hub hub"
  by (simp add: hub_runs_def)

lemma hub_runs_trans: "hub_runs h1 h2 \<Longrightarrow> hub_runs h2 h3 \<Longrightarrow> hub_runs h1 h3"
  by (auto simp: hub_runs_def)

lemma hub_frame_runs: "hub_frame h1 h2 \<Longrightarrow> hub_runs h1 h2"
  by (simp add: hub_frame_def hub_runs_def)

lemma pop_next_runs:
  assumes "SimState_pop_next hub = (hub', Some step)" "hub_ok hub"
  shows "hub_ok hub'" "hub_runs hub hub'" "sm_inboxes hub' = sm_inboxes hub" "\<And>p. sim_open hub' p \<longleftrightarrow> sim_open hub p"
    and "step = DeliveredTo p \<Longrightarrow> sim_open hub p \<Longrightarrow> sim_mailbox hub' p \<noteq> []"
proof -
  obtain e h where h: "sm_heap hub = e # h" using assms(1) by (auto simp: pop_next_eq split: list.splits)
  have ag: "agenda_inv hub" and bx: "boxes_inv (sm_inboxes hub) (sm_channels hub) (sm_next_channel hub)"
    using assms(2) by (simp_all add: hub_ok_def)
  have "sm_now hub \<le> ent_at e" "\<forall>e'\<in>set h. ent_at e \<le> ent_at e'" "sorted (map ent_key h)"
    using ag h sorted_key_at [of e h] by (auto simp: agenda_inv_def)
  with assms(1) h bx show "hub_ok hub'" "hub_runs hub hub'"
    by (auto simp: pop_next_eq hub_ok_def hub_runs_def agenda_inv_def split: Pending.splits)
  show "sm_inboxes hub' = sm_inboxes hub" using pop_next_fields(4) [of hub] by (simp add: assms(1))
  show "sim_open hub' q \<longleftrightarrow> sim_open hub q" for q using pop_next_open [of hub q] by (simp add: assms(1))
  show "sim_mailbox hub' p \<noteq> []" if "step = DeliveredTo p" "sim_open hub p"
    using assms(1) h that box_post_items [OF bx, of p _ p]
    by (auto simp: pop_next_eq sim_mailbox_def sim_open_def split: Pending.splits)
qed

lemma recv_open:
  "box_open senders (fst (channel_recv cid store)) p \<longleftrightarrow> box_open senders store p"
  by (auto simp: box_open_def channel_recv_def split: option.split list.split)

lemma step_engine_spec:
  assumes inv: "runner_inv X r" and e: "bt_get (sr_engines r) peer = Some e" and mail: "sim_mailbox (sr_hub r) peer \<noteq> []"
  shows "\<exists>r'. step_engine X R peer e r = Some (r', Processed) \<and> runner_inv X r' \<and> hub_runs (sr_hub r) (sr_hub r')"
proof -
  note d = runner_invD [OF inv e]
  obtain cid where cid: "bt_get (sr_events r) peer = Some cid" "bt_get (sm_inboxes (sr_hub r)) peer = Some cid"
    using d(3) by (auto simp: listens_def)
  let ?hub = "SimState_record_engine_step (sr_hub r) peer"
  have hub: "sm_channels ?hub = sm_channels (sr_hub r)" "sm_inboxes ?hub = sm_inboxes (sr_hub r)" "sm_now ?hub = sm_now (sr_hub r)"
    "sm_heap ?hub = sm_heap (sr_hub r)" "sm_next_channel ?hub = sm_next_channel (sr_hub r)" "prefix (sm_trace (sr_hub r)) (sm_trace ?hub)"
    by (simp_all add: SimState_record_engine_step_def take_seq_def)
  obtain ev evs where "channel_items (sm_channels (sr_hub r)) cid = ev # evs"
    using mail cid(2) by (auto simp: sim_mailbox_def box_items_def neq_Nil_conv)
  then obtain store where recv: "channel_recv cid (sm_channels (sr_hub r)) = (store, Some ev)"
    by (auto simp: channel_items_def channel_recv_def split: option.splits)
  let ?hub1 = "?hub\<lparr>sm_channels := store\<rparr>"
  have open1: "sim_open ?hub1 p \<longleftrightarrow> sim_open (sr_hub r) p" for p
    using recv_open [of "sm_inboxes (sr_hub r)" cid "sm_channels (sr_hub r)" p] by (simp add: sim_open_def hub recv)
  have inv1: "runner_inv X (r\<lparr>sr_hub := ?hub1\<rparr>)"
    using inv boxes_inv_recv [of "sm_inboxes (sr_hub r)" "sm_channels (sr_hub r)" "sm_next_channel (sr_hub r)" cid]
    by (auto simp: runner_inv_def hub_ok_def agenda_inv_def listens_def open1 hub recv)
  let ?E = "sim_env X R peer"
  have "engine_inv (rs_inv X) (e\<lparr>en_net := ?hub1\<rparr>)" using d(2) by simp
  from sim_eng.run_one_step_returns [OF this, of R peer "SimClock_now ?hub1" "Some ev"]
  obtain e' q where run: "run_one_step ?E (SimClock_now ?hub1) (Some ev) (e\<lparr>en_net := ?hub1\<rparr>) = Some (e', q)" "engine_inv (rs_inv X) e'"
    by blast
  have fr: "hub_frame ?hub1 (en_net e')" using run_one_step_net [OF run(1) sim_closed] by simp
  have q: "q = Processed" using run(1) by (auto simp: run_one_step_def bind_eq_Some_conv)
  have "runner_inv X (put_engine peer e' (r\<lparr>sr_hub := ?hub1\<rparr>))"
    using put_engine_inv [OF inv1 _ run(2)] fr e by simp
  moreover have "put_engine peer e' (r\<lparr>sr_hub := ?hub1\<rparr>) = put_engine peer e' r" by (simp add: put_engine_def)
  moreover have "hub_runs (sr_hub r) (en_net e')"
    using hub_runs_trans [OF _ hub_frame_runs [OF fr], of "sr_hub r"] by (simp add: hub_runs_def hub)
  ultimately show ?thesis
    using cid(1) recv run(1) q by (simp add: step_engine_def Let_def next_event_def hub)
qed

lemma run_loop_spec:
  assumes "runner_inv X r" "steps \<le> max_steps"
  shows "\<exists>r' res. run_loop X R max_steps steps r = Some (r', res) \<and> runner_inv X r' \<and> hub_runs (sr_hub r) (sr_hub r') \<and>
    (case res of
       Inr n \<Rightarrow> steps \<le> n \<and> n \<le> max_steps \<and> sm_heap (sr_hub r') = []
     | Inl err \<Rightarrow> err = MaxStepsExceeded max_steps)"
  using assms
proof (induction "max_steps - steps" arbitrary: steps r rule: less_induct)
  case less
  obtain hub ost where p: "SimState_pop_next (sr_hub r) = (hub, ost)" by fastforce
  show ?case
  proof (cases ost)
    case None
    then have "sm_heap (sr_hub r) = []" "hub = sr_hub r" using p by (auto simp: pop_next_eq split: list.splits Pending.splits)
    then show ?thesis using less.prems p None by (subst run_loop.simps) simp
  next
    case (Some step)
    note pop = pop_next_runs [OF p [unfolded Some]]
    have ok: "hub_ok (sr_hub r)" using less.prems(1) by (simp add: runner_inv_def)
    have inv: "runner_inv X (r\<lparr>sr_hub := hub\<rparr>)"
      using less.prems(1) pop(1,3,4) [OF ok] by (simp add: runner_inv_def listens_def)
    have continue: "\<exists>r'' res. run_loop X R max_steps (Suc steps) r' = Some (r'', res) \<and> runner_inv X r'' \<and> hub_runs (sr_hub r) (sr_hub r'') \<and>
        (case res of Inr n \<Rightarrow> steps \<le> n \<and> n \<le> max_steps \<and> sm_heap (sr_hub r'') = [] | Inl err \<Rightarrow> err = MaxStepsExceeded max_steps)"
      if "Suc steps \<le> max_steps" "runner_inv X r'" "hub_runs (sr_hub r) (sr_hub r')" for r'
      using less.hyps [OF _ that(2,1)] that hub_runs_trans [OF that(3)] by (fastforce split: sum.splits)
    show ?thesis
    proof (cases "Suc steps > max_steps")
      case True
      then show ?thesis using p Some inv pop(2) [OF ok] by (subst run_loop.simps) simp
    next
      case False
      show ?thesis
      proof (cases step)
        case Woke
        then show ?thesis using p Some False continue [OF _ inv] pop(2) [OF ok] by (subst run_loop.simps) simp
      next
        case (DeliveredTo peer)
        show ?thesis
        proof (cases "bt_get (sr_engines r) peer")
          case None
          then show ?thesis using p Some False DeliveredTo continue [OF _ inv] pop(2) [OF ok] by (subst run_loop.simps) simp
        next
          case e: (Some e)
          have "sim_open (sr_hub r) peer" using runner_invD(3) [OF less.prems(1) e] by (simp add: listens_def)
          then have "sim_mailbox (sr_hub (r\<lparr>sr_hub := hub\<rparr>)) peer \<noteq> []" using pop(5) [OF ok DeliveredTo] by simp
          from step_engine_spec [OF inv _ this, of e R]
          obtain r1 where r1: "step_engine X R peer e (r\<lparr>sr_hub := hub\<rparr>) = Some (r1, Processed)" "runner_inv X r1" "hub_runs hub (sr_hub r1)"
            using e by auto
          then have "hub_runs (sr_hub r) (sr_hub r1)" using hub_runs_trans [OF pop(2) [OF ok]] by blast
          then show ?thesis using p Some False DeliveredTo e r1 continue [OF _ r1(2)] by (subst run_loop.simps) simp
        qed
      qed
    qed
  qed
qed

subsection \<open>Reachable runners\<close>

inductive runner_reachable :: "'e Crates \<Rightarrow> 'g Rng \<Rightarrow> Preamble PbCodec \<Rightarrow> 'g SimRunner \<Rightarrow> bool" for X R C where
  run_new: "runner_reachable X R C (SimRunner_new peers plan start)"
| run_subscribe: "runner_reachable X R C r \<Longrightarrow> runner_reachable X R C (fst (subscribe_all X R C channel config r))"
| run_connect: "runner_reachable X R C r \<Longrightarrow> runner_reachable X R C (fst (connect_full_mesh X R r))"
| run_publish: "runner_reachable X R C r \<Longrightarrow> SimRunner_publish X R C origin channel m payload config r = Some (r', res) \<Longrightarrow>
    runner_reachable X R C r'"
| run_quiescence: "runner_reachable X R C r \<Longrightarrow> run_to_quiescence X R max_steps r = Some (r', res) \<Longrightarrow> runner_reachable X R C r'"
| run_take: "runner_reachable X R C r \<Longrightarrow> runner_reachable X R C (fst (take_deliveries peer r))"

lemma runner_reachable_inv:
  assumes "runner_reachable X R C r" "sha_ok X" "rs_ok X"
  shows "runner_inv X r"
  using assms(1)
proof (induction rule: runner_reachable.induct)
  case (run_quiescence r max_steps r' res)
  then show ?case using run_loop_spec [of X r 0 max_steps R] by (auto simp: run_to_quiescence_def)
qed (simp_all add: SimRunner_new_inv subscribe_all_inv connect_full_mesh_inv take_deliveries_inv SimRunner_publish_inv assms(2,3))

subsection \<open>Properties\<close>

text \<open>
  C29. A simulation always ends. However it was set up and whatever faults its plan injects, \<open>run_to_quiescence\<close> returns: within
  its step budget with nothing left in the heap, or with \<open>MaxStepsExceeded\<close>; no engine hangs, closes or fails. Virtual time
  does not go back, the trace is only extended, and every engine keeps its invariant.
\<close>

theorem sim_run_returns:
  assumes "runner_reachable X R C r" "sha_ok X" "rs_ok X"
  shows "\<exists>r' res. run_to_quiescence X R max_steps r = Some (r', res) \<and>
    (case res of Inr n \<Rightarrow> n \<le> max_steps \<and> sm_heap (sr_hub r') = [] | Inl err \<Rightarrow> err = MaxStepsExceeded max_steps) \<and>
    sm_now (sr_hub r) \<le> sm_now (sr_hub r') \<and> prefix (sm_trace (sr_hub r)) (sm_trace (sr_hub r')) \<and>
    (\<forall>peer e. bt_get (sr_engines r') peer = Some e \<longrightarrow> engine_inv (rs_inv X) e)"
proof -
  obtain r' res where "run_loop X R max_steps 0 r = Some (r', res)" "runner_inv X r'" "hub_runs (sr_hub r) (sr_hub r')"
    "case res of Inr n \<Rightarrow> 0 \<le> n \<and> n \<le> max_steps \<and> sm_heap (sr_hub r') = [] | Inl err \<Rightarrow> err = MaxStepsExceeded max_steps"
    using run_loop_spec [OF runner_reachable_inv [OF assms], of 0 max_steps R] by blast
  then show ?thesis by (cases res) (simp_all add: run_to_quiescence_def hub_runs_def runner_inv_def)
qed

definition demo_runner :: "unit SimRunner" where
  "demo_runner = fst (connect_full_mesh repetition_crates demo_rng (SimRunner_new [1, 2] demo_plan 0))"

text \<open>A codec of preambles for examples, which encodes the demonstration preamble only.\<close>

definition preamble_codec :: "Preamble PbCodec" where
  "preamble_codec = \<lparr>pb_encode = (\<lambda>_. [1]), pb_decode = (\<lambda>b. if b = [1] then Some demo_preamble else None)\<rparr>"

theorem sim_run_returns_witness:
  "\<exists>r'. run_to_quiescence repetition_crates demo_rng 10 demo_runner \<in>
     insert (Some (r', Inl (MaxStepsExceeded 10))) ((\<lambda>n. Some (r', Inr n)) ` {..10})"
proof -
  have "runner_reachable repetition_crates demo_rng preamble_codec demo_runner"
    unfolding demo_runner_def by (intro run_connect run_new)
  from sim_run_returns [OF this, of 10] obtain r' res
    where "run_to_quiescence repetition_crates demo_rng 10 demo_runner = Some (r', res)"
      "case res of Inr n \<Rightarrow> n \<le> 10 \<and> sm_heap (sr_hub r') = [] | Inl err \<Rightarrow> err = MaxStepsExceeded 10" by auto
  then show ?thesis by (cases res) (auto intro!: exI [of _ r'])
qed

end
