(* ===== verification/SimScenario.thy ===== *)
theory SimScenario
  imports Forwarding SimRunner
begin

text \<open>
  Runs of the simulator without faults. The hub of such a run is a queue: everything is due at once, in the order it
  was sent. A protocol of the engines, given by what each engine and the events on their way to it satisfy and by
  a credit for what it may still send, drives every run to quiescence. The protocols are the handshakes of a
  mesh and the broadcast of a message; together they give a simulation from its construction to the
  deliveries.
\<close>

subsection \<open>The hub as a queue\<close>

fun addressed :: "Pending \<Rightarrow> (PeerId \<times> NetEvent) option" where
  "addressed (Delivery dst ev) = Some (dst, ev)"
| "addressed (Wakeup _) = None"

definition agenda :: "'g SimState \<Rightarrow> (PeerId \<times> NetEvent) list" where
  "agenda hub = List.map_filter (\<lambda>en. addressed (ent_pending en)) (sm_heap hub)"

definition for_peer :: "PeerId \<Rightarrow> (PeerId \<times> NetEvent) list \<Rightarrow> NetEvent list" where
  "for_peer q xs = map snd (filter (\<lambda>x. fst x = q) xs)"

text \<open>No faults, no time passed, nobody asleep, every mailbox empty, and room for \<open>k\<close> more sequence numbers.\<close>

definition still :: "PeerId set \<Rightarrow> Instant \<Rightarrow> nat \<Rightarrow> 'g SimState \<Rightarrow> bool" where
  "still P start k hub \<longleftrightarrow> calm_inv k hub \<and> sm_now hub = 0 \<and> sm_sim_start hub = start \<and> (\<forall>q. sim_open hub q \<longleftrightarrow> q \<in> P) \<and>
     (\<forall>q. sim_mailbox hub q = []) \<and> (\<forall>en\<in>set (sm_heap hub). addressed (ent_pending en) \<noteq> None)"

lemma for_peer_simps [simp]:
  "for_peer q [] = []" "for_peer q (xs @ ys) = for_peer q xs @ for_peer q ys"
  "for_peer q ((d, ev) # xs) = (if d = q then ev # for_peer q xs else for_peer q xs)"
  by (simp_all add: for_peer_def)

lemma stillD:
  assumes "still P start k hub"
  shows "sim_inv hub" "calm hub" "seq_room k hub" "sm_now hub = 0" "sm_sim_start hub = start" "\<And>q. sim_open hub q \<longleftrightarrow> q \<in> P"
    "\<And>q. sim_mailbox hub q = []" "\<And>en. en \<in> set (sm_heap hub) \<Longrightarrow> addressed (ent_pending en) \<noteq> None"
    "boxes_inv (sm_inboxes hub) (sm_channels hub) (sm_next_channel hub)"
  using assms by (auto simp: still_def calm_inv_def sim_inv_def)

lemma still_mono: "still P start k hub \<Longrightarrow> j \<le> k \<Longrightarrow> still P start j hub"
  by (simp add: still_def calm_inv_def seq_room_def)

lemma still_empty: "still P start k hub \<Longrightarrow> agenda hub = [] \<longleftrightarrow> sm_heap hub = []"
  by (cases "sm_heap hub") (auto simp: still_def agenda_def map_filter_simps split: option.split)

lemma scheduled_agenda: "scheduled_for hub q = for_peer q (agenda hub)"
proof -
  have "List.map_filter (delivery_for q) h = for_peer q (List.map_filter (\<lambda>en. addressed (ent_pending en)) h)" for h
    by (induction h) (auto simp: map_filter_simps for_peer_def split: Pending.split)
  then show ?thesis by (simp add: scheduled_for_def agenda_def)
qed

lemma still_transit: "still P start k hub \<Longrightarrow> q \<in> P \<Longrightarrow> in_transit hub q = for_peer q (agenda hub)"
  by (simp add: in_transit_def still_def scheduled_agenda)

lemma insort_last: "\<forall>x\<in>set xs. f x < f e \<Longrightarrow> insort_key f e xs = xs @ [e]"
  by (induction xs) auto

lemma still_send:
  assumes st: "still P start (Suc k) hub" and dst: "send_dst msg = Some dst" "dst \<in> P"
  shows "\<exists>hub'. SimState_submit_send R self hub msg = (hub', Inr ()) \<and> still P start k hub' \<and>
    agenda hub' = agenda hub @ [(dst, the (sent_event self msg))] \<and> sm_inboxes hub' = sm_inboxes hub"
proof -
  note d = stillD [OF st]
  let ?log = "sim_log self msg (Delivered (sm_now hub)) hub"
  let ?hub = "sim_schedule (sm_now hub) (sm_next_seq hub) (Delivery dst (the (sent_event self msg))) ?log"
  have op: "sim_open hub dst" using d(6) dst(2) by simp
  have e: "SimState_submit_send R self hub msg = (?hub, Inr ())"
    using dst(1) sim_open_inbox [OF op] classify_calm [OF d(2)] by (simp add: submit_send_eq)
  have "calm_inv (Suc k) hub" using st by (simp add: still_def)
  from sim_send_reliable [OF this dst(1) op, of R self] have c: "calm_inv k ?hub" "\<And>q. sim_open ?hub q \<longleftrightarrow> sim_open hub q"
    by (auto simp: e)
  have "ent_key x < ent_key \<lparr>ent_at = sm_now hub, ent_seq = sm_next_seq hub, ent_pending = Delivery dst (the (sent_event self msg))\<rparr>"
    if "x \<in> set (sm_heap hub)" for x
  proof -
    have "ent_at x = sm_now hub" using d(2) d(8) [OF that] that by (cases "ent_pending x") (auto simp: calm_def)
    then show ?thesis using seqs_below [OF d(1) that] by (simp add: ent_key_def)
  qed
  then have heap: "sm_heap ?hub = sm_heap hub @ [\<lparr>ent_at = sm_now hub, ent_seq = sm_next_seq hub, ent_pending = Delivery dst (the (sent_event self msg))\<rparr>]"
    by (simp add: sim_schedule_def entry_push_def insort_last)
  have "sim_mailbox ?hub q = sim_mailbox hub q" "sm_sim_start ?hub = sm_sim_start hub" for q
    by (simp_all add: sim_mailbox_def) (simp add: sim_schedule_def sim_log_def)
  then have "still P start k ?hub" using st c heap by (auto simp: still_def)
  moreover have "agenda ?hub = agenda hub @ [(dst, the (sent_event self msg))]" by (simp add: agenda_def heap map_filter_def)
  ultimately show ?thesis using e by auto
qed

lemma unaddressed_send: "send_dst msg = None \<Longrightarrow> SimState_submit_send R self hub msg = (hub, Inr ())"
  by (simp add: submit_send_eq)

text \<open>A batch of messages goes to the end of the queue.\<close>

lemma sends_posts:
  assumes "sends (SimState_submit_send R self) M a hub hub'" "still P start (i + a) hub"
    and M: "\<And>msg dst. M msg \<Longrightarrow> send_dst msg = Some dst \<Longrightarrow> dst \<in> P \<and> G dst (the (sent_event self msg))"
  shows "\<exists>new. still P start i hub' \<and> agenda hub' = agenda hub @ new \<and> length new \<le> a \<and> (\<forall>(q, ev)\<in>set new. q \<in> P \<and> G q ev) \<and>
    sm_inboxes hub' = sm_inboxes hub"
proof -
  obtain msgs where msgs: "hub' = sent_by (SimState_submit_send R self) msgs hub" "\<forall>msg\<in>set msgs. M msg" "addressed_count msgs \<le> a"
    using assms(1) by (auto simp: sends_def)
  have "\<exists>new. still P start i (sent_by (SimState_submit_send R self) msgs hub) \<and>
      agenda (sent_by (SimState_submit_send R self) msgs hub) = agenda hub @ new \<and> length new \<le> addressed_count msgs \<and>
      (\<forall>(q, ev)\<in>set new. q \<in> P \<and> G q ev) \<and> sm_inboxes (sent_by (SimState_submit_send R self) msgs hub) = sm_inboxes hub"
    if "\<forall>msg\<in>set msgs. M msg" "still P start (i + addressed_count msgs) hub" for msgs hub
    using that
  proof (induction msgs arbitrary: hub)
    case (Cons msg msgs)
    show ?case
    proof (cases "send_dst msg")
      case None
      then show ?thesis using Cons.IH [of hub] Cons.prems
        by (simp add: sent_by_def addressed_count_def unaddressed_send)
    next
      case (Some dst)
      have m: "dst \<in> P" "G dst (the (sent_event self msg))" using M Some Cons.prems(1) by auto
      have "still P start (Suc (i + addressed_count msgs)) hub" using Cons.prems(2) Some by (simp add: addressed_count_def)
      from still_send [OF this Some m(1), of R self] obtain hub1 where hub1: "SimState_submit_send R self hub msg = (hub1, Inr ())"
        "still P start (i + addressed_count msgs) hub1" "agenda hub1 = agenda hub @ [(dst, the (sent_event self msg))]"
        "sm_inboxes hub1 = sm_inboxes hub" by blast
      obtain new where new: "still P start i (sent_by (SimState_submit_send R self) msgs hub1)"
        "agenda (sent_by (SimState_submit_send R self) msgs hub1) = agenda hub1 @ new" "length new \<le> addressed_count msgs"
        "\<forall>(q, ev)\<in>set new. q \<in> P \<and> G q ev" "sm_inboxes (sent_by (SimState_submit_send R self) msgs hub1) = sm_inboxes hub1"
        using Cons.IH [OF _ hub1(2)] Cons.prems(1) by auto
      have "sent_by (SimState_submit_send R self) (msg # msgs) hub = sent_by (SimState_submit_send R self) msgs hub1"
        by (simp add: sent_by_def hub1(1))
      then show ?thesis using new hub1(3,4) m Some
        by (intro exI [of _ "(dst, the (sent_event self msg)) # new"]) (simp add: addressed_count_def)
    qed
  qed (simp add: sent_by_def addressed_count_def)
  from this [OF msgs(2)] obtain new where "still P start i hub'" "agenda hub' = agenda hub @ new" "length new \<le> addressed_count msgs"
    "\<forall>(q, ev)\<in>set new. q \<in> P \<and> G q ev" "sm_inboxes hub' = sm_inboxes hub"
    using still_mono [OF assms(2), of "i + addressed_count msgs"] msgs(1,3) by auto
  then show ?thesis using msgs(3) by (intro exI [of _ new]) auto
qed

lemma spends_posts:
  assumes "spends (SimState_submit_send R self) M k k' hub hub'" "still P start (j + 2 * k) hub"
    and M: "\<And>msg dst. M msg \<Longrightarrow> send_dst msg = Some dst \<Longrightarrow> dst \<in> P \<and> G dst (the (sent_event self msg))"
  shows "\<exists>new. agenda hub' = agenda hub @ new \<and> k' + length new \<le> k \<and> still P start (j + 2 * k' + length new) hub' \<and>
    (\<forall>(q, ev)\<in>set new. q \<in> P \<and> G q ev)"
proof -
  have k: "k' \<le> k" "sends (SimState_submit_send R self) M (k - k') hub hub'" using assms(1) by (simp_all add: spends_def)
  then have eq: "j + 2 * k = (j + k + k') + (k - k')" by simp
  have "still P start ((j + k + k') + (k - k')) hub" using assms(2) unfolding eq .
  from sends_posts [OF k(2) this, of G] M obtain new where new: "still P start (j + k + k') hub'" "agenda hub' = agenda hub @ new"
    "length new \<le> k - k'" "\<forall>(q, ev)\<in>set new. q \<in> P \<and> G q ev" by blast
  have "k' + length new \<le> k" "still P start (j + 2 * k' + length new) hub'" using k(1) new(3) still_mono [OF new(1)] by simp_all
  then show ?thesis using new(2,4) by blast
qed

text \<open>The oldest message reaches the engine it is for.\<close>

lemma still_next:
  assumes st: "still P start (Suc k) hub" and ag: "agenda hub = (q, ev) # rest" and q: "q \<in> P" "bt_get (sm_inboxes hub) q = Some cid"
  shows "\<exists>hub1 hub2. SimState_pop_next hub = (hub1, Some (DeliveredTo q)) \<and>
    next_event cid (SimState_record_engine_step hub1 q) = Some (hub2, Some ev) \<and> still P start k hub2 \<and> agenda hub2 = rest \<and>
    sm_inboxes hub2 = sm_inboxes hub \<and> SimClock_now hub2 = start"
proof -
  note d = stillD [OF st]
  obtain en h where h: "sm_heap hub = en # h" using ag by (cases "sm_heap hub") (auto simp: agenda_def)
  have en: "ent_pending en = Delivery q ev" and rest: "List.map_filter (\<lambda>en. addressed (ent_pending en)) h = rest"
    using ag d(8) [of en] by (auto simp: agenda_def h split: option.splits) (cases "ent_pending en"; simp)+
  have t0: "ent_at en = 0" using d(2,4) en by (auto simp: calm_def h)
  let ?ch = "box_post (sm_inboxes hub) q ev (sm_channels hub)"
  let ?hub1 = "hub\<lparr>sm_heap := h, sm_now := 0, sm_channels := ?ch\<rparr>"
  have p: "SimState_pop_next hub = (?hub1, Some (DeliveredTo q))" by (simp add: pop_next_eq h en t0)
  have op: "box_open (sm_inboxes hub) (sm_channels hub) q" using d(6) q(1) by (simp add: sim_open_def)
  obtain qc where qc: "bt_get (sm_channels hub) cid = Some qc" "uc_receiver qc" "uc_items qc = []"
    using op q(2) d(7) [of q] by (auto simp: box_open_def sim_mailbox_def box_items_def channel_items_def split: option.splits)
  then have post: "bt_get ?ch cid = Some (qc\<lparr>uc_items := [ev]\<rparr>)" using q(2) by (simp add: box_post_get)
  let ?hub0 = "SimState_record_engine_step ?hub1 q" and ?store = "bt_insert cid (qc\<lparr>uc_items := []\<rparr>) ?ch"
  have old: "?store = sm_channels hub"
    by (rule bt_eqI) (use qc q(2) in \<open>auto simp: box_post_get dest: boxes_inv_inj [OF d(9)]\<close>)
  have rec: "?hub0 = ?hub1\<lparr>sm_next_seq := sm_next_seq hub + 1, sm_trace := sm_trace ?hub0\<rparr>"
    by (simp add: SimState_record_engine_step_def take_seq_def)
  have n: "next_event cid ?hub0 = Some (?hub0\<lparr>sm_channels := sm_channels hub\<rparr>, Some ev)"
    using post old by (subst rec, simp add: next_event_def channel_recv_def, subst rec) simp
  let ?hub2 = "?hub0\<lparr>sm_channels := sm_channels hub\<rparr>"
  have f: "sm_heap ?hub2 = h" "sm_now ?hub2 = 0" "sm_next_seq ?hub2 = sm_next_seq hub + 1" "sm_inboxes ?hub2 = sm_inboxes hub"
    "sm_plan ?hub2 = sm_plan hub" "sm_sim_start ?hub2 = sm_sim_start hub" "sm_next_channel ?hub2 = sm_next_channel hub"
    "sm_sleepers ?hub2 = sm_sleepers hub" "sm_channels ?hub2 = sm_channels hub"
    by (subst rec, simp)+
  have "sim_inv ?hub1" using pop_next_inv [OF d(1)] by (simp add: p)
  then have "sim_inv ?hub2"
    by (rule sim_inv_cong) (use f seq_room_less [OF d(3)] d(9) in \<open>simp_all add: less_imp_le\<close>)
  moreover have "calm ?hub2" using d(2,4) f by (auto simp: calm_def h)
  moreover have "seq_room k ?hub2" using d(3) seq_room_next [OF d(3)] f(3) by (simp add: seq_room_def)
  ultimately have "still P start k ?hub2"
    using d(4-8) f unfolding still_def calm_inv_def sim_open_def sim_mailbox_def by (simp add: h)
  moreover have "agenda ?hub2 = rest" using f(1) rest by (simp add: agenda_def)
  moreover have "SimClock_now ?hub2 = start" using f(2,6) d(5) by (simp add: SimClock_now_def SimState_wall_now_def)
  ultimately show ?thesis using p n f(4) by blast
qed

subsection \<open>Protocols\<close>

lemma put_engine_get: "bt_get (sr_engines (put_engine q e r)) p = (if p = q then Some e else bt_get (sr_engines r) p)"
  by (simp add: put_engine_def)

lemma sum_fun_upd:
  fixes cr :: "PeerId \<Rightarrow> nat"
  assumes "q \<in> P"
  shows "sum (cr(q := k)) P + cr q = sum cr P + k"
proof -
  have "sum (cr(q := k)) (P - {q}) = sum cr (P - {q})" by (rule sum.cong) auto
  then show ?thesis using sum.remove [of P q "cr(q := k)"] sum.remove [of P q cr] assms by simp
qed

text \<open>A run with \<open>K\<close> steps to go at most, with \<open>room\<close> sequence numbers to spare.\<close>

definition running ::
  "'e Crates \<Rightarrow> PeerId set \<Rightarrow> Instant \<Rightarrow> (PeerId \<Rightarrow> NetEvent list \<Rightarrow> nat \<Rightarrow> 'g SimEngine \<Rightarrow> bool) \<Rightarrow> (PeerId \<Rightarrow> NetEvent \<Rightarrow> bool) \<Rightarrow>
   nat \<Rightarrow> nat \<Rightarrow> 'g SimRunner \<Rightarrow> bool" where
  "running X P start part good room K r \<longleftrightarrow> runner_inv X r \<and> {q. bt_get (sr_engines r) q \<noteq> None} = P \<and>
     (\<forall>(q, ev)\<in>set (agenda (sr_hub r)). q \<in> P \<and> good q ev) \<and>
     (\<exists>cr. still P start (room + 2 * sum cr P + length (agenda (sr_hub r))) (sr_hub r) \<and>
        sum cr P + length (agenda (sr_hub r)) \<le> K \<and>
        (\<forall>q e. bt_get (sr_engines r) q = Some e \<longrightarrow> start < en_next_cleanup e \<and> part q (for_peer q (agenda (sr_hub r))) (cr q) e))"

text \<open>
  A protocol of the engines \<open>P\<close>: \<open>part q evs k e\<close> says what holds of the engine \<open>e\<close> of \<open>q\<close> with the events \<open>evs\<close> on
  their way to it and the credit \<open>k\<close> for messages, \<open>good\<close> what every event satisfies and \<open>msgs\<close> what engines send.
\<close>

locale sim_protocol =
  fixes X :: "'e Crates" and R :: "'g Rng" and P :: "PeerId set" and start :: Instant
    and part :: "PeerId \<Rightarrow> NetEvent list \<Rightarrow> nat \<Rightarrow> 'g SimEngine \<Rightarrow> bool" and good :: "PeerId \<Rightarrow> NetEvent \<Rightarrow> bool"
    and msgs :: "PeerId \<Rightarrow> NetSend \<Rightarrow> bool"
  assumes handles: "part q (ev # evs) k e \<Longrightarrow> good q ev \<Longrightarrow> q \<in> P \<Longrightarrow> still P start 0 (en_net e) \<Longrightarrow>
      \<exists>e' k'. handle_event (sim_env X R q) start ev e = Some e' \<and> part q evs k' e' \<and> en_next_cleanup e' = en_next_cleanup e \<and>
        spends (SimState_submit_send R q) (msgs q) k k' (en_net e) (en_net e')"
    and later: "part q evs k e \<Longrightarrow> part q (evs @ evs') k e"
    and handle_free: "part q evs k (e\<lparr>en_net := n\<rparr>) = part q evs k e"
    and addressees: "msgs q msg \<Longrightarrow> send_dst msg = Some dst \<Longrightarrow> dst \<in> P \<and> good dst (the (sent_event q msg))"
begin

text \<open>One event handled: what the engine sends goes to the end of the queue and is paid for.\<close>

lemma handle_posts:
  assumes "part q (ev # evs) k e" "good q ev" "q \<in> P" "still P start (j + 2 * k) (en_net e)" "start < en_next_cleanup e"
  obtains e' k' new where "handle_event (sim_env X R q) start ev e = Some e'" "part q evs k' e'" "start < en_next_cleanup e'"
    "agenda (en_net e') = agenda (en_net e) @ new" "k' + length new \<le> k" "still P start (j + 2 * k' + length new) (en_net e')"
    "\<forall>(p, ev)\<in>set new. p \<in> P \<and> good p ev"
proof -
  obtain e' k' where e': "handle_event (sim_env X R q) start ev e = Some e'" "part q evs k' e'" "en_next_cleanup e' = en_next_cleanup e"
    "spends (SimState_submit_send R q) (msgs q) k k' (en_net e) (en_net e')"
    using handles [OF assms(1-3) still_mono [OF assms(4)]] by blast
  obtain new where "agenda (en_net e') = agenda (en_net e) @ new" "k' + length new \<le> k" "still P start (j + 2 * k' + length new) (en_net e')"
    "\<forall>(p, ev)\<in>set new. p \<in> P \<and> good p ev"
    using spends_posts [OF e'(4) assms(4), of good] addressees by blast
  with e'(1-3) assms(5) show thesis by (intro that) simp_all
qed

lemma step_returns:
  assumes inv: "runner_inv X r" and e: "bt_get (sr_engines r) q = Some e" and pop: "SimState_pop_next (sr_hub r) = (hub1, Some (DeliveredTo q))"
    and ev: "\<And>cid. bt_get (sr_events r) q = Some cid \<Longrightarrow> next_event cid (SimState_record_engine_step hub1 q) = Some (hub2, Some ev)"
    and h: "handle_event (sim_env X R q) (SimClock_now hub2) ev (e\<lparr>en_net := hub2\<rparr>) = Some e'" "SimClock_now hub2 < en_next_cleanup e'"
  shows "step_engine X R q e (r\<lparr>sr_hub := hub1\<rparr>) = Some (put_engine q e' r, Processed)" "runner_inv X (put_engine q e' r)"
proof -
  note d = runner_invD [OF inv e] and p = pop_next_runs [OF pop]
  obtain cid where cid: "bt_get (sr_events r) q = Some cid" "sim_open (sr_hub r) q" using d(3) by (auto simp: listens_def)
  show step: "step_engine X R q e (r\<lparr>sr_hub := hub1\<rparr>) = Some (put_engine q e' r, Processed)"
    using cid(1) ev [OF cid(1)] h by (simp add: step_engine_def Let_def run_one_step_def maybe_run_cleanup_def put_engine_def)
  have "runner_inv X (r\<lparr>sr_hub := hub1\<rparr>)" using inv p(1,3,4) [OF d(1)] by (simp add: runner_inv_def listens_def)
  moreover have "sim_mailbox hub1 q \<noteq> []" using p(5) [OF d(1) refl cid(2)] .
  ultimately show "runner_inv X (put_engine q e' r)" using step_engine_spec [of X "r\<lparr>sr_hub := hub1\<rparr>" q e R] e step by simp
qed

lemma running_step:
  assumes run: "running X P start part good room K r" and ag: "agenda (sr_hub r) = (q, ev) # rest"
  shows "\<exists>K' e hub r'. K = Suc K' \<and> SimState_pop_next (sr_hub r) = (hub, Some (DeliveredTo q)) \<and> bt_get (sr_engines r) q = Some e \<and>
    step_engine X R q e (r\<lparr>sr_hub := hub\<rparr>) = Some (r', Processed) \<and> running X P start part good room K' r'"
proof -
  have inv: "runner_inv X r" and dom: "{q. bt_get (sr_engines r) q \<noteq> None} = P"
    and g: "q \<in> P" "good q ev" "\<forall>(q, ev)\<in>set rest. q \<in> P \<and> good q ev"
    using run ag by (auto simp: running_def)
  obtain cr where st: "still P start (Suc (room + 2 * sum cr P + length rest)) (sr_hub r)" and K: "sum cr P + Suc (length rest) \<le> K"
    and parts: "\<And>p e. bt_get (sr_engines r) p = Some e \<Longrightarrow> start < en_next_cleanup e \<and> part p (for_peer p ((q, ev) # rest)) (cr p) e"
    using run ag by (auto simp: running_def)
  obtain e where e: "bt_get (sr_engines r) q = Some e" using dom g(1) by auto
  obtain cid where cid: "bt_get (sr_events r) q = Some cid" "bt_get (sm_inboxes (sr_hub r)) q = Some cid"
    using runner_invD(3) [OF inv e] by (auto simp: listens_def)
  obtain hub1 hub2 where h: "SimState_pop_next (sr_hub r) = (hub1, Some (DeliveredTo q))"
    "next_event cid (SimState_record_engine_step hub1 q) = Some (hub2, Some ev)"
    "still P start (room + 2 * sum cr P + length rest) hub2" "agenda hub2 = rest" "SimClock_now hub2 = start"
    using still_next [OF st ag g(1) cid(2)] by blast
  let ?j = "room + 2 * (sum cr P - cr q) + length rest"
  have q: "cr q \<le> sum cr P" using g(1) by (simp add: member_le_sum)
  then have "still P start (?j + 2 * cr q) hub2" using h(3) by (simp add: algebra_simps)
  moreover have "part q (ev # for_peer q rest) (cr q) (e\<lparr>en_net := hub2\<rparr>)" "start < en_next_cleanup e"
    using parts [OF e] by (simp_all add: handle_free)
  ultimately obtain e' k' new where
    e': "handle_event (sim_env X R q) start ev (e\<lparr>en_net := hub2\<rparr>) = Some e'" "part q (for_peer q rest) k' e'" "start < en_next_cleanup e'"
    and new: "agenda (en_net e') = rest @ new" "k' + length new \<le> cr q" "still P start (?j + 2 * k' + length new) (en_net e')"
      "\<forall>(p, ev)\<in>set new. p \<in> P \<and> good p ev"
    using handle_posts [of q ev "for_peer q rest" "cr q" "e\<lparr>en_net := hub2\<rparr>" ?j] g(1,2) h(4) by auto
  note step = step_returns [OF inv e h(1), of hub2 ev e'] 
  have step: "step_engine X R q e (r\<lparr>sr_hub := hub1\<rparr>) = Some (put_engine q e' r, Processed)" "runner_inv X (put_engine q e' r)"
    using step cid(1) h(2,5) e'(1,3) by simp_all
  have sums: "sum (cr(q := k')) P + cr q = sum cr P + k'" by (rule sum_fun_upd [OF g(1)])
  have "running X P start part good room (K - 1) (put_engine q e' r)"
    unfolding running_def put_engine_frame put_engine_get new(1)
  proof (intro conjI exI [of _ "cr(q := k')"] step(2))
    show "{p. (if p = q then Some e' else bt_get (sr_engines r) p) \<noteq> None} = P" using dom g(1) by auto
    show "\<forall>(q, ev)\<in>set (rest @ new). q \<in> P \<and> good q ev" using g(3) new(4) by auto
    have "room + 2 * sum (cr(q := k')) P + length (rest @ new) = ?j + 2 * k' + length new" using sums q by simp
    then show "still P start (room + 2 * sum (cr(q := k')) P + length (rest @ new)) (en_net e')" using new(3) by (simp only:)
    show "sum (cr(q := k')) P + length (rest @ new) \<le> K - 1" using sums new(2) K by simp
    show "\<forall>p x. (if p = q then Some e' else bt_get (sr_engines r) p) = Some x \<longrightarrow>
        start < en_next_cleanup x \<and> part p (for_peer p (rest @ new)) ((cr(q := k')) p) x"
    proof (intro allI impI)
      fix p x assume "(if p = q then Some e' else bt_get (sr_engines r) p) = Some x"
      then show "start < en_next_cleanup x \<and> part p (for_peer p (rest @ new)) ((cr(q := k')) p) x"
        using e'(2,3) parts [of p x] by (cases "p = q") (auto intro: later)
    qed
  qed
  then show ?thesis using h(1) e step(1) K by (intro exI [of _ "K - 1"] exI [of _ e] exI [of _ hub1] exI [of _ "put_engine q e' r"]) auto
qed

theorem quiesces:
  assumes "running X P start part good room K r" "steps + K \<le> max_steps"
  shows "\<exists>r' n K'. run_loop X R max_steps steps r = Some (r', Inr n) \<and> running X P start part good room K' r' \<and> agenda (sr_hub r') = [] \<and> n \<le> steps + K"
  using assms
proof (induction K arbitrary: r steps rule: less_induct)
  case (less K)
  show ?case
  proof (cases "agenda (sr_hub r)")
    case Nil
    have "sm_heap (sr_hub r) = []" using less.prems(1) Nil still_empty by (auto simp: running_def)
    then have "run_loop X R max_steps steps r = Some (r, Inr steps)" by (subst run_loop.simps) (simp add: pop_next_eq)
    then show ?thesis using less.prems(1) Nil by (intro exI [of _ r] exI [of _ steps] exI [of _ K]) simp
  next
    case (Cons x rest)
    obtain q ev where x: "x = (q, ev)" by (cases x)
    obtain K' e hub r' where s: "K = Suc K'" "SimState_pop_next (sr_hub r) = (hub, Some (DeliveredTo q))" "bt_get (sr_engines r) q = Some e"
      "step_engine X R q e (r\<lparr>sr_hub := hub\<rparr>) = Some (r', Processed)" "running X P start part good room K' r'"
      using running_step [OF less.prems(1) Cons [unfolded x]] by blast
    have "run_loop X R max_steps steps r = run_loop X R max_steps (Suc steps) r'"
      using s(1-4) less.prems(2) by (subst run_loop.simps) simp
    then show ?thesis using less.IH [OF _ s(5), of "Suc steps"] s(1) less.prems(2) by fastforce
  qed
qed

end

subsection \<open>The handshakes of a mesh\<close>

text \<open>An engine that has subscribed to the channel \<open>c\<close> alone, with subscribers \<open>A\<close> and no sessions yet.\<close>

definition member :: "Preamble PbCodec \<Rightarrow> ChannelId \<Rightarrow> RsConfig \<Rightarrow> PeerId set \<Rightarrow> 'g SimEngine \<Rightarrow> bool" where
  "member C c config A e \<longleftrightarrow> bt_keys (en_channels e) = [c] \<and>
     (\<exists>ch base. bt_get (en_channels e) c = Some ch \<and> ch_sessions ch = bt_empty \<and>
        ch_factory ch = rs_relay_factory_seeded (pb_decode C) config base \<and> bs_elems (ch_subscribers ch) = A) \<and>
     en_tombstones e = bt_empty \<and> en_parked_chunks e = bt_empty \<and> en_delivered e = []"

definition handshakers :: "NetEvent list \<Rightarrow> PeerId set" where
  "handshakers evs = {p. \<exists>v cs s. EvHandshake p v cs s \<in> set evs}"

definition join_part :: "Preamble PbCodec \<Rightarrow> ChannelId \<Rightarrow> RsConfig \<Rightarrow> PeerId set \<Rightarrow> PeerId \<Rightarrow> NetEvent list \<Rightarrow> nat \<Rightarrow> 'g SimEngine \<Rightarrow> bool" where
  "join_part C c config P q evs k e \<longleftrightarrow> (\<exists>A. member C c config A e \<and> A \<subseteq> P - {q} \<and> P - {q} \<subseteq> A \<union> handshakers evs)"

definition join_event :: "ChannelId \<Rightarrow> PeerId set \<Rightarrow> PeerId \<Rightarrow> NetEvent \<Rightarrow> bool" where
  "join_event c P q ev \<longleftrightarrow> (\<exists>p s. p \<in> P - {q} \<and> ev = EvHandshake p PROTOCOL_VERSION [c] s)"

lemma bt_keys_insert_same: "bt_get m k \<noteq> None \<Longrightarrow> bt_keys (bt_insert k v m) = bt_keys m"
  by (rule sorted_wrt_less_unique) (auto split: if_splits)

lemma handshake_member:
  assumes "member C c config A e"
  shows "\<exists>e'. handle_event E now (EvHandshake p PROTOCOL_VERSION [c] s) e = Some e' \<and> member C c config (insert p A) e' \<and>
    en_next_cleanup e' = en_next_cleanup e \<and> en_net e' = en_net e"
proof -
  obtain ch base where ch: "bt_get (en_channels e) c = Some ch" "ch_sessions ch = bt_empty" "bs_elems (ch_subscribers ch) = A"
    "ch_factory ch = rs_relay_factory_seeded (pb_decode C) config base"
    using assms by (auto simp: member_def)
  let ?ch = "Channel_subscribe_peer (ev_strategy E) ch p"
  let ?e = "e\<lparr>en_connected := bs_insert p (en_connected e), en_channels := bt_insert c ?ch (en_channels e)\<rparr>"
  have "bt_map (\<lambda>_ se. Session_attach_peer (ev_strategy E) se p) bt_empty = bt_empty" by (rule bt_eqI) simp
  then have sub: "ch_sessions ?ch = bt_empty" "bs_elems (ch_subscribers ?ch) = insert p A" "ch_factory ?ch = ch_factory ch"
    using ch(2,3) by (auto simp: Channel_subscribe_peer_def bt_contains_bs_elems simp del: bt_contains_iff)
  have "handle_event E now (EvHandshake p PROTOCOL_VERSION [c] s) e = Some ?e"
    using ch(1) sub(1) by (simp add: update_channel_def drain_channel_def)
  moreover have "member C c config (insert p A) ?e" using assms sub ch by (simp add: member_def bt_keys_insert_same)
  ultimately show ?thesis by simp
qed

lemma member_net [simp]: "member C c config A (e\<lparr>en_net := n\<rparr>) = member C c config A e"
  by (simp add: member_def)

interpretation join: sim_protocol X R P start "join_part C c config P" "join_event c P" "\<lambda>_ _. False"
  for X :: "'e Crates" and R :: "'g Rng" and P start C c config
proof
  fix q ev evs k and e :: "'g SimEngine"
  assume "join_part C c config P q (ev # evs) k e" "join_event c P q ev"
  then obtain A p s where a: "member C c config A e" "A \<subseteq> P - {q}" "P - {q} \<subseteq> A \<union> handshakers (ev # evs)"
    "p \<in> P - {q}" "ev = EvHandshake p PROTOCOL_VERSION [c] s"
    by (auto simp: join_part_def join_event_def)
  obtain e' where e': "handle_event (sim_env X R q) start ev e = Some e'" "member C c config (insert p A) e'"
    "en_next_cleanup e' = en_next_cleanup e" "en_net e' = en_net e"
    using handshake_member [OF a(1), of "sim_env X R q" start p s] a(5) by blast
  have "join_part C c config P q evs k e'" using a e'(2) unfolding join_part_def
    by (intro exI [of _ "insert p A"]) (fastforce simp: handshakers_def)
  then show "\<exists>e' k'. handle_event (sim_env X R q) start ev e = Some e' \<and> join_part C c config P q evs k' e' \<and>
      en_next_cleanup e' = en_next_cleanup e \<and> spends (SimState_submit_send R q) (\<lambda>_. False) k k' (en_net e) (en_net e')"
    using e' by (intro exI [of _ e'] exI [of _ k]) simp
next
  fix q evs evs' k and e :: "'g SimEngine"
  assume "join_part C c config P q evs k e"
  then show "join_part C c config P q (evs @ evs') k e" by (fastforce simp: join_part_def handshakers_def)
qed (simp_all add: join_part_def)

subsection \<open>The broadcast of a message\<close>

interpretation sim_acc: accepting_net "SimState_submit_send R self" "\<lambda>hub. \<forall>q\<in>A. bt_get (sm_inboxes hub) q \<noteq> None" A
  for R :: "'g Rng" and self and A :: "PeerId set"
proof
  fix hub :: "'g SimState" and msg
  assume "\<forall>q\<in>A. bt_get (sm_inboxes hub) q \<noteq> None" "\<forall>dst. send_dst msg = Some dst \<longrightarrow> dst \<in> A"
  moreover have "sm_inboxes (fst (SimState_submit_send R self hub msg)) = sm_inboxes hub"
    using submit_send_frame [of hub R self msg] by (simp add: hub_frame_def)
  ultimately show "snd (SimState_submit_send R self hub msg) = Inr () \<and>
      (\<forall>q\<in>A. bt_get (sm_inboxes (fst (SimState_submit_send R self hub msg))) q \<noteq> None)"
    by (cases "send_dst msg") (simp_all add: submit_send_eq Let_def split: prod.split Classification.split)
qed simp

definition spread_part ::
  "'e Crates \<Rightarrow> Preamble \<Rightarrow> bytes list \<Rightarrow> bytes \<Rightarrow> bytes \<Rightarrow> ChannelId \<Rightarrow> MessageId \<Rightarrow> PeerId set \<Rightarrow> PeerId \<Rightarrow> PeerId \<Rightarrow>
   NetEvent list \<Rightarrow> nat \<Rightarrow> 'g SimEngine \<Rightarrow> bool" where
  "spread_part X p shards payload b c m P origin q evs k e \<longleftrightarrow> encoded_message X payload p shards \<and>
     (if q = origin then origin_part X p shards b c m (P - {q}) [] k e
      else relay_part X sink_try_send p shards payload b c m (P - {q}) [] evs k e)"

interpretation spread: sim_protocol X R P start "spread_part X p shards payload b c m P origin"
  "\<lambda>_. session_event shards b c m" "\<lambda>q. session_msg shards b c m (P - {q})"
  for X :: "'e Crates" and R :: "'g Rng" and P start p shards payload b c m origin
proof
  fix q ev evs k and e :: "'g SimEngine"
  assume a: "spread_part X p shards payload b c m P origin q (ev # evs) k e" "session_event shards b c m ev" "still P start 0 (en_net e)"
  let ?send = "SimState_submit_send R q"
  have net: "\<forall>q\<in>P - {q}. bt_get (sm_inboxes (en_net e)) q \<noteq> None" using stillD(6) [OF a(3)] sim_open_inbox by auto
  have msg: "encoded_message X payload p shards" using a(1) by (simp add: spread_part_def)
  have h: "hashes p = map (sha256 X) shards" using encoded_hashes [OF msg] by simp
  have "\<exists>e' k'. handle_event (sim_env X R q) start ev e = Some e' \<and> spread_part X p shards payload b c m P origin q evs k' e' \<and>
      accepting_net.pays ?send (\<lambda>hub. \<forall>q\<in>P - {q}. bt_get (sm_inboxes hub) q \<noteq> None) (P - {q}) shards b c m k k' e e'"
  proof (cases "q = origin")
    case True
    then have "origin_part X p shards b c m (P - {q}) [] k e" using a(1) by (simp add: spread_part_def)
    from sim_acc.origin_step [OF this a(2) net h, where R = R and self = q and T = sink_try_send and now = start] show ?thesis
      using True msg by (simp add: spread_part_def sim_env_def)
  next
    case False
    then have "relay_part X sink_try_send p shards payload b c m (P - {q}) [] (ev # evs) k e" using a(1) by (simp add: spread_part_def)
    from sim_acc.relay_step [OF msg this a(2) net, where R = R and self = q and now = start] show ?thesis
      using False msg by (simp add: spread_part_def sim_env_def)
  qed
  then show "\<exists>e' k'. handle_event (sim_env X R q) start ev e = Some e' \<and> spread_part X p shards payload b c m P origin q evs k' e' \<and>
      en_next_cleanup e' = en_next_cleanup e \<and> spends ?send (session_msg shards b c m (P - {q})) k k' (en_net e) (en_net e')"
    unfolding sim_acc.pays_def by blast
next
  fix q evs evs' k and e :: "'g SimEngine"
  assume "spread_part X p shards payload b c m P origin q evs k e"
  then show "spread_part X p shards payload b c m P origin q (evs @ evs') k e"
    using relay_part_append by (auto simp: spread_part_def split: if_splits)
next
  fix q msg dst
  assume "session_msg shards b c m (P - {q}) msg" "send_dst msg = Some dst"
  from session_msg_event [OF this] show "dst \<in> P \<and> session_event shards b c m (the (sent_event q msg))" by simp
qed (simp add: spread_part_def part_net)

subsection \<open>Setting up a mesh\<close>

text \<open>A loop that makes one step of progress with each round, at the cost \<open>w\<close>.\<close>

lemma try_each_progress:
  assumes "\<And>D k x st. x \<in> set xs \<Longrightarrow> I D (w + k) st \<Longrightarrow> \<exists>st'. f x st = (st', Inr ()) \<and> I (insert x D) k st'"
    and "I D (length xs * w + k) st"
  shows "\<exists>st'. try_each f xs st = (st', Inr ()) \<and> I (D \<union> set xs) k st'"
  using assms
proof (induction xs arbitrary: D st)
  case (Cons x xs)
  have "I D (w + (length xs * w + k)) st" using Cons.prems(2) by (simp add: add.assoc)
  then obtain st1 where st1: "f x st = (st1, Inr ())" "I (insert x D) (length xs * w + k) st1" using Cons.prems(1) by fastforce
  have "\<exists>st'. try_each f xs st1 = (st', Inr ()) \<and> I (insert x D \<union> set xs) k st'"
    by (rule Cons.IH [OF Cons.prems(1) st1(2)]) simp_all
  then show ?case using st1(1) by simp
qed simp

text \<open>A runner whose hub is still and whose engines, one per peer, satisfy \<open>Q\<close>.\<close>

definition staged :: "PeerId set \<Rightarrow> Instant \<Rightarrow> nat \<Rightarrow> (PeerId \<Rightarrow> 'g SimEngine \<Rightarrow> bool) \<Rightarrow> 'g SimRunner \<Rightarrow> bool" where
  "staged P start k Q r \<longleftrightarrow> {q. bt_get (sr_engines r) q \<noteq> None} = P \<and> still P start k (sr_hub r) \<and>
     (\<forall>q e. bt_get (sr_engines r) q = Some e \<longrightarrow> start < en_next_cleanup e \<and> Q q e)"

lemma stagedD:
  assumes "staged P start k Q r" "q \<in> P"
  shows "\<exists>e. bt_get (sr_engines r) q = Some e \<and> start < en_next_cleanup e \<and> Q q e"
  using assms unfolding staged_def by blast

definition new_engine :: "'g SimEngine \<Rightarrow> bool" where
  "new_engine e \<longleftrightarrow> en_channels e = bt_empty \<and> en_connected e = bt_empty \<and> en_tombstones e = bt_empty \<and>
     en_parked_chunks e = bt_empty \<and> en_delivered e = []"

lemma still_endpoint:
  assumes st: "still P start k hub" and ep: "SimNetHub_endpoint hub peer = (hub', cid)"
  shows "still (insert peer P) start k hub'" "agenda hub' = agenda hub"
proof -
  note d = stillD [OF st]
  have hub: "hub' = hub\<lparr>sm_next_channel := Suc cid, sm_channels := bt_insert cid \<lparr>uc_items = [], uc_receiver = True\<rparr> (sm_channels hub),
      sm_inboxes := bt_insert peer cid (sm_inboxes hub)\<rparr>" and cid: "cid = sm_next_channel hub"
    using ep by (auto simp: SimNetHub_endpoint_def Let_def)
  have fresh: "bt_get (sm_inboxes hub) q \<noteq> Some cid" for q
    using d(9) cid unfolding boxes_inv_def by (metis less_irrefl)
  have "sim_open hub' q \<longleftrightarrow> q = peer \<or> sim_open hub q" "sim_mailbox hub' q = (if q = peer then [] else sim_mailbox hub q)" for q
    using fresh [of q] by (auto simp: hub sim_open_def sim_mailbox_def box_open_def box_items_def channel_items_def split: option.splits)
  moreover have "sim_inv hub'" using endpoint_inv [OF d(1), of peer] by (simp add: ep)
  moreover have "calm hub'" "seq_room k hub'" using d(2,3) by (simp_all add: hub calm_def seq_room_def)
  ultimately show "still (insert peer P) start k hub'" using d(4-8) by (auto simp: still_def calm_inv_def hub)
  show "agenda hub' = agenda hub" by (simp add: agenda_def hub)
qed

lemma add_peer_staged:
  assumes "staged P start k (\<lambda>_. new_engine) r"
  shows "staged (insert peer P) start k (\<lambda>_. new_engine) (add_peer peer r)" "agenda (sr_hub (add_peer peer r)) = agenda (sr_hub r)"
proof -
  obtain hub cid where ep: "SimNetHub_endpoint (sr_hub r) peer = (hub, cid)" by fastforce
  have "still P start k (sr_hub r)" using assms by (simp add: staged_def)
  note s = still_endpoint [OF this ep]
  have "SimClock_now hub = start" using stillD(4,5) [OF s(1)] by (simp add: SimClock_now_def SimState_wall_now_def)
  then have "start < en_next_cleanup (Engine_with_config peer hub [] EngineConfig_default (SimClock_now hub)) \<and>
      new_engine (Engine_with_config peer hub [] EngineConfig_default (SimClock_now hub))"
    by (simp add: Engine_with_config_def EngineConfig_default_def from_secs_def new_engine_def)
  with s assms show "staged (insert peer P) start k (\<lambda>_. new_engine) (add_peer peer r)" "agenda (sr_hub (add_peer peer r)) = agenda (sr_hub r)"
    by (auto simp: staged_def add_peer_def ep split: if_splits)
qed

lemma runner_staged:
  assumes "fp_rules plan = []" "k < 2 ^ 64"
  shows "staged (set peers) start k (\<lambda>_. new_engine) (SimRunner_new peers plan start)" "agenda (sr_hub (SimRunner_new peers plan start)) = []"
proof -
  have f: "staged (set peers \<union> P) start k (\<lambda>_. new_engine) (fold add_peer peers r) \<and> agenda (sr_hub (fold add_peer peers r)) = agenda (sr_hub r)"
    if "staged P start k (\<lambda>_. new_engine) r" for P and r :: "'a SimRunner"
    using that by (induction peers arbitrary: P r) (use add_peer_staged in fastforce)+
  let ?r = "\<lparr>sr_hub = SimState_new plan start, sr_seed = fp_seed plan, sr_engines = bt_empty, sr_events = bt_empty\<rparr>"
  have "sim_inv (SimState_new plan start)" by simp
  then have "staged {} start k (\<lambda>_. new_engine) ?r" "agenda (sr_hub ?r) = []"
    using assms by (simp_all add: staged_def still_def calm_inv_def calm_def seq_room_def SimState_new_def sim_open_def sim_mailbox_def
        box_open_def box_items_def agenda_def)
  with f [of "{}" ?r] show "staged (set peers) start k (\<lambda>_. new_engine) (SimRunner_new peers plan start)"
    "agenda (sr_hub (SimRunner_new peers plan start)) = []"
    by (simp_all add: SimRunner_new_def)
qed

lemma subscribe_all_staged:
  fixes X :: "'e Crates" and R :: "'g Rng"
  assumes "staged P start k (\<lambda>_. new_engine) r" "agenda (sr_hub r) = []"
  shows "\<exists>r'. subscribe_all X R C c config r = (r', Inr ()) \<and> agenda (sr_hub r') = [] \<and>
    staged P start k (\<lambda>_ e. member C c config {} e \<and> en_connected e = bt_empty) r'"
proof -
  let ?joined = "\<lambda>e. member C c config {} e \<and> en_connected e = bt_empty"
  let ?I = "\<lambda>D (_ :: nat) r. staged P start k (\<lambda>q e. if q \<in> D then ?joined e else new_engine e) r \<and> agenda (sr_hub r) = []"
  let ?f = "\<lambda>q. with_engine q (Engine_subscribe (sim_env X R q) c (rs_relay_factory_seeded (pb_decode C) config (derive_seed (sr_seed r) q)))
    :: 'g SimRunner \<Rightarrow> 'g SimRunner \<times> ('e SimError + unit)"
  have keys: "set (bt_keys (sr_engines r)) = P" using assms(1) by (auto simp: staged_def)
  have "\<exists>r'. ?f q r1 = (r', Inr ()) \<and> ?I (insert q D) j r'" if "q \<in> P" and I: "?I D (0 + j) r1" for q D r1 and j :: nat
  proof -
    obtain e where e: "bt_get (sr_engines r1) q = Some e" "start < en_next_cleanup e" "if q \<in> D then ?joined e else new_engine e"
      using stagedD [of P start k _ r1 q] I \<open>q \<in> P\<close> by blast
    let ?fac = "rs_relay_factory_seeded (pb_decode C) config (derive_seed (sr_seed r) q)"
    obtain e' where e': "Engine_subscribe (sim_env X R q) c ?fac (e\<lparr>en_net := sr_hub r1\<rparr>) = (e', Inr ())" "?joined e'"
      "en_net e' = sr_hub r1" "start < en_next_cleanup e'"
    proof (cases "q \<in> D")
      case True
      then have "member C c config {} e" "en_connected e = bt_empty" using e(3) by simp_all
      then show thesis using that [of "e\<lparr>en_net := sr_hub r1\<rparr>"] e(2) by (auto simp: Engine_subscribe_def member_def)
    next
      case False
      let ?e = "e\<lparr>en_net := sr_hub r1, en_channels := bt_insert c (Channel_new c ?fac) (en_channels e)\<rparr>"
      have n: "new_engine e" using e(3) False by simp
      then have "bt_keys (en_channels ?e) = [c]" by (simp add: new_engine_def bt_eval)
      then have "member C c config {} ?e" using n by (auto simp: member_def new_engine_def Channel_new_def)
      then show thesis using that [of ?e] n e(2) by (simp add: Engine_subscribe_def new_engine_def)
    qed
    have "?f q r1 = (put_engine q e' r1, Inr ())" by (simp add: with_engine_def e(1) e'(1))
    moreover have "?I (insert q D) j (put_engine q e' r1)"
      using I e' \<open>q \<in> P\<close> unfolding staged_def put_engine_get put_engine_frame by (auto split: if_splits)
    ultimately show ?thesis by blast
  qed
  moreover have "?I {} (length (bt_keys (sr_engines r)) * 0 + 0) r" using assms by simp
  ultimately have "\<exists>r'. try_each ?f (bt_keys (sr_engines r)) r = (r', Inr ()) \<and> ?I ({} \<union> set (bt_keys (sr_engines r))) 0 r'"
    using keys by (intro try_each_progress [where I = ?I and w = 0]) blast+
  then obtain r' where r': "try_each ?f (bt_keys (sr_engines r)) r = (r', Inr ())"
    "staged P start k (\<lambda>q e. if q \<in> P then ?joined e else new_engine e) r'" "agenda (sr_hub r') = []"
    using keys by auto
  have "staged P start k (\<lambda>_. ?joined) r'" using r'(2) unfolding staged_def by (metis (mono_tags, lifting) mem_Collect_eq option.distinct(1))
  then show ?thesis using r'(1,3) by (simp add: subscribe_all_def Let_def)
qed

text \<open>While connecting, every pair in \<open>D\<close> is connected, and a connected peer has the handshake on its way.\<close>

definition greets :: "Preamble PbCodec \<Rightarrow> ChannelId \<Rightarrow> RsConfig \<Rightarrow> (PeerId \<times> PeerId) set \<Rightarrow> (PeerId \<times> NetEvent) list \<Rightarrow> PeerId \<Rightarrow> 'g SimEngine \<Rightarrow> bool" where
  "greets C c config D evs q e \<longleftrightarrow> member C c config {} e \<and> (\<forall>d\<in>bs_elems (en_connected e). q \<in> handshakers (for_peer d evs)) \<and>
     (\<forall>d. (q, d) \<in> D \<longrightarrow> d = q \<or> d \<in> bs_elems (en_connected e))"

definition connecting ::
  "Preamble PbCodec \<Rightarrow> ChannelId \<Rightarrow> RsConfig \<Rightarrow> PeerId set \<Rightarrow> Instant \<Rightarrow> nat \<Rightarrow> nat \<Rightarrow> (PeerId \<times> PeerId) set \<Rightarrow> nat \<Rightarrow> 'g SimRunner \<Rightarrow> bool" where
  "connecting C c config P start room K D k r \<longleftrightarrow>
     staged P start (room + 2 * k + length (agenda (sr_hub r))) (greets C c config D (agenda (sr_hub r))) r \<and>
     (\<forall>(q, ev)\<in>set (agenda (sr_hub r)). q \<in> P \<and> join_event c P q ev) \<and> length (agenda (sr_hub r)) + k \<le> K"

lemma handshakers_append [simp]: "handshakers (xs @ ys) = handshakers xs \<union> handshakers ys"
  by (auto simp: handshakers_def)

lemma greets_later: "greets C c config D evs q e \<Longrightarrow> greets C c config D (evs @ new) q e"
  by (auto simp: greets_def)

lemma connect_step:
  assumes con: "connecting C c config P start room K D (Suc k) r" and q: "q \<in> P" "d \<in> P" "d \<noteq> q"
  shows "\<exists>r'. with_engine q (Engine_connect (sim_env X R q) d) r = (r', Inr ()) \<and> connecting C c config P start room K (insert (q, d) D) k r'"
proof -
  let ?hub = "sr_hub r" and ?E = "sim_env X R q"
  have st: "staged P start (Suc (Suc (room + 2 * k + length (agenda ?hub)))) (greets C c config D (agenda ?hub)) r"
    and ev: "\<forall>(q, ev)\<in>set (agenda ?hub). q \<in> P \<and> join_event c P q ev" and K: "length (agenda ?hub) + Suc k \<le> K"
    using con by (simp_all add: connecting_def)
  obtain e where e: "bt_get (sr_engines r) q = Some e" "start < en_next_cleanup e" "greets C c config D (agenda ?hub) q e"
    using stagedD [OF st q(1)] by blast
  have hub: "still P start (Suc (Suc (room + 2 * k + length (agenda ?hub)))) ?hub" using st by (simp add: staged_def)
  obtain e' new where e': "Engine_connect ?E d (e\<lparr>en_net := ?hub\<rparr>) = (e', Inr ())"
    "greets C c config (insert (q, d) D) (agenda ?hub @ new) q e'" "start < en_next_cleanup e'" "length new \<le> 1"
    "still P start (room + 2 * k + length (agenda ?hub @ new)) (en_net e')" "agenda (en_net e') = agenda ?hub @ new"
    "\<forall>(q, ev)\<in>set new. q \<in> P \<and> join_event c P q ev"
  proof (cases "d \<in> bs_elems (en_connected e)")
    case True
    then have "Engine_connect ?E d (e\<lparr>en_net := ?hub\<rparr>) = (e\<lparr>en_net := ?hub\<rparr>, Inr ())"
      by (simp add: Engine_connect_def register_peer_and_handshake_def bt_contains_bs_elems del: bt_contains_iff)
    then show thesis using that [of "e\<lparr>en_net := ?hub\<rparr>" "[]"] e(2,3) True still_mono [OF hub] by (simp add: greets_def)
  next
    case False
    let ?msg = "SendHandshake d PROTOCOL_VERSION [c] (en_local_peer_str e)"
    have keys: "bt_keys (en_channels e) = [c]" using e(3) by (simp add: greets_def member_def)
    obtain hub' where hub': "SimState_submit_send R q ?hub ?msg = (hub', Inr ())"
      "still P start (Suc (room + 2 * k + length (agenda ?hub))) hub'"
      "agenda hub' = agenda ?hub @ [(d, EvHandshake q PROTOCOL_VERSION [c] (en_local_peer_str e))]"
      using still_send [OF hub, of ?msg d R q] q(2) by auto
    let ?e = "e\<lparr>en_connected := bs_insert d (en_connected e), en_net := hub'\<rparr>"
    let ?new = "[(d, EvHandshake q PROTOCOL_VERSION [c] (en_local_peer_str e))]"
    have "Engine_connect ?E d (e\<lparr>en_net := ?hub\<rparr>) = (?e, Inr ())"
      using False keys hub'(1) unfolding bt_contains_bs_elems [symmetric]
      by (simp add: Engine_connect_def register_peer_and_handshake_def net_send_def sim_env_def)
    moreover have "greets C c config (insert (q, d) D) (agenda ?hub @ ?new) q ?e"
      using e(3) by (auto simp: greets_def member_def handshakers_def)
    moreover have "\<forall>(p, ev)\<in>set ?new. p \<in> P \<and> join_event c P p ev" using q by (auto simp: join_event_def)
    ultimately show thesis using that [of ?e ?new] e(2) hub'(2,3) by simp
  qed
  let ?r = "put_engine q e' r"
  have "with_engine q (Engine_connect ?E d) r = (?r, Inr ())" by (simp add: with_engine_def e(1) e'(1))
  moreover have "connecting C c config P start room K (insert (q, d) D) k ?r"
    unfolding connecting_def staged_def
  proof (intro conjI)
    show "{q. bt_get (sr_engines ?r) q \<noteq> None} = P" using st q(1) by (auto simp: staged_def put_engine_get)
    show "still P start (room + 2 * k + length (agenda (sr_hub ?r))) (sr_hub ?r)" using e'(5,6) by simp
    show "\<forall>(q, ev)\<in>set (agenda (sr_hub ?r)). q \<in> P \<and> join_event c P q ev" using ev e'(6,7) by auto
    show "length (agenda (sr_hub ?r)) + k \<le> K" using K e'(4,6) by simp
    have "greets C c config (insert (q, d) D) evs p x = greets C c config D evs p x" if "p \<noteq> q" for evs p and x :: "'a SimEngine"
      using that by (simp add: greets_def)
    then show "\<forall>p x. bt_get (sr_engines ?r) p = Some x \<longrightarrow> start < en_next_cleanup x \<and>
        greets C c config (insert (q, d) D) (agenda (sr_hub ?r)) p x"
      using st e'(2,3,6) by (auto simp: staged_def put_engine_get intro: greets_later)
  qed
  ultimately show ?thesis by blast
qed

lemma connect_mesh_connecting:
  fixes X :: "'e Crates" and R :: "'g Rng"
  assumes "connecting C c config P start room K {} (card P * card P) r"
  shows "\<exists>r'. connect_full_mesh X R r = (r', Inr ()) \<and> connecting C c config P start room K (P \<times> P) 0 r'"
proof -
  let ?peers = "bt_keys (sr_engines r)"
  have keys: "set ?peers = P" using assms by (auto simp: connecting_def staged_def)
  then have len: "length ?peers = card P" using distinct_card [OF distinct_bt_keys, of "sr_engines r"] by simp
  let ?g = "\<lambda>q d r. if d \<noteq> q then with_engine q (Engine_connect (sim_env X R q) d) r else (r, Inr ())
    :: 'g SimRunner \<times> ('e SimError + unit)"
  let ?I = "connecting C c config P start room K"
  have weaken: "?I D (Suc k) r1 \<Longrightarrow> ?I (insert (q, q) D) k r1" for q D k and r1 :: "'g SimRunner"
    unfolding connecting_def staged_def using still_mono by (fastforce simp: greets_def)
  have inner: "\<exists>r'. ?g q d r1 = (r', Inr ()) \<and> ?I (D \<union> {q} \<times> insert d S) k r'"
    if "q \<in> P" "d \<in> P" "?I (D \<union> {q} \<times> S) (1 + k) r1" for q d D S k r1
  proof -
    have eq: "D \<union> {q} \<times> insert d S = insert (q, d) (D \<union> {q} \<times> S)" by auto
    show ?thesis
    proof (cases "d = q")
      case True
      then show ?thesis using weaken [of "D \<union> {q} \<times> S" k r1 q] that(3) unfolding eq by simp
    next
      case False
      then show ?thesis using connect_step [of C c config P start room K "D \<union> {q} \<times> S" k r1 q d X R] that unfolding eq by simp
    qed
  qed
  have outer: "\<exists>r'. try_each (?g q) ?peers r1 = (r', Inr ()) \<and> ?I (insert q D \<times> P) k r'"
    if "q \<in> P" "?I (D \<times> P) (card P + k) r1" for q D k r1
  proof -
    have "?I (D \<times> P \<union> {q} \<times> {}) (length ?peers * 1 + k) r1" using that(2) len by simp
    then have "\<exists>r'. try_each (?g q) ?peers r1 = (r', Inr ()) \<and> ?I (D \<times> P \<union> {q} \<times> ({} \<union> set ?peers)) k r'"
      using that(1) keys by (intro try_each_progress [where I = "\<lambda>S. ?I (D \<times> P \<union> {q} \<times> S)" and w = 1] inner) auto
    moreover have "D \<times> P \<union> {q} \<times> P = insert q D \<times> P" by auto
    ultimately show ?thesis using keys by simp
  qed
  have "?I ({} \<times> P) (length ?peers * card P + 0) r" using assms len by simp
  then have "\<exists>r'. try_each (\<lambda>q. try_each (?g q) ?peers) ?peers r = (r', Inr ()) \<and> ?I (({} \<union> set ?peers) \<times> P) 0 r'"
    using keys by (intro try_each_progress [where I = "\<lambda>D. ?I (D \<times> P)" and w = "card P"] outer) auto
  then show ?thesis using keys by (simp add: connect_full_mesh_def Let_def)
qed

lemma connected_running:
  fixes r :: "'g SimRunner"
  assumes con: "connecting C c config P start room K (P \<times> P) 0 r" and inv: "runner_inv X r"
  shows "running X P start (join_part C c config P) (join_event c P) room K r"
proof -
  have st: "staged P start (room + length (agenda (sr_hub r))) (greets C c config (P \<times> P) (agenda (sr_hub r))) r"
    and ev: "\<forall>(q, ev)\<in>set (agenda (sr_hub r)). q \<in> P \<and> join_event c P q ev" "length (agenda (sr_hub r)) \<le> K"
    using con by (simp_all add: connecting_def)
  have "join_part C c config P q (for_peer q (agenda (sr_hub r))) 0 e" if e: "bt_get (sr_engines r) q = Some e" for q e
  proof -
    have "q \<in> P" using st e by (auto simp: staged_def)
    have "p \<in> handshakers (for_peer q (agenda (sr_hub r)))" if p: "p \<in> P - {q}" for p
    proof -
      have "p \<in> P" using p by simp
      then obtain x :: "'g SimEngine" where "greets C c config (P \<times> P) (agenda (sr_hub r)) p x" using stagedD [OF st] by blast
      then show ?thesis using \<open>q \<in> P\<close> p by (auto simp: greets_def)
    qed
    moreover have "member C c config {} e" using st e by (simp add: staged_def greets_def)
    ultimately show ?thesis unfolding join_part_def by blast
  qed
  then show ?thesis using st ev inv unfolding running_def staged_def by (intro conjI exI [of _ "\<lambda>_. 0"]) simp_all
qed

subsection \<open>Publishing into the mesh\<close>

lemma relay_factory_ok:
  assumes "encoded_message X payload p shards" "pb_decode C b = Some p"
  shows "\<exists>s. rs_relay_factory_seeded (pb_decode C) config base n b = (n + 1, Inr s) \<and> RsStrategy_new_relay_with_seed p config (base + n) = Inr s"
proof -
  obtain l where "encodes X payload p shards l" "sha_ok X" using assms(1) by (auto simp: encoded_message_def)
  then have "validate_preamble p = Inr ()" using encodes_preamble_ok by (simp add: validate_preamble_iff)
  then show ?thesis using assms(2) by (simp add: rs_relay_factory_seeded_def RsStrategy_new_relay_with_seed_def Let_def)
qed

lemma member_awaits:
  assumes "encoded_message X payload p shards" "pb_decode C b = Some p" "member C c config A e" "engine_inv (rs_inv X) e"
  shows "awaits X p b c m e" "set (subscribers_of e c) = A" "en_delivered e = []" "\<not> is_tombstoned e c m" "\<not> live e (c, m)"
proof -
  obtain ch base where ch: "bt_get (en_channels e) c = Some ch" "ch_sessions ch = bt_empty" "bs_elems (ch_subscribers ch) = A"
    "ch_factory ch = rs_relay_factory_seeded (pb_decode C) config base"
    using assms(3) by (auto simp: member_def)
  show "\<not> live e (c, m)" using ch by (simp add: live_def session_of_eq)
  moreover show "\<not> is_tombstoned e c m" using assms(3) by (simp add: member_def is_tombstoned_def)
  moreover have "bt_get (en_parked_chunks e) (c, m) = None" using assms(3) by (simp add: member_def)
  ultimately show "awaits X p b c m e"
    using relay_factory_ok [OF assms(1,2), of config base "ch_calls ch"] ch assms(4) unfolding awaits_def by metis
  show "set (subscribers_of e c) = A" using ch by (simp add: subscribers_of_def set_bt_keys_bs_elems)
  show "en_delivered e = []" using assms(3) by (simp add: member_def)
qed

lemma origin_carries:
  assumes "RsStrategy_new_origin_with_seed X payload config seed = Some (Inr s)" "encode X payload config = Some (Inr (p, shards))"
    "sha_ok X" "rs_ok X"
  shows "carries X p shards {} s"
proof -
  have s: "s = RsStrategy_with config p (map Some shards) (EmitPlanner_new (word_of_nat (length shards)) seed ModeOrigin)"
    using assms(1,2) by (auto simp: RsStrategy_new_origin_with_seed_def)
  show ?thesis using origin_inv [OF assms(1,3,4)] by (auto simp: carries_def s RsStrategy_with_def genuine_def)
qed

lemma chunk_ids_cover:
  assumes "encoded_message X payload p shards" "\<forall>i. unat i < length shards \<longrightarrow> i \<in> chunk_ids evs"
  shows "{..<length shards} \<subseteq> unat ` chunk_ids evs"
proof
  fix j assume j: "j \<in> {..<length shards}"
  then have "unat (word_of_nat j :: u32) = j" using encoded_shards(2) [OF assms(1)] by (simp add: unat_of_nat)
  then show "j \<in> unat ` chunk_ids evs" using j assms(2) by (intro image_eqI [of _ _ "word_of_nat j"]) auto
qed

lemma publish_into_hub:
  fixes X :: "'e Crates" and R :: "'g Rng" and e :: "'g SimEngine"
  assumes hub: "still P start (i + 2 * (card (P - {origin}) * (2 * length shards + 2))) hub" "agenda hub = []"
    and e: "member C c config (P - {origin}) e" "engine_inv (rs_inv X) e"
    and enc: "encode X payload pconfig = Some (Inr (p, shards))" "sha_ok X" "rs_ok X" and b: "pb_decode C b = Some p"
    and s: "RsStrategy_new_origin_with_seed X payload pconfig seed = Some (Inr s)"
  shows "\<exists>e' k'. Engine_publish (sim_env X R origin) now c m s b (e\<lparr>en_net := hub\<rparr>) = Some (e', Inr ()) \<and>
    origin_part X p shards b c m (P - {origin}) [] k' e' \<and> en_next_cleanup e' = en_next_cleanup e \<and>
    k' + length (agenda (en_net e')) \<le> card (P - {origin}) * (2 * length shards + 2) \<and>
    still P start (i + 2 * k' + length (agenda (en_net e'))) (en_net e') \<and>
    (\<forall>(q, ev)\<in>set (agenda (en_net e')). q \<in> P \<and> session_event shards b c m ev) \<and>
    (\<forall>q\<in>P - {origin}. \<exists>rest. for_peer q (agenda (en_net e')) = EvSessionOpen origin c m b [] # rest \<and> {..<length shards} \<subseteq> unat ` chunk_ids rest)"
proof -
  let ?e = "e\<lparr>en_net := hub\<rparr>" and ?A = "P - {origin}" and ?k = "card (P - {origin}) * (2 * length shards + 2)"
  note msg = encoded_messageI [OF enc] and d = stillD [OF hub(1)]
  have mem: "member C c config ?A ?e" "engine_inv (rs_inv X) ?e" using e by simp_all
  have aw: "awaits X p b c m ?e" "set (subscribers_of ?e c) = ?A" "en_delivered ?e = []" "\<not> is_tombstoned ?e c m" "\<not> live ?e (c, m)"
    using member_awaits [OF msg b mem] by blast+
  obtain ch where ch: "bt_get (en_channels ?e) c = Some ch" "bt_get (ch_sessions ch) m = None" "bs_elems (ch_subscribers ch) = ?A"
    using mem(1) by (auto simp: member_def)
  have net: "\<forall>q\<in>?A. bt_get (sm_inboxes (en_net ?e)) q \<noteq> None" using d(6) sim_open_inbox by auto
  obtain e' se' where e': "Engine_publish (sim_env X R origin) now c m s b ?e = Some (e', Inr ())" "se_state se' = SOrigin"
    "accepting_net.forwards (SimState_submit_send R origin) (\<lambda>hub. \<forall>q\<in>?A. bt_get (sm_inboxes hub) q \<noteq> None) ?A X p shards b c m ?k ?e e' se'"
    "en_delivered e' = en_delivered ?e"
    using sim_acc.publish_forwards [OF ch(1,2) aw(2) net origin_carries [OF s enc] aw(4), where R = R and self = origin and T = sink_try_send and now = now and b = b]
    unfolding sim_env_def by blast
  let ?k' = "session_pot c m ?A e' se'"
  have fw: "forwarding X p shards b c m ?A e' se'" "en_next_cleanup e' = en_next_cleanup e"
    and sp: "spends (SimState_submit_send R origin) (session_msg shards b c m ?A) ?k ?k' hub (en_net e')"
    using e'(3) unfolding sim_acc.forwards_def by simp_all
  have part: "origin_part X p shards b c m ?A [] ?k' e'" using fw(1) e'(2,4) aw(3) by (auto simp: origin_part_def)
  have posted: "dst \<in> P \<and> session_event shards b c m (the (sent_event origin msg))"
    if "session_msg shards b c m ?A msg" "send_dst msg = Some dst" for msg dst using session_msg_event [OF that] by blast
  obtain new where new: "agenda (en_net e') = new" "?k' + length new \<le> ?k" "\<forall>(q, ev)\<in>set new. q \<in> P \<and> session_event shards b c m ev"
    and st: "still P start (i + 2 * ?k' + length new) (en_net e')"
    using spends_posts [OF sp hub(1), of "\<lambda>_. session_event shards b c m", OF posted] unfolding hub(2) append_Nil by blast
  have evs: "\<exists>rest. for_peer q new = EvSessionOpen origin c m b [] # rest \<and> {..<length shards} \<subseteq> unat ` chunk_ids rest" if q: "q \<in> ?A" for q
  proof -
    have "tables_inv ?e" using mem(2) by (simp add: engine_inv_def)
    then have unopened: "bt_get (en_opened_to ?e) (c, m) = None" using tables_invD(3) aw(5) by blast
    have "?A = bs_elems (ch_subscribers ch)" using ch(3) by simp
    moreover have "card ?A * (length shards + 2) \<le> i + 2 * ?k" by (simp add: algebra_simps)
    then have "calm_inv (card ?A * (length shards + 2)) (en_net ?e)" using still_mono [OF hub(1)] by (simp add: still_def)
    moreover have "\<forall>q\<in>?A. q \<noteq> origin \<and> sim_open (en_net ?e) q" using d(6) by simp
    ultimately obtain e2 where e2: "Engine_publish (sim_env X R origin) now c m s b ?e = Some (e2, Inr ())"
      "\<forall>q\<in>?A. \<exists>evs. in_transit (en_net e2) q = in_transit (en_net ?e) q @ EvSessionOpen origin c m b [] # evs \<and>
        (\<forall>ev\<in>set evs. shard_event origin c m shards ev) \<and> (\<forall>i. unat i < length shards \<longrightarrow> i \<in> chunk_ids evs)"
      using reliable_net.publish_spreads [OF sim.reliable_net_axioms [of R origin], of "sim_env X R origin" X shards s ?e c ch m now b, OF _ _ new_origin_ok [OF s enc] ch(1,2) unopened]
      unfolding sim_env_def by auto
    have "e2 = e'" using e2(1) e'(1) by simp
    then obtain evs where "in_transit (en_net e') q = in_transit (en_net ?e) q @ EvSessionOpen origin c m b [] # evs"
      "\<forall>i. unat i < length shards \<longrightarrow> i \<in> chunk_ids evs" using e2(2) q by blast
    then show ?thesis using still_transit [OF st, of q] still_transit [OF hub(1), of q] q new(1) hub(2) chunk_ids_cover [OF msg]
      by (intro exI [of _ evs]) simp
  qed
  show ?thesis
    by (intro exI [of _ e'] exI [of _ ?k'] conjI e'(1) part fw(2))
      (use new st evs in \<open>simp_all\<close>)
qed

lemma joined_members:
  assumes "running X P start (join_part C c config P) (join_event c P) room K r" "agenda (sr_hub r) = []"
  shows "still P start room (sr_hub r)" "bt_get (sr_engines r) q = Some e \<Longrightarrow> start < en_next_cleanup e \<and> member C c config (P - {q}) e"
proof -
  show "still P start room (sr_hub r)" using assms still_mono [of P start _ "sr_hub r" room] by (auto simp: running_def)
  show "start < en_next_cleanup e \<and> member C c config (P - {q}) e" if "bt_get (sr_engines r) q = Some e"
    using assms that by (auto simp: running_def join_part_def handshakers_def) (metis subset_antisym)
qed

lemma subscriber_part:
  assumes "encoded_message X payload p shards" "pb_decode C b = Some p" "member C c config (P - {q}) e" "engine_inv (rs_inv X) e" "q \<noteq> origin"
    and "\<exists>rest. evs = EvSessionOpen origin c m b [] # rest \<and> {..<length shards} \<subseteq> unat ` chunk_ids rest"
    and "card (P - {q}) * (2 * length shards + 2) \<le> k"
  shows "spread_part X p shards payload b c m P origin q evs k e"
proof -
  have "awaits X p b c m e" "set (subscribers_of e c) = P - {q}" "en_delivered e = []" using member_awaits [OF assms(1-4)] by blast+
  then have "relay_part X sink_try_send p shards payload b c m (P - {q}) [] evs k e" using assms(6,7) unfolding relay_part_def by blast
  then show ?thesis using assms(1,5) by (simp add: spread_part_def)
qed

lemma publish_running:
  fixes X :: "'e Crates" and R :: "'g Rng"
  assumes run: "running X P start (join_part C c config P) (join_event c P) room K r" and quiet: "agenda (sr_hub r) = []"
    and enc: "encode X payload pconfig = Some (Inr (p, shards))" "sha_ok X" "rs_ok X" and b: "pb_decode C (pb_encode C p) = Some p"
    and origin: "origin \<in> P" and room: "2 * (card P * card P * (2 * length shards + 2)) \<le> room"
  shows "\<exists>r'. SimRunner_publish X R C origin c m payload pconfig r = Some (r', Inr ()) \<and>
    running X P start (spread_part X p shards payload (pb_encode C p) c m P origin)
      (\<lambda>_. session_event shards (pb_encode C p) c m) 0 (card P * card P * (2 * length shards + 2)) r'"
proof -
  let ?b = "pb_encode C p" and ?A = "P - {origin}" and ?w = "2 * length shards + 2"
  let ?k = "card ?A * ?w"
  note msg = encoded_messageI [OF enc] and hub = joined_members(1) [OF run quiet] and parts = joined_members(2) [OF run quiet]
  have inv: "runner_inv X r" and dom: "{q. bt_get (sr_engines r) q \<noteq> None} = P" using run by (simp_all add: running_def)
  obtain e where e: "bt_get (sr_engines r) origin = Some e" using dom origin by auto
  obtain s where s: "RsStrategy_new_origin_with_seed X payload pconfig (derive_seed (sr_seed r) origin) = Some (Inr s)"
    using enc(1) by (auto simp: RsStrategy_new_origin_with_seed_def)
  have n: "card P = Suc (card ?A)" using origin card_Suc_Diff1 [of P origin] by simp
  then have total: "card P * ?k \<le> card P * card P * ?w" by (simp add: algebra_simps)
  let ?i = "2 * (card ?A * ?k)"
  have "?i + 2 * ?k \<le> room" using total room n by simp
  note pub = publish_into_hub [OF still_mono [OF hub this] quiet conjunct2 [OF parts [OF e]] runner_invD(2) [OF inv e] enc b s]
  obtain e' k' where e': "Engine_publish (sim_env X R origin) (SimClock_now (sr_hub r)) c m s ?b (e\<lparr>en_net := sr_hub r\<rparr>) = Some (e', Inr ())"
    "origin_part X p shards ?b c m ?A [] k' e'" "en_next_cleanup e' = en_next_cleanup e" "k' + length (agenda (en_net e')) \<le> ?k"
    "still P start (?i + 2 * k' + length (agenda (en_net e'))) (en_net e')"
    "\<forall>(q, ev)\<in>set (agenda (en_net e')). q \<in> P \<and> session_event shards ?b c m ev"
    "\<And>q. q \<in> ?A \<Longrightarrow> \<exists>rest. for_peer q (agenda (en_net e')) = EvSessionOpen origin c m ?b [] # rest \<and> {..<length shards} \<subseteq> unat ` chunk_ids rest"
    using pub [of R "SimClock_now (sr_hub r)" m] by blast
  let ?cr = "(\<lambda>_. ?k)(origin := k')"
  have p: "SimRunner_publish X R C origin c m payload pconfig r = Some (put_engine origin e' r, Inr ())"
    by (simp add: SimRunner_publish_def enc(1) s e e'(1))
  have sum: "sum ?cr P = k' + card ?A * ?k" using sum_fun_upd [OF origin, of "\<lambda>_. ?k" k'] n by simp
  have "running X P start (spread_part X p shards payload ?b c m P origin) (\<lambda>_. session_event shards ?b c m) 0 (card P * card P * ?w)
      (put_engine origin e' r)"
    unfolding running_def put_engine_frame put_engine_get
  proof (intro conjI exI [of _ ?cr] SimRunner_publish_inv [OF p inv enc(2,3)] e'(6))
    show "{q. (if q = origin then Some e' else bt_get (sr_engines r) q) \<noteq> None} = P" using dom origin by auto
    show "still P start (0 + 2 * sum ?cr P + length (agenda (en_net e'))) (en_net e')" unfolding sum using still_mono [OF e'(5)] by simp
    show "sum ?cr P + length (agenda (en_net e')) \<le> card P * card P * ?w" unfolding sum using e'(4) total n by simp
    show "\<forall>q x. (if q = origin then Some e' else bt_get (sr_engines r) q) = Some x \<longrightarrow> start < en_next_cleanup x \<and>
        spread_part X p shards payload ?b c m P origin q (for_peer q (agenda (en_net e'))) (?cr q) x"
    proof (intro allI impI)
      fix q x assume x: "(if q = origin then Some e' else bt_get (sr_engines r) q) = Some x"
      show "start < en_next_cleanup x \<and> spread_part X p shards payload ?b c m P origin q (for_peer q (agenda (en_net e'))) (?cr q) x"
      proof (cases "q = origin")
        case True
        then show ?thesis using x msg e'(2,3) parts [OF e] by (simp add: spread_part_def)
      next
        case False
        then have x': "bt_get (sr_engines r) q = Some x" and q: "q \<in> ?A" using x dom by auto
        have "card (P - {q}) * ?w \<le> ?cr q" using False q origin by simp
        then show ?thesis using parts [OF x'] subscriber_part [OF msg b _ runner_invD(2) [OF inv x'] False e'(7) [OF q]] by blast
      qed
    qed
  qed
  then show ?thesis using p by blast
qed

subsection \<open>From the construction of a simulation to its deliveries\<close>

text \<open>
  C2. A simulated broadcast reaches every peer. Without fault rules, a runner over any list of peers that contains the origin is set up as
  in the scenario tests: all engines subscribe to a channel, connect as a full mesh and run to quiescence, the origin publishes a
  payload and the simulation runs to quiescence again. If the encoder accepts the payload, the preamble's codec decodes what it
  encodes and the step budget is at least \<open>n\<^sup>2 (2 k + 2)\<close> for \<open>n\<close> peers and \<open>k\<close> shards, then every call succeeds, the
  handshakes take at most \<open>n\<^sup>2\<close> steps and the broadcast at most \<open>n\<^sup>2 (2 k + 2)\<close> steps, and at the end every peer but the
  origin has delivered exactly the payload, once, and the origin nothing. The sequence counter must have room.
\<close>

theorem simulated_broadcast:
  fixes plan :: "'g FaultPlan" and X :: "'e Crates"
  assumes plan: "fp_rules plan = []" and enc: "encode X payload pconfig = Some (Inr (p, shards))" "sha_ok X" "rs_ok X"
    and codec: "pb_decode C (pb_encode C p) = Some p" and origin: "origin \<in> set peers"
    and seqs: "(card (set peers))\<^sup>2 * (4 * length shards + 6) < 2 ^ 64" and budget: "(card (set peers))\<^sup>2 * (2 * length shards + 2) \<le> max_steps"
  shows "\<exists>r1 r2 r3 r4 r5 n1 n2.
    subscribe_all X R C c config (SimRunner_new peers plan start) = (r1, Inr ()) \<and> connect_full_mesh X R r1 = (r2, Inr ()) \<and>
    run_to_quiescence X R max_steps r2 = Some (r3, Inr n1) \<and> n1 \<le> (card (set peers))\<^sup>2 \<and>
    SimRunner_publish X R C origin c m payload pconfig r3 = Some (r4, Inr ()) \<and>
    run_to_quiescence X R max_steps r4 = Some (r5, Inr n2) \<and> n2 \<le> (card (set peers))\<^sup>2 * (2 * length shards + 2) \<and>
    (\<forall>q\<in>set peers. snd (take_deliveries q r5) =
       (if q = origin then [] else [\<lparr>dm_channel_id = c, dm_message_id = m, dm_payload = payload\<rparr>]))"
proof -
  let ?P = "set peers" and ?n = "card (set peers) * card (set peers)" and ?w = "2 * length shards + 2"
  let ?room = "2 * (?n * ?w)" and ?r0 = "SimRunner_new peers plan start"
  note msg = encoded_messageI [OF enc]
  have "?room + 2 * ?n = (card ?P)\<^sup>2 * (4 * length shards + 6)" by (simp add: power2_eq_square algebra_simps)
  then have "?room + 2 * ?n < 2 ^ 64" using seqs by simp
  note r0 = runner_staged [OF plan this, of peers start]
  obtain r1 where r1: "subscribe_all X R C c config ?r0 = (r1, Inr ())" "agenda (sr_hub r1) = []"
    "staged ?P start (?room + 2 * ?n) (\<lambda>_ e. member C c config {} e \<and> en_connected e = bt_empty) r1"
    using subscribe_all_staged [OF r0] by blast
  have "connecting C c config ?P start ?room ?n {} ?n r1"
    using r1(2,3) unfolding connecting_def staged_def greets_def by simp
  then obtain r2 where r2: "connect_full_mesh X R r1 = (r2, Inr ())" "connecting C c config ?P start ?room ?n (?P \<times> ?P) 0 r2"
    using connect_mesh_connecting by blast
  have "runner_inv X r1" using subscribe_all_inv [OF SimRunner_new_inv] r1(1) by (metis fst_conv)
  then have "runner_inv X r2" using connect_full_mesh_inv r2(1) by (metis fst_conv)
  note run2 = connected_running [OF r2(2) this]
  have "0 + ?n \<le> max_steps" using budget by (simp add: power2_eq_square)
  from join.quiesces [OF run2 this, where R = R] obtain r3 n1 K' where r3: "run_to_quiescence X R max_steps r2 = Some (r3, Inr n1)" "n1 \<le> ?n"
    "running X ?P start (join_part C c config ?P) (join_event c ?P) ?room K' r3" "agenda (sr_hub r3) = []"
    unfolding run_to_quiescence_def add_0 by blast
  obtain r4 where r4: "SimRunner_publish X R C origin c m payload pconfig r3 = Some (r4, Inr ())"
    "running X ?P start (spread_part X p shards payload (pb_encode C p) c m ?P origin) (\<lambda>_. session_event shards (pb_encode C p) c m) 0 (?n * ?w) r4"
    using publish_running [OF r3(3,4) enc codec origin order_refl] by blast
  have "0 + ?n * ?w \<le> max_steps" using budget by (simp add: power2_eq_square)
  from spread.quiesces [OF r4(2) this, where R = R] obtain r5 n2 K5 where r5: "run_to_quiescence X R max_steps r4 = Some (r5, Inr n2)" "n2 \<le> ?n * ?w"
    "running X ?P start (spread_part X p shards payload (pb_encode C p) c m ?P origin) (\<lambda>_. session_event shards (pb_encode C p) c m) 0 K5 r5"
    "agenda (sr_hub r5) = []"
    unfolding run_to_quiescence_def add_0 by blast
  have "snd (take_deliveries q r5) = (if q = origin then [] else [\<lparr>dm_channel_id = c, dm_message_id = m, dm_payload = payload\<rparr>])"
    if q: "q \<in> ?P" for q
  proof -
    obtain e k where e: "bt_get (sr_engines r5) q = Some e" "spread_part X p shards payload (pb_encode C p) c m ?P origin q [] k e"
      using r5(3,4) q by (fastforce simp: running_def)
    then show ?thesis
      by (auto dest!: relay_part_done [OF msg] simp: take_deliveries_def spread_part_def origin_part_def sink_try_send_def DELIVERY_SINK_CAPACITY_def split: if_splits)
  qed
  then show ?thesis using r1(1) r2(1) r3(1,2) r4(1) r5(1,2)
    by (intro exI [of _ r1] exI [of _ r2] exI [of _ r3] exI [of _ r4] exI [of _ r5] exI [of _ n1] exI [of _ n2])
      (simp add: power2_eq_square)
qed

theorem simulated_broadcast_witness:
  "\<exists>r1 r2 r3 r4 r5 n1 n2.
    subscribe_all repetition_crates demo_rng preamble_codec ''c'' demo_config (SimRunner_new [1, 2, 3] (FaultPlan_new demo_rng 7) 0) = (r1, Inr ()) \<and>
    connect_full_mesh repetition_crates demo_rng r1 = (r2, Inr ()) \<and>
    run_to_quiescence repetition_crates demo_rng 100 r2 = Some (r3, Inr n1) \<and>
    SimRunner_publish repetition_crates demo_rng preamble_codec 1 ''c'' ''m'' [7, 9] demo_config r3 = Some (r4, Inr ()) \<and>
    run_to_quiescence repetition_crates demo_rng 100 r4 = Some (r5, Inr n2) \<and> n2 \<le> 54 \<and>
    snd (take_deliveries 2 r5) = [\<lparr>dm_channel_id = ''c'', dm_message_id = ''m'', dm_payload = [7, 9]\<rparr>] \<and>
    snd (take_deliveries 3 r5) = [\<lparr>dm_channel_id = ''c'', dm_message_id = ''m'', dm_payload = [7, 9]\<rparr>] \<and> snd (take_deliveries 1 r5) = []"
proof -
  have rules: "fp_rules (FaultPlan_new demo_rng 7) = []" by (simp add: FaultPlan_new_def)
  have codec: "pb_decode preamble_codec (pb_encode preamble_codec demo_preamble) = Some demo_preamble" by (simp add: preamble_codec_def)
  have card: "card (set [1, 2, 3 :: PeerId]) = 3" by simp
  show ?thesis
    using simulated_broadcast [OF rules demo_encode _ _ codec, of 1 "[1, 2, 3]" 100 demo_rng "''c''" demo_config 0 "''m''"]
    unfolding card by simp blast
qed

end
