(* ===== verification/Authentic.thy ===== *)
theory Authentic
  imports Forwarding
begin

text \<open>
  Nothing is delivered that was not published. The engines of a network announce, forward and deliver only what was
  published under a message identifier, whatever the network loses, delays or reorders: the invariant of an engine
  whose sessions, parked chunks and deliveries stem from publications, kept by every operation over
  any network that transports messages unchanged.
\<close>

subsection \<open>What was published\<close>

record Publication =
  pn_payload :: bytes
  pn_preamble :: Preamble
  pn_shards :: "bytes list"
  pn_announcement :: bytes

type_synonym Publications = "SessionKey \<Rightarrow> Publication option"

definition publication_ok :: "'e Crates \<Rightarrow> (bytes \<Rightarrow> Preamble option) \<Rightarrow> Publication \<Rightarrow> bool" where
  "publication_ok X dec P \<longleftrightarrow> encoded_message X (pn_payload P) (pn_preamble P) (pn_shards P) \<and>
     dec (pn_announcement P) = Some (pn_preamble P)"

definition announced :: "Publications \<Rightarrow> SessionKey \<Rightarrow> bytes \<Rightarrow> bool" where
  "announced pub k b \<longleftrightarrow> (\<exists>P. pub k = Some P \<and> b = pn_announcement P)"

definition shard_of :: "Publications \<Rightarrow> SessionKey \<Rightarrow> u32 \<Rightarrow> bytes \<Rightarrow> bool" where
  "shard_of pub k i d \<longleftrightarrow> (\<exists>P. pub k = Some P \<and> unat i < length (pn_shards P) \<and> d = pn_shards P ! unat i)"

fun honest_msg :: "Publications \<Rightarrow> NetSend \<Rightarrow> bool" where
  "honest_msg pub (SendSessionOpen _ c m b _) = announced pub (c, m) b"
| "honest_msg pub (SendChunk _ c m i d _) = shard_of pub (c, m) i d"
| "honest_msg pub _ = True"

fun honest_event :: "Publications \<Rightarrow> NetEvent \<Rightarrow> bool" where
  "honest_event pub (EvSessionOpen _ c m b _) = announced pub (c, m) b"
| "honest_event pub (EvChunk _ c m i d) = shard_of pub (c, m) i d"
| "honest_event pub _ = True"

lemma honest_sent: "honest_msg pub msg \<Longrightarrow> sent_event self msg = Some ev \<Longrightarrow> honest_event pub ev"
  by (cases msg) auto

text \<open>A session of a publication: it holds shards of it only, and decodes only if it holds enough.\<close>

definition vouched :: "'e Crates \<Rightarrow> Publications \<Rightarrow> SessionKey \<Rightarrow> RsStrategy Session \<Rightarrow> bool" where
  "vouched X pub k se \<longleftrightarrow> (\<exists>P. pub k = Some P \<and> chunks_inv X (se_strategy se) \<and> genuine (pn_shards P) (se_strategy se) \<and>
     rs_preamble (se_strategy se) = pn_preamble P \<and> (se_state se = SDecoding \<longrightarrow> RsStrategy_can_reconstruct (se_strategy se)))"

text \<open>A factory that builds relays from decoded preambles, as those of \<open>engine.rs\<close> do.\<close>

definition builds_relays :: "(bytes \<Rightarrow> Preamble option) \<Rightarrow> RsStrategy StrategyFactory \<Rightarrow> bool" where
  "builds_relays dec f \<longleftrightarrow> (\<forall>n b n' s. f n b = (n', Inr s) \<longrightarrow>
     (\<exists>p config seed. dec b = Some p \<and> RsStrategy_new_relay_with_seed p config seed = Inr s))"

lemma seeded_builds: "builds_relays dec (rs_relay_factory_seeded dec config base)"
  by (auto simp: builds_relays_def rs_relay_factory_seeded_def split: option.splits)

definition channel_vouched :: "'e Crates \<Rightarrow> (bytes \<Rightarrow> Preamble option) \<Rightarrow> Publications \<Rightarrow> ChannelId \<Rightarrow> RsStrategy Channel \<Rightarrow> bool" where
  "channel_vouched X dec pub c ch \<longleftrightarrow> builds_relays dec (ch_factory ch) \<and>
     (\<forall>m se. bt_get (ch_sessions ch) m = Some se \<longrightarrow> vouched X pub (c, m) se)"

definition authentic :: "'e Crates \<Rightarrow> (bytes \<Rightarrow> Preamble option) \<Rightarrow> Publications \<Rightarrow> ('n \<Rightarrow> bool) \<Rightarrow>
    (RsStrategy, 'n, DeliveredMessage list) Engine \<Rightarrow> bool" where
  "authentic X dec pub Q e \<longleftrightarrow> Q (en_net e) \<and>
     (\<forall>c ch. bt_get (en_channels e) c = Some ch \<longrightarrow> channel_vouched X dec pub c ch) \<and>
     (\<forall>k b. bt_get (en_session_preambles e) k = Some b \<longrightarrow> announced pub k b) \<and>
     (\<forall>k buf pc. bt_get (en_parked_chunks e) k = Some buf \<longrightarrow> pc \<in> set buf \<longrightarrow> shard_of pub k (pk_chunk_id pc) (pk_payload pc)) \<and>
     (\<forall>msg\<in>set (en_delivered e). \<exists>P. pub (dm_channel_id msg, dm_message_id msg) = Some P \<and> dm_payload msg = pn_payload P)"

lemma authenticD:
  assumes "authentic X dec pub Q e"
  shows "Q (en_net e)" "bt_get (en_channels e) c = Some ch \<Longrightarrow> channel_vouched X dec pub c ch"
    "bt_get (en_session_preambles e) k = Some b \<Longrightarrow> announced pub k b"
    "bt_get (en_parked_chunks e) k = Some buf \<Longrightarrow> pc \<in> set buf \<Longrightarrow> shard_of pub k (pk_chunk_id pc) (pk_payload pc)"
    "msg \<in> set (en_delivered e) \<Longrightarrow> \<exists>P. pub (dm_channel_id msg, dm_message_id msg) = Some P \<and> dm_payload msg = pn_payload P"
  using assms unfolding authentic_def by blast+

lemma authentic_session: "authentic X dec pub Q e \<Longrightarrow> session_of e c m = Some se \<Longrightarrow> vouched X pub (c, m) se"
  by (auto simp: session_of_eq channel_vouched_def dest: authenticD(2) split: option.splits)

lemma authentic_update [simp]:
  "authentic X dec pub Q (e\<lparr>en_opened_to := x1\<rparr>) = authentic X dec pub Q e"
  "authentic X dec pub Q (e\<lparr>en_pending_sends := x2\<rparr>) = authentic X dec pub Q e"
  "authentic X dec pub Q (e\<lparr>en_connected := x3\<rparr>) = authentic X dec pub Q e"
  "authentic X dec pub Q (e\<lparr>en_session_meta := x4\<rparr>) = authentic X dec pub Q e"
  "authentic X dec pub Q (e\<lparr>en_tombstones := x5\<rparr>) = authentic X dec pub Q e"
  "authentic X dec pub Q (e\<lparr>en_next_cleanup := x6\<rparr>) = authentic X dec pub Q e"
  by (simp_all add: authentic_def)

lemma authentic_net: "authentic X dec pub Q e \<Longrightarrow> Q n \<Longrightarrow> authentic X dec pub Q (e\<lparr>en_net := n\<rparr>)"
  by (simp add: authentic_def)

lemma authentic_channel:
  "authentic X dec pub Q e \<Longrightarrow> channel_vouched X dec pub c ch \<Longrightarrow> authentic X dec pub Q (e\<lparr>en_channels := bt_insert c ch (en_channels e)\<rparr>)"
  by (simp add: authentic_def)

lemma authentic_update_channel:
  assumes "authentic X dec pub Q e" "\<And>ch. channel_vouched X dec pub c ch \<Longrightarrow> channel_vouched X dec pub c (f ch)"
  shows "authentic X dec pub Q (update_channel c f e)"
  using assms authentic_channel [OF assms(1)] authenticD(2) [OF assms(1)] by (auto simp: update_channel_def split: option.split)

lemma authentic_set_session:
  assumes "authentic X dec pub Q e" "vouched X pub (c, m) se"
  shows "authentic X dec pub Q (set_session c m se e)"
  using assms authenticD(2) [OF assms(1)]
  by (auto simp: set_session_def Channel_set_session_def channel_vouched_def intro!: authentic_channel split: option.split)

text \<open>More publications, and a network that satisfies more.\<close>

lemma published_mono:
  assumes "pub \<subseteq>\<^sub>m pub'"
  shows "announced pub k b \<Longrightarrow> announced pub' k b" "shard_of pub k i d \<Longrightarrow> shard_of pub' k i d"
    "vouched X pub k se \<Longrightarrow> vouched X pub' k se" "honest_event pub ev \<Longrightarrow> honest_event pub' ev"
proof -
  have le: "pub k = Some P \<Longrightarrow> pub' k = Some P" for k P using assms by (force simp: map_le_def)
  show ab: "announced pub k b \<Longrightarrow> announced pub' k b" "shard_of pub k i d \<Longrightarrow> shard_of pub' k i d" for k b i d
    using le unfolding announced_def shard_of_def by blast+
  show "vouched X pub k se \<Longrightarrow> vouched X pub' k se" using le unfolding vouched_def by blast
  show "honest_event pub ev \<Longrightarrow> honest_event pub' ev" using ab by (cases ev) auto
qed

lemma authentic_mono:
  assumes "authentic X dec pub Q e" "pub \<subseteq>\<^sub>m pub'" "\<And>n. Q n \<Longrightarrow> Q' n"
  shows "authentic X dec pub' Q' e"
proof -
  have le: "pub k = Some P \<Longrightarrow> pub' k = Some P" for k P using assms(2) by (force simp: map_le_def)
  show ?thesis
    using assms(1,3) published_mono [OF assms(2)] le unfolding authentic_def channel_vouched_def by meson
qed

subsection \<open>Sessions\<close>

lemma vouched_view: "view se = view se' \<Longrightarrow> vouched X pub k se = vouched X pub k se'"
  by (simp add: vouched_def view_cong [of se se'])

lemma detach_view: "view (Session_detach_peer (RsStrategy_ops X) se p completed) = view se"
  by (auto simp: view_def Session_detach_peer_def RsStrategy_ops_def RsStrategy_detach_peer_def Let_def split: prod.split)

lemma vouched_ops [simp]:
  "vouched X pub k (fst (Session_poll (RsStrategy_ops Y) se)) = vouched X pub k se"
  "vouched X pub k (Session_chunk_sent (RsStrategy_ops Y) se p h ok) = vouched X pub k se"
  "vouched X pub k (attach_all (RsStrategy_ops Y) ps se) = vouched X pub k se"
  "vouched X pub k (Session_detach_peer (RsStrategy_ops Y) se p completed) = vouched X pub k se"
  by (rule vouched_view, rule poll_view sent_view attach_all_view detach_view)+

lemma vouched_attach [simp]: "vouched X pub k (Session_attach_peer (RsStrategy_ops Y) se p) = vouched X pub k se"
  using vouched_ops(3) [of X pub k Y "[p]" se] by simp

lemma vouched_chunks:
  assumes "vouched X pub k se" "d \<in> set (sw_dispatches (snd (Session_poll (RsStrategy_ops X) se)))"
    and ok: "\<And>P. pub k = Some P \<Longrightarrow> publication_ok X dec P"
  shows "shard_of pub k (cd_chunk_id d) (cd_payload d)"
proof -
  let ?s = "se_strategy se"
  obtain P where P: "pub k = Some P" "chunks_inv X ?s" "genuine (pn_shards P) ?s" "rs_preamble ?s = pn_preamble P"
    using assms(1) by (auto simp: vouched_def)
  obtain s1 r where r: "RsStrategy_poll_routing ?s False = (s1, r)" by fastforce
  note f = poll_routing_frame [OF r]
  have "d \<in> set (snd (fold poll_peer (bt_keys (rs_attached s1)) (s1, [])))"
    using assms(2) by (simp add: Session_poll_def RsStrategy_ops_def r RsStrategy_poll_chunks_def case_prod_unfold)
  from fold_poll_payload [OF this] have "unat (cd_chunk_id d) < length (rs_chunks ?s)" "rs_chunks ?s ! unat (cd_chunk_id d) = Some (cd_payload d)"
    using f by simp_all
  moreover have "length (rs_chunks ?s) = length (pn_shards P)"
    using P(2,4) encoded_hashes [of X "pn_payload P" "pn_preamble P" "pn_shards P"] ok [OF P(1)]
    by (simp add: chunks_inv_def publication_ok_def)
  ultimately show ?thesis using P(1,3) by (auto simp: shard_of_def genuine_def)
qed

lemma vouched_take:
  assumes "vouched X pub k se" "shard_of pub k i d" and ok: "\<And>P. pub k = Some P \<Longrightarrow> publication_ok X dec P"
  shows "vouched X pub k (fst (Session_take_chunk (RsStrategy_ops X) se i d))"
proof -
  let ?s = "se_strategy se"
  obtain P where P: "pub k = Some P" "chunks_inv X ?s" "genuine (pn_shards P) ?s" "rs_preamble ?s = pn_preamble P"
    "se_state se = SDecoding \<longrightarrow> RsStrategy_can_reconstruct ?s"
    using assms(1) by (auto simp: vouched_def)
  have h: "hashes (rs_preamble ?s) = map (sha256 X) (pn_shards P)"
    using encoded_hashes ok [OF P(1)] by (auto simp: publication_ok_def P(4))
  have cf: "collision_free X (pn_shards P) [(i, d)]" using assms(2) P(1) by (auto simp: shard_of_def collision_free_def)
  note t = take_chunk_chunks_inv [OF P(2), of i d] genuine_take_chunk [OF P(2,3) h cf]
  show ?thesis using P t
    by (cases "se_state se = Consuming")
      (auto simp: vouched_def Session_take_chunk_def take_chunk_cases Let_def split: SessionState.split)
qed

lemma vouched_decode:
  assumes "vouched X pub k se" "\<And>P. pub k = Some P \<Longrightarrow> publication_ok X dec P"
  shows "vouched X pub k (fst (Session_decode_and_finish (RsStrategy_ops X) se))"
    "snd (Session_decode_and_finish (RsStrategy_ops X) se) = Inr payload \<Longrightarrow> \<exists>P. pub k = Some P \<and> payload = pn_payload P"
proof -
  show "vouched X pub k (fst (Session_decode_and_finish (RsStrategy_ops X) se))"
    using assms(1) by (auto simp: vouched_def Session_decode_and_finish_def split: sum.split)
  assume d: "snd (Session_decode_and_finish (RsStrategy_ops X) se) = Inr payload"
  then have st: "se_state se = SDecoding" "RsStrategy_reconstruct X (se_strategy se) = Inr payload"
    by (auto simp: Session_decode_and_finish_def split: if_splits sum.splits)
  obtain P where P: "pub k = Some P" "consuming_inv X (pn_preamble P) (pn_shards P) se"
    using assms(1) st(1) by (auto simp: vouched_def consuming_inv_def)
  from encoded_reconstruct [OF _ P(2) st(1)] assms(2) [OF P(1)] have "RsStrategy_reconstruct X (se_strategy se) = Inr (pn_payload P)"
    by (simp add: publication_ok_def)
  then show "\<exists>P. pub k = Some P \<and> payload = pn_payload P" using st(2) P(1) by auto
qed

subsection \<open>Engines over an honest network\<close>

text \<open>The publications are well formed, the network transports what it is given, and the sink keeps only what is delivered.\<close>

locale honest_net =
  fixes X :: "'e Crates" and dec :: "bytes \<Rightarrow> Preamble option" and pub :: Publications
    and send :: "'n NetOp" and Q :: "'n \<Rightarrow> bool" and T :: "DeliveredMessage list \<Rightarrow> DeliveredMessage \<Rightarrow> DeliveredMessage list"
  assumes pub_ok: "pub k = Some P \<Longrightarrow> publication_ok X dec P"
    and send_keeps: "Q n \<Longrightarrow> honest_msg pub msg \<Longrightarrow> Q (fst (send n msg))"
    and sink_keeps: "set (T ds dm) \<subseteq> insert dm (set ds)"
begin

abbreviation E :: "(RsStrategy, 'e DecodeError, 'n, DeliveredMessage list) EngineEnv" where
  "E \<equiv> rs_env X send T"

abbreviation auth :: "(RsStrategy, 'n, DeliveredMessage list) Engine \<Rightarrow> bool" where
  "auth \<equiv> authentic X dec pub Q"

lemma send_auth: "auth e \<Longrightarrow> honest_msg pub msg \<Longrightarrow> auth (e\<lparr>en_net := fst (send (en_net e) msg)\<rparr>)"
  by (rule authentic_net) (auto intro: send_keeps dest: authenticD(1))

lemma net_send_auth: "auth e \<Longrightarrow> honest_msg pub msg \<Longrightarrow> auth (fst (net_send E msg e))"
  by (simp add: net_send_def case_prod_unfold send_auth)

lemma ensure_auth: "auth e \<Longrightarrow> auth (fst (ensure_session_open E c m p e))"
  by (auto simp: ensure_session_open_def intro!: and_then_inv [where P = auth] net_send_auth dest: authenticD(3) split: option.split)

lemma notify_auth: "auth e \<Longrightarrow> auth (notify_chunk_sent E c m p t ok e)"
  by (auto simp: notify_chunk_sent_def intro!: authentic_set_session dest: authentic_session split: option.split)

lemma dispatches_auth:
  assumes "auth e" "\<forall>d\<in>set ds. shard_of pub (c, m) (cd_chunk_id d) (cd_payload d)"
  shows "auth (fst (send_dispatches E c m ds st e))"
  using assms
proof (induction ds arbitrary: st e)
  case (Cons d ds)
  let ?msg = "SendChunk (cd_peer d) c m (cd_chunk_id d) (cd_payload d) (cd_handle d)"
  have *: "auth (fst (case send (en_net e1) ?msg of
         (n, Inr _) \<Rightarrow> send_dispatches E c m ds st
           (e1\<lparr>en_net := n, en_pending_sends := bt_insert (c, m, cd_handle d) (cd_peer d) (en_pending_sends e1)\<rparr>)
       | (n, Inl _) \<Rightarrow> send_dispatches E c m ds True
           (notify_chunk_sent E c m (cd_peer d) (cd_handle d) False (e1\<lparr>en_net := n\<rparr>))))" if "auth e1" for e1
    using send_auth [OF that, of ?msg] Cons.prems(2) notify_auth
    by (auto simp: case_prod_unfold split: sum.split intro!: Cons.IH)
  show ?case
    unfolding send_dispatches.simps rs_env_simps
    by (rule and_then_inv [where P = auth]) (use ensure_auth [OF Cons.prems(1)] * in simp_all)
qed simp

lemma round_auth:
  assumes "auth e" "\<forall>d\<in>set (sw_dispatches w). shard_of pub (c, m) (cd_chunk_id d) (cd_payload d)"
  shows "auth (fst (drain_round E c m w e))"
proof -
  have "auth (fst (send_routing E c m b p e))" if "auth e" for b p e
    unfolding send_routing_def
    by (rule and_then_inv [where P = auth]) (simp_all add: ensure_auth [OF that] net_send_auth)
  then have "auth (fst (case sw_routing w of None \<Rightarrow> (e, Inr ())
      | Some routing \<Rightarrow> try_each (send_routing E c m (BitMap_as_bytes routing)) (subscribers_of e c) e))"
    using assms(1) by (auto split: option.split intro!: try_each_inv [where P = auth])
  then show ?thesis
    unfolding drain_round_def by (rule and_then_inv [where P = auth]) (rule dispatches_auth [OF _ assms(2)])
qed

lemma poll_auth:
  assumes "auth e" "poll_session E c m e = (e', ow)"
  shows "auth e'" "ow = Some w \<Longrightarrow> d \<in> set (sw_dispatches w) \<Longrightarrow> shard_of pub (c, m) (cd_chunk_id d) (cd_payload d)"
proof -
  show "auth e'"
    using assms vouched_ops(1) [of X pub "(c, m)" X] authentic_session [OF assms(1), of c m]
    by (auto simp: poll_session_def case_prod_unfold intro!: authentic_set_session split: option.splits)
  show "ow = Some w \<Longrightarrow> d \<in> set (sw_dispatches w) \<Longrightarrow> shard_of pub (c, m) (cd_chunk_id d) (cd_payload d)"
    using assms(2) vouched_chunks [OF authentic_session [OF assms(1)] _ pub_ok]
    by (auto simp: poll_session_def case_prod_unfold split: option.splits)
qed

lemma drain_auth:
  assumes "drain_session E c m e = Some y" "auth e"
  shows "auth (fst y)"
proof -
  have "E' = E \<longrightarrow> auth e \<longrightarrow> auth (fst y)" if "drain_session E' c m e = Some y" for E'
    using that
  proof (rule drain_session.raw_induct [where P = "\<lambda>E' c m e y. E' = E \<longrightarrow> auth e \<longrightarrow> auth (fst y)", rotated], intro impI)
    fix drain E' c m e y
    assume ih: "\<And>E' c m e y. drain E' c m e = Some y \<Longrightarrow> E' = E \<longrightarrow> auth e \<longrightarrow> auth (fst y)"
      and body: "(case poll_session E' c m e of
        (e1, None) \<Rightarrow> Some (e1, Inr ())
      | (e1, Some w) \<Rightarrow>
          (if sw_routing w = None \<and> sw_dispatches w = [] then Some (e1, Inr ())
           else (case drain_round E' c m w e1 of
               (e2, Inl err) \<Rightarrow> Some (e2, Inl err)
             | (e2, Inr stalled) \<Rightarrow> (if stalled then Some (e2, Inr ()) else drain E' c m e2)))) = Some y"
      and E': "E' = E" and a: "auth e"
    obtain e1 ow where p: "poll_session E c m e = (e1, ow)" by fastforce
    note q = poll_auth [OF a p]
    show "auth (fst y)"
    proof (cases ow)
      case None
      then show ?thesis using body q(1) by (auto simp: E' p)
    next
      case (Some w)
      obtain e2 r where d: "drain_round E c m w e1 = (e2, r)" by fastforce
      have "auth e2" using round_auth [OF q(1), of w c m] q(2) [OF Some] by (simp add: d)
      then show ?thesis using body q(1) ih [of E c m e2 y] by (auto simp: E' p Some d split: if_splits sum.splits)
    qed
  qed
  then show ?thesis using assms by blast
qed

lemma drain_sessions_auth: "drain_sessions E c ms e = Some y \<Longrightarrow> auth e \<Longrightarrow> auth (fst y)"
proof (induction ms arbitrary: e)
  case (Cons m ms)
  then obtain e1 q where d: "drain_session E c m e = Some (e1, q)" by (cases "drain_session E c m e") auto
  with Cons show ?case using drain_auth [OF d] by (auto split: sum.splits)
qed auto

lemma drain_channel_auth: "drain_channel E c e = Some (e', r) \<Longrightarrow> auth e \<Longrightarrow> auth e'"
  by (auto simp: drain_channel_def dest: drain_sessions_auth split: option.splits)

text \<open>The operations on a channel.\<close>

lemma channel_auth:
  assumes "channel_vouched X dec pub c ch"
  shows "channel_vouched X dec pub c (Channel_subscribe_peer (RsStrategy_ops X) ch p)"
    "channel_vouched X dec pub c (Channel_unsubscribe_peer (RsStrategy_ops X) ch p)"
    "channel_vouched X dec pub c (Channel_remove_session ch m)"
  using assms by (auto simp: channel_vouched_def channel_ops)

lemma take_chunk_auth:
  assumes "auth e" "shard_of pub (c, m) i d"
  shows "auth (fst (engine_take_chunk E c m i d e))"
proof (cases "bt_get (en_channels e) c")
  case None
  then show ?thesis using assms(1) by (simp add: engine_take_chunk_def)
next
  case (Some ch)
  note ch = authenticD(2) [OF assms(1) Some]
  have "channel_vouched X dec pub c (fst (Channel_take_chunk (RsStrategy_ops X) ch m i d))"
    using ch vouched_take [OF _ assms(2) pub_ok]
    by (auto simp: channel_vouched_def Channel_take_chunk_def case_prod_unfold split: option.split)
  then show ?thesis using authentic_channel [OF assms(1)] by (simp add: engine_take_chunk_def Some case_prod_unfold)
qed

lemma deliver_auth:
  assumes "auth e"
  shows "auth (maybe_decode_and_deliver E now c m e)"
proof (cases "session_of e c m")
  case None
  then show ?thesis using assms by (simp add: maybe_decode_and_deliver_def)
next
  case (Some se)
  obtain se' res where d: "Session_decode_and_finish (RsStrategy_ops X) se = (se', res)" by fastforce
  let ?e = "mark_session_terminal c m now (set_session c m se' e)"
  note v = vouched_decode [OF authentic_session [OF assms Some] pub_ok]
  have "auth (set_session c m se' e)" using authentic_set_session [OF assms] v(1) by (simp add: d)
  then have e: "auth ?e" by (simp add: mark_session_terminal_def split: option.split)
  show ?thesis
  proof (cases res)
    case (Inl x)
    then show ?thesis using e by (simp add: maybe_decode_and_deliver_def Some d)
  next
    case (Inr payload)
    let ?dm = "\<lparr>dm_channel_id = c, dm_message_id = m, dm_payload = payload\<rparr>"
    have "\<exists>P. pub (c, m) = Some P \<and> payload = pn_payload P" using v(2) by (simp add: d Inr)
    then have "auth (?e\<lparr>en_delivered := T (en_delivered ?e) ?dm\<rparr>)"
      using e sink_keeps [of "en_delivered ?e" ?dm] unfolding authentic_def by auto
    from net_send_auth [OF this, of "SendSessionReconstructed c m"] show ?thesis
      by (simp add: maybe_decode_and_deliver_def Some d Inr Let_def)
  qed
qed

lemma replay_auth:
  assumes "replay_parked_chunks E now c m e = Some e'" "auth e"
  shows "auth e'"
proof (cases "bt_get (en_parked_chunks e) (c, m)")
  case None
  then show ?thesis using assms by (simp add: replay_parked_chunks_def)
next
  case (Some parked)
  let ?step = "\<lambda>pc (e, any_complete). case engine_take_chunk E c m (pk_chunk_id pc) (pk_payload pc) e of
      (e, complete) \<Rightarrow> (e, any_complete \<or> complete)"
  let ?e0 = "e\<lparr>en_parked_chunks := bt_remove (c, m) (en_parked_chunks e)\<rparr>"
  have fold: "auth (fst (fold ?step pcs st))"
    if "auth (fst st)" "\<forall>pc\<in>set pcs. shard_of pub (c, m) (pk_chunk_id pc) (pk_payload pc)" for pcs st
    using that by (induction pcs arbitrary: st) (simp_all add: case_prod_unfold take_chunk_auth)
  obtain e1 b where fe: "fold ?step parked (?e0, False) = (e1, b)" by fastforce
  have "auth ?e0" using assms(2) by (auto simp: authentic_def split: if_splits)
  then have "auth e1" using fold [of "(?e0, False)" parked] authenticD(4) [OF assms(2) Some] by (simp add: fe)
  moreover obtain e2 r where d: "drain_session E c m e1 = Some (e2, r)"
    using assms(1) by (auto simp: replay_parked_chunks_def Some fe Let_def bind_eq_Some_conv)
  ultimately have "auth e2" using drain_auth [OF d] by simp
  then show ?thesis using assms(1) d deliver_auth
    by (auto simp: replay_parked_chunks_def Some fe Let_def split: if_splits)
qed

text \<open>A session that is opened, from an announced preamble or by a publication.\<close>

lemma created_auth:
  assumes "auth e" "channel_vouched X dec pub c ch" "announced pub (c, m) b"
  shows "auth (record_session_created c m now (e\<lparr>en_channels := bt_insert c ch (en_channels e),
    en_session_preambles := bt_insert (c, m) b (en_session_preambles e)\<rparr>))"
  using assms by (simp add: record_session_created_def authentic_def)

lemma relay_vouched:
  assumes "announced pub k b" "builds_relays dec f" "f n b = (n', Inr s)"
  shows "vouched X pub k (Session_new_relay s)"
proof -
  obtain P where P: "pub k = Some P" "b = pn_announcement P" using assms(1) by (auto simp: announced_def)
  obtain p config seed where s: "dec b = Some p" "RsStrategy_new_relay_with_seed p config seed = Inr s"
    using assms(2,3) unfolding builds_relays_def by blast
  have "p = pn_preamble P" using pub_ok [OF P(1)] s(1) P(2) by (simp add: publication_ok_def)
  moreover have "chunks_inv X s" using new_relay_inv [OF s(2), of X] by (simp add: rs_inv_def)
  ultimately show ?thesis using P(1) new_relay_fresh [OF s(2)] by (simp add: vouched_def Session_new_relay_def)
qed

lemma open_channel_auth:
  assumes "channel_vouched X dec pub c ch" "announced pub (c, m) b"
  shows "channel_vouched X dec pub c (fst (Channel_open_session (RsStrategy_ops X) ch m b))"
  using assms relay_vouched [OF assms(2), of "ch_factory ch"]
  by (auto simp: channel_vouched_def Channel_open_session_def Let_def split: prod.split sum.split)

lemma session_open_auth:
  assumes "handle_session_open E now c m b e = Some e'" "auth e" "announced pub (c, m) b"
  shows "auth e'"
proof (cases "is_tombstoned e c m \<or> bt_get (en_channels e) c = None")
  case True
  then show ?thesis using assms by (cases "is_tombstoned e c m") (auto simp: handle_session_open_def)
next
  case False
  then obtain ch where ch: "bt_get (en_channels e) c = Some ch" by auto
  obtain ch' r where o: "Channel_open_session (RsStrategy_ops X) ch m b = (ch', r)" by fastforce
  have v: "channel_vouched X dec pub c ch'" using open_channel_auth [OF authenticD(2) [OF assms(2) ch] assms(3)] by (simp add: o)
  show ?thesis
  proof (cases r)
    case (Inl x)
    then show ?thesis using assms(1) False authentic_channel [OF assms(2) v] by (auto simp: handle_session_open_def ch o)
  next
    case (Inr u)
    then obtain e1 q where d: "drain_session E c m (record_session_created c m now
        (e\<lparr>en_channels := bt_insert c ch' (en_channels e), en_session_preambles := bt_insert (c, m) b (en_session_preambles e)\<rparr>)) = Some (e1, q)"
      "replay_parked_chunks E now c m e1 = Some e'"
      using assms(1) False by (auto simp: handle_session_open_def ch o Let_def bind_eq_Some_conv)
    have "auth e1" using drain_auth [OF d(1) created_auth [OF assms(2) v assms(3)]] by simp
    then show ?thesis by (rule replay_auth [OF d(2)])
  qed
qed

lemma chunk_auth:
  assumes "handle_chunk E now c m i d e = Some e'" "auth e" "shard_of pub (c, m) i d"
  shows "auth e'"
proof (cases "is_tombstoned e c m \<or> session_of e c m = None")
  case True
  have buf: "shard_of pub (c, m) (pk_chunk_id pc) (pk_payload pc)" if "pc \<in> set (bt_get_or [] (en_parked_chunks e) (c, m))" for pc
    using authenticD(4) [OF assms(2), of "(c, m)"] that by (cases "bt_get (en_parked_chunks e) (c, m)") (simp_all add: bt_get_or_def)
  have "auth (park_chunk now c m i d e)"
    using assms(2,3) buf unfolding authentic_def park_chunk_def
    by (auto simp: push_parked_def dest: in_set_dropD split: if_splits)
  then show ?thesis using assms(1,2) True by (cases "is_tombstoned e c m") (auto simp: handle_chunk_def)
next
  case False
  obtain e1 b where t: "engine_take_chunk E c m i d e = (e1, b)" by fastforce
  obtain e2 r where d: "drain_session E c m e1 = Some (e2, r)"
    and e': "e' = (if b then maybe_decode_and_deliver E now c m e2 else e2)"
    using assms(1) False by (auto simp: handle_chunk_def t bind_eq_Some_conv)
  have "auth e1" using take_chunk_auth [OF assms(2,3)] by (simp add: t)
  then have "auth e2" using drain_auth [OF d] by simp
  then show ?thesis using e' deliver_auth by simp
qed

lemma subscribe_channels_auth: "subscribe_channels E p cs e = Some e' \<Longrightarrow> auth e \<Longrightarrow> auth e'"
proof (induction cs arbitrary: e)
  case (Cons c cs)
  let ?u = "update_channel c (\<lambda>ch. Channel_subscribe_peer (RsStrategy_ops X) ch p) e"
  obtain e1 r where d: "drain_channel E c ?u = Some (e1, r)" "subscribe_channels E p cs e1 = Some e'"
    using Cons.prems(1) by (auto simp: bind_eq_Some_conv)
  have "auth ?u" by (rule authentic_update_channel [OF Cons.prems(2) channel_auth(1)])
  then show ?case by (intro Cons.IH [OF d(2)] drain_channel_auth [OF d(1)])
qed simp

lemma register_auth: "auth e \<Longrightarrow> auth (fst (register_peer_and_handshake E p e))"
  by (simp add: register_peer_and_handshake_def Let_def net_send_auth)

lemma disconnected_auth: "auth e \<Longrightarrow> auth (handle_peer_disconnected E p e)"
  unfolding handle_peer_disconnected_def authentic_def by (auto intro: channel_auth(2))

text \<open>Every event of an honest network, and the cleanup after it.\<close>

lemma handle_event_auth:
  assumes "handle_event E now ev e = Some e'" "auth e" "honest_event pub ev"
  shows "auth e'"
proof (cases ev)
  case (EvHandshake p v cs pid)
  then show ?thesis using assms subscribe_channels_auth by (auto split: if_splits)
next
  case (EvSubscribe p c)
  then show ?thesis using assms drain_channel_auth [of c] authentic_update_channel [OF assms(2) channel_auth(1)]
    by (auto simp: bind_eq_Some_conv)
next
  case (EvUnsubscribe p c)
  then show ?thesis using assms authentic_update_channel [OF assms(2) channel_auth(2)] by auto
next
  case (EvChunkSendResult p c m t ok)
  then show ?thesis using assms(1,2) drain_auth [of c m] notify_auth
    by (fastforce simp: resolve_chunk_send_def bind_eq_Some_conv split: if_splits)
next
  case (EvSessionOpen p c m b u)
  then show ?thesis using session_open_auth assms by simp
next
  case (EvChunk p c m i d)
  then show ?thesis using chunk_auth assms by simp
next
  case (EvPeerConnected p)
  then show ?thesis using register_auth assms by auto
next
  case (EvPeerDisconnected p)
  then show ?thesis using disconnected_auth assms by auto
qed (use assms authentic_session [OF assms(2)] in
    \<open>auto simp: detach_session_peer_def intro!: authentic_set_session split: option.split\<close>)

lemma dispose_auth: "auth e \<Longrightarrow> auth (dispose_session c m now e)"
proof -
  assume e: "auth e"
  let ?e = "update_channel c (\<lambda>ch. Channel_remove_session ch m) e"
  have "auth ?e" by (rule authentic_update_channel [OF e channel_auth(3)])
  then show ?thesis unfolding dispose_session_def Let_def authentic_def by (auto split: if_splits)
qed

lemma cleanup_auth: "auth e \<Longrightarrow> auth (maybe_run_cleanup now e)"
proof -
  assume e: "auth e"
  have fold: "auth (fold (\<lambda>(c, m). dispose_session c m now) ks e)" if "auth e" for ks e
    using that by (induction ks arbitrary: e) (auto simp: dispose_auth)
  have "auth (run_cleanup now e)" if "auth e" for e
    using fold [OF that] unfolding run_cleanup_def Let_def authentic_def by (auto split: option.splits if_splits)
  then show ?thesis using e by (simp add: maybe_run_cleanup_def)
qed

lemma run_one_step_auth:
  assumes "run_one_step E now ev e = Some (e', r)" "auth e" "\<And>x. ev = Some x \<Longrightarrow> honest_event pub x"
  shows "auth e'"
  using assms handle_event_auth cleanup_auth by (auto simp: run_one_step_def bind_eq_Some_conv split: option.splits)

lemma subscribe_auth:
  assumes "auth e" "builds_relays dec f"
  shows "auth (fst (Engine_subscribe E c f e))"
proof -
  have "channel_vouched X dec pub c (Channel_new c f)" using assms(2) by (simp add: channel_vouched_def Channel_new_def)
  note new = authentic_channel [OF assms(1) this]
  show ?thesis unfolding Engine_subscribe_def Let_def
    by (rule try_each_inv [where P = auth]) (use new assms(1) in \<open>simp_all add: net_send_auth\<close>)
qed

lemma publish_auth:
  assumes "Engine_publish E now c m s b e = Some (e', r)" "auth e" "announced pub (c, m) b" "vouched X pub (c, m) (Session_new_origin s)"
  shows "auth e'"
proof (cases "bt_get (en_channels e) c")
  case None
  then show ?thesis using assms by (simp add: Engine_publish_def)
next
  case (Some ch)
  obtain ch' q where o: "Channel_start_origin_session (RsStrategy_ops X) ch m s = (ch', q)" by fastforce
  have v: "channel_vouched X dec pub c ch'"
    using o authenticD(2) [OF assms(2) Some] assms(4) by (auto simp: Channel_start_origin_session_def channel_vouched_def split: if_splits)
  show ?thesis
  proof (cases q)
    case (Inl x)
    then show ?thesis using assms(1) Some o authentic_channel [OF assms(2) v] by (auto simp: Engine_publish_def)
  next
    case (Inr u)
    let ?e0 = "record_session_created c m now (e\<lparr>en_channels := bt_insert c ch' (en_channels e),
      en_session_preambles := bt_insert (c, m) b (en_session_preambles e)\<rparr>)"
    obtain e1 q1 where e1: "try_each (ensure_session_open E c m) (bt_keys (ch_subscribers ch')) ?e0 = (e1, q1)" by fastforce
    have "auth (fst (try_each (ensure_session_open E c m) (bt_keys (ch_subscribers ch')) ?e0))"
      by (rule try_each_inv [where P = auth]) (simp_all add: ensure_auth created_auth [OF assms(2) v assms(3)])
    then show ?thesis using assms(1) Some o Inr e1 drain_auth [of c m]
      by (fastforce simp: Engine_publish_def Let_def split: sum.splits)
  qed
qed

end

lemma authentic_new: "Q n \<Longrightarrow> authentic X dec pub Q (Engine_with_config p n [] config now)"
  by (simp add: authentic_def Engine_with_config_def)

lemma origin_vouched:
  assumes "RsStrategy_new_origin_with_seed X payload config seed = Some (Inr s)" "encode X payload config = Some (Inr (p, shards))"
    "sha_ok X" "rs_ok X" "pub k = Some P" "pn_preamble P = p" "pn_shards P = shards"
  shows "vouched X pub k (Session_new_origin s)"
proof -
  have "s = RsStrategy_with config p (map Some shards) (EmitPlanner_new (word_of_nat (length shards)) seed ModeOrigin)"
    using assms(1,2) by (auto simp: RsStrategy_new_origin_with_seed_def)
  moreover have "chunks_inv X s" using origin_inv [OF assms(1,3,4)] by (simp add: rs_inv_def)
  ultimately show ?thesis using assms(5-7) by (simp add: vouched_def Session_new_origin_def RsStrategy_with_def genuine_def) auto
qed

end
