(* ===== verification/SimAuthentic.thy ===== *)
theory SimAuthentic
  imports Authentic SimRunner
begin

text \<open>
  Simulations under arbitrary faults. Whatever the fault plan drops, delays or cuts off, and in whatever order a
  scenario subscribes, connects, publishes and runs, the engines deliver nothing but published payloads.
\<close>

subsection \<open>The publications of a scenario\<close>

text \<open>A scenario publishes a payload with a configuration under each identifier at most once.\<close>

type_synonym Calls = "SessionKey \<Rightarrow> (bytes \<times> RsConfig) option"

definition publication_of :: "'e Crates \<Rightarrow> Preamble PbCodec \<Rightarrow> bytes \<times> RsConfig \<Rightarrow> Publication option" where
  "publication_of X C call = (case call of (payload, config) \<Rightarrow>
     (case encode X payload config of
        Some (Inr (p, shards)) \<Rightarrow>
          Some \<lparr>pn_payload = payload, pn_preamble = p, pn_shards = shards, pn_announcement = pb_encode C p\<rparr>
      | _ \<Rightarrow> None))"

text \<open>Those whose preamble announces their encoding.\<close>

definition publications :: "'e Crates \<Rightarrow> Preamble PbCodec \<Rightarrow> Calls \<Rightarrow> Publications" where
  "publications X C pub k = Option.bind (pub k) (\<lambda>call. Option.bind (publication_of X C call) (\<lambda>P.
     if publication_ok X (pb_decode C) P then Some P else None))"

lemma publicationsD:
  assumes "publications X C pub k = Some P"
  shows "publication_ok X (pb_decode C) P" "\<exists>config. pub k = Some (pn_payload P, config)"
proof -
  obtain payload config where c: "pub k = Some (payload, config)" "publication_of X C (payload, config) = Some P"
    and "publication_ok X (pb_decode C) P"
    using assms by (auto simp: publications_def bind_eq_Some_conv split: if_splits)
  moreover obtain p shards where "encode X payload config = Some (Inr (p, shards))"
    using c(2) by (cases "encode X payload config"; cases "the (encode X payload config)") (auto simp: publication_of_def)
  ultimately show "publication_ok X (pb_decode C) P" "\<exists>config. pub k = Some (pn_payload P, config)"
    by (auto simp: publication_of_def)
qed

lemma publications_mono: "pub k = None \<Longrightarrow> publications X C pub \<subseteq>\<^sub>m publications X C (pub(k \<mapsto> call))"
  by (auto simp: map_le_def publications_def)

subsection \<open>The hub\<close>

definition hub_honest :: "Publications \<Rightarrow> 'g SimState \<Rightarrow> bool" where
  "hub_honest pub hub \<longleftrightarrow>
     (\<forall>en\<in>set (sm_heap hub). \<forall>dst ev. ent_pending en = Delivery dst ev \<longrightarrow> honest_event pub ev) \<and>
     (\<forall>cid q. bt_get (sm_channels hub) cid = Some q \<longrightarrow> (\<forall>ev\<in>set (uc_items q). honest_event pub ev))"

lemma hub_honest_mono: "hub_honest pub hub \<Longrightarrow> pub \<subseteq>\<^sub>m pub' \<Longrightarrow> hub_honest pub' hub"
  unfolding hub_honest_def using published_mono(4) by metis

lemma submit_honest:
  assumes "hub_honest pub hub" "honest_msg pub msg"
  shows "hub_honest pub (fst (SimState_submit_send R self hub msg))"
proof -
  have "honest_event pub (the (sent_event self msg))" if "send_dst msg = Some dst" for dst
    using sends_agree [OF that, of self] honest_sent [OF assms(2)] by auto
  then show ?thesis using assms(1)
    by (auto simp: submit_send_eq hub_honest_def sim_log_def sim_schedule_def entry_push_def Let_def set_insort_key
        split: option.split prod.split Classification.split)
qed

lemma pop_honest:
  assumes "hub_honest pub hub"
  shows "hub_honest pub (fst (SimState_pop_next hub))"
  using assms by (force simp: pop_next_eq hub_honest_def box_post_get split: list.split Pending.split if_splits)

lemma step_honest: "hub_honest pub (SimState_record_engine_step hub peer) = hub_honest pub hub"
  by (simp add: hub_honest_def SimState_record_engine_step_def take_seq_def)

lemma next_honest:
  assumes "hub_honest pub hub" "next_event cid hub = Some (hub', ev)"
  shows "hub_honest pub hub'" "ev = Some x \<Longrightarrow> honest_event pub x"
  using assms by (auto simp: next_event_def channel_recv_def hub_honest_def split: option.splits list.splits prod.splits if_splits)

lemma sim_sink_keeps: "set (sink_try_send ds msg) \<subseteq> insert msg (set ds)"
  by (auto simp: sink_try_send_def)

subsection \<open>The runner\<close>

definition runner_honest :: "'e Crates \<Rightarrow> Preamble PbCodec \<Rightarrow> Calls \<Rightarrow> 'g SimRunner \<Rightarrow> bool" where
  "runner_honest X C pub r \<longleftrightarrow> hub_honest (publications X C pub) (sr_hub r) \<and>
     (\<forall>peer e. bt_get (sr_engines r) peer = Some e \<longrightarrow> authentic X (pb_decode C) (publications X C pub) (\<lambda>_. True) e)"

lemma runner_honest_mono:
  fixes r :: "'g SimRunner"
  assumes "runner_honest X C pub r" "pub k = None"
  shows "runner_honest X C (pub(k \<mapsto> call)) r"
proof -
  have le: "publications X C pub \<subseteq>\<^sub>m publications X C (pub(k \<mapsto> call))" by (rule publications_mono) (rule assms(2))
  have e: "authentic X (pb_decode C) (publications X C (pub(k \<mapsto> call))) (\<lambda>_. True) e"
    if "authentic X (pb_decode C) (publications X C pub) (\<lambda>_. True) e" for e :: "'g SimEngine"
    by (rule authentic_mono [OF that le]) simp
  show ?thesis using assms(1) by (simp add: runner_honest_def hub_honest_mono [OF _ le] e)
qed

text \<open>An engine that is lent the hub, and an engine that hands it back.\<close>

lemma lend_honest:
  assumes "runner_honest X C pub r" "bt_get (sr_engines r) peer = Some e" "hub_honest (publications X C pub) hub"
  shows "authentic X (pb_decode C) (publications X C pub) (hub_honest (publications X C pub)) (e\<lparr>en_net := hub\<rparr>)"
  using assms by (auto simp: runner_honest_def authentic_def)

lemma put_honest:
  assumes "runner_honest X C pub r" "authentic X (pb_decode C) (publications X C pub) (hub_honest (publications X C pub)) e"
  shows "runner_honest X C pub (put_engine peer e r)"
  using assms authenticD(1) [OF assms(2)] authentic_mono [OF assms(2) map_le_refl, of "\<lambda>_. True"]
  by (auto simp: runner_honest_def put_engine_def split: if_splits)

lemma add_peer_honest: "runner_honest X C pub r \<Longrightarrow> runner_honest X C pub (add_peer peer r)"
  by (auto simp: runner_honest_def hub_honest_def add_peer_def SimNetHub_endpoint_def Let_def authentic_new split: if_splits)

lemma new_honest: "runner_honest X C pub (SimRunner_new peers plan start)"
proof -
  have "runner_honest X C pub (fold add_peer peers r)" if "runner_honest X C pub r" for r
    using that by (induction peers arbitrary: r) (simp_all add: add_peer_honest)
  moreover have "runner_honest X C pub \<lparr>sr_hub = SimState_new plan start, sr_seed = fp_seed plan, sr_engines = bt_empty, sr_events = bt_empty\<rparr>"
    by (simp add: runner_honest_def hub_honest_def SimState_new_def)
  ultimately show ?thesis unfolding SimRunner_new_def by blast
qed

lemma take_honest: "runner_honest X C pub r \<Longrightarrow> runner_honest X C pub (fst (take_deliveries peer r))"
  by (auto simp: take_deliveries_def runner_honest_def authentic_def split: option.split if_splits)

text \<open>Every peer's endpoint of the simulated network is honest.\<close>

interpretation hon: honest_net X "pb_decode C" "publications X C pub" "SimState_submit_send R peer" "hub_honest (publications X C pub)" sink_try_send
  for X :: "'e Crates" and C :: "Preamble PbCodec" and pub :: Calls and R :: "'g Rng" and peer
  by unfold_locales (simp_all add: publicationsD submit_honest sim_sink_keeps)

lemma with_engine_honest:
  assumes "runner_honest X C pub r"
    and "\<And>e. authentic X (pb_decode C) (publications X C pub) (hub_honest (publications X C pub)) e \<Longrightarrow>
      authentic X (pb_decode C) (publications X C pub) (hub_honest (publications X C pub)) (fst (call e))"
  shows "runner_honest X C pub (fst (with_engine peer call r))"
proof (cases "bt_get (sr_engines r) peer")
  case (Some e)
  have "hub_honest (publications X C pub) (sr_hub r)" using assms(1) by (simp add: runner_honest_def)
  from put_honest [OF assms(1) assms(2) [OF lend_honest [OF assms(1) Some this]]] show ?thesis
    by (simp add: with_engine_def Some case_prod_unfold)
qed (use assms(1) in \<open>simp add: with_engine_def\<close>)

lemma subscribe_all_honest: "runner_honest X C pub r \<Longrightarrow> runner_honest X C pub (fst (subscribe_all X R C channel config r))"
  unfolding subscribe_all_def Let_def sim_env_def
  by (rule try_each_inv [where P = "runner_honest X C pub"], rule with_engine_honest)
    (simp_all add: hon.subscribe_auth seeded_builds)

lemma connect_honest: "runner_honest X C pub r \<Longrightarrow> runner_honest X C pub (fst (connect_full_mesh X R r))"
proof -
  have c: "runner_honest X C pub (fst (with_engine peer (Engine_connect (sim_env X R peer) other) r))" if "runner_honest X C pub r" for peer other r
    by (rule with_engine_honest [OF that]) (simp add: Engine_connect_def sim_env_def hon.register_auth)
  show "runner_honest X C pub r \<Longrightarrow> ?thesis" unfolding connect_full_mesh_def Let_def
    by (rule try_each_inv [where P = "runner_honest X C pub"], rule try_each_inv [where P = "runner_honest X C pub"]) (simp_all add: c)
qed

lemma publish_honest:
  assumes p: "SimRunner_publish X R C origin c m payload config r = Some (r', res)" and r: "runner_honest X C pub r"
    and new: "pub (c, m) = Some (payload, config)" and ok: "sha_ok X" "rs_ok X"
    and codec: "\<And>p shards. encode X payload config = Some (Inr (p, shards)) \<Longrightarrow> pb_decode C (pb_encode C p) = Some p"
  shows "runner_honest X C pub r'"
proof (cases "\<exists>p shards s e. encode X payload config = Some (Inr (p, shards)) \<and>
    RsStrategy_new_origin_with_seed X payload config (derive_seed (sr_seed r) origin) = Some (Inr s) \<and> bt_get (sr_engines r) origin = Some e")
  case False
  then have "r' = r" using p by (auto simp: SimRunner_publish_def split: option.splits sum.splits)
  then show ?thesis using r by simp
next
  case True
  then obtain p shards s e where enc: "encode X payload config = Some (Inr (p, shards))"
    and s: "RsStrategy_new_origin_with_seed X payload config (derive_seed (sr_seed r) origin) = Some (Inr s)"
    and e: "bt_get (sr_engines r) origin = Some e" by blast
  let ?P = "\<lparr>pn_payload = payload, pn_preamble = p, pn_shards = shards, pn_announcement = pb_encode C p\<rparr>"
  have "publication_ok X (pb_decode C) ?P" using encoded_messageI [OF enc ok] codec [OF enc] by (simp add: publication_ok_def)
  then have P: "publications X C pub (c, m) = Some ?P" by (simp add: publications_def new publication_of_def enc)
  obtain e' q where e': "Engine_publish (sim_env X R origin) (SimClock_now (sr_hub r)) c m s (pb_encode C p) (e\<lparr>en_net := sr_hub r\<rparr>) = Some (e', q)"
    "r' = put_engine origin e' r"
    using p by (auto simp: SimRunner_publish_def enc s e bind_eq_Some_conv)
  have "vouched X (publications X C pub) (c, m) (Session_new_origin s)" using origin_vouched [where pub = "publications X C pub", OF s enc ok P] by simp
  moreover have "announced (publications X C pub) (c, m) (pb_encode C p)" using P by (simp add: announced_def)
  moreover have "hub_honest (publications X C pub) (sr_hub r)" using r by (simp add: runner_honest_def)
  ultimately show ?thesis unfolding e'(2)
    by (intro put_honest [OF r] hon.publish_auth [OF e'(1) [unfolded sim_env_def]] lend_honest [OF r e])
qed

lemma step_engine_honest:
  assumes "step_engine X R peer e r = Some (r', res)" "runner_honest X C pub r" "bt_get (sr_engines r) peer = Some e"
  shows "runner_honest X C pub r'"
proof -
  let ?H = "hub_honest (publications X C pub)"
  obtain cid hub ev e' q where n: "next_event cid (SimState_record_engine_step (sr_hub r) peer) = Some (hub, ev)"
    and s: "run_one_step (sim_env X R peer) (SimClock_now hub) ev (e\<lparr>en_net := hub\<rparr>) = Some (e', q)" "r' = put_engine peer e' r"
    using assms(1) by (auto simp: step_engine_def Let_def bind_eq_Some_conv)
  have "?H (sr_hub r)" using assms(2) by (simp add: runner_honest_def)
  then have "?H (SimState_record_engine_step (sr_hub r) peer)" by (simp add: step_honest)
  note h = next_honest [OF this n]
  show ?thesis unfolding s(2)
    by (rule put_honest [OF assms(2) hon.run_one_step_auth [OF s(1) [unfolded sim_env_def] lend_honest [OF assms(2,3) h(1)] h(2)]])
qed

lemma run_loop_honest:
  "run_loop X R max_steps steps r = Some (r', res) \<Longrightarrow> runner_honest X C pub r \<Longrightarrow> runner_honest X C pub r'"
proof (induction X R max_steps steps r rule: run_loop.induct)
  case (1 X R max_steps steps r)
  obtain hub ost where p: "SimState_pop_next (sr_hub r) = (hub, ost)" by fastforce
  have h: "runner_honest X C pub (r\<lparr>sr_hub := hub\<rparr>)"
    using "1.prems"(2) pop_honest [of "publications X C pub" "sr_hub r"] by (simp add: runner_honest_def p)
  show ?case
  proof (cases "ost = None \<or> Suc steps > max_steps")
    case True
    then show ?thesis using "1.prems"(1) h p by (subst (asm) run_loop.simps) (auto split: option.splits)
  next
    case False
    then obtain step where st: "ost = Some step" "\<not> Suc steps > max_steps" by auto
    show ?thesis
    proof (cases "\<exists>peer e. step = DeliveredTo peer \<and> bt_get (sr_engines r) peer = Some e")
      case True
      then obtain peer e where d: "step = DeliveredTo peer" "bt_get (sr_engines r) peer = Some e" by blast
      obtain r1 q where s: "step_engine X R peer e (r\<lparr>sr_hub := hub\<rparr>) = Some (r1, q)"
        using "1.prems"(1) st by (subst (asm) run_loop.simps) (auto simp: p d bind_eq_Some_conv)
      have "runner_honest X C pub r1" using step_engine_honest [OF s h] d(2) by simp
      then show ?thesis using "1.prems"(1) "1.IH" st d s p
        by (subst (asm) run_loop.simps) (cases q; simp)
    next
      case False
      then have "run_loop X R max_steps (Suc steps) (r\<lparr>sr_hub := hub\<rparr>) = Some (r', res)"
        using "1.prems"(1) st by (subst (asm) run_loop.simps) (auto simp: p split: PumpStep.splits option.splits)
      then show ?thesis using "1.IH" st p h False by (cases step) (auto split: option.splits)
    qed
  qed
qed

subsection \<open>Scenarios\<close>

text \<open>
  The scenarios of a simulation with any fault plan, with the publications they made so far. No identifier is
  published twice.
\<close>

inductive honest_run :: "'e Crates \<Rightarrow> 'g Rng \<Rightarrow> Preamble PbCodec \<Rightarrow> Calls \<Rightarrow> 'g SimRunner \<Rightarrow> bool" for X R C where
  hr_new: "honest_run X R C (\<lambda>_. None) (SimRunner_new peers plan start)"
| hr_subscribe: "honest_run X R C pub r \<Longrightarrow> honest_run X R C pub (fst (subscribe_all X R C channel config r))"
| hr_connect: "honest_run X R C pub r \<Longrightarrow> honest_run X R C pub (fst (connect_full_mesh X R r))"
| hr_publish: "honest_run X R C pub r \<Longrightarrow> pub (channel, m) = None \<Longrightarrow>
    SimRunner_publish X R C origin channel m payload config r = Some (r', res) \<Longrightarrow>
    honest_run X R C (pub((channel, m) \<mapsto> (payload, config))) r'"
| hr_run: "honest_run X R C pub r \<Longrightarrow> run_to_quiescence X R max_steps r = Some (r', res) \<Longrightarrow> honest_run X R C pub r'"
| hr_take: "honest_run X R C pub r \<Longrightarrow> honest_run X R C pub (fst (take_deliveries peer r))"

definition codec_covers :: "'e Crates \<Rightarrow> Preamble PbCodec \<Rightarrow> Calls \<Rightarrow> bool" where
  "codec_covers X C pub \<longleftrightarrow> (\<forall>k payload config p shards. pub k = Some (payload, config) \<longrightarrow>
     encode X payload config = Some (Inr (p, shards)) \<longrightarrow> pb_decode C (pb_encode C p) = Some p)"

lemma honest_run_honest:
  assumes "honest_run X R C pub r" "sha_ok X" "rs_ok X" "codec_covers X C pub"
  shows "runner_honest X C pub r"
  using assms(1,4)
proof (induction rule: honest_run.induct)
  case (hr_publish pub r channel m origin payload config r' res)
  have "codec_covers X C pub" using hr_publish.prems hr_publish.hyps(2) unfolding codec_covers_def
    by (metis fun_upd_other option.distinct(1))
  from runner_honest_mono [where k = "(channel, m)", OF hr_publish.IH [OF this] hr_publish.hyps(2)]
  have h: "runner_honest X C (pub((channel, m) \<mapsto> (payload, config))) r" .
  have codec: "pb_decode C (pb_encode C p) = Some p" if "encode X payload config = Some (Inr (p, shards))" for p shards
    using hr_publish.prems that unfolding codec_covers_def by (metis fun_upd_same)
  show ?case by (rule publish_honest [OF hr_publish.hyps(3) h _ assms(2,3) codec]) simp
next
  case (hr_run pub r max_steps r' res)
  then show ?case using run_loop_honest by (auto simp: run_to_quiescence_def)
qed (simp_all add: new_honest subscribe_all_honest connect_honest take_honest)

lemma honest_run_reachable: "honest_run X R C pub r \<Longrightarrow> runner_reachable X R C r"
  by (induction rule: honest_run.induct) (blast intro: runner_reachable.intros)+

text \<open>
  C3. Nothing is delivered that was not published. In every simulation, whatever its fault plan drops, delays, reorders or partitions, and
  however the scenario subscribes, connects, publishes and runs: every message an engine delivers carries exactly the payload that
  was published under its channel and message identifier. Publications do not reuse an identifier, and the codec decodes the preambles
  it encoded; no assumption is made on collisions of the hash.
\<close>

theorem only_published_delivered:
  assumes "honest_run X R C pub r" "sha_ok X" "rs_ok X" "codec_covers X C pub" "dm \<in> set (snd (take_deliveries peer r))"
  shows "\<exists>config. pub (dm_channel_id dm, dm_message_id dm) = Some (dm_payload dm, config)"
proof -
  obtain e where e: "bt_get (sr_engines r) peer = Some e" "dm \<in> set (en_delivered e)"
    using assms(5) by (auto simp: take_deliveries_def split: option.splits)
  have "authentic X (pb_decode C) (publications X C pub) (\<lambda>_. True) e"
    using honest_run_honest [OF assms(1-4)] e(1) by (simp add: runner_honest_def)
  from authenticD(5) [OF this e(2)] show ?thesis using publicationsD(2) by metis
qed

lemma sim_publish_returns:
  assumes "runner_inv X r" "encode X payload config = Some (Inr (p, shards))" "sha_ok X" "rs_ok X"
  shows "\<exists>r' res. SimRunner_publish X R C origin c m payload config r = Some (r', res)"
proof -
  obtain s where s: "RsStrategy_new_origin_with_seed X payload config (derive_seed (sr_seed r) origin) = Some (Inr s)"
    using assms(2) by (auto simp: RsStrategy_new_origin_with_seed_def)
  show ?thesis
  proof (cases "bt_get (sr_engines r) origin")
    case (Some e)
    have "engine_inv (rs_inv X) (e\<lparr>en_net := sr_hub r\<rparr>)" using runner_invD(2) [OF assms(1) Some] by simp
    from sim_eng.publish_returns [OF this origin_inv [OF s assms(3,4)], of R origin "SimClock_now (sr_hub r)" c m "pb_encode C p"] show ?thesis
      by (auto simp: SimRunner_publish_def assms(2) s Some)
  qed (simp add: SimRunner_publish_def assms(2) s)
qed

text \<open>Two peers, with a link that delays and is cut off for a while.\<close>

definition demo_faulty :: "unit SimRunner" where
  "demo_faulty = fst (connect_full_mesh repetition_crates demo_rng
     (fst (subscribe_all repetition_crates demo_rng preamble_codec ''c'' demo_config (SimRunner_new [1, 2] demo_plan 0))))"

theorem only_published_delivered_witness:
  "\<exists>r1 r2 r3 res1 res2 res3. run_to_quiescence repetition_crates demo_rng 100 demo_faulty = Some (r1, res1) \<and>
    SimRunner_publish repetition_crates demo_rng preamble_codec 1 ''c'' ''m'' [7, 9] demo_config r1 = Some (r2, res2) \<and>
    run_to_quiescence repetition_crates demo_rng 100 r2 = Some (r3, res3) \<and>
    set (snd (take_deliveries 2 r3)) \<subseteq> {\<lparr>dm_channel_id = ''c'', dm_message_id = ''m'', dm_payload = [7, 9]\<rparr>}"
proof -
  let ?X = repetition_crates and ?H = "honest_run repetition_crates demo_rng preamble_codec"
  let ?pub = "(\<lambda>_. None)((''c'', ''m'') \<mapsto> ([7, 9], demo_config)) :: Calls"
  have inv: "runner_inv ?X r" if "?H pub r" for pub r
    by (rule runner_reachable_inv [OF honest_run_reachable [OF that]]) simp_all
  have h0: "?H (\<lambda>_. None) demo_faulty" unfolding demo_faulty_def by (intro hr_connect hr_subscribe hr_new)
  obtain r1 res1 where r1: "run_to_quiescence ?X demo_rng 100 demo_faulty = Some (r1, res1)"
    using run_loop_spec [OF inv [OF h0], of 0 100 demo_rng] unfolding run_to_quiescence_def by blast
  note h1 = hr_run [OF h0 r1]
  obtain r2 res2 where r2: "SimRunner_publish ?X demo_rng preamble_codec 1 ''c'' ''m'' [7, 9] demo_config r1 = Some (r2, res2)"
    using sim_publish_returns [OF inv [OF h1] demo_encode] by fastforce
  have h2: "?H ?pub r2" by (rule hr_publish [OF h1 _ r2]) simp
  obtain r3 res3 where r3: "run_to_quiescence ?X demo_rng 100 r2 = Some (r3, res3)"
    using run_loop_spec [OF inv [OF h2], of 0 100 demo_rng] unfolding run_to_quiescence_def by blast
  note h3 = hr_run [OF h2 r3]
  have cov: "codec_covers ?X preamble_codec ?pub"
    using demo_encode by (auto simp: codec_covers_def preamble_codec_def split: if_splits)
  have "dm = \<lparr>dm_channel_id = ''c'', dm_message_id = ''m'', dm_payload = [7, 9]\<rparr>" if "dm \<in> set (snd (take_deliveries 2 r3))" for dm
    using only_published_delivered [OF h3 _ _ cov that] by (cases dm) (auto split: if_splits)
  then show ?thesis using r1 r2 r3 by blast
qed

end
