(* ===== verification/SleepWait.thy ===== *)
theory SleepWait
  imports Prelude
begin

text \<open>
  The future of \<open>SimClock::sleep\<close> (\<open>WakeupInner\<close> and \<open>Sleep\<close> of \<open>ethp2p-sim/src/state.rs\<close>) under concurrency. The executor polls
  the future, each time with a waker; the simulator fires the wakeup. Every access to the flag and to the waker
  slot is one atomic step, and the steps of both sides interleave; the slot is behind a mutex, which orders the accesses to the flag
  around it, so interleavings are enough. A waker is named by a number.
\<close>

subsection \<open>The operations\<close>

record WakeupInner =
  wi_done :: bool
  wi_waker :: "nat option"

definition WakeupInner_default :: WakeupInner where
  "WakeupInner_default = \<lparr>wi_done = False, wi_waker = None\<rparr>"

text \<open>The second component is the waker that is woken.\<close>

definition WakeupInner_fire :: "WakeupInner \<Rightarrow> WakeupInner \<times> nat option" where
  "WakeupInner_fire w = (let w = w\<lparr>wi_done := True\<rparr> in (w\<lparr>wi_waker := None\<rparr>, wi_waker w))"

datatype Poll = PollReady | PollPending

definition Sleep_poll :: "WakeupInner \<Rightarrow> nat \<Rightarrow> WakeupInner \<times> Poll" where
  "Sleep_poll w cx =
     (if wi_done w then (w, PollReady)
      else (let w = w\<lparr>wi_waker := Some cx\<rparr> in (w, if wi_done w then PollReady else PollPending)))"

subsection \<open>Atomic steps\<close>

datatype PollPc = PollLoad | PollStore | PollRecheck | PollReturned Poll

fun poll_step :: "nat \<Rightarrow> WakeupInner \<times> PollPc \<Rightarrow> WakeupInner \<times> PollPc" where
  "poll_step cx (w, PollLoad) = (w, if wi_done w then PollReturned PollReady else PollStore)"
| "poll_step cx (w, PollStore) = (w\<lparr>wi_waker := Some cx\<rparr>, PollRecheck)"
| "poll_step cx (w, PollRecheck) = (w, PollReturned (if wi_done w then PollReady else PollPending))"
| "poll_step cx (w, PollReturned r) = (w, PollReturned r)"

datatype FirePc = FireStore | FireTake | FireFinished

fun fire_step :: "WakeupInner \<times> FirePc \<Rightarrow> (WakeupInner \<times> FirePc) \<times> nat option" where
  "fire_step (w, FireStore) = ((w\<lparr>wi_done := True\<rparr>, FireTake), None)"
| "fire_step (w, FireTake) = ((w\<lparr>wi_waker := None\<rparr>, FireFinished), wi_waker w)"
| "fire_step (w, FireFinished) = ((w, FireFinished), None)"

text \<open>The steps of one side alone are its operation.\<close>

lemma poll_alone: "(poll_step cx ^^ 3) (w, PollLoad) = (case Sleep_poll w cx of (w', r) \<Rightarrow> (w', PollReturned r))"
  by (simp add: eval_nat_numeral Sleep_poll_def)

lemma fire_alone:
  "(case fire_step (w, FireStore) of (wp, _) \<Rightarrow> case fire_step wp of ((w', _), woken) \<Rightarrow> (w', woken)) = WakeupInner_fire w"
  by (simp add: WakeupInner_fire_def)

text \<open>
  \<open>sl_task\<close> is the latest poll with its waker, if there was one; \<open>sl_woken\<close> the wakers woken since they were last
  handed to a poll.
\<close>

record SleepRun =
  sl_inner :: WakeupInner
  sl_task :: "(nat \<times> PollPc) option"
  sl_fire :: FirePc
  sl_woken :: "nat set"

definition SleepRun_start :: SleepRun where
  "SleepRun_start = \<lparr>sl_inner = WakeupInner_default, sl_task = None, sl_fire = FireStore, sl_woken = {}\<rparr>"

definition poll_begin :: "nat \<Rightarrow> SleepRun \<Rightarrow> SleepRun" where
  "poll_begin cx s = s\<lparr>sl_task := Some (cx, PollLoad), sl_woken := sl_woken s - {cx}\<rparr>"

definition poll_turn :: "SleepRun \<Rightarrow> SleepRun" where
  "poll_turn s =
     (case sl_task s of
        None \<Rightarrow> s
      | Some (cx, pc) \<Rightarrow> (case poll_step cx (sl_inner s, pc) of (w, pc') \<Rightarrow> s\<lparr>sl_inner := w, sl_task := Some (cx, pc')\<rparr>))"

definition fire_turn :: "SleepRun \<Rightarrow> SleepRun" where
  "fire_turn s =
     (case fire_step (sl_inner s, sl_fire s) of ((w, pc), woken) \<Rightarrow>
       s\<lparr>sl_inner := w, sl_fire := pc, sl_woken := sl_woken s \<union> set_option woken\<rparr>)"

text \<open>The executor may poll again at any time, woken or not, with any waker, until the future is ready.\<close>

inductive sleep_reachable :: "SleepRun \<Rightarrow> bool" where
  start: "sleep_reachable SleepRun_start"
| begin_first: "sleep_reachable s \<Longrightarrow> sl_task s = None \<Longrightarrow> sleep_reachable (poll_begin cx s)"
| begin_again: "sleep_reachable s \<Longrightarrow> sl_task s = Some (cx', PollReturned PollPending) \<Longrightarrow> sleep_reachable (poll_begin cx s)"
| poll: "sleep_reachable s \<Longrightarrow> sleep_reachable (poll_turn s)"
| fire: "sleep_reachable s \<Longrightarrow> sleep_reachable (fire_turn s)"

subsection \<open>No wake-up is lost\<close>

text \<open>
  Until the wakeup has taken the waker, a poll past its registration has its waker in the slot; afterwards a poll
  that returned pending has been woken.
\<close>

definition sleep_inv :: "SleepRun \<Rightarrow> bool" where
  "sleep_inv s \<longleftrightarrow> (wi_done (sl_inner s) \<longleftrightarrow> sl_fire s \<noteq> FireStore) \<and>
     (case sl_task s of
        None \<Rightarrow> True
      | Some (cx, PollRecheck) \<Rightarrow> sl_fire s \<noteq> FireFinished \<longrightarrow> wi_waker (sl_inner s) = Some cx
      | Some (cx, PollReturned PollPending) \<Rightarrow>
          if sl_fire s = FireFinished then cx \<in> sl_woken s else wi_waker (sl_inner s) = Some cx
      | Some (cx, PollReturned PollReady) \<Rightarrow> wi_done (sl_inner s)
      | Some (cx, _) \<Rightarrow> True)"

lemma begin_inv: "sleep_inv s \<Longrightarrow> sleep_inv (poll_begin cx s)"
  by (simp add: sleep_inv_def poll_begin_def)

lemma poll_turn_inv:
  assumes "sleep_inv s"
  shows "sleep_inv (poll_turn s)"
proof (cases "sl_task s")
  case (Some t)
  obtain cx pc where t: "t = (cx, pc)" by (cases t)
  show ?thesis
  proof (cases pc)
    case (PollReturned r)
    then show ?thesis using assms Some by (cases r) (auto simp: sleep_inv_def poll_turn_def t)
  qed (use assms Some in \<open>simp_all add: sleep_inv_def poll_turn_def t\<close>)
qed (use assms in \<open>simp add: poll_turn_def\<close>)

lemma fire_turn_inv:
  assumes "sleep_inv s"
  shows "sleep_inv (fire_turn s)"
proof (cases "sl_task s")
  case None
  then show ?thesis using assms by (cases "sl_fire s") (simp_all add: sleep_inv_def fire_turn_def)
next
  case (Some t)
  obtain cx pc where t: "t = (cx, pc)" by (cases t)
  show ?thesis
  proof (cases pc)
    case (PollReturned r)
    then show ?thesis using assms Some
      by (cases r; cases "sl_fire s") (simp_all add: sleep_inv_def fire_turn_def t)
  qed (use assms Some in \<open>cases "sl_fire s"; simp add: sleep_inv_def fire_turn_def t\<close>)+
qed

lemma sleep_reachable_inv: "sleep_reachable s \<Longrightarrow> sleep_inv s"
proof (induction rule: sleep_reachable.induct)
  case start
  show ?case by (simp add: sleep_inv_def SleepRun_start_def WakeupInner_default_def)
qed (simp_all add: begin_inv poll_turn_inv fire_turn_inv)

text \<open>
  C38. A sleeper is never lost. In every interleaving of the polls of a \<open>Sleep\<close> future with the firing of its wakeup: a poll that
  returns ready does so only after the wakeup was fired, and once firing has finished, a poll that returned pending has had its waker
  woken, and the poll that follows returns ready. The re-check after registering the waker closes the race in between.
\<close>

theorem sleep_no_lost_wakeup:
  assumes "sleep_reachable s" "sl_task s = Some (cx, pc)"
  shows "(pc = PollReturned PollReady \<longrightarrow> wi_done (sl_inner s)) \<and>
    (sl_fire s = FireFinished \<longrightarrow>
      (pc = PollReturned PollPending \<longrightarrow> cx \<in> sl_woken s) \<and> snd (Sleep_poll (sl_inner s) cx') = PollReady)"
  using sleep_reachable_inv [OF assms(1)] assms(2) by (auto simp: sleep_inv_def Sleep_poll_def)

text \<open>The race: the wakeup is fired between the registration of the waker and the re-check, or right after it.\<close>

definition demo_sleep :: SleepRun where
  "demo_sleep = fire_turn (fire_turn (poll_turn (poll_turn (poll_turn (poll_begin 7 SleepRun_start)))))"

theorem sleep_no_lost_wakeup_witness:
  "sl_task demo_sleep = Some (7, PollReturned PollPending) \<and> 7 \<in> sl_woken demo_sleep \<and> snd (Sleep_poll (sl_inner demo_sleep) 8) = PollReady"
proof -
  have r: "sleep_reachable demo_sleep"
    unfolding demo_sleep_def by (intro sleep_reachable.fire sleep_reachable.poll begin_first sleep_reachable.start) (simp add: SleepRun_start_def)
  have t: "sl_task demo_sleep = Some (7, PollReturned PollPending)" "sl_fire demo_sleep = FireFinished"
    by (simp_all add: demo_sleep_def fire_turn_def poll_turn_def poll_begin_def SleepRun_start_def WakeupInner_default_def)
  show ?thesis using sleep_no_lost_wakeup [OF r t(1)] t by simp
qed

end
