(* ===== verification/FuzzFfi.thy ===== *)
theory FuzzFfi
  imports Wire BTree
begin

text \<open>
  The differential fuzzing harness: \<open>fuzz/src/ffi.rs\<close>, which calls the reference implementation in Go through a C interface, and the
  targets \<open>codec_bcast_diff.rs\<close> and \<open>codec_rs_preamble_diff.rs\<close>, which compare it with the Rust codec. The Go library is the
  record \<open>GorefLib\<close> of functions on the C heap, and its contract (\<open>fuzz/goref/README.md\<close>) the hypotheses
  \<open>goref_ok\<close> and \<open>goref_free_ok\<close>. Undefined behaviour is the result \<open>None\<close>. The C heap maps the addresses of live allocations to their
  contents; the null pointer is 0.
\<close>

subsection \<open>The C interface\<close>

type_synonym CHeap = "(nat, bytes) btree_map"

text \<open>\<open>goref_*_parse_and_reencode\<close>: from the input, the heap and the two output slots to the heap, the return code and the slots.\<close>

type_synonym GorefFn = "bytes \<Rightarrow> CHeap \<Rightarrow> nat \<Rightarrow> nat \<Rightarrow> CHeap \<times> i32 \<times> nat \<times> nat"

definition goref_ok :: "GorefFn \<Rightarrow> (bytes \<Rightarrow> bytes option) \<Rightarrow> bool" where
  "goref_ok f reference \<longleftrightarrow> (\<forall>input heap out_buf out_len.
     case reference input of
       None \<Rightarrow> \<exists>rc. rc \<noteq> 0 \<and> f input heap out_buf out_len = (heap, rc, out_buf, out_len)
     | Some encoded \<Rightarrow> \<exists>buf. buf \<noteq> 0 \<and> bt_get heap buf = None \<and> f input heap out_buf out_len = (bt_insert buf encoded heap, 0, buf, length encoded))"

text \<open>\<open>std::slice::from_raw_parts\<close>: defined if the allocation has that many bytes.\<close>

definition from_raw_parts :: "CHeap \<Rightarrow> nat \<Rightarrow> nat \<Rightarrow> bytes option" where
  "from_raw_parts heap buf len =
     (case bt_get heap buf of None \<Rightarrow> None | Some content \<Rightarrow> if len \<le> length content then Some (take len content) else None)"

text \<open>\<open>goref_free\<close>, also a parameter: it releases a live allocation and ignores the null pointer.\<close>

type_synonym GorefFree = "nat \<Rightarrow> CHeap \<Rightarrow> CHeap option"

definition goref_free_ok :: "GorefFree \<Rightarrow> bool" where
  "goref_free_ok free \<longleftrightarrow>
     (\<forall>heap. free 0 heap = Some heap) \<and> (\<forall>buf heap. buf \<noteq> 0 \<longrightarrow> bt_get heap buf \<noteq> None \<longrightarrow> free buf heap = Some (bt_remove buf heap))"

definition invoke :: "GorefFree \<Rightarrow> GorefFn \<Rightarrow> bytes \<Rightarrow> CHeap \<Rightarrow> (CHeap \<times> bytes option) option" where
  "invoke free f input heap =
     (case f input heap 0 0 of (heap, rc, out_buf, out_len) \<Rightarrow>
       if rc \<noteq> 0 then Some (heap, None)
       else Option.bind (if out_len = 0 then Some [] else from_raw_parts heap out_buf out_len) (\<lambda>copied.
         Option.bind (free out_buf heap) (\<lambda>heap. Some (heap, Some copied))))"

text \<open>The six wrappers differ in the function they call.\<close>

record GorefLib =
  goref_bcast_parse_and_reencode :: GorefFn
  goref_sess_parse_and_reencode :: GorefFn
  goref_selector_parse_and_reencode :: GorefFn
  goref_chunk_header_parse_and_reencode :: GorefFn
  goref_rs_preamble_parse_and_reencode :: GorefFn
  goref_rs_chunk_ident_parse_and_reencode :: GorefFn
  goref_free :: GorefFree

definition bcast_parse_and_reencode :: "GorefLib \<Rightarrow> bytes \<Rightarrow> CHeap \<Rightarrow> (CHeap \<times> bytes option) option" where
  "bcast_parse_and_reencode L = invoke (goref_free L) (goref_bcast_parse_and_reencode L)"

definition sess_parse_and_reencode :: "GorefLib \<Rightarrow> bytes \<Rightarrow> CHeap \<Rightarrow> (CHeap \<times> bytes option) option" where
  "sess_parse_and_reencode L = invoke (goref_free L) (goref_sess_parse_and_reencode L)"

definition selector_parse_and_reencode :: "GorefLib \<Rightarrow> bytes \<Rightarrow> CHeap \<Rightarrow> (CHeap \<times> bytes option) option" where
  "selector_parse_and_reencode L = invoke (goref_free L) (goref_selector_parse_and_reencode L)"

definition chunk_header_parse_and_reencode :: "GorefLib \<Rightarrow> bytes \<Rightarrow> CHeap \<Rightarrow> (CHeap \<times> bytes option) option" where
  "chunk_header_parse_and_reencode L = invoke (goref_free L) (goref_chunk_header_parse_and_reencode L)"

definition rs_preamble_parse_and_reencode :: "GorefLib \<Rightarrow> bytes \<Rightarrow> CHeap \<Rightarrow> (CHeap \<times> bytes option) option" where
  "rs_preamble_parse_and_reencode L = invoke (goref_free L) (goref_rs_preamble_parse_and_reencode L)"

definition rs_chunk_ident_parse_and_reencode :: "GorefLib \<Rightarrow> bytes \<Rightarrow> CHeap \<Rightarrow> (CHeap \<times> bytes option) option" where
  "rs_chunk_ident_parse_and_reencode L = invoke (goref_free L) (goref_rs_chunk_ident_parse_and_reencode L)"

subsection \<open>The targets\<close>

text \<open>Encoding into a vector does not fail.\<close>

definition rust_parse_and_reencode :: "'m PbCodec \<Rightarrow> bytes \<Rightarrow> bytes option" where
  "rust_parse_and_reencode C input = (case pb_decode C input of None \<Rightarrow> None | Some msg \<Rightarrow> Some (pb_encode C msg))"

definition hex_digit :: "nat \<Rightarrow> char" where
  "hex_digit d = char_of (if d < 10 then 48 + d else 87 + d)"

definition hex_byte :: "u8 \<Rightarrow> string" where
  "hex_byte b = [hex_digit (unat b div 16), hex_digit (unat b mod 16)]"

definition hex_short :: "bytes \<Rightarrow> string" where
  "hex_short xs =
     (if length xs \<le> 64 then concat (map hex_byte xs)
      else concat (map hex_byte (take 64 xs)) @ ''... ('' @ nat_decimal (length xs) @ '' bytes total)'')"

text \<open>The panics of a target, with the values in their messages.\<close>

datatype FuzzPanic =
    DifferentialMismatch nat string string
  | RustAcceptedGoRejected nat string string
  | RustRejectedGoAccepted nat string string

text \<open>The body of \<open>fuzz_target!\<close> in \<open>codec_bcast_diff.rs\<close>: no panic is \<open>Inr ()\<close>.\<close>

definition bcast_diff :: "'m PbCodec \<Rightarrow> GorefLib \<Rightarrow> bytes \<Rightarrow> CHeap \<Rightarrow> (CHeap \<times> (FuzzPanic + unit)) option" where
  "bcast_diff C L data heap =
     (let rust_out = rust_parse_and_reencode C data in
      Option.bind (bcast_parse_and_reencode L data heap) (\<lambda>(heap, go_out). Some (heap,
        case (rust_out, go_out) of
          (Some r, Some g) \<Rightarrow> if r = g then Inr () else Inl (DifferentialMismatch (length data) (hex_short r) (hex_short g))
        | (None, None) \<Rightarrow> Inr ()
        | (Some r, None) \<Rightarrow> Inl (RustAcceptedGoRejected (length r) (hex_short r) (hex_short data))
        | (None, Some g) \<Rightarrow> Inl (RustRejectedGoAccepted (length g) (hex_short g) (hex_short data)))))"

text \<open>The same for \<open>codec_rs_preamble_diff.rs\<close>, whose messages carry the lengths only.\<close>

datatype PreamblePanic = PreambleMismatch nat | PreambleGoRejected nat | PreambleRustRejected nat

definition rs_preamble_diff :: "'m PbCodec \<Rightarrow> GorefLib \<Rightarrow> bytes \<Rightarrow> CHeap \<Rightarrow> (CHeap \<times> (PreamblePanic + unit)) option" where
  "rs_preamble_diff C L data heap =
     (let rust_out = rust_parse_and_reencode C data in
      Option.bind (rs_preamble_parse_and_reencode L data heap) (\<lambda>(heap, go_out). Some (heap,
        case (rust_out, go_out) of
          (Some r, Some g) \<Rightarrow> if r = g then Inr () else Inl (PreambleMismatch (length data))
        | (None, None) \<Rightarrow> Inr ()
        | (Some r, None) \<Rightarrow> Inl (PreambleGoRejected (length r))
        | (None, Some g) \<Rightarrow> Inl (PreambleRustRejected (length g)))))"

subsection \<open>Memory safety and exactness\<close>

lemma goref_okD:
  assumes "goref_ok f reference"
  shows "reference input = None \<Longrightarrow> \<exists>rc. rc \<noteq> 0 \<and> f input heap 0 0 = (heap, rc, 0, 0)"
    and "reference input = Some encoded \<Longrightarrow>
      \<exists>buf. buf \<noteq> 0 \<and> bt_get heap buf = None \<and> f input heap 0 0 = (bt_insert buf encoded heap, 0, buf, length encoded)"
  using assms [unfolded goref_ok_def, rule_format, of input heap 0 0] by simp_all

lemma invoke_safe:
  assumes "goref_ok f reference" "goref_free_ok free"
  shows "invoke free f input heap = Some (heap, reference input)"
proof (cases "reference input")
  case None
  from goref_okD(1) [OF assms(1) None] obtain rc where "rc \<noteq> 0" "f input heap 0 0 = (heap, rc, 0, 0)" by blast
  then show ?thesis by (simp add: invoke_def None)
next
  case (Some encoded)
  from goref_okD(2) [OF assms(1) Some] obtain buf
    where b: "buf \<noteq> 0" "bt_get heap buf = None" "f input heap 0 0 = (bt_insert buf encoded heap, 0, buf, length encoded)" by blast
  have "bt_remove buf (bt_insert buf encoded heap) = heap" by (rule bt_eqI) (use b(2) in auto)
  moreover have "free buf (bt_insert buf encoded heap) = Some (bt_remove buf (bt_insert buf encoded heap))"
    using assms(2) b(1) by (simp add: goref_free_ok_def)
  ultimately show ?thesis using b by (simp add: invoke_def Some from_raw_parts_def)
qed

text \<open>
  C39. The differential targets are memory safe and exact. If the Go library keeps the contract of its interface, then on every input a target
  has no undefined behaviour, leaves the C heap as it found it (the buffer it was given is freed once and nothing else is), and panics
  exactly if the Rust codec and the reference disagree: one rejects what the other accepts, or they encode differently.
\<close>

theorem differential_targets_exact:
  assumes "goref_ok (goref_bcast_parse_and_reencode L) reference" "goref_ok (goref_rs_preamble_parse_and_reencode L) preamble_reference"
    and "goref_free_ok (goref_free L)"
  shows "(\<exists>res. bcast_diff C L data heap = Some (heap, res) \<and> (res = Inr () \<longleftrightarrow> rust_parse_and_reencode C data = reference data)) \<and>
    (\<exists>res. rs_preamble_diff D L data heap = Some (heap, res) \<and> (res = Inr () \<longleftrightarrow> rust_parse_and_reencode D data = preamble_reference data))"
proof -
  have "bcast_parse_and_reencode L data heap = Some (heap, reference data)"
    "rs_preamble_parse_and_reencode L data heap = Some (heap, preamble_reference data)"
    by (simp_all add: bcast_parse_and_reencode_def rs_preamble_parse_and_reencode_def invoke_safe [OF assms(1,3)] invoke_safe [OF assms(2,3)])
  then show ?thesis by (simp add: bcast_diff_def rs_preamble_diff_def split: option.split)
qed

text \<open>A reference that rejects the empty input and returns every other, with buffers above all live addresses.\<close>

definition demo_reference :: "bytes \<Rightarrow> bytes option" where
  "demo_reference input = (if input = [] then None else Some input)"

definition demo_goref :: GorefFn where
  "demo_goref input heap out_buf out_len =
     (if input = [] then (heap, 1, out_buf, out_len)
      else (let buf = Suc (fold max (bt_keys heap) 0) in (bt_insert buf input heap, 0, buf, length input)))"

lemma demo_goref_ok: "goref_ok demo_goref demo_reference"
proof -
  have max: "a \<le> fold max xs a" "x \<in> set xs \<Longrightarrow> x \<le> fold max xs a" for x a :: nat and xs
    by (induction xs arbitrary: a) (auto intro: le_trans [OF max.cobounded1] le_trans [OF max.cobounded2])
  have "bt_get heap (Suc (fold max (bt_keys heap) 0)) = None" for heap :: CHeap
  proof (rule ccontr)
    assume "bt_get heap (Suc (fold max (bt_keys heap) 0)) \<noteq> None"
    then have "Suc (fold max (bt_keys heap) 0) \<in> set (bt_keys heap)" by simp
    from max(2) [OF this, of 0] show False by simp
  qed
  then show ?thesis by (simp add: goref_ok_def demo_goref_def demo_reference_def Let_def)
qed

definition demo_lib :: GorefLib where
  "demo_lib = \<lparr>goref_bcast_parse_and_reencode = demo_goref, goref_sess_parse_and_reencode = demo_goref, goref_selector_parse_and_reencode = demo_goref,
     goref_chunk_header_parse_and_reencode = demo_goref, goref_rs_preamble_parse_and_reencode = demo_goref,
     goref_rs_chunk_ident_parse_and_reencode = demo_goref,
     goref_free = (\<lambda>buf heap. if buf = 0 then Some heap else if bt_get heap buf = None then None else Some (bt_remove buf heap))\<rparr>"

text \<open>A codec that accepts the empty input too: the target finds the difference, and only there.\<close>

definition lax_codec :: "bytes PbCodec" where
  "lax_codec = \<lparr>pb_encode = id, pb_decode = Some\<rparr>"

theorem differential_targets_exact_witness:
  "(\<exists>p. bcast_diff lax_codec demo_lib [] bt_empty = Some (bt_empty, Inl p)) \<and> bcast_diff lax_codec demo_lib [1, 2] bt_empty = Some (bt_empty, Inr ())"
proof -
  have L: "goref_ok (goref_bcast_parse_and_reencode demo_lib) demo_reference" "goref_ok (goref_rs_preamble_parse_and_reencode demo_lib) demo_reference"
    by (simp_all add: demo_lib_def demo_goref_ok)
  have F: "goref_free_ok (goref_free demo_lib)" by (simp add: demo_lib_def goref_free_ok_def)
  note d = differential_targets_exact [OF L F, of lax_codec _ bt_empty lax_codec]
  show ?thesis using d [of "[]"] d [of "[1, 2]"]
    by (auto simp: rust_parse_and_reencode_def lax_codec_def demo_reference_def) (metis (full_types) old.sum.exhaust old.unit.exhaust)
qed

end
