(* ===== verification/Xtask.thy ===== *)
theory Xtask
  imports Prelude
begin

text \<open>
  \<open>xtask/src/main.rs\<close>: the command line that checks the vendored protocol definitions. The file system, the TOML parser, SHA-256 and
  hexadecimal encoding are the record \<open>XtaskEnv\<close>. A line of output is a constructor with the values it is formatted from, and
  an exit code is a byte.
\<close>

record ProtoEntry =
  pe_path :: string
  pe_sha256 :: string

record 'err XtaskEnv =
  xe_root :: string
  xe_read_to_string :: "string \<Rightarrow> 'err + string"
  xe_read :: "string \<Rightarrow> 'err + bytes"
  xe_from_toml :: "string \<Rightarrow> 'err + ProtoEntry list"
  xe_digest :: "bytes \<Rightarrow> bytes"
  xe_hex :: "bytes \<Rightarrow> string"

datatype 'err XtaskLine =
    LineUsage
  | LineUnknownSubcommand string
  | LineFailedToRead string 'err
  | LineFailedToParse string 'err
  | LineOk string
  | LineDrift string string string
  | LineMissing string 'err
  | LineAllMatch nat
  | LineMismatches nat

text \<open>\<open>Path::join\<close> on Unix: an absolute path replaces the base.\<close>

definition path_join :: "string \<Rightarrow> string \<Rightarrow> string" where
  "path_join base p =
     (if p \<noteq> [] \<and> hd p = CHR 0x2F then p
      else if base = [] \<or> last base = CHR 0x2F then base @ p else base @ ''/'' @ p)"

definition check_entry :: "'err XtaskEnv \<Rightarrow> ProtoEntry \<Rightarrow> 'err XtaskLine list \<times> nat \<Rightarrow> 'err XtaskLine list \<times> nat" where
  "check_entry V entry st =
     (case st of (out, errors) \<Rightarrow>
       (case xe_read V (path_join (xe_root V) (pe_path entry)) of
          Inr content \<Rightarrow>
            (let actual = xe_hex V (xe_digest V content) in
             if actual = pe_sha256 entry then (out @ [LineOk (pe_path entry)], errors)
             else (out @ [LineDrift (pe_path entry) (pe_sha256 entry) actual], errors + 1))
        | Inl e \<Rightarrow> (out @ [LineMissing (pe_path entry) e], errors + 1)))"

definition hashes_path :: "'err XtaskEnv \<Rightarrow> string" where
  "hashes_path V = path_join (path_join (xe_root V) ''xtask'') ''proto-hashes.toml''"

definition check_protos :: "'err XtaskEnv \<Rightarrow> 'err XtaskLine list \<times> u8" where
  "check_protos V =
     (case xe_read_to_string V (hashes_path V) of
        Inl e \<Rightarrow> ([LineFailedToRead (hashes_path V) e], 1)
      | Inr toml_text \<Rightarrow>
          (case xe_from_toml V toml_text of
             Inl e \<Rightarrow> ([LineFailedToParse (hashes_path V) e], 1)
           | Inr proto \<Rightarrow>
               (case fold (check_entry V) proto ([], 0) of (out, errors) \<Rightarrow>
                 if errors = 0 then (out @ [LineAllMatch (length proto)], 0) else (out @ [LineMismatches errors], 1))))"

definition xtask_main :: "'err XtaskEnv \<Rightarrow> string list \<Rightarrow> 'err XtaskLine list \<times> u8" where
  "xtask_main V args =
     (case args of
        [] \<Rightarrow> ([LineUsage], 0)
      | cmd # _ \<Rightarrow>
          if cmd = ''-h'' \<or> cmd = ''--help'' then ([LineUsage], 0)
          else if cmd = ''check-protos'' then check_protos V
          else ([LineUnknownSubcommand cmd, LineUsage], 2))"

subsection \<open>What the check reports\<close>

text \<open>The vendored file is there and has the recorded digest.\<close>

definition entry_ok :: "'err XtaskEnv \<Rightarrow> ProtoEntry \<Rightarrow> bool" where
  "entry_ok V entry \<longleftrightarrow>
     (\<exists>content. xe_read V (path_join (xe_root V) (pe_path entry)) = Inr content \<and> xe_hex V (xe_digest V content) = pe_sha256 entry)"

fun reports :: "'err XtaskLine \<Rightarrow> string option" where
  "reports (LineDrift p _ _) = Some p"
| "reports (LineMissing p _) = Some p"
| "reports _ = None"

lemma check_entries:
  "fold (check_entry V) proto (out, errors) = (out', errors') \<Longrightarrow>
     errors' = errors + length (filter (\<lambda>en. \<not> entry_ok V en) proto) \<and>
     List.map_filter reports out' = List.map_filter reports out @ map pe_path (filter (\<lambda>en. \<not> entry_ok V en) proto)"
proof (induction proto arbitrary: out errors)
  case (Cons en proto)
  obtain out1 e1 where e: "check_entry V en (out, errors) = (out1, e1)" by fastforce
  then have "e1 = errors + (if entry_ok V en then 0 else 1)"
    "List.map_filter reports out1 = List.map_filter reports out @ (if entry_ok V en then [] else [pe_path en])"
    by (auto simp: check_entry_def entry_ok_def Let_def map_filter_def split: sum.splits if_splits)
  then show ?case using Cons.IH [of out1 e1] Cons.prems e by simp
qed (simp add: map_filter_def)

text \<open>The list of digests, if it can be read and parsed.\<close>

definition listed :: "'err XtaskEnv \<Rightarrow> ProtoEntry list option" where
  "listed V = (case xe_read_to_string V (hashes_path V) of
     Inl _ \<Rightarrow> None | Inr toml \<Rightarrow> (case xe_from_toml V toml of Inl _ \<Rightarrow> None | Inr proto \<Rightarrow> Some proto))"

text \<open>
  C40. The check of the vendored definitions is exact. \<open>check-protos\<close> exits with 0 if the list of digests can be read and parsed and every
  listed file is present with its digest, and with 1 otherwise; the files it reports as drifted or missing are exactly those that fail,
  in the order of the list. An unknown subcommand exits with 2.
\<close>

theorem check_protos_exact:
  "snd (xtask_main V (''check-protos'' # args)) =
     (case listed V of None \<Rightarrow> 1 | Some proto \<Rightarrow> if list_all (entry_ok V) proto then 0 else 1) \<and>
   List.map_filter reports (fst (xtask_main V (''check-protos'' # args))) =
     (case listed V of None \<Rightarrow> [] | Some proto \<Rightarrow> map pe_path (filter (\<lambda>en. \<not> entry_ok V en) proto)) \<and>
   (cmd \<notin> {''-h'', ''--help'', ''check-protos''} \<longrightarrow> snd (xtask_main V (cmd # args)) = 2)"
proof (cases "listed V")
  case None
  then show ?thesis by (auto simp: xtask_main_def check_protos_def listed_def map_filter_def split: sum.splits)
next
  case (Some proto)
  then obtain toml where t: "xe_read_to_string V (hashes_path V) = Inr toml" "xe_from_toml V toml = Inr proto"
    by (auto simp: listed_def split: sum.splits)
  obtain out errors where f: "fold (check_entry V) proto ([], 0) = (out, errors)" by fastforce
  note c = check_entries [OF f]
  have "errors = 0 \<longleftrightarrow> list_all (entry_ok V) proto" using c by (auto simp: filter_empty_conv list_all_iff)
  then show ?thesis using c by (auto simp: xtask_main_def check_protos_def Some t f map_filter_def)
qed

definition demo_xtask :: "unit XtaskEnv" where
  "demo_xtask = \<lparr>xe_root = ''/r'', xe_read_to_string = (\<lambda>p. if p = ''/r/xtask/proto-hashes.toml'' then Inr ''t'' else Inl ()),
     xe_read = (\<lambda>p. if p = ''/r/a'' then Inr [1] else if p = ''/r/b'' then Inr [2] else Inl ()),
     xe_from_toml = (\<lambda>_. Inr [\<lparr>pe_path = ''a'', pe_sha256 = ''x''\<rparr>, \<lparr>pe_path = ''b'', pe_sha256 = ''x''\<rparr>, \<lparr>pe_path = ''c'', pe_sha256 = ''x''\<rparr>]),
     xe_digest = id, xe_hex = (\<lambda>b. if b = [1] then ''x'' else ''y'')\<rparr>"

theorem check_protos_exact_witness:
  "snd (xtask_main demo_xtask [''check-protos'']) = 1 \<and>
   List.map_filter reports (fst (xtask_main demo_xtask [''check-protos''])) = [''b'', ''c''] \<and> snd (xtask_main demo_xtask [''x'']) = 2"
proof -
  have p: "listed demo_xtask = Some [\<lparr>pe_path = ''a'', pe_sha256 = ''x''\<rparr>, \<lparr>pe_path = ''b'', pe_sha256 = ''x''\<rparr>, \<lparr>pe_path = ''c'', pe_sha256 = ''x''\<rparr>]"
    by (simp add: demo_xtask_def listed_def hashes_path_def path_join_def)
  have ok: "entry_ok demo_xtask \<lparr>pe_path = ''a'', pe_sha256 = ''x''\<rparr>" "\<not> entry_ok demo_xtask \<lparr>pe_path = ''b'', pe_sha256 = ''x''\<rparr>"
    "\<not> entry_ok demo_xtask \<lparr>pe_path = ''c'', pe_sha256 = ''x''\<rparr>"
    by (simp_all add: entry_ok_def demo_xtask_def path_join_def)
  show ?thesis using check_protos_exact [of demo_xtask "[]" "''x''"] ok p by simp
qed

end
