(* ===== verification/Spec2Isabelle.thy ===== *)
theory Spec2Isabelle
  imports QuicEndpoint ResetWait MemoryNet SimScenario SimAuthentic SleepWait FuzzFfi Xtask
begin

text \<open>
  A verification library for \<open>ethp2p-rs\<close>, an erasure-coded broadcast protocol: an origin Reed-Solomon
  encodes a message, sends its shards to the subscribers of a channel, and every node that holds
  enough shards rebuilds the message and forwards shards itself.

  \<^bold>\<open>The program and its theories.\<close> All paths are below \<open>src/crates\<close>, except those of the last item.

  \<^item> \<open>Prelude\<close>, \<open>BTree\<close>, \<open>BinaryHeap\<close>, \<open>Mpsc\<close>: what the code uses of Rust's integers, slices, ordered maps, heaps and
    channels. A \<open>HashMap\<close> or \<open>BTreeMap\<close> is an ordered association list (type \<open>btree_map\<close>), a \<open>BinaryHeap\<close> its
    entries in the order in which they are popped.
  \<^item> \<open>ethp2p-broadcast\<close>, strategies: \<open>Bitmap\<close> (\<open>strategy/bitmap.rs\<close>), \<open>Config\<close> (\<open>strategy/config.rs\<close>), \<open>Verify\<close>
    (\<open>strategy/rs/verify.rs\<close>), \<open>RsCodec\<close> (\<open>encode.rs\<close>, \<open>decode.rs\<close>), \<open>Planner\<close> (\<open>planner.rs\<close>), \<open>Strategy\<close> (the trait of
    \<open>strategy/mod.rs\<close>, as a record of functions and as the locale \<open>broadcast_strategy\<close>), \<open>RsState\<close> (\<open>rs/state.rs\<close>).
  \<^item> \<open>ethp2p-broadcast\<close>, engine: \<open>Session\<close> (\<open>session.rs\<close>), \<open>RsSession\<close> (sessions of the Reed-Solomon strategy), \<open>Channel\<close>
    (\<open>channel.rs\<close>), \<open>Runtime\<close> (\<open>runtime/mod.rs\<close>), \<open>Engine\<close> (\<open>engine.rs\<close>), with its invariant in \<open>EngineInv\<close>, session
    disposal in \<open>EngineLife\<close>, and its instance for the Reed-Solomon strategy in \<open>RsEngine\<close>.
  \<^item> \<open>ethp2p-broadcast\<close>, wire format and in-process network: \<open>Wire\<close> (\<open>wire.rs\<close>, \<open>selector.rs\<close>, \<open>chunk.rs\<close>), \<open>MemoryNet\<close>
    (\<open>runtime/memory_net.rs\<close>); \<open>NetLaws\<close> is the contract of a reliable network, as the locale \<open>reliable_net\<close>, which the
    in-process network and the fault-free simulator both meet.
  \<^item> Engines over networks: \<open>EngineNet\<close> (an engine changes its network only by sending), \<open>Broadcast\<close> (what an origin
    sends, over any reliable network, makes every subscriber deliver) and \<open>Forwarding\<close> (over a network that accepts
    messages, locale \<open>accepting_net\<close>, everything a session sends is genuine and paid for by a potential of the session)
    and \<open>Authentic\<close> (over a network that may lose, delay and reorder, locale \<open>honest_net\<close>, everything an engine holds, sends and
    delivers stems from a publication).
  \<^item> \<open>ethp2p-transport\<close>: \<open>Transport\<close> (\<open>lib.rs\<close>: peer queues, the outbound pump, the stream readers, the tracker of
    reconstructed sessions), \<open>TransportProofs\<close>, \<open>QuicEndpoint\<close> (\<open>lib.rs\<close>, \<open>config.rs\<close>: binding, connections and the interleaving
    of their tasks), \<open>ResetWait\<close> (the wake-ups of \<open>ResetState\<close>), and \<open>DemoCodec\<close>, a codec and a QUIC connection for examples.
  \<^item> \<open>ethp2p-sim\<close>: \<open>SimNet\<close> (\<open>trace.rs\<close>, \<open>net.rs\<close>, \<open>state.rs\<close>, \<open>clock.rs\<close>) with its theorems in \<open>SimProofs\<close>, \<open>SimRunner\<close>
    (\<open>runner.rs\<close>), and \<open>SimScenario\<close> (whole runs: the locale \<open>sim_protocol\<close> takes a protocol of the engines to quiescence,
    and is interpreted for the handshakes of a mesh and for a broadcast), and \<open>SimAuthentic\<close> (runs under any fault plan). \<open>SleepWait\<close> has the sleep future of \<open>state.rs\<close>
    with its wakeup as concurrent atomic steps.
  \<^item> Tools: \<open>FuzzFfi\<close> (\<open>src/fuzz/src/ffi.rs\<close> and the differential targets of \<open>src/fuzz/fuzz_targets\<close>, over an explicit C heap) and
    \<open>Xtask\<close> (\<open>src/xtask/src/main.rs\<close>).

  \<^bold>\<open>State and effects.\<close> A struct is a record, an enumeration a datatype, \<open>Result\<close> is a sum with the error on
  the left, and an operation takes the state and returns it changed. Sizes and hashes keep their width (\<open>u32\<close>,
  \<open>u64\<close>, \<open>i32\<close> are words). Instants and durations are natural numbers of nanoseconds: the overflow of an
  \<open>Instant\<close> addition, which panics in Rust after centuries, is not represented. Each engine step takes
  the reading of its clock as an argument. The drain loop of the engine is a \<open>partial_function (option)\<close>, so that not
  terminating is the value \<open>None\<close>, and the theorem that it returns excludes this value; every other loop is a
  total recursive function, without fuel (the step budget of \<open>run_to_quiescence\<close> is the program's own). In the runner
  \<open>None\<close> stands for a panic or a hang, and is excluded in the same way. Tasks that run concurrently are step
  relations over the functions they run (\<open>quic_reachable\<close>, \<open>reset_reachable\<close>, \<open>sleep_reachable\<close>), one step per access to the shared
  state; the operations as a whole (\<open>register_peer\<close>, \<open>connection_lost\<close>, \<open>QuicNet_send\<close>) are shown to be these steps without interruption.
  The bounded queue of a peer models a channel of \<open>tokio\<close>. Counters that wrap in the code (peer ids, sequence numbers
  of the simulator) keep their width, and theorems that need them not to wrap say so.

  \<^bold>\<open>Parameters.\<close> Code outside the repository is a parameter with its documented behaviour as a named hypothesis:
  SHA-256 and the \<open>reed-solomon-erasure\<close> crate (\<open>sha_ok\<close>, \<open>rs_mds\<close>, \<open>rs_ok\<close>, instantiated by a repetition code), protobuf encoding
  (\<open>codec_ok\<close>, \<open>codecs_ok\<close>), a QUIC connection of \<open>quinn\<close> (\<open>quinn_ok\<close>), the random generator of the simulator
  (\<open>rng_ok\<close>), the Go reference of the fuzz targets (\<open>goref_ok\<close>, \<open>goref_free_ok\<close>), the file system and TOML parser of the build tasks,
  the network below an engine and the sink of delivered messages.

  \<^bold>\<open>What is shown.\<close>
  \<^item> Codec: any shards that cover \<open>num_data\<close> indices decode to the payload; what decodes has the announced length
    and digest; bitmaps refine sets and survive their byte encoding.
  \<^item> Planner: its lazy heap search finds what an exhaustive search finds, and the forward multiplier bounds the
    sends of every shard in every reachable state, for the strategy as well.
  \<^item> Session and engine: the life cycle, at most one delivery per session, only verified payloads are delivered,
    every handler returns over every network, disposed sessions are not resurrected, cleanup removes exactly what
    has expired, and a relay that receives enough genuine shards within the time to live of the session delivers the payload,
    the cleanup after each event included (\<open>run_steps\<close> iterates \<open>run_one_step\<close>).
  \<^item> Wire and transport: frames, chunks and control messages arrive unchanged and in order however the stream is
    fragmented; readers return on every input and never report another peer's events; queues are bounded and
    hold only messages for their peer, the registry of connections is consistent and no wake-up is lost, under every interleaving
    of the single accesses that the tasks make to the shared state.
  \<^item> Networks: the in-process network and the simulator without faults deliver exactly once and in order; a
    publication over such a network reaches every subscriber that processes it within the time to live of a session.
  \<^item> Simulator: virtual time never goes back, every send is traced and every loss accounted for by a rule, a
    partition isolates, sleepers wake on time and are not lost to a race, and runs always end. A simulation without faults, from the construction of
    the runner to the deliveries, delivers the published payload once at every other peer, within a number of steps that is
    quadratic in the peers and linear in the shards. Under any faults nothing is delivered that was not published.
  \<^item> Tools: the differential fuzz targets are memory safe and panic exactly on a difference, and the check of the vendored
    protocol definitions reports exactly the files that changed.
  \<^item> Defects: a few theorems describe behaviour that differs from its documentation.

  \<^bold>\<open>Not modelled.\<close> Certificates and TLS configuration (\<open>tls.rs\<close>), which only call \<open>quinn\<close> and
  \<open>rustls\<close>; task spawning and the wall clock of the async runtime (\<open>spawn.rs\<close>, \<open>TokioClock\<close>, \<open>TokioSpawn\<close>); generated
  protobuf code, and the fuzz targets that only call its decoder; \<open>Display\<close> and \<open>Debug\<close> implementations and logging.
\<close>

section \<open>A concrete engine\<close>

text \<open>
  Channel \<open>c\<close> with one subscriber, running the repetition code, a network without state that accepts
  everything, and a list as delivery sink; used by the witnesses. The preamble decoder maps the
  single byte 1 to the demonstration preamble.
\<close>

definition demo_send :: "unit NetOp" where
  "demo_send n msg = (n, Inr ())"

definition demo_decode :: "bytes \<Rightarrow> Preamble option" where
  "demo_decode b = (if b = [1] then Some demo_preamble else None)"

definition demo_env :: "(RsStrategy, unit DecodeError, unit, DeliveredMessage list) EngineEnv" where
  "demo_env = rs_env repetition_crates demo_send (\<lambda>ds msg. ds @ [msg])"

definition demo_channel :: "RsStrategy Channel" where
  "demo_channel = Channel_new ''c'' (rs_relay_factory_seeded demo_decode demo_config 0)"

definition demo_start :: "(RsStrategy, unit, DeliveredMessage list) Engine" where
  "demo_start = fst (Engine_subscribe demo_env ''c'' (rs_relay_factory_seeded demo_decode demo_config 0)
     (Engine_with_config 1 () [] EngineConfig_default 0))"

lemma demo_start_reachable: "engine_reachable repetition_crates demo_send (\<lambda>ds msg. ds @ [msg]) demo_start"
  unfolding demo_start_def demo_env_def by (rule eng_subscribe_seeded [OF eng_new])

lemma demo_start_channel:
  "bt_get (en_channels demo_start) ''c'' = Some demo_channel" "en_delivered demo_start = []"
  "en_tombstones demo_start = bt_empty" "en_parked_chunks demo_start = bt_empty"
  "en_config demo_start = EngineConfig_default"
  by (simp_all add: demo_start_def Engine_subscribe_def Engine_with_config_def demo_channel_def)

text \<open>The same engine after the session of message \<open>m\<close> was disposed of at instant 5.\<close>

definition demo_disposed :: "(RsStrategy, unit, DeliveredMessage list) Engine" where
  "demo_disposed = dispose_session ''c'' ''m'' 5 demo_start"

theorem tombstone_blocks_resurrection_witness:
  "\<not> live (the (handle_event demo_env 6 (EvSessionOpen 2 ''c'' ''m'' [1] []) demo_disposed)) (''c'', ''m'')"
proof -
  have t: "is_tombstoned demo_disposed ''c'' ''m''"
    by (simp add: is_tombstoned_def demo_disposed_def dispose_tables)
  have "handle_event demo_env 6 (EvSessionOpen 2 ''c'' ''m'' [1] []) demo_disposed = Some demo_disposed"
    using t by (simp add: handle_session_open_def)
  from tombstone_blocks_resurrection [OF this t] show ?thesis
    by (simp add: demo_disposed_def dispose_live handle_session_open_def t [unfolded demo_disposed_def])
qed

section \<open>Properties of the whole system\<close>

text \<open>
  C5. The engine never hangs and never corrupts its tables. In every state reachable from a new
  engine by events, publications, subscriptions and connections, over any network and any delivery
  sink: handling any event returns, publishing any encoded payload returns, and the state satisfies
  the engine invariant (one lifecycle record and one preamble per live session, opened streams and
  pending sends only for live sessions, at most 32 parked chunks per message, every stored chunk
  verified, every planner consistent).
\<close>

theorem engine_always_returns:
  assumes "engine_reachable X send try_send e" "sha_ok X" "rs_ok X"
  shows "engine_inv (rs_inv X) e \<and>
    (\<forall>now ev. \<exists>e' r. run_one_step (rs_env X send try_send) now ev e = Some (e', r) \<and> engine_inv (rs_inv X) e') \<and>
    (\<forall>now c m payload config seed s b. RsStrategy_new_origin_with_seed X payload config seed = Some (Inr s) \<longrightarrow>
      (\<exists>e' r. Engine_publish (rs_env X send try_send) now c m s b e = Some (e', r) \<and> engine_inv (rs_inv X) e'))"
proof (intro conjI allI impI)
  note inv = engine_reachable_inv [OF assms]
  show "engine_inv (rs_inv X) e" by (rule inv)
  show "\<exists>e' r. run_one_step (rs_env X send try_send) now ev e = Some (e', r) \<and> engine_inv (rs_inv X) e'" for now ev
    by (rule rs_eng.run_one_step_returns [OF inv])
  show "\<exists>e' r. Engine_publish (rs_env X send try_send) now c m s b e = Some (e', r) \<and> engine_inv (rs_inv X) e'"
    if "RsStrategy_new_origin_with_seed X payload config seed = Some (Inr s)" for now c m payload config seed s b
    by (rule rs_eng.publish_returns [OF inv origin_inv [OF that assms(2,3)]])
qed

theorem engine_always_returns_witness:
  "\<exists>e' r. run_one_step demo_env 3 (Some (EvSessionOpen 2 ''c'' ''m'' [1] [])) demo_start = Some (e', r)"
  using engine_always_returns [OF demo_start_reachable] unfolding demo_env_def by fastforce

text \<open>
  C4. End to end at a relay. An engine subscribed to a channel takes one \<open>run_one_step\<close> per event, the periodic
  cleanup included. It receives a \<open>SessionOpen\<close> with the preamble of an encoded payload, then any sequence of chunk
  events for that message, from any peers, with duplicates, bad indices and corrupted data among them, and routing
  updates. If the genuine shards of at least \<open>num_data\<close> indices occur before the session's time to live
  (\<open>active_session_ttl\<close> after the open) is over, and no chunk collides under the hash, then every step returns and exactly
  one message is delivered: the payload, under the right channel and message id. Events that come later, when the cleanup may
  have disposed of the session, deliver nothing more.
\<close>

theorem engine_delivers_payload:
  assumes "encode X payload cfg = Some (Inr (p, shards))" "sha_ok X" "rs_ok X"
    and "engine_inv (rs_inv X) e" "bt_get (en_channels e) c = Some ch"
    and "ch_factory ch (ch_calls ch) b = (n, Inr s)" "RsStrategy_new_relay_with_seed p config seed = Inr s"
    and "\<not> live e (c, m)" "\<not> is_tombstoned e c m" "bt_get (en_parked_chunks e) (c, m) = None"
    and "\<forall>(t, ev)\<in>set (tevs @ late). traffic X shards c m ev"
    and "\<forall>(t, ev)\<in>set tevs. t \<le> now + active_session_ttl (en_config e)"
    and "unat (num_data p) \<le> card (\<Union>(t, ev)\<in>set tevs. brings shards ev)"
  shows "\<exists>e'. run_steps (rs_env X send (\<lambda>ds msg. ds @ [msg])) ((now, EvSessionOpen q c m b u) # tevs @ late) e = Some e' \<and>
    en_delivered e' = en_delivered e @ [\<lparr>dm_channel_id = c, dm_message_id = m, dm_payload = payload\<rparr>]"
  by (rule relay_delivers [OF assms])

text \<open>
  A corrupted chunk, the genuine shard 250 seconds after the open, and the same shard again after the time to live of 300 seconds.
\<close>

theorem engine_delivers_payload_witness:
  "\<exists>e'. run_steps demo_env [(0, EvSessionOpen 9 ''c'' ''m'' [1] []), (100000000000, EvChunk 9 ''c'' ''m'' 0 [8]),
      (250000000000, EvChunk 9 ''c'' ''m'' 1 [7, 9]), (400000000000, EvChunk 9 ''c'' ''m'' 1 [7, 9])] demo_start = Some e' \<and>
   en_delivered e' = [\<lparr>dm_channel_id = ''c'', dm_message_id = ''m'', dm_payload = [7, 9]\<rparr>]"
proof -
  let ?xs = "[(100000000000, EvChunk 9 ''c'' ''m'' 0 [8]), (250000000000, EvChunk 9 ''c'' ''m'' 1 [7, 9])]"
  let ?ys = "[(400000000000, EvChunk 9 ''c'' ''m'' 1 [7, 9])]"
  have card: "unat (num_data demo_preamble) \<le> card (\<Union>(t, ev)\<in>set ?xs. brings [[7, 9], [7, 9]] ev)"
    by (simp add: demo_preamble_def)
  have tr: "\<forall>(t, ev)\<in>set (?xs @ ?ys). traffic repetition_crates [[7, 9], [7, 9]] ''c'' ''m'' ev"
    by (simp add: collision_free_def repetition_crates_def)
  have time: "\<forall>(t, ev)\<in>set ?xs. t \<le> 0 + active_session_ttl (en_config demo_start)"
    by (simp add: demo_start_channel EngineConfig_default_def from_secs_def)
  have inv: "engine_inv (rs_inv repetition_crates) demo_start"
    by (rule engine_reachable_inv [OF demo_start_reachable]) simp_all
  have fac: "ch_factory demo_channel (ch_calls demo_channel) [1] = (1, Inr demo_relay)"
    using demo_relay_new by (simp add: demo_channel_def Channel_new_def rs_relay_factory_seeded_def demo_decode_def)
  have "\<not> live demo_start (''c'', ''m'')"
    by (simp add: live_def session_of_eq demo_start_channel) (simp add: demo_channel_def Channel_new_def)
  from engine_delivers_payload [OF demo_encode _ _ inv demo_start_channel(1) fac demo_relay_new this _ _ tr time card,
    of demo_send 9 "[]"]
  show ?thesis by (simp add: demo_env_def demo_start_channel is_tombstoned_def del: run_steps.simps)
qed

lemma demo_start_awaits: "awaits repetition_crates demo_preamble [1] ''c'' ''m'' demo_start"
proof -
  have "engine_inv (rs_inv repetition_crates) demo_start"
    by (rule engine_reachable_inv [OF demo_start_reachable]) simp_all
  moreover have "ch_factory demo_channel (ch_calls demo_channel) [1] = (1, Inr demo_relay)"
    using demo_relay_new by (simp add: demo_channel_def Channel_new_def rs_relay_factory_seeded_def demo_decode_def)
  moreover have "\<not> live demo_start (''c'', ''m'')"
    by (simp add: live_def session_of_eq demo_start_channel) (simp add: demo_channel_def Channel_new_def)
  ultimately show ?thesis using demo_relay_new demo_start_channel by (auto simp: awaits_def is_tombstoned_def)
qed

lemma demo_start_delivers:
  "\<exists>e1 e2. handle_event demo_env 0 (EvSessionOpen 9 ''c'' ''m'' [1] []) demo_start = Some e1 \<and> en_delivered e1 = [] \<and>
     handle_event demo_env 1 (EvChunk 9 ''c'' ''m'' 1 [7, 9]) e1 = Some e2 \<and>
     en_delivered e2 = [\<lparr>dm_channel_id = ''c'', dm_message_id = ''m'', dm_payload = [7, 9]\<rparr>]"
proof -
  let ?T = "\<lambda>ds msg. ds @ [msg :: DeliveredMessage]"
  have inv: "engine_inv (rs_inv repetition_crates) demo_start"
    by (rule engine_reachable_inv [OF demo_start_reachable]) simp_all
  have fac: "ch_factory demo_channel (ch_calls demo_channel) [1] = (1, Inr demo_relay)"
    using demo_relay_new by (simp add: demo_channel_def Channel_new_def rs_relay_factory_seeded_def demo_decode_def)
  have none: "bt_get (ch_sessions demo_channel) ''m'' = None" by (simp add: demo_channel_def Channel_new_def)
  have clear: "\<not> is_tombstoned demo_start ''c'' ''m''" "bt_get (en_parked_chunks demo_start) (''c'', ''m'') = None"
    by (simp_all add: is_tombstoned_def demo_start_channel)
  have msg: "encoded_message repetition_crates [7, 9] demo_preamble [[7, 9], [7, 9]]" by (rule encoded_messageI [OF demo_encode]) simp_all
  obtain e1 where e1: "handle_event demo_env 0 (EvSessionOpen 9 ''c'' ''m'' [1] []) demo_start = Some e1" "engine_inv (rs_inv repetition_crates) e1"
    using rs_eng.handle_event_returns [OF inv] unfolding demo_env_def by blast
  then have h1: "handle_session_open (rs_env repetition_crates demo_send ?T) 0 ''c'' ''m'' [1] demo_start = Some e1" by (simp add: demo_env_def)
  note op = open_relaying [OF msg demo_start_channel(1) none fac demo_relay_new clear h1]
  have "tables_inv demo_start" using inv by (simp add: engine_inv_def)
  then have del: "en_delivered e1 = []" using op(2) by (simp add: receiving_def demo_start_channel)
  obtain e2 where e2: "handle_event demo_env 1 (EvChunk 9 ''c'' ''m'' 1 [7, 9]) e1 = Some e2"
    using rs_eng.handle_event_returns [OF e1(2)] unfolding demo_env_def by blast
  then have h2: "handle_chunk (rs_env repetition_crates demo_send ?T) 1 ''c'' ''m'' 1 [7, 9] e1 = Some e2" by (simp add: demo_env_def)
  have "collision_free repetition_crates [[7, 9], [7, 9]] [(1, [7, 9])]" by (simp add: collision_free_def repetition_crates_def)
  from relaying_delivered [OF msg relaying_chunk [OF msg op(1) this h2]]
  have "en_delivered e2 = [\<lparr>dm_channel_id = ''c'', dm_message_id = ''m'', dm_payload = [7, 9]\<rparr>]"
    by (simp add: demo_preamble_def demo_start_channel)
  then show ?thesis using e1(1) del e2 by blast
qed

text \<open>
  C1. A publication reaches every subscriber. Over the in-process network, an engine that publishes an encoded
  message on a channel whose subscribers are all reachable returns without error, and what this adds to the
  mailbox of each subscriber is enough for it: any engine subscribed to the channel that has not seen the message and
  processes exactly these events with \<open>run_one_step\<close>, the periodic cleanup included, over whatever network of its own,
  delivers the payload, once, provided that it processes the last of them within \<open>active_session_ttl\<close> of the first.
\<close>

theorem broadcast_delivers:
  fixes e :: "(RsStrategy, MemoryNetHub, 'd) Engine" and send' :: "'k NetOp"
  assumes "RsStrategy_new_origin_with_seed X payload config seed = Some (Inr s)"
    and "encode X payload config = Some (Inr (p, shards))" "sha_ok X" "rs_ok X"
    and "engine_inv (rs_inv X) e" "bt_get (en_channels e) c = Some ch" "\<not> live e (c, m)"
    and "hub_reachable (en_net e)" "\<forall>q\<in>bs_elems (ch_subscribers ch). q \<noteq> self \<and> reachable_peer (en_net e) q"
  shows "\<exists>e'. Engine_publish (rs_env X (MemoryNetEndpoint_send self) try_send) now c m s b e = Some (e', Inr ()) \<and>
    (\<forall>q\<in>bs_elems (ch_subscribers ch). \<exists>evs. mailbox (en_net e') q = mailbox (en_net e) q @ evs \<and>
      (\<forall>er :: (RsStrategy, 'k, DeliveredMessage list) Engine. \<forall>tevs. awaits X p b c m er \<longrightarrow> map snd tevs = evs \<longrightarrow>
        (\<forall>t\<in>set (map fst tevs). t \<le> fst (hd tevs) + active_session_ttl (en_config er)) \<longrightarrow>
        (\<exists>er'. run_steps (rs_env X send' (\<lambda>ds msg. ds @ [msg])) tevs er = Some er' \<and>
          en_delivered er' = en_delivered er @ [\<lparr>dm_channel_id = c, dm_message_id = m, dm_payload = payload\<rparr>])))"
  by (rule reliable_net.broadcast [OF mem.reliable_net_axioms assms(1-7,9) hub_reachable_inv [OF assms(8)]])

text \<open>An engine on endpoint 1 of a hub, with a channel to which endpoint 2 has subscribed.\<close>

definition demo_origin :: "(RsStrategy, MemoryNetHub, DeliveredMessage list) Engine" where
  "demo_origin = update_channel ''c'' (\<lambda>ch. Channel_subscribe_peer (RsStrategy_ops repetition_crates) ch 2)
     (fst (Engine_subscribe (rs_env repetition_crates (MemoryNetEndpoint_send 1) (\<lambda>ds msg. ds @ [msg])) ''c''
       (rs_relay_factory_seeded demo_decode demo_config 0) (Engine_with_config 1 demo_hub [] EngineConfig_default 0)))"

lemma demo_origin_fields:
  "bt_get (en_channels demo_origin) ''c'' = Some (demo_channel\<lparr>ch_subscribers := bs_insert 2 bt_empty\<rparr>)"
  "en_net demo_origin = demo_hub"
  by (simp_all add: demo_origin_def update_channel_def Engine_subscribe_def Engine_with_config_def demo_channel_def Channel_new_def
      Channel_subscribe_peer_def bt_eqI)

lemma demo_origin_inv: "engine_inv (rs_inv repetition_crates) demo_origin"
proof -
  let ?E = "rs_env repetition_crates (MemoryNetEndpoint_send 1) (\<lambda>ds msg. ds @ [msg])"
  let ?e = "fst (Engine_subscribe ?E ''c'' (rs_relay_factory_seeded demo_decode demo_config 0)
    (Engine_with_config 1 demo_hub [] EngineConfig_default 0))"
  have "engine_reachable repetition_crates (MemoryNetEndpoint_send 1) (\<lambda>ds msg. ds @ [msg]) ?e"
    by (rule eng_subscribe_seeded [OF eng_new])
  then have "engine_inv (rs_inv repetition_crates) ?e" by (rule engine_reachable_inv) simp_all
  from rs_eng.handle_event_returns [OF this, of "MemoryNetEndpoint_send 1" "\<lambda>ds msg. ds @ [msg]" 0 "EvSubscribe 2 ''c''"]
  obtain e' where "handle_event ?E 0 (EvSubscribe 2 ''c'') ?e = Some e'" "engine_inv (rs_inv repetition_crates) e'" by blast
  moreover have "drain_channel ?E ''c'' demo_origin = Some (demo_origin, Inr ())"
    using demo_origin_fields(1) by (simp add: drain_channel_def demo_channel_def Channel_new_def)
  ultimately show ?thesis by (simp add: demo_origin_def)
qed

theorem broadcast_delivers_witness:
  "\<exists>s e' evs er'. RsStrategy_new_origin_with_seed repetition_crates [7, 9] demo_config 0 = Some (Inr s) \<and>
    Engine_publish (rs_env repetition_crates (MemoryNetEndpoint_send 1) (\<lambda>ds msg. ds @ [msg])) 0 ''c'' ''m'' s [1] demo_origin =
      Some (e', Inr ()) \<and>
    mailbox (en_net e') 2 = mailbox demo_hub 2 @ evs \<and> run_steps demo_env (map (Pair 0) evs) demo_start = Some er' \<and>
    en_delivered er' = [\<lparr>dm_channel_id = ''c'', dm_message_id = ''m'', dm_payload = [7, 9]\<rparr>]"
proof -
  let ?s = "RsStrategy_with demo_config demo_preamble (map Some [[7, 9], [7, 9]]) (EmitPlanner_new 2 0 ModeOrigin)"
  have s: "RsStrategy_new_origin_with_seed repetition_crates [7, 9] demo_config 0 = Some (Inr ?s)"
    by (simp add: RsStrategy_new_origin_with_seed_def demo_encode)
  have nl: "\<not> live demo_origin (''c'', ''m'')"
    by (simp add: live_def session_of_eq demo_origin_fields) (simp add: demo_channel_def Channel_new_def)
  have hub: "hub_reachable (en_net demo_origin)" unfolding demo_origin_fields demo_hub_def by (intro hub_endpoint hub_new)
  have "reachable_peer demo_hub 2" by code_simp
  then have peers: "\<forall>q\<in>bs_elems (ch_subscribers (demo_channel\<lparr>ch_subscribers := bs_insert 2 bt_empty\<rparr>)). q \<noteq> 1 \<and> reachable_peer (en_net demo_origin) q"
    by (simp add: demo_origin_fields bs_elems_simps)
  from broadcast_delivers [OF s demo_encode _ _ demo_origin_inv demo_origin_fields(1) nl hub peers,
      of "\<lambda>ds msg. ds @ [msg]" 0 "[1]" demo_send]
  obtain e' evs where e': "Engine_publish (rs_env repetition_crates (MemoryNetEndpoint_send 1) (\<lambda>ds msg. ds @ [msg])) 0 ''c'' ''m'' ?s [1] demo_origin =
      Some (e', Inr ())" "mailbox (en_net e') 2 = mailbox demo_hub 2 @ evs"
    and d: "\<And>er tevs. awaits repetition_crates demo_preamble [1] ''c'' ''m'' er \<Longrightarrow> map snd tevs = evs \<Longrightarrow>
      \<forall>t\<in>set (map fst tevs). t \<le> fst (hd tevs) + active_session_ttl (en_config er) \<Longrightarrow>
      \<exists>er'. run_steps (rs_env repetition_crates demo_send (\<lambda>ds msg. ds @ [msg])) tevs er = Some er' \<and>
        en_delivered er' = en_delivered er @ [\<lparr>dm_channel_id = ''c'', dm_message_id = ''m'', dm_payload = [7, 9]\<rparr>]"
    by (auto simp: demo_origin_fields)
  have evs: "map snd (map (Pair 0) evs) = evs" by (simp add: comp_def)
  have "\<forall>t\<in>set (map fst (map (Pair 0) evs)). t \<le> fst (hd (map (Pair 0) evs)) + active_session_ttl (en_config demo_start)"
    by auto
  from d [OF demo_start_awaits evs this] show ?thesis using s e' by (auto simp: demo_env_def demo_start_channel)
qed

text \<open>
  C6. Deliveries are verified. Whatever event an engine handles, in any state, it delivers at most
  one message, and then the message's session exists, is \<open>Reconstructed\<close>, and the payload has the
  length and the digest announced by that session's preamble.
\<close>

theorem deliveries_verified:
  assumes "handle_event (rs_env X send (\<lambda>ds msg. ds @ [msg])) now ev e = Some e'"
  shows "en_delivered e' = en_delivered e \<or>
    (\<exists>msg se. en_delivered e' = en_delivered e @ [msg] \<and>
      session_of e' (dm_channel_id msg) (dm_message_id msg) = Some se \<and> se_state se = Reconstructed \<and>
      sha256 X (dm_payload msg) = pre_hash (rs_preamble (se_strategy se)) \<and>
      length (dm_payload msg) = unat (pre_length (rs_preamble (se_strategy se))))"
  using handle_event_deliveries [OF assms] by (simp add: deliveries_ok_def)

theorem deliveries_verified_witness:
  "\<exists>e1 e2 se. handle_event demo_env 0 (EvSessionOpen 9 ''c'' ''m'' [1] []) demo_start = Some e1 \<and>
     handle_event demo_env 1 (EvChunk 9 ''c'' ''m'' 1 [7, 9]) e1 = Some e2 \<and> en_delivered e1 = [] \<and>
     en_delivered e2 = [\<lparr>dm_channel_id = ''c'', dm_message_id = ''m'', dm_payload = [7, 9]\<rparr>] \<and>
     session_of e2 ''c'' ''m'' = Some se \<and> se_state se = Reconstructed \<and>
     sha256 repetition_crates [7, 9] = pre_hash (rs_preamble (se_strategy se)) \<and> 2 = unat (pre_length (rs_preamble (se_strategy se)))"
proof -
  obtain e1 e2 where e: "handle_event demo_env 0 (EvSessionOpen 9 ''c'' ''m'' [1] []) demo_start = Some e1" "en_delivered e1 = []"
    "handle_event demo_env 1 (EvChunk 9 ''c'' ''m'' 1 [7, 9]) e1 = Some e2"
    "en_delivered e2 = [\<lparr>dm_channel_id = ''c'', dm_message_id = ''m'', dm_payload = [7, 9]\<rparr>]"
    using demo_start_delivers by blast
  from deliveries_verified [OF e(3) [unfolded demo_env_def]] show ?thesis using e by auto
qed

text \<open>
  C20. An error while opening a session stream orphans dispatches. When \<open>drain_session\<close> polls a session
  and opening the stream to the first dispatch's peer fails, the early return drops every
  dispatch of the round: no pending send is recorded and \<open>chunk_sent\<close> is not called, so the strategy
  keeps all of them in flight. The documentation of \<open>Strategy::poll_chunks\<close> says that each returned
  dispatch receives exactly one \<open>chunk_sent\<close> callback.
\<close>

theorem drain_error_orphans_dispatches:
  assumes "session_of e c m = Some se" "rs_inv X (se_strategy se)" "handles_inv (se_strategy se)"
    and "unat (rs_next_handle (se_strategy se)) + length (bt_keys (rs_attached (se_strategy se))) < 2 ^ 64"
    and "poll_session (rs_env X send try_send) c m e = (e1, Some w)"
    and "sw_routing w = None" "sw_dispatches w = d # ds"
    and "ensure_session_open (rs_env X send try_send) c m (cd_peer d) e1 = (e2, Inl err)"
  shows "drain_session (rs_env X send try_send) c m e = Some (e2, Inl err) \<and>
    en_pending_sends e2 = en_pending_sends e \<and>
    (\<exists>se'. session_of e2 c m = Some se' \<and>
      (\<forall>x\<in>set (d # ds). bt_get (rs_in_flight (se_strategy se')) (cd_handle x) = Some (cd_peer x, cd_chunk_id x)))"
proof -
  let ?E = "rs_env X send try_send"
  have "drain_session ?E c m e = Some (e2, Inl err)"
    using assms(5-8) by (subst drain_session.simps) (simp add: drain_round_def)
  moreover have e2: "en_channels e2 = en_channels e1" "en_pending_sends e2 = en_pending_sends e1"
    using rs_eng.ensure_frame [of X send try_send c m "cd_peer d" e1] by (simp_all add: assms(8))
  obtain se' where p: "Session_poll (RsStrategy_ops X) se = (se', w)" "e1 = set_session c m se' e"
    using assms(1,5) by (auto simp: poll_session_def split: prod.splits)
  have "st_poll_routing (RsStrategy_ops X) (se_strategy se) False = (se_strategy se, None)"
    using p(1) assms(6)
    by (auto simp: Session_poll_def RsStrategy_ops_def RsStrategy_poll_routing_def Let_def split: prod.splits if_splits)
  then have "RsStrategy_poll_chunks (se_strategy se) = (se_strategy se', d # ds)"
    using p(1) assms(7) by (auto simp: Session_poll_def RsStrategy_ops_def split: prod.splits)
  then have "\<forall>x\<in>set (d # ds). dispatch_ok (se_strategy se) (se_strategy se') x"
    using fold_poll_dispatches [OF assms(2-4) distinct_bt_keys, of "[]" "se_strategy se'" "d # ds"]
    by (simp add: RsStrategy_poll_chunks_def)
  moreover have "session_of e2 c m = Some se'"
    using session_of_cong [OF e2(1)] session_of_set_session [OF assms(1), of se'] by (simp add: p(2))
  ultimately show ?thesis using e2(2) p(2) by (auto simp: dispatch_ok_def)
qed

text \<open>
  The witness: a session that holds shard 0 and has announced its bitmap, one attached peer, and a
  network that refuses every \<open>SessionOpen\<close>.
\<close>

definition refusing_send :: "unit NetOp" where
  "refusing_send n msg = (case msg of SendSessionOpen peer _ _ _ _ \<Rightarrow> (n, Inl (Backpressure peer)) | _ \<Rightarrow> (n, Inr ()))"

definition stuck_strategy :: RsStrategy where
  "stuck_strategy = fst (RsStrategy_poll_routing
     (fst (RsStrategy_take_chunk repetition_crates (RsStrategy_attach_peer demo_relay 5) 0 [7, 9])) False)"

definition stuck_engine :: "(RsStrategy, unit, DeliveredMessage list) Engine" where
  "stuck_engine = demo_start\<lparr>
     en_channels := bt_insert ''c'' (Channel_set_session demo_channel ''m'' (Session_new_relay stuck_strategy)) bt_empty,
     en_session_preambles := bt_insert (''c'', ''m'') [1] bt_empty\<rparr>"

lemma stuck_strategy_inv: "rs_inv repetition_crates stuck_strategy" "handles_inv stuck_strategy"
proof -
  have "relay_reachable repetition_crates demo_preamble demo_config 0 stuck_strategy"
    unfolding stuck_strategy_def
    by (rule relay_step [OF relay_step [OF relay_step [OF demo_relay_reachable rs_attach] rs_take] rs_poll_routing])
  from relay_reachable_inv [OF this] show "rs_inv repetition_crates stuck_strategy" "handles_inv stuck_strategy"
    by (simp_all add: relay_inv_def)
qed

theorem drain_error_orphans_dispatches_witness:
  "\<exists>e2 se'. drain_session (rs_env repetition_crates refusing_send (\<lambda>ds msg. ds @ [msg])) ''c'' ''m'' stuck_engine =
     Some (e2, Inl (EngNet (Backpressure 5))) \<and> en_pending_sends e2 = bt_empty \<and>
   session_of e2 ''c'' ''m'' = Some se' \<and> bt_get (rs_in_flight (se_strategy se')) 0 = Some (5, 0)"
proof -
  let ?E = "rs_env repetition_crates refusing_send (\<lambda>ds msg. ds @ [msg])"
  let ?d = "\<lparr>cd_peer = 5, cd_chunk_id = 0, cd_handle = 0, cd_payload = [7, 9]\<rparr> :: u32 ChunkDispatch"
  have se: "session_of stuck_engine ''c'' ''m'' = Some (Session_new_relay stuck_strategy)"
    by (simp add: session_of_eq stuck_engine_def Channel_set_session_def)
  obtain e1 where p: "poll_session ?E ''c'' ''m'' stuck_engine = (e1, Some \<lparr>sw_routing = None, sw_dispatches = [?d]\<rparr>)"
    and e1: "en_opened_to e1 = bt_empty" "bt_get (en_session_preambles e1) (''c'', ''m'') = Some [1]"
  proof -
    have "snd (Session_poll (RsStrategy_ops repetition_crates) (Session_new_relay stuck_strategy)) =
        \<lparr>sw_routing = None, sw_dispatches = [?d]\<rparr>" by code_simp
    moreover have "en_opened_to stuck_engine = bt_empty" "bt_get (en_session_preambles stuck_engine) (''c'', ''m'') = Some [1]"
      by (simp_all add: stuck_engine_def demo_start_def Engine_subscribe_def Engine_with_config_def)
    ultimately show ?thesis
      by (intro that [of "set_session ''c'' ''m'' (fst (Session_poll (RsStrategy_ops repetition_crates)
          (Session_new_relay stuck_strategy))) stuck_engine"])
        (simp_all add: poll_session_def se case_prod_unfold)
  qed
  obtain e2 where en: "ensure_session_open ?E ''c'' ''m'' (cd_peer ?d) e1 = (e2, Inl (EngNet (Backpressure 5)))"
    using e1 by (simp add: ensure_session_open_def net_send_def refusing_send_def)
  have bound: "unat (rs_next_handle (se_strategy (Session_new_relay stuck_strategy))) +
      length (bt_keys (rs_attached (se_strategy (Session_new_relay stuck_strategy)))) < 2 ^ 64"
  proof -
    have "rs_next_handle stuck_strategy = 0" "bt_keys (rs_attached stuck_strategy) = [5]" by code_simp+
    then show ?thesis by (simp add: Session_new_relay_def)
  qed
  have "en_pending_sends stuck_engine = bt_empty"
    by (simp add: stuck_engine_def demo_start_def Engine_subscribe_def Engine_with_config_def)
  with drain_error_orphans_dispatches [OF se _ _ bound p _ _ en] stuck_strategy_inv
  show ?thesis by (auto simp: Session_new_relay_def)
qed

end
